(* ===== verification/Prelude.thy ===== *)
theory Prelude
  imports Main "HOL-Library.Word"
begin

text \<open>
  Shared ground of the netrec development: the error values the C functions return, the
  result type with its early-return combinator, C strings, and the generic lemmas on lists
  and results that the component theories use.

  A C function that returns \<open>0\<close> or a negative \<open>errno\<close> and fills an output parameter becomes a
  HOL function into \<open>errno + 'a\<close>; the idiom \<open>rc = f(..); if (rc) return rc;\<close> is \<open>ebind\<close>.
  A C string is a \<open>string\<close> without the NUL character; its end is the end of the list.
\<close>

section \<open>Error values and results\<close>

datatype errno =
    EINVAL | E2BIG | ENOENT | ENOTDIR | EISDIR | EIO | EOPNOTSUPP | ENOSPC | EAGAIN
  | Sys int

text \<open>
  \<open>Sys n\<close> is an error code that a system call or the kernel produced: \<open>n\<close> is the value the
  C function returns (negative). The named errors are the ones the program itself raises;
  \<open>rc_of\<close> gives their numeric value on Linux.
\<close>

fun rc_of :: "errno \<Rightarrow> int" where
  "rc_of EINVAL = - 22"
| "rc_of E2BIG = - 7"
| "rc_of ENOENT = - 2"
| "rc_of ENOTDIR = - 20"
| "rc_of EISDIR = - 21"
| "rc_of EIO = - 5"
| "rc_of EOPNOTSUPP = - 95"
| "rc_of ENOSPC = - 28"
| "rc_of EAGAIN = - 11"
| "rc_of (Sys n) = n"

type_synonym 'a result = "errno + 'a"

definition ebind :: "'e + 'a \<Rightarrow> ('a \<Rightarrow> 'e + 'b) \<Rightarrow> 'e + 'b" where
  "ebind m f = (case m of Inl e \<Rightarrow> Inl e | Inr x \<Rightarrow> f x)"

definition is_ok :: "'e + 'a \<Rightarrow> bool" where
  "is_ok r = (case r of Inl _ \<Rightarrow> False | Inr _ \<Rightarrow> True)"

named_theorems result_simps \<open>equations that open a result\<close>

lemma ebind_simps [simp, code]:
  "ebind (Inl e) f = Inl e"
  "ebind (Inr x) f = f x"
  by (simp_all add: ebind_def)

lemma ebind_Inr_iff [result_simps]:
  "ebind m f = Inr y \<longleftrightarrow> (\<exists>x. m = Inr x \<and> f x = Inr y)"
  by (cases m) auto

lemma ebind_InrE:
  assumes "ebind m f = Inr y"
  obtains x where "m = Inr x" and "f x = Inr y"
  using assms by (cases m) auto

lemma ebind_Inl_iff [result_simps]:
  "ebind m f = Inl e \<longleftrightarrow> m = Inl e \<or> (\<exists>x. m = Inr x \<and> f x = Inl e)"
  by (cases m) auto

lemma ebind_assoc: "ebind (ebind m f) g = ebind m (\<lambda>x. ebind (f x) g)"
  by (cases m) auto

lemma ebind_cong [fundef_cong]:
  assumes "m = m'" and "\<And>x. m' = Inr x \<Longrightarrow> f x = f' x"
  shows "ebind m f = ebind m' f'"
  using assms by (cases m') auto

lemma ebind_Inr_right [simp]: "ebind m Inr = m"
  by (cases m) auto

lemma is_ok_simps [simp, code]: "is_ok (Inl e) = False" "is_ok (Inr x) = True"
  by (simp_all add: is_ok_def)

lemma is_ok_iff: "is_ok r \<longleftrightarrow> (\<exists>x. r = Inr x)"
  by (cases r) auto

section \<open>Lists\<close>

lemma takeWhile_all: "(\<And>x. x \<in> set xs \<Longrightarrow> P x) \<Longrightarrow> takeWhile P xs = xs"
  by (induction xs) auto

lemma dropWhile_none: "(\<And>x. x \<in> set xs \<Longrightarrow> P x) \<Longrightarrow> dropWhile P xs = []"
  by (induction xs) auto

lemma takeWhile_stop:
  assumes "\<And>x. x \<in> set xs \<Longrightarrow> P x" and "\<not> P y"
  shows "takeWhile P (xs @ y # ys) = xs"
  using assms by (induction xs) auto

lemma dropWhile_stop:
  assumes "\<And>x. x \<in> set xs \<Longrightarrow> P x" and "\<not> P y"
  shows "dropWhile P (xs @ y # ys) = y # ys"
  using assms by (induction xs) auto

lemma hd_dropWhile_not: "dropWhile P xs = y # ys \<Longrightarrow> \<not> P y"
  by (induction xs) (auto split: if_splits)

lemma length_dropWhile_less:
  "xs \<noteq> [] \<Longrightarrow> P (hd xs) \<Longrightarrow> length (dropWhile P xs) < length xs"
  by (cases xs) (auto simp: le_imp_less_Suc length_dropWhile_le)

lemma find_Some_set: "List.find P xs = Some x \<Longrightarrow> x \<in> set xs \<and> P x"
  by (induction xs) (auto split: if_splits)

lemma find_None_conv: "List.find P xs = None \<longleftrightarrow> (\<forall>x \<in> set xs. \<not> P x)"
  by (induction xs) auto

lemma find_append_None: "List.find P xs = None \<Longrightarrow> List.find P (xs @ ys) = List.find P ys"
  by (induction xs) (auto split: if_splits)

lemma find_append_Some: "List.find P xs = Some x \<Longrightarrow> List.find P (xs @ ys) = Some x"
  by (induction xs) (auto split: if_splits)

text \<open>Replacing the first element that satisfies a predicate: what writing through the
  pointer returned by a linear search does.\<close>

fun upd_first :: "('a \<Rightarrow> bool) \<Rightarrow> 'a \<Rightarrow> 'a list \<Rightarrow> 'a list" where
  "upd_first P y [] = []"
| "upd_first P y (x # xs) = (if P x then y # xs else x # upd_first P y xs)"

fun del_first :: "('a \<Rightarrow> bool) \<Rightarrow> 'a list \<Rightarrow> 'a list" where
  "del_first P [] = []"
| "del_first P (x # xs) = (if P x then xs else x # del_first P xs)"

lemma length_upd_first [simp]: "length (upd_first P y xs) = length xs"
  by (induction xs) auto

lemma find_upd_first:
  "P y \<Longrightarrow> List.find P xs \<noteq> None \<Longrightarrow> List.find P (upd_first P y xs) = Some y"
  by (induction xs) auto

lemma find_upd_first_other:
  "(\<And>x. P x \<Longrightarrow> \<not> Q x) \<Longrightarrow> \<not> Q y \<Longrightarrow> List.find Q (upd_first P y xs) = List.find Q xs"
  by (induction xs) auto

lemma set_upd_first: "set (upd_first P y xs) \<subseteq> insert y (set xs)"
  by (induction xs) auto

lemma set_del_first: "set (del_first P xs) \<subseteq> set xs"
  by (induction xs) auto

lemma upd_first_find_id: "List.find P xs = Some x \<Longrightarrow> upd_first P x xs = xs"
  by (induction xs) (auto split: if_splits)

lemma map_upd_first_same:
  "List.find P xs = Some x \<Longrightarrow> f y = f x \<Longrightarrow> map f (upd_first P y xs) = map f xs"
  by (induction xs) (auto split: if_splits)

lemma length_del_first:
  "List.find P xs \<noteq> None \<Longrightarrow> Suc (length (del_first P xs)) = length xs"
  by (induction xs) (auto split: if_splits)

lemma find_del_first_other:
  "(\<And>x. P x \<Longrightarrow> \<not> Q x) \<Longrightarrow> List.find Q (del_first P xs) = List.find Q xs"
  by (induction xs) auto

lemma upd_first_last:
  "List.find P xs = None \<Longrightarrow> P x \<Longrightarrow> upd_first P y (xs @ [x]) = xs @ [y]"
  by (induction xs) (auto split: if_splits)

lemma list_all_upd_first:
  "list_all Q xs \<Longrightarrow> Q y \<Longrightarrow> list_all Q (upd_first P y xs)"
  by (induction xs) auto

lemma list_all_del_first: "list_all Q xs \<Longrightarrow> list_all Q (del_first P xs)"
  by (induction xs) auto

lemma list_all_take_drop: "list_all Q xs \<Longrightarrow> list_all Q (take n xs) \<and> list_all Q (drop m xs)"
  by (auto simp: list_all_iff dest: in_set_takeD in_set_dropD)

end
