(* ===== verification/Clib.thy ===== *)
theory Clib
  imports Prelude
begin

unbundle bit_operations_syntax

text \<open>
  What netrec uses of the C library, as executable functions: character classes of the C
  locale, \<open>strtol\<close> and \<open>strtoul\<close> (64-bit \<open>long\<close>, musl's \<open>EINVAL\<close> when no digit is read, the
  Makefile builds with musl-gcc), \<open>inet_pton\<close> for IPv4, \<open>ntohl\<close> on a little-endian host,
  decimal output, bounded \<open>snprintf\<close>, \<open>fgets\<close> on the bytes of a file, \<open>sscanf\<close> of two words,
  and an output stream whose device may fill up.
\<close>

section \<open>Characters\<close>

abbreviation ccode :: "char \<Rightarrow> nat" where
  "ccode c \<equiv> of_char c"

abbreviation NL :: char where "NL \<equiv> CHR 0x0A"
abbreviation CR :: char where "CR \<equiv> CHR 0x0D"
abbreviation TAB :: char where "TAB \<equiv> CHR 0x09"
abbreviation NUL :: char where "NUL \<equiv> CHR 0x00"
abbreviation QUOTE :: char where "QUOTE \<equiv> CHR 0x22"
abbreviation BSLASH :: char where "BSLASH \<equiv> CHR 0x5C"
abbreviation APOS :: char where "APOS \<equiv> CHR 0x27"

definition c_isdigit :: "char \<Rightarrow> bool" where
  "c_isdigit c \<longleftrightarrow> 48 \<le> ccode c \<and> ccode c \<le> 57"

definition c_isalpha :: "char \<Rightarrow> bool" where
  "c_isalpha c \<longleftrightarrow> (65 \<le> ccode c \<and> ccode c \<le> 90) \<or> (97 \<le> ccode c \<and> ccode c \<le> 122)"

definition c_isalnum :: "char \<Rightarrow> bool" where
  "c_isalnum c \<longleftrightarrow> c_isalpha c \<or> c_isdigit c"

definition c_isspace :: "char \<Rightarrow> bool" where
  "c_isspace c \<longleftrightarrow> ccode c = 32 \<or> (9 \<le> ccode c \<and> ccode c \<le> 13)"

text \<open>The blanks that the program's own scanners skip.\<close>

definition is_blank :: "char \<Rightarrow> bool" where
  "is_blank c \<longleftrightarrow> c = CHR '' '' \<or> c = TAB"

definition digit_val :: "char \<Rightarrow> nat" where
  "digit_val c = (let n = ccode c in
     if 48 \<le> n \<and> n \<le> 57 then n - 48
     else if 97 \<le> n \<and> n \<le> 122 then n - 87
     else if 65 \<le> n \<and> n \<le> 90 then n - 55
     else 255)"

definition no_nul :: "string \<Rightarrow> bool" where
  "no_nul s \<longleftrightarrow> NUL \<notin> set s"

text \<open>The C string stored in a byte buffer: the bytes before the first NUL.\<close>

definition cstr :: "string \<Rightarrow> string" where
  "cstr s = takeWhile (\<lambda>c. c \<noteq> NUL) s"

definition has_prefix :: "string \<Rightarrow> string \<Rightarrow> bool" where
  "has_prefix p s \<longleftrightarrow> take (length p) s = p"

section \<open>Numbers\<close>

definition val_of :: "nat \<Rightarrow> string \<Rightarrow> nat" where
  "val_of b ds = foldl (\<lambda>a c. a * b + digit_val c) 0 ds"

definition LONG_MAX :: int where "LONG_MAX = 9223372036854775807"
definition LONG_MIN :: int where "LONG_MIN = - 9223372036854775808"
definition ULONG_MAX :: nat where "ULONG_MAX = 18446744073709551615"
definition UINT32_MAX :: nat where "UINT32_MAX = 4294967295"
definition INT_MAX :: int where "INT_MAX = 2147483647"
definition INT_MIN :: int where "INT_MIN = - 2147483648"

definition sign_of :: "string \<Rightarrow> bool \<times> string" where
  "sign_of s = (case s of
     [] \<Rightarrow> (False, [])
   | c # cs \<Rightarrow> if c = CHR ''-'' then (True, cs) else if c = CHR ''+'' then (False, cs) else (False, s))"

text \<open>\<open>strtol(s, &end, 10)\<close>: the value, the text from \<open>end\<close> on, and whether \<open>errno\<close> was set.\<close>

definition strtol10 :: "string \<Rightarrow> int \<times> string \<times> bool" where
  "strtol10 s = (let (neg, s2) = sign_of (dropWhile c_isspace s);
       ds = takeWhile c_isdigit s2; rest = dropWhile c_isdigit s2
     in if ds = [] then (0, s, True)
        else let v = (if neg then - int (val_of 10 ds) else int (val_of 10 ds))
          in if v > LONG_MAX then (LONG_MAX, rest, True)
             else if v < LONG_MIN then (LONG_MIN, rest, True)
             else (v, rest, False))"

text \<open>\<open>strtoul(s, &end, 0)\<close>: base 16 after \<open>0x\<close>, base 8 after \<open>0\<close>, base 10 otherwise; a minus
  sign negates modulo \<open>2^64\<close>.\<close>

definition strtoul_digits :: "bool \<Rightarrow> nat \<Rightarrow> string \<Rightarrow> nat \<times> string \<times> bool" where
  "strtoul_digits neg b s = (let ds = takeWhile (\<lambda>c. digit_val c < b) s;
       rest = dropWhile (\<lambda>c. digit_val c < b) s; n = val_of b ds
     in if n > ULONG_MAX then (ULONG_MAX, rest, True)
        else ((if neg then (ULONG_MAX + 1 - n) mod (ULONG_MAX + 1) else n), rest, False))"

definition strtoul0 :: "string \<Rightarrow> nat \<times> string \<times> bool" where
  "strtoul0 s = (let (neg, s2) = sign_of (dropWhile c_isspace s) in
     case s2 of
       [] \<Rightarrow> (0, s, True)
     | c # cs \<Rightarrow>
         if c = CHR ''0'' then
           (case cs of
              [] \<Rightarrow> strtoul_digits neg 8 s2
            | x # xs \<Rightarrow>
                if x = CHR ''x'' \<or> x = CHR ''X'' then
                  (if xs \<noteq> [] \<and> digit_val (hd xs) < 16 then strtoul_digits neg 16 xs
                   else (0, cs, False))
                else strtoul_digits neg 8 s2)
         else if c_isdigit c then strtoul_digits neg 10 s2
         else (0, s, True))"

text \<open>\<open>%u\<close> and \<open>%d\<close>.\<close>

definition digit_char :: "nat \<Rightarrow> char" where
  "digit_char d = char_of (48 + d)"

fun fmt_u :: "nat \<Rightarrow> string" where
  "fmt_u n = (if n < 10 then [digit_char n] else fmt_u (n div 10) @ [digit_char (n mod 10)])"

declare fmt_u.simps [simp del]

definition fmt_d :: "int \<Rightarrow> string" where
  "fmt_d i = (if i < 0 then CHR ''-'' # fmt_u (nat (- i)) else fmt_u (nat i))"

text \<open>\<open>snprintf(dst, sz, "%s", s)\<close> leaves at most \<open>sz - 1\<close> bytes in \<open>dst\<close>.\<close>

definition fit :: "nat \<Rightarrow> string \<Rightarrow> string" where
  "fit sz s = take (sz - 1) s"

section \<open>IPv4 addresses\<close>

text \<open>\<open>inet_pton(AF_INET, ..)\<close>: four decimal octets, no leading zero, nothing after them. The
  result is the four bytes in memory; read back as \<open>uint32_t\<close> on a little-endian host.\<close>

definition octet :: "string \<Rightarrow> (nat \<times> string) option" where
  "octet s = (let ds = takeWhile c_isdigit (take 3 s); v = val_of 10 ds in
     if ds = [] \<or> (length ds > 1 \<and> hd ds = CHR ''0'') \<or> v > 255 then None
     else Some (v, drop (length ds) s))"

fun octets :: "nat \<Rightarrow> string \<Rightarrow> nat list option" where
  "octets 0 s = None"
| "octets (Suc k) s = (case octet s of
     None \<Rightarrow> None
   | Some (v, r) \<Rightarrow>
       if r = [] \<and> k = 0 then Some [v]
       else if r \<noteq> [] \<and> hd r = CHR ''.'' then map_option (\<lambda>vs. v # vs) (octets k (tl r))
       else None)"

definition le_word :: "nat list \<Rightarrow> 32 word" where
  "le_word bs = of_nat (foldr (\<lambda>b a. b + 256 * a) bs 0)"

definition inet_pton :: "string \<Rightarrow> 32 word option" where
  "inet_pton s = map_option le_word (octets 4 s)"

definition ntohl :: "32 word \<Rightarrow> 32 word" where
  "ntohl w = push_bit 24 (w AND 0xFF) OR push_bit 8 (w AND 0xFF00)
     OR (drop_bit 8 w AND 0xFF00) OR (drop_bit 24 w AND 0xFF)"

section \<open>Input\<close>

text \<open>\<open>fgets(line, n, f)\<close> on the bytes that remain in the file: the bytes stored in \<open>line\<close>,
  whether the end-of-file indicator is set afterwards, and the bytes left.\<close>

definition fgets :: "nat \<Rightarrow> string \<Rightarrow> (string \<times> bool \<times> string) option" where
  "fgets n s = (if s = [] then None
     else let w = take (n - 1) s; l = takeWhile (\<lambda>c. c \<noteq> NL) w in
       if length l < length w then Some (l @ [NL], False, drop (Suc (length l)) s)
       else Some (w, length w < n - 1, drop (length w) s))"

text \<open>\<open>sscanf(line, "%31s %63s", key, val) == 2\<close>.\<close>

definition scan_word :: "nat \<Rightarrow> string \<Rightarrow> (string \<times> string) option" where
  "scan_word n s = (let s1 = dropWhile c_isspace s;
       w = takeWhile (\<lambda>c. \<not> c_isspace c) (take n s1)
     in if w = [] then None else Some (w, drop (length w) s1))"

definition sscanf_2 :: "string \<Rightarrow> (string \<times> string) option" where
  "sscanf_2 line = (case scan_word 31 line of
     None \<Rightarrow> None
   | Some (k, r) \<Rightarrow> (case scan_word 63 r of None \<Rightarrow> None | Some (v, _) \<Rightarrow> Some (k, v)))"

section \<open>Output streams\<close>

text \<open>A \<open>FILE\<close> opened for writing: what was written, how many more bytes the device takes,
  and the sticky error indicator.\<close>

record ofile =
  obuf :: string
  oroom :: nat
  oerr :: bool

definition fputs :: "ofile \<Rightarrow> string \<Rightarrow> ofile result" where
  "fputs f s = (if length s \<le> oroom f
     then Inr (f\<lparr>obuf := obuf f @ s, oroom := oroom f - length s\<rparr>) else Inl EIO)"

text \<open>The contract the writers rely on: writing two texts in turn is writing their
  concatenation, on success and on failure.\<close>

locale sink =
  fixes put :: "'f \<Rightarrow> string \<Rightarrow> 'f result"
  assumes put_Nil: "put f [] = Inr f"
    and put_put: "ebind (put f s) (\<lambda>f'. put f' t) = put f (s @ t)"
begin

fun put_all :: "'f \<Rightarrow> string list \<Rightarrow> 'f result" where
  "put_all f [] = Inr f"
| "put_all f (s # ss) = ebind (put f s) (\<lambda>f'. put_all f' ss)"

lemma put_all_concat: "put_all f ss = put f (concat ss)"
proof (induction ss arbitrary: f)
  case (Cons s ss)
  have "put_all f (s # ss) = ebind (put f s) (\<lambda>f'. put f' (concat ss))"
    by (simp add: Cons.IH)
  then show ?case by (simp add: put_put)
qed (simp add: put_Nil)

lemma put_put_bind:
  "ebind (put f s) (\<lambda>f'. ebind (put f' t) g) = ebind (put f (s @ t)) g"
  by (simp add: put_put [symmetric] ebind_assoc)

end

interpretation stdio: sink fputs
  by unfold_locales (auto simp: fputs_def ebind_def)

lemma fputs_Inr:
  "fputs f s = Inr f' \<longleftrightarrow>
     length s \<le> oroom f \<and> f' = f\<lparr>obuf := obuf f @ s, oroom := oroom f - length s\<rparr>"
  by (auto simp: fputs_def)

lemma fputs_obuf: "fputs f s = Inr f' \<Longrightarrow> obuf f' = obuf f @ s \<and> oerr f' = oerr f"
  by (auto simp: fputs_def split: if_splits)

section \<open>Facts\<close>

subsection \<open>Strings\<close>

lemma cstr_id: "no_nul s \<Longrightarrow> cstr s = s"
  unfolding cstr_def no_nul_def by (rule takeWhile_all) auto

lemma no_nul_cstr [simp]: "no_nul (cstr s)"
  unfolding cstr_def no_nul_def by (metis set_takeWhileD)

lemma no_nul_simps [simp]:
  "no_nul []" "no_nul (c # s) \<longleftrightarrow> c \<noteq> NUL \<and> no_nul s"
  "no_nul (s @ t) \<longleftrightarrow> no_nul s \<and> no_nul t"
  by (auto simp: no_nul_def)

lemma length_fit: "0 < sz \<Longrightarrow> length (fit sz s) < sz"
  by (simp add: fit_def)

lemma fit_id: "length s < sz \<Longrightarrow> fit sz s = s"
  by (simp add: fit_def)

lemma fit_Nil [simp]: "fit sz [] = []"
  by (simp add: fit_def)

lemma fit_eq_Nil: "1 < sz \<Longrightarrow> fit sz s = [] \<longleftrightarrow> s = []"
  by (auto simp: fit_def)

lemma fit_fit: "fit n (fit n s) = fit n s"
  by (simp add: fit_def)

lemma no_nul_fit: "no_nul s \<Longrightarrow> no_nul (fit sz s)"
  by (auto simp: fit_def no_nul_def dest: in_set_takeD)

lemma fgets_decreases:
  "fgets n s = Some (l, e, r) \<Longrightarrow> 1 < n \<Longrightarrow> length r < length s"
  by (auto simp: fgets_def Let_def split: if_splits)

lemma fgets_line:
  assumes "NL \<notin> set l" and "Suc (length l) < n"
  shows "fgets n (l @ NL # r) = Some (l @ [NL], False, r)"
proof -
  have "takeWhile (\<lambda>c. c \<noteq> NL) (take (n - 1) (l @ NL # r)) = l"
  proof -
    have "take (n - 1) (l @ NL # r) = l @ NL # take (n - 2 - length l) r"
      using assms(2) by (simp add: take_Cons')
    then show ?thesis using assms(1) by (auto intro!: takeWhile_stop)
  qed
  then show ?thesis using assms(2) by (simp add: fgets_def)
qed

subsection \<open>Decimal output is read back\<close>

lemma digit_char_0 [simp]: "digit_char 0 = CHR ''0''"
  unfolding digit_char_def by code_simp

lemma digit_char_facts:
  assumes "d < 10"
  shows "ccode (digit_char d) = 48 + d" and "c_isdigit (digit_char d)"
    and "digit_val (digit_char d) = d"
proof -
  show 1: "ccode (digit_char d) = 48 + d"
    using assms by (simp add: digit_char_def)
  show "c_isdigit (digit_char d)" and "digit_val (digit_char d) = d"
    using assms by (simp_all add: c_isdigit_def digit_val_def 1)
qed

lemma val_of_snoc: "val_of b (ds @ [c]) = val_of b ds * b + digit_val c"
  by (simp add: val_of_def)

lemma fmt_u_digits: "c \<in> set (fmt_u n) \<Longrightarrow> c_isdigit c"
proof (induction n rule: fmt_u.induct)
  case (1 n)
  show ?case
  proof (cases "n < 10")
    case True
    with "1.prems" show ?thesis by (simp add: fmt_u.simps [of n] digit_char_facts)
  next
    case False
    with 1 show ?thesis
      by (auto simp: fmt_u.simps [of n] digit_char_facts)
  qed
qed

lemma fmt_u_nonempty [simp]: "fmt_u n \<noteq> []"
  by (subst fmt_u.simps) simp

lemma val_of_fmt_u: "val_of 10 (fmt_u n) = n"
proof (induction n rule: fmt_u.induct)
  case (1 n)
  show ?case
  proof (cases "n < 10")
    case True
    then show ?thesis by (simp add: fmt_u.simps [of n] val_of_def digit_char_facts)
  next
    case False
    with "1.IH" have "val_of 10 (fmt_u (n div 10)) = n div 10" by simp
    with False show ?thesis
      by (simp add: fmt_u.simps [of n] val_of_snoc digit_char_facts)
  qed
qed

lemma fmt_u_hd_zero: "hd (fmt_u n) = CHR ''0'' \<longleftrightarrow> n = 0"
proof (induction n rule: fmt_u.induct)
  case (1 n)
  show ?case
  proof (cases "n < 10")
    case True
    have "digit_char n = CHR ''0'' \<longleftrightarrow> n = 0"
    proof
      assume "digit_char n = CHR ''0''"
      then have "ccode (digit_char n) = 48" by simp
      with digit_char_facts(1) [OF True] show "n = 0" by simp
    qed simp
    with True show ?thesis by (simp add: fmt_u.simps [of n])
  next
    case False
    with "1.IH" have "hd (fmt_u (n div 10)) = CHR ''0'' \<longleftrightarrow> n div 10 = 0" by simp
    with False show ?thesis by (simp add: fmt_u.simps [of n] div_eq_0_iff)
  qed
qed

lemma length_fmt_u: "n < 10 ^ k \<Longrightarrow> 0 < k \<Longrightarrow> length (fmt_u n) \<le> k"
proof (induction k arbitrary: n)
  case (Suc k)
  show ?case
  proof (cases "n < 10")
    case True
    then show ?thesis by (simp add: fmt_u.simps [of n])
  next
    case False
    with Suc.prems have "n div 10 < 10 ^ k" and "0 < k"
      by (auto simp: less_mult_imp_div_less mult.commute intro: gr0I)
    then have "length (fmt_u (n div 10)) \<le> k" by (rule Suc.IH)
    with False show ?thesis by (simp add: fmt_u.simps [of n])
  qed
qed simp

lemma isdigit_not_special:
  assumes "c_isdigit c"
  shows "\<not> c_isspace c" and "c \<noteq> CHR ''-''" and "c \<noteq> CHR ''+''" and "c \<noteq> NUL"
    and "c \<noteq> CHR ''x''" and "c \<noteq> CHR ''X''" and "digit_val c < 10"
  using assms by (auto simp: c_isdigit_def c_isspace_def digit_val_def Let_def)

lemma no_nul_fmt_u [simp]: "no_nul (fmt_u n)"
  unfolding no_nul_def using fmt_u_digits isdigit_not_special(4) by blast

lemma strtoul0_fmt_u:
  assumes "n \<le> ULONG_MAX"
  shows "strtoul0 (fmt_u n) = (n, [], False)"
proof -
  obtain c cs where s: "fmt_u n = c # cs" by (cases "fmt_u n") auto
  have c: "c_isdigit c" using fmt_u_digits [of c n] s by simp
  have sp: "dropWhile c_isspace (fmt_u n) = fmt_u n"
    using s isdigit_not_special [OF c] by simp
  have sg: "sign_of (fmt_u n) = (False, fmt_u n)"
    using s isdigit_not_special [OF c] by (simp add: sign_of_def)
  have dv: "digit_val x < 10" if "x \<in> set (fmt_u n)" for x
    using fmt_u_digits [OF that] by (rule isdigit_not_special)
  have dec: "strtoul_digits False 10 (fmt_u n) = (n, [], False)"
    using assms dv
    by (simp add: strtoul_digits_def val_of_fmt_u takeWhile_all dropWhile_none)
  show ?thesis
  proof (cases "n = 0")
    case True
    have "fmt_u 0 = [CHR ''0'']" by (simp add: fmt_u.simps)
    with True show ?thesis
      by (simp add: strtoul0_def sign_of_def c_isspace_def strtoul_digits_def digit_val_def val_of_def
          ULONG_MAX_def)
  next
    case False
    then have "c \<noteq> CHR ''0''" using fmt_u_hd_zero [of n] s by simp
    then show ?thesis using sp sg dec s c by (simp add: strtoul0_def)
  qed
qed

lemma takeWhile_fmt_u:
  assumes "r = [] \<or> \<not> c_isdigit (hd r)"
  shows "takeWhile c_isdigit (fmt_u n @ r) = fmt_u n" and "dropWhile c_isdigit (fmt_u n @ r) = r"
  using assms fmt_u_digits
  by (cases r; simp add: takeWhile_all dropWhile_none takeWhile_stop dropWhile_stop)+

lemma sign_of_fmt_d:
  "sign_of (dropWhile c_isspace (fmt_d i @ r)) = (i < 0, fmt_u (nat \<bar>i\<bar>) @ r)"
proof -
  obtain c cs where s: "fmt_u (nat \<bar>i\<bar>) = c # cs" by (cases "fmt_u (nat \<bar>i\<bar>)") auto
  have "c_isdigit c" using fmt_u_digits [of c "nat \<bar>i\<bar>"] s by simp
  note c = isdigit_not_special [OF this]
  show ?thesis
  proof (cases "i < 0")
    case True
    then show ?thesis by (simp add: fmt_d_def sign_of_def c_isspace_def)
  next
    case False
    then show ?thesis using s c by (simp add: fmt_d_def sign_of_def)
  qed
qed

lemma strtol10_fmt_d:
  assumes "LONG_MIN \<le> i" and "i \<le> LONG_MAX" and "r = [] \<or> \<not> c_isdigit (hd r)"
  shows "strtol10 (fmt_d i @ r) = (i, r, False)"
  using assms
  by (auto simp: strtol10_def sign_of_fmt_d takeWhile_fmt_u val_of_fmt_u Let_def)

subsection \<open>Dotted quads are read back\<close>

lemma octet_fmt_u:
  assumes "v \<le> 255" and "r = [] \<or> \<not> c_isdigit (hd r)"
  shows "octet (fmt_u v @ r) = Some (v, r)"
proof -
  have len: "length (fmt_u v) \<le> 3" using assms(1) length_fmt_u [of v 3] by simp
  have "takeWhile c_isdigit (take 3 (fmt_u v @ r)) = fmt_u v"
  proof (cases "take (3 - length (fmt_u v)) r")
    case Nil
    then have "take 3 (fmt_u v @ r) = fmt_u v" using len by simp
    then show ?thesis using fmt_u_digits by (simp add: takeWhile_all)
  next
    case (Cons x xs)
    then have "\<not> c_isdigit x" using assms(2) by (cases r) (auto simp: take_Cons' split: if_splits)
    then show ?thesis
      using len Cons fmt_u_digits by (simp add: takeWhile_stop)
  qed
  moreover have "length (fmt_u v) > 1 \<Longrightarrow> hd (fmt_u v) \<noteq> CHR ''0''"
    using fmt_u_hd_zero [of v] by (auto simp: fmt_u.simps [of 0])
  ultimately show ?thesis using assms(1) by (auto simp: octet_def val_of_fmt_u Let_def)
qed

definition fmt_ip :: "nat \<Rightarrow> nat \<Rightarrow> nat \<Rightarrow> nat \<Rightarrow> string" where
  "fmt_ip a b c d = fmt_u a @ ''.'' @ fmt_u b @ ''.'' @ fmt_u c @ ''.'' @ fmt_u d"

lemma inet_pton_fmt_ip:
  assumes "a \<le> 255" "b \<le> 255" "c \<le> 255" "d \<le> 255"
  shows "inet_pton (fmt_ip a b c d) = Some (le_word [a, b, c, d])"
proof -
  have dot: "\<not> c_isdigit (CHR ''.'')" by (simp add: c_isdigit_def)
  have last: "octet (fmt_u d) = Some (d, [])" using octet_fmt_u [of d "[]"] assms by simp
  show ?thesis
    using assms last
    by (simp add: inet_pton_def fmt_ip_def numeral_eq_Suc octet_fmt_u dot)
qed

end
