(* ===== verification/Cfg_Path.thy ===== *)
theory Cfg_Path
  imports Clib
begin

text \<open>
  The path grammar of \<open>cfg.c\<close>: tokens, the tokenizer (\<open>parse_key_tok\<close>, \<open>parse_index_tok\<close>,
  \<open>parse_path\<close>) and the restriction on paths in files (\<open>path_file_ok\<close>). The lemmas show that
  every accepted path is a list of well-formed tokens within the depth limit, and that the
  printed form of such a list is parsed back to it.
\<close>

section \<open>Tokens\<close>

definition CFG_PATH_SEG_MAX :: nat where "CFG_PATH_SEG_MAX = 128"
definition CFG_PATH_DEPTH_MAX :: nat where "CFG_PATH_DEPTH_MAX = 64"

datatype cfg_tok = TokKey string | TokIndex int | TokAppend

definition is_key_start :: "char \<Rightarrow> bool" where
  "is_key_start c \<longleftrightarrow> c_isalpha c \<or> c = CHR ''_''"

definition is_key_char :: "char \<Rightarrow> bool" where
  "is_key_char c \<longleftrightarrow> c_isalnum c \<or> c = CHR ''_''"

section \<open>The tokenizer\<close>

fun key_loop :: "nat \<Rightarrow> string \<Rightarrow> (string \<times> string) result" where
  "key_loop len [] = Inr ([], [])"
| "key_loop len (c # p) =
     (if is_key_char c then
        if len + 1 \<ge> CFG_PATH_SEG_MAX then Inl E2BIG
        else ebind (key_loop (len + 1) p) (\<lambda>(k, r). Inr (c # k, r))
      else Inr ([], c # p))"

definition parse_key_tok :: "string \<Rightarrow> (cfg_tok \<times> string) result" where
  "parse_key_tok p =
     (if p = [] \<or> \<not> is_key_start (hd p) then Inl EINVAL
      else ebind (key_loop 0 p) (\<lambda>(k, r). Inr (TokKey k, r)))"

definition parse_index_tok :: "string \<Rightarrow> (cfg_tok \<times> string) result" where
  "parse_index_tok src =
     (if src = [] \<or> hd src \<noteq> CHR ''['' then Inl EINVAL
      else let p = tl src in
        if p \<noteq> [] \<and> hd p = CHR '']'' then Inr (TokAppend, tl p)
        else let q = (if p \<noteq> [] \<and> hd p = CHR ''-'' then tl p else p) in
          if q = [] \<or> \<not> c_isdigit (hd q) then Inl EINVAL
          else if hd q = CHR ''0'' \<and> tl q \<noteq> [] \<and> c_isdigit (hd (tl q)) then Inl EINVAL
          else let (idx, fin, err) = strtol10 p in
            if err \<or> fin = p \<or> fin = [] \<or> hd fin \<noteq> CHR '']'' \<or> idx < INT_MIN \<or> idx > INT_MAX
            then Inl EINVAL
            else Inr (TokIndex idx, tl fin))"

text \<open>The \<open>while (*p)\<close> loop of \<open>parse_path\<close>, with \<open>n\<close> tokens read so far.\<close>

function path_loop :: "nat \<Rightarrow> nat \<Rightarrow> string \<Rightarrow> cfg_tok list result" where
  "path_loop mx n p =
     (if p = [] then Inr []
      else if n \<ge> mx then Inl E2BIG
      else ebind (if hd p = CHR ''.'' then parse_key_tok (tl p)
                  else if hd p = CHR ''['' then parse_index_tok p
                  else Inl EINVAL)
             (\<lambda>(t, r). ebind (path_loop mx (n + 1) r) (\<lambda>ts. Inr (t # ts))))"
  by pat_completeness auto
termination
  by (relation "measure (\<lambda>(mx, n, p). mx - n)") auto

declare path_loop.simps [simp del]

definition parse_path :: "nat \<Rightarrow> string \<Rightarrow> cfg_tok list result" where
  "parse_path mx path =
     (if path = [] then Inr []
      else if 0 \<ge> mx then Inl E2BIG
      else ebind (parse_key_tok path)
             (\<lambda>(t, r). ebind (path_loop mx 1 r) (\<lambda>ts. Inr (t # ts))))"

fun file_toks_ok :: "cfg_tok list \<Rightarrow> bool" where
  "file_toks_ok [] = True"
| "file_toks_ok (t # ts) = (case t of
     TokIndex _ \<Rightarrow> False
   | TokAppend \<Rightarrow> ts = []
   | TokKey _ \<Rightarrow> file_toks_ok ts)"

definition path_file_ok :: "string \<Rightarrow> unit result" where
  "path_file_ok path = ebind (parse_path CFG_PATH_DEPTH_MAX path)
     (\<lambda>toks. if file_toks_ok toks then Inr () else Inl EINVAL)"

section \<open>Well-formed tokens\<close>

definition key_ok :: "string \<Rightarrow> bool" where
  "key_ok k \<longleftrightarrow> k \<noteq> [] \<and> is_key_start (hd k) \<and> list_all is_key_char k
     \<and> length k < CFG_PATH_SEG_MAX"

fun tok_ok :: "cfg_tok \<Rightarrow> bool" where
  "tok_ok (TokKey k) = key_ok k"
| "tok_ok (TokIndex i) = (INT_MIN \<le> i \<and> i \<le> INT_MAX)"
| "tok_ok TokAppend = True"

definition path_ok :: "nat \<Rightarrow> cfg_tok list \<Rightarrow> bool" where
  "path_ok mx ts \<longleftrightarrow> length ts \<le> mx \<and> list_all tok_ok ts
     \<and> (ts \<noteq> [] \<longrightarrow> (\<exists>k. hd ts = TokKey k))"

lemma path_ok_code [code]:
  "path_ok mx ts \<longleftrightarrow> length ts \<le> mx \<and> list_all tok_ok ts
     \<and> (case ts of [] \<Rightarrow> True | TokKey _ # _ \<Rightarrow> True | _ \<Rightarrow> False)"
  by (auto simp: path_ok_def split: list.split cfg_tok.split)

fun tok_text :: "cfg_tok \<Rightarrow> string" where
  "tok_text (TokKey k) = CHR ''.'' # k"
| "tok_text (TokIndex i) = CHR ''['' # fmt_d i @ '']''"
| "tok_text TokAppend = ''[]''"

text \<open>The printed form: every token, without the dot before the first key.\<close>

definition path_text :: "cfg_tok list \<Rightarrow> string" where
  "path_text ts = tl (concat (map tok_text ts))"

section \<open>The tokenizer returns well-formed tokens\<close>

lemma key_loop_spec:
  "key_loop len p =
     (let k = takeWhile is_key_char p in
      if k = [] \<or> len + length k < CFG_PATH_SEG_MAX then Inr (k, dropWhile is_key_char p)
      else Inl E2BIG)"
  by (induction len p rule: key_loop.induct) (auto simp: Let_def)

lemma is_key_start_char: "is_key_start c \<Longrightarrow> is_key_char c"
  by (auto simp: is_key_start_def is_key_char_def c_isalnum_def)

lemma parse_key_tok_Inr:
  assumes "parse_key_tok p = Inr (t, r)"
  shows "\<exists>k. t = TokKey k \<and> key_ok k \<and> p = k @ r \<and> (r = [] \<or> \<not> is_key_char (hd r))"
proof -
  let ?k = "takeWhile is_key_char p"
  from assms have p: "p \<noteq> []" "is_key_start (hd p)" and k: "key_loop 0 p = Inr (?k, r)" and t: "t = TokKey ?k"
    by (auto simp: parse_key_tok_def key_loop_spec Let_def split: if_splits)
  from p have hd: "?k \<noteq> []" "hd ?k = hd p"
    by (cases p; auto simp: is_key_start_char)+
  from k hd have len: "length ?k < CFG_PATH_SEG_MAX" and r: "r = dropWhile is_key_char p"
    by (auto simp: key_loop_spec Let_def split: if_splits)
  have "list_all is_key_char ?k" by (auto simp: list_all_iff dest: set_takeWhileD)
  with p hd len have "key_ok ?k" by (simp add: key_ok_def)
  moreover have "r = [] \<or> \<not> is_key_char (hd r)" using r by (metis hd_dropWhile)
  ultimately show ?thesis using t r by auto
qed

lemma parse_key_tok_key:
  assumes "key_ok k" and "r = [] \<or> \<not> is_key_char (hd r)"
  shows "parse_key_tok (k @ r) = Inr (TokKey k, r)"
proof -
  have k: "\<And>c. c \<in> set k \<Longrightarrow> is_key_char c" using assms(1) by (auto simp: key_ok_def list_all_iff)
  have "takeWhile is_key_char (k @ r) = k \<and> dropWhile is_key_char (k @ r) = r"
    using k assms(2)
    by (cases r) (simp_all add: takeWhile_all dropWhile_none takeWhile_stop dropWhile_stop)
  with assms(1) show ?thesis
    by (auto simp: parse_key_tok_def key_loop_spec key_ok_def hd_append)
qed

lemma parse_index_tok_Inr:
  "parse_index_tok src = Inr (t, r) \<Longrightarrow> tok_ok t"
  by (auto simp: parse_index_tok_def Let_def split: if_splits prod.splits)

lemma path_loop_Inr:
  "path_loop mx n p = Inr ts \<Longrightarrow> n \<le> mx \<Longrightarrow> list_all tok_ok ts \<and> n + length ts \<le> mx"
proof (induction mx n p arbitrary: ts rule: path_loop.induct)
  case (1 mx n p)
  show ?case
  proof (cases "p = []")
    case True
    with "1.prems" show ?thesis by (auto simp: path_loop.simps [of mx n "[]"])
  next
    case False
    from "1.prems"(1) False obtain t r ts' where n: "\<not> n \<ge> mx"
      and tok: "(if hd p = CHR ''.'' then parse_key_tok (tl p)
                  else if hd p = CHR ''['' then parse_index_tok p
                  else Inl EINVAL) = Inr (t, r)"
      and rec: "path_loop mx (n + 1) r = Inr ts'" and ts: "ts = t # ts'"
      by (auto simp: path_loop.simps [of mx n p] ebind_Inr_iff split: if_splits)
    have "tok_ok t"
      using tok by (auto split: if_splits dest!: parse_key_tok_Inr parse_index_tok_Inr)
    moreover have "list_all tok_ok ts' \<and> n + 1 + length ts' \<le> mx"
      using "1.IH" [OF False n tok refl rec] n by simp
    ultimately show ?thesis using ts by simp
  qed
qed

lemma parse_path_Inr:
  "parse_path mx path = Inr ts \<Longrightarrow> path_ok mx ts"
  by (auto simp: parse_path_def path_ok_def ebind_Inr_iff split: if_splits
      dest!: parse_key_tok_Inr path_loop_Inr)

section \<open>Printed paths are parsed back\<close>

lemma tok_text_hd_not_key: "\<not> is_key_char (hd (tok_text t))"
  by (cases t) (simp_all add: is_key_char_def c_isalnum_def c_isalpha_def c_isdigit_def)

lemma tok_text_nonempty [simp]: "tok_text t \<noteq> []"
  by (cases t) auto

lemma concat_text_hd:
  "concat (map tok_text ts) = [] \<or> \<not> is_key_char (hd (concat (map tok_text ts)))"
  by (cases ts) (auto simp: tok_text_hd_not_key)

lemma fmt_d_index_start:
  shows "fmt_d i \<noteq> []" and "hd (fmt_d i) \<noteq> CHR '']''"
    and "(if hd (fmt_d i @ r) = CHR ''-'' then tl (fmt_d i @ r) else fmt_d i @ r) = fmt_u (nat \<bar>i\<bar>) @ r"
proof -
  obtain c cs where s: "fmt_u (nat \<bar>i\<bar>) = c # cs" by (cases "fmt_u (nat \<bar>i\<bar>)") auto
  have "c_isdigit c" using fmt_u_digits [of c "nat \<bar>i\<bar>"] s by simp
  then have "c \<noteq> CHR ''-''" and "c \<noteq> CHR '']''" by (auto simp: c_isdigit_def)
  with s show "fmt_d i \<noteq> []" and "hd (fmt_d i) \<noteq> CHR '']''"
    and "(if hd (fmt_d i @ r) = CHR ''-'' then tl (fmt_d i @ r) else fmt_d i @ r) = fmt_u (nat \<bar>i\<bar>) @ r"
    by (auto simp: fmt_d_def)
qed

lemma fmt_u_leading_zero:
  "hd (fmt_u n) = CHR ''0'' \<Longrightarrow> tl (fmt_u n) = []"
  by (simp add: fmt_u_hd_zero fmt_u.simps [of 0])

lemma parse_index_tok_index:
  assumes "INT_MIN \<le> i" and "i \<le> INT_MAX"
  shows "parse_index_tok (tok_text (TokIndex i) @ r) = Inr (TokIndex i, r)"
proof -
  define p where "p = fmt_d i @ CHR '']'' # r"
  obtain c cs where u: "fmt_u (nat \<bar>i\<bar>) = c # cs" by (cases "fmt_u (nat \<bar>i\<bar>)") auto
  have br: "\<not> c_isdigit (CHR '']'')" by (simp add: c_isdigit_def)
  have st: "strtol10 p = (i, CHR '']'' # r, False)"
    unfolding p_def using assms br
    by (intro strtol10_fmt_d) (auto simp: INT_MIN_def INT_MAX_def LONG_MIN_def LONG_MAX_def)
  have c: "c_isdigit c" using fmt_u_digits [of c "nat \<bar>i\<bar>"] u by simp
  have z: "cs = []" if "c = CHR ''0''"
    using fmt_u_leading_zero [of "nat \<bar>i\<bar>"] u that by simp
  have p: "p \<noteq> []" "hd p \<noteq> CHR '']''"
    using fmt_d_index_start(1,2) [of i] by (simp_all add: p_def)
  have q: "(if hd p = CHR ''-'' then tl p else p) = c # cs @ CHR '']'' # r"
    using fmt_d_index_start(3) [of i "CHR '']'' # r"] u by (simp add: p_def split: if_splits)
  have fin: "CHR '']'' # r \<noteq> p" using p by (cases p) auto
  have "parse_index_tok (CHR ''['' # p) = Inr (TokIndex i, r)"
    using assms by (auto simp: parse_index_tok_def Let_def p q st c fin dest: z simp: br)
  then show ?thesis by (simp add: p_def)
qed

lemma path_loop_text:
  "list_all tok_ok ts \<Longrightarrow> n + length ts \<le> mx \<Longrightarrow>
     path_loop mx n (concat (map tok_text ts)) = Inr ts"
proof (induction ts arbitrary: n)
  case Nil
  then show ?case by (simp add: path_loop.simps)
next
  case (Cons t ts)
  let ?r = "concat (map tok_text ts)"
  have rec: "path_loop mx (Suc n) ?r = Inr ts" using Cons by simp
  have "path_loop mx n (tok_text t @ ?r) = Inr (t # ts)"
  proof (cases t)
    case (TokKey k)
    then have "parse_key_tok (k @ ?r) = Inr (TokKey k, ?r)"
      using Cons.prems concat_text_hd by (intro parse_key_tok_key) auto
    then show ?thesis using TokKey rec Cons.prems by (simp add: path_loop.simps [of mx n])
  next
    case (TokIndex i)
    then have "parse_index_tok (tok_text t @ ?r) = Inr (TokIndex i, ?r)"
      using Cons.prems parse_index_tok_index by auto
    then show ?thesis using TokIndex rec Cons.prems by (simp add: path_loop.simps [of mx n])
  next
    case TokAppend
    then show ?thesis using rec Cons.prems
      by (simp add: path_loop.simps [of mx n] parse_index_tok_def)
  qed
  then show ?case by simp
qed

lemma parse_path_text:
  assumes "path_ok mx ts"
  shows "parse_path mx (path_text ts) = Inr ts"
proof (cases ts)
  case Nil
  then show ?thesis by (simp add: parse_path_def path_text_def)
next
  case (Cons t ts')
  with assms obtain k where t: "t = TokKey k" and k: "key_ok k"
    and ts': "list_all tok_ok ts'" "1 + length ts' \<le> mx"
    by (auto simp: path_ok_def)
  let ?r = "concat (map tok_text ts')"
  have "parse_key_tok (k @ ?r) = Inr (TokKey k, ?r)"
    using k concat_text_hd by (rule parse_key_tok_key)
  moreover have "path_loop mx 1 ?r = Inr ts'" using ts' by (rule path_loop_text)
  moreover have "path_text ts = k @ ?r" using Cons t by (simp add: path_text_def)
  moreover have "k \<noteq> []" using k by (simp add: key_ok_def)
  ultimately show ?thesis using Cons t ts' by (simp add: parse_path_def)
qed

end
