(* ===== verification/Cfg_Tree.thy ===== *)
theory Cfg_Tree
  imports Cfg_Path
begin

text \<open>
  The configuration tree of \<open>cfg.c\<close>: nodes, lookup along a path, assignment and deletion.
  A node carries the fields of \<open>struct cfg_node\<close> that hold data (type, name, value, children);
  the sibling links, the tail pointer and \<open>n_child\<close> are the structure of the child list, and
  the parent pointer, which no operation reads, is left out. An operation that mutates the
  tree in place returns its \<open>rc\<close> (\<open>None\<close> for 0) and the new tree, also when it fails, because
  \<open>cfg_set_str\<close> may create containers before it fails. Memory allocation succeeds.
\<close>

section \<open>Nodes\<close>

datatype cfg_type = CFG_OBJ | CFG_ARR | CFG_STR

datatype cfg_node =
  Node (ntype: cfg_type) (nname: "string option") (nval: "string option") (nchild: "cfg_node list")

definition node_new :: "cfg_type \<Rightarrow> string option \<Rightarrow> cfg_node" where
  "node_new t name = Node t name None []"

definition with_child :: "cfg_node \<Rightarrow> cfg_node list \<Rightarrow> cfg_node" where
  "with_child n cs = Node (ntype n) (nname n) (nval n) cs"

definition with_val :: "cfg_node \<Rightarrow> string \<Rightarrow> cfg_node" where
  "with_val n v = Node (ntype n) (nname n) (Some v) (nchild n)"

lemma with_simps [simp]:
  "ntype (with_child n cs) = ntype n" "nname (with_child n cs) = nname n"
  "nval (with_child n cs) = nval n" "nchild (with_child n cs) = cs"
  "ntype (with_val n v) = ntype n" "nname (with_val n v) = nname n"
  "nval (with_val n v) = Some v" "nchild (with_val n v) = nchild n"
  by (simp_all add: with_child_def with_val_def)

abbreviation named :: "string \<Rightarrow> cfg_node \<Rightarrow> bool" where
  "named name \<equiv> (\<lambda>c. nname c = Some name)"

definition child_add :: "cfg_node \<Rightarrow> cfg_node \<Rightarrow> cfg_node" where
  "child_add parent node = with_child parent (nchild parent @ [node])"

lemma child_add_simps [simp]:
  "ntype (child_add n c) = ntype n" "nname (child_add n c) = nname n"
  "nval (child_add n c) = nval n" "nchild (child_add n c) = nchild n @ [c]"
  by (simp_all add: child_add_def)

lemma node_new_simps [simp]:
  "ntype (node_new t k) = t" "nname (node_new t k) = k"
  "nval (node_new t k) = None" "nchild (node_new t k) = []"
  by (simp_all add: node_new_def)

definition obj_find :: "cfg_node \<Rightarrow> string \<Rightarrow> cfg_node option" where
  "obj_find obj name =
     (if ntype obj \<noteq> CFG_OBJ then None else List.find (named name) (nchild obj))"

definition arr_idx :: "cfg_node \<Rightarrow> int \<Rightarrow> nat result" where
  "arr_idx arr idx =
     (if ntype arr \<noteq> CFG_ARR then Inl ENOTDIR
      else if idx \<ge> 0 then
        (if idx \<ge> int (length (nchild arr)) then Inl ENOENT else Inr (nat idx))
      else let i = int (length (nchild arr)) + idx in
        if i < 0 then Inl ENOENT else Inr (nat i))"

definition arr_nth :: "cfg_node \<Rightarrow> nat \<Rightarrow> cfg_node option" where
  "arr_nth arr i = (if i < length (nchild arr) then Some (nchild arr ! i) else None)"

section \<open>Lookup\<close>

type_synonym cfg = cfg_node

definition cfg_init :: cfg where
  "cfg_init = Node CFG_OBJ None None []"

text \<open>The loop of \<open>walk_get\<close> over the tokens.\<close>

fun walk_toks :: "cfg_node \<Rightarrow> cfg_tok list \<Rightarrow> cfg_node result" where
  "walk_toks cur [] = Inr cur"
| "walk_toks cur (t # ts) = (case t of
     TokAppend \<Rightarrow> Inl EINVAL
   | TokKey k \<Rightarrow>
       if ntype cur \<noteq> CFG_OBJ then Inl ENOTDIR
       else (case obj_find cur k of None \<Rightarrow> Inl ENOENT | Some c \<Rightarrow> walk_toks c ts)
   | TokIndex i \<Rightarrow>
       if ntype cur \<noteq> CFG_ARR then Inl ENOTDIR
       else ebind (arr_idx cur i) (\<lambda>k.
         case arr_nth cur k of None \<Rightarrow> Inl ENOENT | Some c \<Rightarrow> walk_toks c ts))"

definition walk_get :: "cfg \<Rightarrow> string \<Rightarrow> cfg_node result" where
  "walk_get cfg path = ebind (parse_path CFG_PATH_DEPTH_MAX path) (walk_toks cfg)"

definition cfg_get_node :: "cfg \<Rightarrow> string \<Rightarrow> cfg_node result" where
  "cfg_get_node cfg path = (if path = [] then Inr cfg else walk_get cfg path)"

text \<open>\<open>node->val ? node->val : ""\<close>.\<close>

definition val_or_empty :: "cfg_node \<Rightarrow> string" where
  "val_or_empty node = (case nval node of None \<Rightarrow> [] | Some v \<Rightarrow> v)"

definition cfg_get_str :: "cfg \<Rightarrow> string \<Rightarrow> string result" where
  "cfg_get_str cfg path = ebind (cfg_get_node cfg path) (\<lambda>node.
     if ntype node \<noteq> CFG_STR then Inl EISDIR else Inr (val_or_empty node))"

definition cfg_arr_len :: "cfg \<Rightarrow> string \<Rightarrow> nat result" where
  "cfg_arr_len cfg path = ebind (cfg_get_node cfg path) (\<lambda>node.
     if ntype node \<noteq> CFG_ARR then Inl ENOTDIR else Inr (length (nchild node)))"

section \<open>Assignment\<close>

type_synonym 'a mut = "errno option \<times> 'a"

definition set_str_plain :: "cfg_node \<Rightarrow> string \<Rightarrow> string \<Rightarrow> cfg_node mut" where
  "set_str_plain parent name val = (case obj_find parent name of
     None \<Rightarrow> (None, child_add parent (with_val (node_new CFG_STR (Some name)) val))
   | Some node \<Rightarrow>
       if ntype node \<noteq> CFG_STR then (Some EISDIR, parent)
       else (None, with_child parent (upd_first (named name) (with_val node val) (nchild parent))))"

definition set_arr_append :: "cfg_node \<Rightarrow> string \<Rightarrow> cfg_node mut" where
  "set_arr_append arr val =
     (if ntype arr \<noteq> CFG_ARR then (Some ENOTDIR, arr)
      else (None, child_add arr (with_val (node_new CFG_STR None) val)))"

definition set_arr_idx :: "cfg_node \<Rightarrow> int \<Rightarrow> string \<Rightarrow> cfg_node mut" where
  "set_arr_idx arr idx val =
     (if ntype arr \<noteq> CFG_ARR then (Some ENOTDIR, arr)
      else if idx \<ge> 0 \<and> idx = int (length (nchild arr)) then (Some ENOENT, arr)
      else (case arr_idx arr idx of
          Inl _ \<Rightarrow> (Some ENOENT, arr)
        | Inr k \<Rightarrow> (case arr_nth arr k of
            None \<Rightarrow> (Some ENOENT, arr)
          | Some node \<Rightarrow>
              if ntype node \<noteq> CFG_STR then (Some ENOENT, arr)
              else (None, with_child arr ((nchild arr)[k := with_val node val])))))"

text \<open>\<open>cfg_set_str\<close> after the path is parsed: the loop that descends (and creates the missing
  containers) is the recursion, the code after the loop the one-token case.\<close>

definition tok_want :: "cfg_tok \<Rightarrow> cfg_type" where
  "tok_want t = (case t of TokKey _ \<Rightarrow> CFG_OBJ | _ \<Rightarrow> CFG_ARR)"

fun set_toks :: "cfg_tok list \<Rightarrow> string \<Rightarrow> cfg_node \<Rightarrow> cfg_node mut" where
  "set_toks [] val cur = (Some EINVAL, cur)"
| "set_toks [t] val cur = (case t of
     TokKey k \<Rightarrow> if ntype cur \<noteq> CFG_OBJ then (Some ENOTDIR, cur) else set_str_plain cur k val
   | TokAppend \<Rightarrow> set_arr_append cur val
   | TokIndex i \<Rightarrow> set_arr_idx cur i val)"
| "set_toks (t # t' # ts) val cur = (case t of
     TokAppend \<Rightarrow> (Some EINVAL, cur)
   | TokIndex i \<Rightarrow>
       if ntype cur \<noteq> CFG_ARR then (Some ENOTDIR, cur)
       else (case arr_idx cur i of
           Inl e \<Rightarrow> (Some e, cur)
         | Inr k \<Rightarrow> (case arr_nth cur k of
             None \<Rightarrow> (Some ENOENT, cur)
           | Some c \<Rightarrow> (case set_toks (t' # ts) val c of
               (rc, c') \<Rightarrow> (rc, with_child cur ((nchild cur)[k := c'])))))
   | TokKey k \<Rightarrow>
       if ntype cur \<noteq> CFG_OBJ then (Some ENOTDIR, cur)
       else (case obj_find cur k of
           None \<Rightarrow> (case set_toks (t' # ts) val (node_new (tok_want t') (Some k)) of
             (rc, c') \<Rightarrow> (rc, child_add cur c'))
         | Some c \<Rightarrow>
             if ntype c \<noteq> tok_want t' then (Some ENOTDIR, cur)
             else (case set_toks (t' # ts) val c of
               (rc, c') \<Rightarrow> (rc, with_child cur (upd_first (named k) c' (nchild cur))))))"

definition cfg_set_str :: "cfg \<Rightarrow> string \<Rightarrow> string \<Rightarrow> cfg mut" where
  "cfg_set_str cfg path val = (case parse_path CFG_PATH_DEPTH_MAX path of
     Inl e \<Rightarrow> (Some e, cfg)
   | Inr toks \<Rightarrow> if toks = [] then (Some EINVAL, cfg) else set_toks toks val cfg)"

section \<open>Deletion\<close>

definition del_arr :: "cfg_node \<Rightarrow> int \<Rightarrow> cfg_node mut" where
  "del_arr arr idx =
     (if ntype arr \<noteq> CFG_ARR then (Some ENOENT, arr)
      else (case arr_idx arr idx of
          Inl _ \<Rightarrow> (Some ENOENT, arr)
        | Inr k \<Rightarrow>
            if k < length (nchild arr)
            then (None, with_child arr (take k (nchild arr) @ drop (Suc k) (nchild arr)))
            else (Some ENOENT, arr)))"

definition del_plain :: "cfg_node \<Rightarrow> string \<Rightarrow> cfg_node mut" where
  "del_plain parent name =
     (if List.find (named name) (nchild parent) = None then (Some ENOENT, parent)
      else (None, with_child parent (del_first (named name) (nchild parent))))"

fun del_toks :: "cfg_tok list \<Rightarrow> cfg_node \<Rightarrow> cfg_node mut" where
  "del_toks [] cur = (Some EINVAL, cur)"
| "del_toks [t] cur = (case t of
     TokAppend \<Rightarrow> (Some EINVAL, cur)
   | TokIndex i \<Rightarrow> del_arr cur i
   | TokKey k \<Rightarrow> if ntype cur \<noteq> CFG_OBJ then (Some ENOTDIR, cur) else del_plain cur k)"
| "del_toks (t # t' # ts) cur = (case t of
     TokAppend \<Rightarrow> (Some EINVAL, cur)
   | TokIndex i \<Rightarrow>
       if ntype cur \<noteq> CFG_ARR then (Some ENOTDIR, cur)
       else (case arr_idx cur i of
           Inl e \<Rightarrow> (Some e, cur)
         | Inr k \<Rightarrow> (case arr_nth cur k of
             None \<Rightarrow> (Some ENOENT, cur)
           | Some c \<Rightarrow> (case del_toks (t' # ts) c of
               (rc, c') \<Rightarrow> (rc, with_child cur ((nchild cur)[k := c'])))))
   | TokKey k \<Rightarrow>
       if ntype cur \<noteq> CFG_OBJ then (Some ENOTDIR, cur)
       else (case obj_find cur k of
           None \<Rightarrow> (Some ENOENT, cur)
         | Some c \<Rightarrow> (case del_toks (t' # ts) c of
             (rc, c') \<Rightarrow> (rc, with_child cur (upd_first (named k) c' (nchild cur))))))"

definition cfg_del :: "cfg \<Rightarrow> string \<Rightarrow> cfg mut" where
  "cfg_del cfg path = (case parse_path CFG_PATH_DEPTH_MAX path of
     Inl e \<Rightarrow> (Some e, cfg)
   | Inr toks \<Rightarrow> if toks = [] then (Some EINVAL, cfg) else del_toks toks cfg)"

section \<open>Accessors used by the loaders\<close>

definition cfg_type_of :: "cfg_node \<Rightarrow> cfg_type" where
  "cfg_type_of node = ntype node"

definition cfg_child :: "cfg_node \<Rightarrow> string \<Rightarrow> cfg_node option" where
  "cfg_child node name = obj_find node name"

text \<open>Iterating with \<open>cfg_first\<close> and \<open>cfg_next\<close> visits the children in order.\<close>

definition cfg_items :: "cfg_node \<Rightarrow> cfg_node list" where
  "cfg_items node = nchild node"

definition cfg_str :: "cfg_node \<Rightarrow> string option" where
  "cfg_str node = nval node"

section \<open>The tree invariant\<close>

text \<open>Objects have named children with distinct well-formed keys, arrays hold unnamed
  strings, strings have a value and no children.\<close>

fun node_wf :: "cfg_node \<Rightarrow> bool" where
  "node_wf (Node t n v cs) = (case t of
     CFG_OBJ \<Rightarrow> v = None \<and> distinct (map nname cs) \<and> list_all node_wf cs
       \<and> list_all (\<lambda>c. case nname c of None \<Rightarrow> False | Some k \<Rightarrow> key_ok k) cs
   | CFG_ARR \<Rightarrow> v = None \<and> list_all node_wf cs
       \<and> list_all (\<lambda>c. nname c = None \<and> ntype c = CFG_STR) cs
   | CFG_STR \<Rightarrow> v \<noteq> None \<and> cs = [])"

lemma node_wf_obj:
  "ntype n = CFG_OBJ \<Longrightarrow> node_wf n \<longleftrightarrow> nval n = None \<and> distinct (map nname (nchild n))
     \<and> list_all node_wf (nchild n)
     \<and> list_all (\<lambda>c. case nname c of None \<Rightarrow> False | Some k \<Rightarrow> key_ok k) (nchild n)"
  by (cases n) auto

lemma node_wf_arr:
  "ntype n = CFG_ARR \<Longrightarrow> node_wf n \<longleftrightarrow> nval n = None \<and> list_all node_wf (nchild n)
     \<and> list_all (\<lambda>c. nname c = None \<and> ntype c = CFG_STR) (nchild n)"
  by (cases n) auto

lemma node_wf_str: "ntype n = CFG_STR \<Longrightarrow> node_wf n \<longleftrightarrow> nval n \<noteq> None \<and> nchild n = []"
  by (cases n) auto

lemmas node_wf_cases = node_wf_obj node_wf_arr node_wf_str

lemma node_wf_new: "t \<noteq> CFG_STR \<Longrightarrow> node_wf (node_new t n)"
  by (cases t) (auto simp: node_new_def)

lemma node_wf_init: "node_wf cfg_init"
  by (simp add: cfg_init_def)

lemma obj_find_Some:
  "obj_find n k = Some c \<Longrightarrow> ntype n = CFG_OBJ \<and> List.find (named k) (nchild n) = Some c
     \<and> c \<in> set (nchild n) \<and> nname c = Some k"
  by (auto simp: obj_find_def split: if_splits dest: find_Some_set)

lemma obj_find_None:
  "ntype n = CFG_OBJ \<Longrightarrow> obj_find n k = None \<longleftrightarrow> Some k \<notin> nname ` set (nchild n)"
  by (auto simp: obj_find_def find_None_conv image_iff)

lemma arr_idx_Inr: "arr_idx n i = Inr k \<Longrightarrow> ntype n = CFG_ARR \<and> k < length (nchild n)"
  by (auto simp: arr_idx_def Let_def split: if_splits)

lemma arr_nth_Some: "arr_nth n k = Some c \<Longrightarrow> k < length (nchild n) \<and> c = nchild n ! k"
  by (auto simp: arr_nth_def split: if_splits)

lemma node_wf_upd_key:
  assumes "node_wf n" and "obj_find n k = Some c" and "node_wf c'" and "nname c' = nname c"
  shows "node_wf (with_child n (upd_first (named k) c' (nchild n)))"
proof -
  from obj_find_Some [OF assms(2)] have t: "ntype n = CFG_OBJ"
    and f: "List.find (named k) (nchild n) = Some c" and c: "c \<in> set (nchild n)" by auto
  with assms(1) have wf: "distinct (map nname (nchild n))" "list_all node_wf (nchild n)"
      "list_all (\<lambda>c. case nname c of None \<Rightarrow> False | Some k \<Rightarrow> key_ok k) (nchild n)" "nval n = None"
    by (simp_all add: node_wf_obj)
  have "case nname c' of None \<Rightarrow> False | Some k \<Rightarrow> key_ok k"
    using wf(3) c assms(4) by (auto simp: list_all_iff)
  then show ?thesis
    using t wf assms(3,4) map_upd_first_same [OF f, of nname c']
    by (simp add: node_wf_obj list_all_upd_first)
qed

lemma node_wf_add_key:
  assumes "node_wf n" and "ntype n = CFG_OBJ" and "obj_find n k = None" and "key_ok k"
    and "node_wf c" and "nname c = Some k"
  shows "node_wf (child_add n c)"
  using assms obj_find_None [of n k] by (auto simp: node_wf_obj)

lemma node_wf_upd_idx:
  assumes "node_wf n" and "ntype n = CFG_ARR" and "k < length (nchild n)"
    and "node_wf c'" and "nname c' = nname (nchild n ! k)" and "ntype c' = ntype (nchild n ! k)"
  shows "node_wf (with_child n ((nchild n)[k := c']))"
  using assms
  by (auto simp: node_wf_arr list_all_length nth_list_update)

section \<open>Assignment keeps the invariant\<close>

lemma set_toks_root:
  "set_toks ts v cur = (rc, cur') \<Longrightarrow> ntype cur' = ntype cur \<and> nname cur' = nname cur"
  by (induction ts v cur rule: set_toks.induct)
     (auto simp: set_str_plain_def set_arr_append_def set_arr_idx_def
       split: cfg_tok.splits if_splits option.splits sum.splits prod.splits)

lemma set_toks_wf:
  "set_toks ts v cur = (rc, cur') \<Longrightarrow> node_wf cur \<Longrightarrow> list_all tok_ok ts \<Longrightarrow> node_wf cur'"
proof (induction ts v cur arbitrary: rc cur' rule: set_toks.induct)
  case (1 v cur)
  then show ?case by simp
next
  case (2 t v cur)
  show ?case
  proof (cases t)
    case (TokKey k)
    show ?thesis
    proof (cases "ntype cur = CFG_OBJ")
      case True
      show ?thesis
      proof (cases "obj_find cur k")
        case None
        with TokKey True "2.prems" show ?thesis
          by (auto simp: set_str_plain_def node_wf_str intro!: node_wf_add_key)
      next
        case (Some c)
        then have "node_wf c" using obj_find_Some [OF Some] "2.prems"(2)
          by (auto simp: node_wf_obj list_all_iff)
        then have "ntype c = CFG_STR \<Longrightarrow> node_wf (with_val c v)" by (simp add: node_wf_str)
        with Some TokKey True "2.prems" node_wf_upd_key [OF "2.prems"(2) Some, of "with_val c v"]
        show ?thesis by (auto simp: set_str_plain_def split: if_splits)
      qed
    qed (use TokKey "2.prems" in simp)
  next
    case (TokIndex i)
    with "2.prems" show ?thesis
      by (auto simp: set_arr_idx_def node_wf_str node_wf_arr list_all_length nth_list_update
          split: if_splits sum.splits option.splits dest!: arr_idx_Inr arr_nth_Some)
  next
    case TokAppend
    with "2.prems" show ?thesis
      by (auto simp: set_arr_append_def node_wf_arr node_wf_str split: if_splits)
  qed
next
  case (3 t t' ts v cur)
  show ?case
  proof (cases t)
    case (TokKey k)
    show ?thesis
    proof (cases "ntype cur = CFG_OBJ")
      case obj: True
      show ?thesis
      proof (cases "obj_find cur k")
        case None
        obtain c' where r: "set_toks (t' # ts) v (node_new (tok_want t') (Some k)) = (rc, c')"
          and cur': "cur' = child_add cur c'"
          using TokKey obj None "3.prems"(1) by (auto split: prod.splits)
        have "node_wf c'"
          using "3.IH"(1) [OF TokKey _ None r] obj "3.prems"(3)
          by (simp add: node_wf_new tok_want_def split: cfg_tok.splits)
        moreover have "nname c' = Some k" using set_toks_root [OF r] by simp
        ultimately show ?thesis
          using cur' obj None "3.prems" TokKey by (auto intro: node_wf_add_key)
      next
        case (Some c)
        show ?thesis
        proof (cases "ntype c = tok_want t'")
          case True
          obtain c' where r: "set_toks (t' # ts) v c = (rc, c')"
            and cur': "cur' = with_child cur (upd_first (named k) c' (nchild cur))"
            using TokKey obj Some True "3.prems"(1) by (auto split: prod.splits)
          have "node_wf c" using obj_find_Some [OF Some] "3.prems"(2)
            by (auto simp: node_wf_obj list_all_iff)
          then have "node_wf c'"
            using "3.IH"(2) [OF TokKey _ Some _ r] obj True "3.prems"(3) by simp
          then show ?thesis
            using cur' node_wf_upd_key [OF "3.prems"(2) Some] set_toks_root [OF r] by simp
        qed (use TokKey obj Some "3.prems" in simp)
      qed
    qed (use TokKey "3.prems" in simp)
  next
    case (TokIndex i)
    show ?thesis
    proof (cases "\<exists>k c. ntype cur = CFG_ARR \<and> arr_idx cur i = Inr k \<and> arr_nth cur k = Some c")
      case True
      then obtain k c where arr: "ntype cur = CFG_ARR" and k: "arr_idx cur i = Inr k"
        and c: "arr_nth cur k = Some c" by blast
      obtain c' where r: "set_toks (t' # ts) v c = (rc, c')"
        and cur': "cur' = with_child cur ((nchild cur)[k := c'])"
        using TokIndex arr k c "3.prems"(1) by (auto split: prod.splits)
      have kc: "k < length (nchild cur)" "c = nchild cur ! k" using arr_nth_Some [OF c] by auto
      then have "node_wf c" using arr "3.prems"(2) by (auto simp: node_wf_arr list_all_length)
      then have "node_wf c'"
        using "3.IH"(3) [OF TokIndex _ k c r] arr "3.prems"(3) by simp
      then show ?thesis
        using cur' kc node_wf_upd_idx [OF "3.prems"(2) arr kc(1)] set_toks_root [OF r] by simp
    next
      case False
      with TokIndex "3.prems" show ?thesis
        by (auto split: if_splits sum.splits option.splits)
    qed
  next
    case TokAppend
    with "3.prems" show ?thesis by simp
  qed
qed

lemma cfg_set_str_wf:
  "cfg_set_str cfg path v = (rc, cfg') \<Longrightarrow> node_wf cfg \<Longrightarrow> node_wf cfg'"
  by (auto simp: cfg_set_str_def path_ok_def split: sum.splits if_splits
      dest!: parse_path_Inr intro: set_toks_wf)

end
