(* ===== verification/Cfg_Laws.thy ===== *)
theory Cfg_Laws
  imports Cfg_Tree
begin

text \<open>
  The laws of the configuration store: what a lookup returns after an assignment or a
  deletion, and what stays unchanged. They are stated on the token lists of \<open>Cfg_Tree\<close>; the
  locale \<open>assign_store\<close> is the contract the file loader relies on.
\<close>

section \<open>Values along a path\<close>

definition val_at :: "cfg_node \<Rightarrow> cfg_tok list \<Rightarrow> string option" where
  "val_at cur q = (case walk_toks cur q of
     Inr n \<Rightarrow> if ntype n = CFG_STR then Some (val_or_empty n) else None
   | Inl _ \<Rightarrow> None)"

lemma obj_find_not_obj: "ntype n \<noteq> CFG_OBJ \<Longrightarrow> obj_find n k = None"
  by (simp add: obj_find_def)

lemma arr_idx_not_arr: "ntype n \<noteq> CFG_ARR \<Longrightarrow> arr_idx n i = Inl ENOTDIR"
  by (simp add: arr_idx_def)

lemma val_at_simps [simp]:
  "val_at cur [] = (if ntype cur = CFG_STR then Some (val_or_empty cur) else None)"
  "val_at cur (TokKey k # q) = (case obj_find cur k of None \<Rightarrow> None | Some c \<Rightarrow> val_at c q)"
  "val_at cur (TokIndex i # q) =
     (case arr_idx cur i of Inl _ \<Rightarrow> None | Inr k \<Rightarrow> val_at (nchild cur ! k) q)"
  "val_at cur (TokAppend # q) = None"
  by (auto simp: val_at_def obj_find_not_obj arr_idx_not_arr arr_nth_def
      split: option.splits sum.splits dest: arr_idx_Inr)

lemma cfg_get_str_val_at:
  assumes "parse_path CFG_PATH_DEPTH_MAX path = Inr toks"
  shows "cfg_get_str cfg path = Inr s \<longleftrightarrow> val_at cfg toks = Some s"
proof (cases "path = []")
  case True
  with assms have "toks = []" by (simp add: parse_path_def)
  with True show ?thesis by (auto simp: cfg_get_str_def cfg_get_node_def)
next
  case False
  with assms show ?thesis
    by (auto simp: cfg_get_str_def cfg_get_node_def walk_get_def val_at_def ebind_Inr_iff
        split: sum.splits if_splits)
qed

section \<open>Finding a child after an update\<close>

lemma obj_find_child_add:
  assumes "ntype n = CFG_OBJ" and "obj_find n k = None" and "nname c = Some k"
  shows "obj_find (child_add n c) j = (if j = k then Some c else obj_find n j)"
proof -
  have "List.find (named k) (nchild n) = None" using assms(1,2) by (simp add: obj_find_def)
  then show ?thesis
    using assms
    by (cases "List.find (named j) (nchild n)")
       (auto simp: obj_find_def find_append_None find_append_Some)
qed

lemma obj_find_upd_first:
  assumes "obj_find n k = Some c" and "nname c' = Some k"
  shows "obj_find (with_child n (upd_first (named k) c' (nchild n))) j =
    (if j = k then Some c' else obj_find n j)"
proof -
  have n: "ntype n = CFG_OBJ" and f: "List.find (named k) (nchild n) = Some c"
    using obj_find_Some [OF assms(1)] by auto
  have "List.find (named k) (upd_first (named k) c' (nchild n)) = Some c'"
    using assms(2) f by (intro find_upd_first) auto
  moreover have "List.find (named j) (upd_first (named k) c' (nchild n)) = List.find (named j) (nchild n)"
    if "j \<noteq> k"
    using assms(2) that by (intro find_upd_first_other) auto
  ultimately show ?thesis using n by (auto simp: obj_find_def)
qed

lemma arr_idx_same_length:
  "length cs = length (nchild n) \<Longrightarrow> arr_idx (with_child n cs) i = arr_idx n i"
  by (simp add: arr_idx_def)

lemma set_toks_key:
  "ts \<noteq> [] \<Longrightarrow> set_toks (TokKey k # ts) v cur =
     (if ntype cur \<noteq> CFG_OBJ then (Some ENOTDIR, cur)
      else (case obj_find cur k of
          None \<Rightarrow> (case set_toks ts v (node_new (tok_want (hd ts)) (Some k)) of
            (rc, c') \<Rightarrow> (rc, child_add cur c'))
        | Some c \<Rightarrow>
            if ntype c \<noteq> tok_want (hd ts) then (Some ENOTDIR, cur)
            else (case set_toks ts v c of
              (rc, c') \<Rightarrow> (rc, with_child cur (upd_first (named k) c' (nchild cur))))))"
  by (cases ts) (auto split: option.splits)

lemma set_toks_index:
  "ts \<noteq> [] \<Longrightarrow> set_toks (TokIndex i # ts) v cur =
     (case arr_idx cur i of
         Inl e \<Rightarrow> (Some e, cur)
       | Inr k \<Rightarrow> (case set_toks ts v (nchild cur ! k) of
           (rc, c') \<Rightarrow> (rc, with_child cur ((nchild cur)[k := c']))))"
  by (cases ts; cases "arr_idx cur i")
     (auto simp: arr_idx_not_arr arr_nth_def dest: arr_idx_Inr split: prod.splits)

text \<open>An induction rule that names the two descending cases.\<close>

lemma set_toks_induct [case_names Nil Last Key Index Append]:
  assumes "\<And>cur. P [] cur"
    and "\<And>t cur. P [t] cur"
    and "\<And>k ts cur. ts \<noteq> [] \<Longrightarrow> (\<And>c. P ts c) \<Longrightarrow> P (TokKey k # ts) cur"
    and "\<And>i ts cur. ts \<noteq> [] \<Longrightarrow> (\<And>c. P ts c) \<Longrightarrow> P (TokIndex i # ts) cur"
    and "\<And>ts cur. ts \<noteq> [] \<Longrightarrow> P (TokAppend # ts) cur"
  shows "P ts cur"
proof (induction ts arbitrary: cur)
  case Nil
  show ?case by (rule assms(1))
next
  case (Cons t ts)
  show ?case
  proof (cases "ts = []")
    case True
    then show ?thesis using assms(2) by simp
  next
    case False
    then show ?thesis using assms(3-5) Cons.IH by (cases t) auto
  qed
qed

section \<open>A failed assignment changes no value\<close>

lemma val_at_node_new [simp]: "t \<noteq> CFG_STR \<Longrightarrow> val_at (node_new t n) q = None"
  by (cases q rule: list.exhaust; cases "hd q"; cases t)
     (auto simp: obj_find_def arr_idx_def)

lemma tok_want_not_str [simp]: "tok_want t \<noteq> CFG_STR"
  by (cases t) (auto simp: tok_want_def)

lemma val_at_child_add:
  assumes "ntype n = CFG_OBJ" and "obj_find n k = None" and "nname c = Some k"
    and "\<And>q. val_at c q = None"
  shows "val_at (child_add n c) q = val_at n q"
proof (cases q)
  case Nil
  then show ?thesis using assms(1) by simp
next
  case (Cons t q')
  then show ?thesis using assms
    by (cases t) (auto simp: obj_find_child_add arr_idx_not_arr split: option.splits)
qed

lemma val_at_upd_key:
  assumes "obj_find n k = Some c" and "nname c' = Some k" and "\<And>q. val_at c' q = val_at c q"
  shows "val_at (with_child n (upd_first (named k) c' (nchild n))) q = val_at n q"
proof (cases q)
  case Nil
  then show ?thesis using obj_find_Some [OF assms(1)] by simp
next
  case (Cons t q')
  then show ?thesis using assms obj_find_Some [OF assms(1)]
    by (cases t) (auto simp: obj_find_upd_first arr_idx_not_arr split: option.splits)
qed

lemma val_at_upd_index:
  assumes "arr_idx n i = Inr k" and "\<And>q. val_at c' q = val_at (nchild n ! k) q"
  shows "val_at (with_child n ((nchild n)[k := c'])) q = val_at n q"
proof (cases q)
  case Nil
  then show ?thesis using arr_idx_Inr [OF assms(1)] by simp
next
  case (Cons t q')
  then show ?thesis using assms arr_idx_Inr [OF assms(1)]
    by (cases t) (auto simp: arr_idx_same_length obj_find_not_obj nth_list_update
        split: sum.splits)
qed

lemma set_toks_failed:
  "set_toks ts v cur = (Some e, cur') \<Longrightarrow> val_at cur' q = val_at cur q"
proof (induction ts cur arbitrary: cur' q rule: set_toks_induct)
  case (Last t cur)
  then show ?case
    by (auto simp: set_str_plain_def set_arr_append_def set_arr_idx_def
        split: cfg_tok.splits if_splits option.splits sum.splits)
next
  case (Key k ts cur)
  show ?case
  proof (cases "ntype cur = CFG_OBJ")
    case obj: True
    show ?thesis
    proof (cases "obj_find cur k")
      case None
      then obtain c' where r: "set_toks ts v (node_new (tok_want (hd ts)) (Some k)) = (Some e, c')"
        and cur': "cur' = child_add cur c'"
        using Key.prems Key.hyps obj by (auto simp: set_toks_key split: prod.splits)
      have "val_at c' q = None" for q using Key.IH [OF r, of q] by simp
      moreover have "nname c' = Some k" using set_toks_root [OF r] by simp
      ultimately show ?thesis using cur' obj None by (simp add: val_at_child_add)
    next
      case (Some c)
      show ?thesis
      proof (cases "ntype c = tok_want (hd ts)")
        case True
        then obtain c' where r: "set_toks ts v c = (Some e, c')"
          and cur': "cur' = with_child cur (upd_first (named k) c' (nchild cur))"
          using Key.prems Key.hyps obj Some by (auto simp: set_toks_key split: prod.splits)
        have "nname c' = Some k" using set_toks_root [OF r] obj_find_Some [OF Some] by simp
        then show ?thesis using cur' Some Key.IH [OF r] by (simp add: val_at_upd_key)
      qed (use Key obj Some in \<open>simp add: set_toks_key\<close>)
    qed
  qed (use Key in \<open>simp add: set_toks_key\<close>)
next
  case (Index i ts cur)
  then show ?case
    by (auto simp: set_toks_index split: sum.splits prod.splits intro: val_at_upd_index)
next
  case (Append ts cur)
  then show ?case by (cases ts) auto
qed simp

section \<open>An assignment is read back\<close>

text \<open>The path that reads what was written: an appended value is the last element.\<close>

fun read_toks :: "cfg_tok list \<Rightarrow> cfg_tok list" where
  "read_toks [] = []"
| "read_toks (t # ts) = (if t = TokAppend \<and> ts = [] then [TokIndex (- 1)] else t # read_toks ts)"

lemma read_toks_keys [simp]: "read_toks (map TokKey ks) = map TokKey ks"
  by (induction ks) auto

lemma val_at_set_last:
  assumes "set_toks [t] v cur = (None, cur')"
  shows "val_at cur' (read_toks [t]) = Some v"
proof (cases t)
  case (TokKey k)
  show ?thesis
  proof (cases "obj_find cur k")
    case None
    then show ?thesis using assms TokKey
      by (auto simp: set_str_plain_def obj_find_child_add val_or_empty_def split: if_splits)
  next
    case (Some c)
    then show ?thesis using assms TokKey obj_find_Some [OF Some]
      by (auto simp: set_str_plain_def obj_find_upd_first [OF Some] val_or_empty_def split: if_splits)
  qed
next
  case (TokIndex i)
  with assms show ?thesis
    by (auto simp: set_arr_idx_def arr_idx_same_length val_or_empty_def arr_nth_def
        split: if_splits sum.splits option.splits dest: arr_idx_Inr)
next
  case TokAppend
  with assms show ?thesis
    by (auto simp: set_arr_append_def arr_idx_def val_or_empty_def nth_append split: if_splits)
qed

lemma val_at_set:
  "set_toks ts v cur = (None, cur') \<Longrightarrow> val_at cur' (read_toks ts) = Some v"
proof (induction ts cur arbitrary: cur' rule: set_toks_induct)
  case (Last t cur)
  then show ?case by (rule val_at_set_last)
next
  case (Key k ts cur)
  show ?case
  proof (cases "obj_find cur k")
    case None
    then obtain c' where r: "set_toks ts v (node_new (tok_want (hd ts)) (Some k)) = (None, c')"
      and cur': "cur' = child_add cur c'" and obj: "ntype cur = CFG_OBJ"
      using Key.prems Key.hyps by (auto simp: set_toks_key split: prod.splits if_splits)
    have "nname c' = Some k" using set_toks_root [OF r] by simp
    then show ?thesis
      using cur' obj None Key.IH [OF r] Key.hyps by (simp add: obj_find_child_add)
  next
    case (Some c)
    then obtain c' where r: "set_toks ts v c = (None, c')"
      and cur': "cur' = with_child cur (upd_first (named k) c' (nchild cur))"
      using Key.prems Key.hyps by (auto simp: set_toks_key split: prod.splits if_splits)
    have "nname c' = Some k" using set_toks_root [OF r] obj_find_Some [OF Some] by simp
    then show ?thesis
      using cur' Some Key.IH [OF r] Key.hyps by (simp add: obj_find_upd_first)
  qed
next
  case (Index i ts cur)
  then obtain k c' where k: "arr_idx cur i = Inr k"
    and r: "set_toks ts v (nchild cur ! k) = (None, c')"
    and cur': "cur' = with_child cur ((nchild cur)[k := c'])"
    by (auto simp: set_toks_index split: sum.splits prod.splits)
  then show ?case
    using Index.IH [OF r] arr_idx_Inr [OF k] by (simp add: arr_idx_same_length)
next
  case (Append ts cur)
  then show ?case by (cases ts) auto
qed simp

section \<open>Other keys keep their values\<close>

lemma set_toks_on_str:
  "set_toks ts v cur = (rc, cur') \<Longrightarrow> ntype cur = CFG_STR \<Longrightarrow> cur' = cur"
  by (cases "(ts, v, cur)" rule: set_toks.cases)
     (auto simp: set_arr_append_def set_arr_idx_def split: cfg_tok.splits)

lemma val_at_set_here:
  assumes "set_toks ts v cur = (rc, cur')"
  shows "val_at cur' [] = val_at cur []"
  using set_toks_root [OF assms] set_toks_on_str [OF assms] by auto

lemma val_at_set_other_last:
  assumes "set_toks [t] v cur = (rc, cur')" and "[t] \<noteq> map TokKey q"
  shows "val_at cur' (map TokKey q) = val_at cur (map TokKey q)"
proof (cases q)
  case Nil
  then show ?thesis using val_at_set_here [OF assms(1)] by simp
next
  case (Cons j q')
  show ?thesis
  proof (cases t)
    case (TokKey k)
    show ?thesis
    proof (cases "obj_find cur k")
      case None
      then show ?thesis using assms TokKey Cons
        by (cases q') (auto simp: set_str_plain_def obj_find_child_add obj_find_not_obj
            split: if_splits)
    next
      case (Some c)
      then show ?thesis using assms TokKey Cons obj_find_Some [OF Some]
        by (cases q') (auto simp: set_str_plain_def obj_find_upd_first [OF Some] obj_find_not_obj
            split: if_splits)
    qed
  next
    case (TokIndex i)
    then show ?thesis using assms Cons
      by (auto simp: set_arr_idx_def obj_find_not_obj
          split: if_splits option.splits sum.splits)
  next
    case TokAppend
    then show ?thesis using assms Cons
      by (auto simp: set_arr_append_def obj_find_not_obj split: if_splits)
  qed
qed

lemma val_at_set_other:
  "set_toks ts v cur = (rc, cur') \<Longrightarrow> ts \<noteq> map TokKey q \<Longrightarrow>
     val_at cur' (map TokKey q) = val_at cur (map TokKey q)"
proof (induction ts cur arbitrary: cur' q rule: set_toks_induct)
  case (Last t cur)
  then show ?case by (rule val_at_set_other_last)
next
  case (Key k ts cur)
  show ?case
  proof (cases q)
    case Nil
    then show ?thesis using val_at_set_here [OF Key.prems(1)] by simp
  next
    case (Cons j q')
    show ?thesis
    proof (cases "obj_find cur k")
      case None
      show ?thesis
      proof (cases "ntype cur = CFG_OBJ")
        case True
        with None obtain c' where
            r: "set_toks ts v (node_new (tok_want (hd ts)) (Some k)) = (rc, c')"
          and cur': "cur' = child_add cur c'"
          using Key by (auto simp: set_toks_key split: prod.splits)
        have "nname c' = Some k" using set_toks_root [OF r] by simp
        then show ?thesis
          using cur' True None Key.IH [OF r, of q'] Key.prems(2) Cons
          by (auto simp: obj_find_child_add)
      qed (use Key None in \<open>simp add: set_toks_key\<close>)
    next
      case (Some c)
      show ?thesis
      proof (cases "ntype c = tok_want (hd ts)")
        case True
        with Some obtain c' where r: "set_toks ts v c = (rc, c')"
          and cur': "cur' = with_child cur (upd_first (named k) c' (nchild cur))"
          using Key.prems(1) Key.hyps obj_find_Some [OF Some]
          by (auto simp: set_toks_key split: prod.splits)
        have "nname c' = Some k" using set_toks_root [OF r] obj_find_Some [OF Some] by simp
        then show ?thesis
          using cur' Some Key.IH [OF r, of q'] Key.prems(2) Cons
          by (auto simp: obj_find_upd_first)
      qed (use Key Some obj_find_Some [OF Some] in \<open>simp add: set_toks_key\<close>)
    qed
  qed
next
  case (Index i ts cur)
  show ?case
  proof (cases q)
    case Nil
    then show ?thesis using val_at_set_here [OF Index.prems(1)] by simp
  next
    case (Cons j q')
    then show ?thesis using Index
      by (auto simp: set_toks_index obj_find_not_obj
          split: sum.splits prod.splits dest!: arr_idx_Inr)
  qed
next
  case (Append ts cur)
  then show ?case by (cases ts) auto
qed simp

section \<open>Appending\<close>

text \<open>The values of the array at a key path; no array counts as an empty one.\<close>

definition elems_at :: "cfg_node \<Rightarrow> string list \<Rightarrow> string list" where
  "elems_at cur ks = (case walk_toks cur (map TokKey ks) of
     Inr n \<Rightarrow> if ntype n = CFG_ARR then map val_or_empty (nchild n) else []
   | Inl _ \<Rightarrow> [])"

lemma elems_at_Nil:
  "elems_at cur [] = (if ntype cur = CFG_ARR then map val_or_empty (nchild cur) else [])"
  by (simp add: elems_at_def)

lemma elems_at_Cons:
  "elems_at cur (k # ks) = (case obj_find cur k of None \<Rightarrow> [] | Some c \<Rightarrow> elems_at c ks)"
  by (auto simp: elems_at_def obj_find_not_obj split: option.splits)

lemma elems_at_append:
  "set_toks (map TokKey ks @ [TokAppend]) v cur = (None, cur') \<Longrightarrow>
     elems_at cur' ks = elems_at cur ks @ [v]"
proof (induction ks arbitrary: cur cur')
  case Nil
  then show ?case
    by (auto simp: elems_at_Nil set_arr_append_def val_or_empty_def split: if_splits)
next
  case (Cons k ks)
  let ?ts = "map TokKey ks @ [TokAppend]"
  show ?case
  proof (cases "obj_find cur k")
    case None
    then obtain c' where r: "set_toks ?ts v (node_new (tok_want (hd ?ts)) (Some k)) = (None, c')"
      and cur': "cur' = child_add cur c'" and obj: "ntype cur = CFG_OBJ"
      using Cons.prems by (auto simp: set_toks_key split: prod.splits if_splits)
    have "nname c' = Some k" using set_toks_root [OF r] by simp
    moreover have "elems_at (node_new (tok_want (hd ?ts)) (Some k)) ks = []"
      by (cases ks) (auto simp: elems_at_Nil elems_at_Cons obj_find_def)
    ultimately show ?thesis
      using cur' obj None Cons.IH [OF r] by (simp add: elems_at_Cons obj_find_child_add)
  next
    case (Some c)
    then obtain c' where r: "set_toks ?ts v c = (None, c')"
      and cur': "cur' = with_child cur (upd_first (named k) c' (nchild cur))"
      using Cons.prems by (auto simp: set_toks_key split: prod.splits if_splits)
    have "nname c' = Some k" using set_toks_root [OF r] obj_find_Some [OF Some] by simp
    then show ?thesis
      using cur' Some Cons.IH [OF r] by (simp add: elems_at_Cons obj_find_upd_first)
  qed
qed

section \<open>Deletion\<close>

lemma del_toks_key:
  "ts \<noteq> [] \<Longrightarrow> del_toks (TokKey k # ts) cur =
     (if ntype cur \<noteq> CFG_OBJ then (Some ENOTDIR, cur)
      else (case obj_find cur k of
          None \<Rightarrow> (Some ENOENT, cur)
        | Some c \<Rightarrow> (case del_toks ts c of
            (rc, c') \<Rightarrow> (rc, with_child cur (upd_first (named k) c' (nchild cur))))))"
  by (cases ts) (auto split: option.splits)

lemma del_toks_index:
  "ts \<noteq> [] \<Longrightarrow> del_toks (TokIndex i # ts) cur =
     (case arr_idx cur i of
         Inl e \<Rightarrow> (Some e, cur)
       | Inr k \<Rightarrow> (case del_toks ts (nchild cur ! k) of
           (rc, c') \<Rightarrow> (rc, with_child cur ((nchild cur)[k := c']))))"
  by (cases ts; cases "arr_idx cur i")
     (auto simp: arr_idx_not_arr arr_nth_def dest: arr_idx_Inr split: prod.splits)

lemma with_child_same [simp]: "with_child n (nchild n) = n"
  by (cases n) (simp add: with_child_def)

lemma del_toks_root:
  "del_toks ts cur = (rc, cur') \<Longrightarrow> ntype cur' = ntype cur \<and> nname cur' = nname cur"
  by (induction ts cur rule: del_toks.induct)
     (auto simp: del_arr_def del_plain_def
       split: cfg_tok.splits if_splits option.splits sum.splits prod.splits)

lemma del_toks_failed: "del_toks ts cur = (Some e, cur') \<Longrightarrow> cur' = cur"
proof (induction ts cur arbitrary: cur' rule: set_toks_induct)
  case (Last t cur)
  then show ?case
    by (auto simp: del_arr_def del_plain_def split: cfg_tok.splits if_splits sum.splits)
next
  case (Key k ts cur)
  show ?case
  proof (cases "obj_find cur k")
    case (Some c)
    then obtain c' where r: "del_toks ts c = (Some e, c')"
      and cur': "cur' = with_child cur (upd_first (named k) c' (nchild cur))"
      using Key.prems Key.hyps obj_find_Some [OF Some]
      by (auto simp: del_toks_key split: prod.splits)
    then show ?thesis
      using Key.IH [OF r] obj_find_Some [OF Some] by (simp add: upd_first_find_id)
  qed (use Key in \<open>auto simp: del_toks_key split: if_splits\<close>)
next
  case (Index i ts cur)
  show ?case
  proof (cases "arr_idx cur i")
    case (Inr k)
    then obtain c' where r: "del_toks ts (nchild cur ! k) = (Some e, c')"
      and cur': "cur' = with_child cur ((nchild cur)[k := c'])"
      using Index.prems Index.hyps by (auto simp: del_toks_index split: prod.splits)
    then show ?thesis using Index.IH [OF r] by simp
  qed (use Index in \<open>simp add: del_toks_index\<close>)
next
  case (Append ts cur)
  then show ?case by (cases ts) auto
qed simp

lemma find_del_first_distinct:
  "distinct (map nname cs) \<Longrightarrow> List.find (named k) (del_first (named k) cs) = None"
  by (induction cs) (auto simp: find_None_conv image_iff)

lemma node_wf_child: "node_wf n \<Longrightarrow> obj_find n k = Some c \<Longrightarrow> node_wf c"
  by (auto simp: node_wf_obj list_all_iff dest!: obj_find_Some)

lemma del_toks_wf:
  "del_toks ts cur = (rc, cur') \<Longrightarrow> node_wf cur \<Longrightarrow> node_wf cur'"
proof (induction ts cur arbitrary: rc cur' rule: set_toks_induct)
  case (Last t cur)
  have d: "distinct (map nname (del_first (named k) cs))" if "distinct (map nname cs)" for k cs
    using that by (induction cs) (auto dest: set_del_first [THEN subsetD])
  show ?case
  proof (cases t)
    case (TokIndex i)
    with Last show ?thesis
      by (auto simp: del_arr_def node_wf_arr list_all_take_drop split: if_splits sum.splits)
  next
    case (TokKey k)
    with Last d show ?thesis
      by (auto simp: del_plain_def node_wf_obj list_all_del_first split: if_splits)
  qed (use Last in auto)
next
  case (Key k ts cur)
  then show ?case
    by (auto simp: del_toks_key split: if_splits option.splits prod.splits
        intro!: node_wf_upd_key dest: node_wf_child del_toks_root)
next
  case (Index i ts cur)
  show ?case
  proof (cases "arr_idx cur i")
    case (Inr k)
    then obtain c' where r: "del_toks ts (nchild cur ! k) = (rc, c')"
      and cur': "cur' = with_child cur ((nchild cur)[k := c'])"
      using Index.prems(1) Index.hyps by (auto simp: del_toks_index split: prod.splits)
    note k = arr_idx_Inr [OF Inr]
    then have "node_wf (nchild cur ! k)"
      using Index.prems(2) by (auto simp: node_wf_arr list_all_length)
    with Index.IH [OF r] del_toks_root [OF r] show ?thesis
      using cur' k Index.prems(2) by (auto intro!: node_wf_upd_idx)
  qed (use Index in \<open>simp add: del_toks_index\<close>)
next
  case (Append ts cur)
  then show ?case by (cases ts) auto
qed simp

lemma cfg_del_wf: "cfg_del cfg path = (rc, cfg') \<Longrightarrow> node_wf cfg \<Longrightarrow> node_wf cfg'"
  by (auto simp: cfg_del_def split: sum.splits if_splits intro: del_toks_wf)

lemma walk_del_key:
  "del_toks (map TokKey ks) cur = (None, cur') \<Longrightarrow> node_wf cur \<Longrightarrow>
     walk_toks cur' (map TokKey ks) = Inl ENOENT"
proof (induction ks arbitrary: cur cur')
  case (Cons k ks)
  show ?case
  proof (cases "ks = []")
    case True
    with Cons.prems show ?thesis
      by (auto simp: del_plain_def obj_find_def node_wf_obj find_del_first_distinct split: if_splits)
  next
    case False
    then obtain c c' where c: "obj_find cur k = Some c"
      and r: "del_toks (map TokKey ks) c = (None, c')" and obj: "ntype cur = CFG_OBJ"
      and cur': "cur' = with_child cur (upd_first (named k) c' (nchild cur))"
      using Cons.prems(1) by (auto simp: del_toks_key split: if_splits option.splits prod.splits)
    have "nname c' = Some k" using del_toks_root [OF r] obj_find_Some [OF c] by simp
    then show ?thesis
      using cur' c obj Cons.IH [OF r] node_wf_child [OF Cons.prems(2) c]
      by (simp add: obj_find_upd_first)
  qed
qed simp

section \<open>The contract of the store\<close>

text \<open>
  What the file loader needs: assignments keep the invariant, an accepted assignment is read
  back, and it changes no other key. The fold lemma is proved here once: after a sequence of
  accepted assignments a key holds the last value assigned to it.
\<close>

locale assign_store =
  fixes wf :: "'s \<Rightarrow> bool" and valid :: "'p \<Rightarrow> bool" and assign :: "'p \<Rightarrow> string \<Rightarrow> 's \<Rightarrow> 's mut"
    and look :: "'s \<Rightarrow> 'k \<Rightarrow> string option" and key_path :: "'k \<Rightarrow> 'p"
  assumes wf_assign: "assign p v s = (rc, s') \<Longrightarrow> wf s \<Longrightarrow> valid p \<Longrightarrow> wf s'"
    and look_same: "assign (key_path k) v s = (None, s') \<Longrightarrow> look s' k = Some v"
    and look_other: "assign p v s = (rc, s') \<Longrightarrow> p \<noteq> key_path k \<Longrightarrow> look s' k = look s k"
begin

fun assign_all :: "('p \<times> string) list \<Rightarrow> 's \<Rightarrow> 's mut" where
  "assign_all [] s = (None, s)"
| "assign_all ((p, v) # as) s =
     (case assign p v s of (None, s') \<Rightarrow> assign_all as s' | (Some e, s') \<Rightarrow> (Some e, s'))"

lemma assign_all_wf:
  "assign_all as s = (rc, s') \<Longrightarrow> wf s \<Longrightarrow> list_all (valid \<circ> fst) as \<Longrightarrow> wf s'"
  by (induction as s rule: assign_all.induct)
     (auto split: prod.splits option.splits dest: wf_assign)

lemma assign_all_last:
  "assign_all as s = (None, s') \<Longrightarrow>
     look s' k = (case map_of (rev as) (key_path k) of Some v \<Rightarrow> Some v | None \<Rightarrow> look s k)"
proof (induction as s rule: assign_all.induct)
  case (2 p v as s)
  then obtain s1 where s1: "assign p v s = (None, s1)" and r: "assign_all as s1 = (None, s')"
    by (auto split: prod.splits option.splits)
  have "look s' k = (case map_of (rev as) (key_path k) of Some v \<Rightarrow> Some v | None \<Rightarrow> look s1 k)"
    using "2.IH" [OF s1 [symmetric] refl r] by simp
  moreover have "look s1 k = (if p = key_path k then Some v else look s k)"
    using s1 look_same look_other by auto
  ultimately show ?case by (auto simp: map_add_def split: option.splits)
qed simp

end

interpretation tree_store: assign_store node_wf "list_all tok_ok" set_toks
  "\<lambda>cur ks. val_at cur (map TokKey ks)" "map TokKey"
proof unfold_locales
  show "val_at s' (map TokKey k) = Some v"
    if "set_toks (map TokKey k) v s = (None, s')" for k v s s'
    using val_at_set [OF that] by simp
qed (auto intro: set_toks_wf val_at_set_other)

end
