(* ===== verification/Cfg_File.thy ===== *)
theory Cfg_File
  imports Cfg_Laws
begin

text \<open>
  The text form of the configuration: the line parser and loader of \<open>cfg.c\<close> (\<open>trim\<close>, \<open>trim_eol\<close>,
  \<open>parse_value\<close>, \<open>load_line\<close>, \<open>cfg_load\<close>) and the writer (\<open>quote\<close>, \<open>dump_node\<close>, \<open>cfg_dump_file\<close>,
  \<open>cfg_dump\<close>), with the proof that a dumped tree loads back.
\<close>

section \<open>Reading a line\<close>

definition trim :: "string \<Rightarrow> string" where
  "trim s = rev (dropWhile is_blank (rev (dropWhile is_blank s)))"

definition is_eol :: "char \<Rightarrow> bool" where
  "is_eol c \<longleftrightarrow> c = NL \<or> c = CR"

definition trim_eol :: "string \<Rightarrow> string" where
  "trim_eol s = rev (dropWhile is_eol (rev s))"

text \<open>The loop that reads a quoted value: the value and the text after the closing quote.\<close>

fun unquote :: "string \<Rightarrow> (string \<times> string) result" where
  "unquote [] = Inl EINVAL"
| "unquote [c] = (if c = QUOTE then Inr ([], []) else Inl EINVAL)"
| "unquote (c # d # cs) =
     (if c = QUOTE then Inr ([], d # cs)
      else if c = BSLASH then
        ebind (unquote cs) (\<lambda>(v, r).
          Inr ((if d = CHR ''n'' then NL else if d = CHR ''t'' then TAB else d) # v, r))
      else ebind (unquote (d # cs)) (\<lambda>(v, r). Inr (c # v, r)))"

definition parse_value :: "string \<Rightarrow> string result" where
  "parse_value src = (let s = trim src in
     if s = [] then Inr []
     else if hd s \<noteq> QUOTE then Inr (trim (takeWhile (\<lambda>c. c \<noteq> CHR ''#'') s))
     else ebind (unquote (tl s)) (\<lambda>(val, r). let r = trim r in
       if r \<noteq> [] \<and> hd r \<noteq> CHR ''#'' then Inl EINVAL else Inr val))"

definition load_line :: "cfg \<Rightarrow> string \<Rightarrow> cfg mut" where
  "load_line cfg line = (let key = trim line in
     if key = [] \<or> hd key = CHR ''#'' then (None, cfg)
     else if CHR ''='' \<notin> set key then (Some EINVAL, cfg)
     else let eq = trim (tl (dropWhile (\<lambda>c. c \<noteq> CHR ''='') key));
              key = trim (takeWhile (\<lambda>c. c \<noteq> CHR ''='') key)
       in if key = [] then (Some EINVAL, cfg)
          else (case path_file_ok key of
              Inl e \<Rightarrow> (Some e, cfg)
            | Inr _ \<Rightarrow> (case parse_value eq of
                Inl e \<Rightarrow> (Some e, cfg)
              | Inr val \<Rightarrow> cfg_set_str cfg key val)))"

section \<open>Loading a file\<close>

function load_loop :: "cfg \<Rightarrow> string \<Rightarrow> cfg result" where
  "load_loop cfg bytes = (case fgets 4096 bytes of
     None \<Rightarrow> Inr cfg
   | Some (line, eof, rest) \<Rightarrow>
       if NL \<notin> set (cstr line) \<and> \<not> eof then Inl E2BIG
       else (case load_line cfg (trim_eol (cstr line)) of
           (Some e, _) \<Rightarrow> Inl e
         | (None, cfg') \<Rightarrow> load_loop cfg' rest))"
  by pat_completeness auto
termination
  by (relation "measure (\<lambda>(cfg, bytes). length bytes)") (auto dest: fgets_decreases)

declare load_loop.simps [simp del]

text \<open>\<open>cfg_load(cfg, path)\<close>: the argument is what \<open>fopen\<close> gives, an error or the bytes of the file.\<close>

definition cfg_load :: "string result \<Rightarrow> cfg result" where
  "cfg_load file = ebind file (load_loop cfg_init)"

section \<open>Writing\<close>

fun quote_loop :: "ofile \<Rightarrow> string \<Rightarrow> ofile result" where
  "quote_loop f [] = Inr f"
| "quote_loop f (c # p) =
     ebind (if c = BSLASH \<or> c = QUOTE then ebind (fputs f [BSLASH]) (\<lambda>f. fputs f [c])
            else if c = NL then fputs f [BSLASH, CHR ''n'']
            else if c = TAB then fputs f [BSLASH, CHR ''t'']
            else fputs f [c])
       (\<lambda>f. quote_loop f p)"

definition quote :: "ofile \<Rightarrow> string \<Rightarrow> ofile result" where
  "quote f s = ebind (fputs f [QUOTE]) (\<lambda>f. ebind (quote_loop f s) (\<lambda>f. fputs f [QUOTE]))"

definition dump_str :: "ofile \<Rightarrow> string \<Rightarrow> string \<Rightarrow> ofile result" where
  "dump_str f lhs val = ebind (fputs f (lhs @ '' = '')) (\<lambda>f. ebind (quote f val) (\<lambda>f. fputs f [NL]))"

fun dump_items :: "ofile \<Rightarrow> cfg_node list \<Rightarrow> string \<Rightarrow> ofile result" where
  "dump_items f [] path = Inr f"
| "dump_items f (c # cs) path =
     (if ntype c \<noteq> CFG_STR then Inl EOPNOTSUPP
      else ebind (dump_str f (path @ ''[]'') (val_or_empty c)) (\<lambda>f. dump_items f cs path))"

definition name_text :: "cfg_node \<Rightarrow> string" where
  "name_text c = (case nname c of Some n \<Rightarrow> n | None \<Rightarrow> ''(null)'')"

definition join_path :: "string \<Rightarrow> string \<Rightarrow> string" where
  "join_path path name = (if path \<noteq> [] then path @ ''.'' @ name else name)"

fun dump_node :: "nat \<Rightarrow> ofile \<Rightarrow> cfg_node \<Rightarrow> string \<Rightarrow> ofile result"
  and dump_objs :: "nat \<Rightarrow> ofile \<Rightarrow> cfg_node list \<Rightarrow> string \<Rightarrow> ofile result" where
  "dump_node sz f (Node t n v cs) path = (case t of
     CFG_STR \<Rightarrow> dump_str f path (val_or_empty (Node t n v cs))
   | CFG_ARR \<Rightarrow> dump_items f cs path
   | CFG_OBJ \<Rightarrow> dump_objs sz f cs path)"
| "dump_objs sz f [] path = Inr f"
| "dump_objs sz f (c # cs) path =
     (if length (join_path path (name_text c)) \<ge> sz then Inl E2BIG
      else ebind (dump_node sz f c (join_path path (name_text c)))
             (\<lambda>f. dump_objs sz f cs path))"

definition cfg_dump_file :: "cfg \<Rightarrow> ofile \<Rightarrow> ofile result" where
  "cfg_dump_file cfg f = dump_node 512 f cfg []"

text \<open>\<open>cfg_dump(cfg, path)\<close>: \<open>fopen\<close>, \<open>fflush\<close> and \<open>fclose\<close> are arguments; the result is the \<open>rc\<close> and
  what is left under \<open>path\<close> (\<open>None\<close>: not created, or removed again).\<close>

definition cfg_dump :: "cfg \<Rightarrow> ofile result \<Rightarrow> errno option \<Rightarrow> errno option \<Rightarrow> errno option \<times> string option" where
  "cfg_dump cfg open flush close = (case open of
     Inl e \<Rightarrow> (Some e, None)
   | Inr f \<Rightarrow> (case cfg_dump_file cfg f of
       Inl e \<Rightarrow> (Some e, None)
     | Inr f' \<Rightarrow> (case (flush, close) of
         (Some e, _) \<Rightarrow> (Some e, None)
       | (None, Some e) \<Rightarrow> (Some e, None)
       | (None, None) \<Rightarrow> (None, Some (obuf f')))))"

section \<open>A quoted value is read back\<close>

definition esc_char :: "char \<Rightarrow> string" where
  "esc_char c = (if c = BSLASH \<or> c = QUOTE then [BSLASH, c]
     else if c = NL then [BSLASH, CHR ''n''] else if c = TAB then [BSLASH, CHR ''t''] else [c])"

definition esc :: "string \<Rightarrow> string" where
  "esc s = concat (map esc_char s)"

definition quoted :: "string \<Rightarrow> string" where
  "quoted s = [QUOTE] @ esc s @ [QUOTE]"

lemma quote_loop_fputs: "quote_loop f s = fputs f (esc s)"
proof (induction s arbitrary: f)
  case Nil
  show ?case by (simp add: esc_def stdio.put_Nil)
next
  case (Cons c s)
  have "quote_loop f (c # s) = ebind (fputs f (esc_char c)) (\<lambda>f. fputs f (esc s))"
    by (simp add: Cons.IH esc_char_def stdio.put_put)
  then show ?case by (simp add: stdio.put_put esc_def)
qed

lemma quote_fputs: "quote f s = fputs f (quoted s)"
  by (simp add: quote_def quote_loop_fputs quoted_def stdio.put_put)

lemma dump_str_fputs: "dump_str f lhs v = fputs f (lhs @ '' = '' @ quoted v @ [NL])"
  by (simp add: dump_str_def quote_fputs stdio.put_put)

lemma unquote_esc_char:
  "unquote (esc_char c @ r) = ebind (unquote r) (\<lambda>(v, t). Inr (c # v, t))"
  by (cases r) (auto simp: esc_char_def)

lemma unquote_quoted: "unquote (esc s @ QUOTE # r) = Inr (s, r)"
proof (induction s)
  case Nil
  show ?case by (cases r) (simp_all add: esc_def)
next
  case (Cons c s)
  have "unquote (esc (c # s) @ QUOTE # r) = unquote (esc_char c @ (esc s @ QUOTE # r))"
    by (simp add: esc_def)
  also have "\<dots> = Inr (c # s, r)" by (simp only: unquote_esc_char Cons.IH) simp
  finally show ?case .
qed

lemma trim_id:
  assumes "s \<noteq> []" and "\<not> is_blank (hd s)" and "\<not> is_blank (last s)"
  shows "trim s = s"
proof -
  have 1: "dropWhile is_blank s = s" using assms(1,2) by (cases s) auto
  have 2: "dropWhile is_blank (rev s) = rev s"
    using assms(1,3) by (cases s rule: rev_cases) auto
  show ?thesis by (simp add: trim_def 1 2)
qed

lemma trim_blank_Cons: "is_blank c \<Longrightarrow> trim (c # s) = trim s"
  by (simp add: trim_def)

lemma trim_snoc_blank: "is_blank c \<Longrightarrow> trim (s @ [c]) = trim s"
proof -
  assume c: "is_blank c"
  show "trim (s @ [c]) = trim s"
  proof (cases "dropWhile is_blank s = []")
    case True
    then have "\<forall>x \<in> set s. is_blank x" by (metis dropWhile_eq_Nil_conv)
    then show ?thesis using c by (simp add: trim_def dropWhile_append3 True)
  next
    case False
    then have "\<exists>x \<in> set s. \<not> is_blank x" by (metis dropWhile_eq_Nil_conv)
    then show ?thesis using c by (auto simp: trim_def dropWhile_append1)
  qed
qed

lemma not_blank_QUOTE [simp]: "\<not> is_blank QUOTE"
  by (simp add: is_blank_def)

lemma trim_quoted [simp]: "trim (quoted v) = quoted v"
  by (intro trim_id) (simp_all add: quoted_def)

lemma parse_value_quoted: "parse_value (quoted v) = Inr v"
proof -
  have "unquote (tl (quoted v)) = Inr (v, [])"
    using unquote_quoted [of v "[]"] by (simp add: quoted_def)
  then show ?thesis by (simp add: parse_value_def trim_def quoted_def [of v])
qed

section \<open>The assignments of a file\<close>

text \<open>The part of \<open>load_line\<close> that only reads the line: no assignment for a blank line or a
  comment, otherwise the tokens and the value.\<close>

definition line_assign :: "string \<Rightarrow> (cfg_tok list \<times> string) option result" where
  "line_assign line = (let key = trim line in
     if key = [] \<or> hd key = CHR ''#'' then Inr None
     else if CHR ''='' \<notin> set key then Inl EINVAL
     else let eq = trim (tl (dropWhile (\<lambda>c. c \<noteq> CHR ''='') key));
              key = trim (takeWhile (\<lambda>c. c \<noteq> CHR ''='') key)
       in if key = [] then Inl EINVAL
          else ebind (path_file_ok key) (\<lambda>_. ebind (parse_value eq) (\<lambda>val.
            ebind (parse_path CFG_PATH_DEPTH_MAX key) (\<lambda>ts. Inr (Some (ts, val))))))"

lemma parse_path_nonempty: "parse_path mx path = Inr ts \<Longrightarrow> path \<noteq> [] \<Longrightarrow> ts \<noteq> []"
  by (auto simp: parse_path_def ebind_Inr_iff split: if_splits)

lemma load_line_assign:
  "load_line cfg line = (case line_assign line of
     Inl e \<Rightarrow> (Some e, cfg)
   | Inr None \<Rightarrow> (None, cfg)
   | Inr (Some (ts, v)) \<Rightarrow> set_toks ts v cfg)"
  unfolding load_line_def line_assign_def cfg_set_str_def path_file_ok_def Let_def
  by (auto split: sum.splits if_splits simp: result_simps dest: parse_path_nonempty)

function file_assigns :: "string \<Rightarrow> (cfg_tok list \<times> string) list result" where
  "file_assigns bytes = (case fgets 4096 bytes of
     None \<Rightarrow> Inr []
   | Some (line, eof, rest) \<Rightarrow>
       if NL \<notin> set (cstr line) \<and> \<not> eof then Inl E2BIG
       else ebind (line_assign (trim_eol (cstr line))) (\<lambda>a.
         ebind (file_assigns rest) (\<lambda>as.
           Inr ((case a of None \<Rightarrow> [] | Some x \<Rightarrow> [x]) @ as))))"
  by pat_completeness auto
termination
  by (relation "measure length") (auto dest: fgets_decreases)

declare file_assigns.simps [simp del]

lemma assign_all_append:
  "tree_store.assign_all (as @ bs) s = (case tree_store.assign_all as s of
     (None, s') \<Rightarrow> tree_store.assign_all bs s' | (Some e, s') \<Rightarrow> (Some e, s'))"
  by (induction as s rule: tree_store.assign_all.induct) (auto split: prod.splits option.splits)

lemma load_loop_assigns:
  "load_loop cfg bytes = Inr cfg' \<longleftrightarrow>
     (\<exists>as. file_assigns bytes = Inr as \<and> tree_store.assign_all as cfg = (None, cfg'))"
proof (induction cfg bytes rule: load_loop.induct)
  case (1 cfg bytes)
  show ?case
  proof (cases "fgets 4096 bytes")
    case None
    then show ?thesis by (auto simp: load_loop.simps [of cfg] file_assigns.simps [of bytes])
  next
    case (Some t)
    then obtain line eof rest where t: "fgets 4096 bytes = Some (line, eof, rest)"
      by (cases t) auto
    show ?thesis
    proof (cases "NL \<notin> set (cstr line) \<and> \<not> eof")
      case True
      then show ?thesis using t
        by (simp add: load_loop.simps [of cfg bytes] file_assigns.simps [of bytes])
    next
      case ok: False
      note IH = "1.IH" [OF t refl refl ok]
      show ?thesis
      proof (cases "line_assign (trim_eol (cstr line))")
        case (Inl e)
        then show ?thesis using t ok
          by (simp add: load_loop.simps [of cfg bytes] file_assigns.simps [of bytes] load_line_assign)
      next
        case (Inr a)
        show ?thesis
        proof (cases a)
          case None
          then have "load_line cfg (trim_eol (cstr line)) = (None, cfg)"
            using Inr by (simp add: load_line_assign)
          then show ?thesis using t ok Inr None IH
            by (auto simp: load_loop.simps [of cfg bytes] file_assigns.simps [of bytes]
                ebind_Inr_iff)
        next
          case (Some x)
          obtain ts v where x: "x = (ts, v)" by (cases x)
          then have ll: "load_line cfg (trim_eol (cstr line)) = set_toks ts v cfg"
            using Inr Some by (simp add: load_line_assign)
          obtain rc c1 where st: "set_toks ts v cfg = (rc, c1)" by (cases "set_toks ts v cfg")
          show ?thesis
          proof (cases rc)
            case rc: None
            have "load_loop c1 rest = Inr cfg' \<longleftrightarrow> (\<exists>as. file_assigns rest = Inr as
                \<and> tree_store.assign_all as c1 = (None, cfg'))"
              using IH ll st rc by auto
            then show ?thesis
              using t ok Inr Some x ll st rc
              by (auto simp: load_loop.simps [of cfg bytes] file_assigns.simps [of bytes]
                  ebind_Inr_iff)
          next
            case rc: (Some e)
            then show ?thesis using t ok Inr Some x ll st
              by (auto simp: load_loop.simps [of cfg bytes] file_assigns.simps [of bytes]
                  ebind_Inr_iff)
          qed
        qed
      qed
    qed
  qed
qed

end
