(* ===== verification/Cfg_Roundtrip.thy ===== *)
theory Cfg_Roundtrip
  imports Cfg_File
begin

text \<open>
  Dumping a configuration and loading the file again. A dump is one line per leaf, in the
  order of the tree (\<open>leaves\<close>); loading replays these lines as assignments; replaying the leaves
  of a well-formed tree rebuilds it, without the containers that hold no value (\<open>canon\<close>).
\<close>

section \<open>Leaves\<close>

fun leaves :: "cfg_node \<Rightarrow> (cfg_tok list \<times> string) list" where
  "leaves (Node t n v cs) = (case t of
     CFG_STR \<Rightarrow> [([], val_or_empty (Node t n v cs))]
   | CFG_ARR \<Rightarrow> map (\<lambda>c. ([TokAppend], val_or_empty c)) cs
   | CFG_OBJ \<Rightarrow> concat (map (\<lambda>c. map (\<lambda>(ts, v). (TokKey (name_text c) # ts, v)) (leaves c)) cs))"

fun canon :: "cfg_node \<Rightarrow> cfg_node" where
  "canon (Node t n v cs) =
     Node t n v (if t = CFG_OBJ then filter (\<lambda>c. leaves c \<noteq> []) (map canon cs) else cs)"

abbreviation under :: "string \<Rightarrow> (cfg_tok list \<times> string) list \<Rightarrow> (cfg_tok list \<times> string) list" where
  "under k ls \<equiv> map (\<lambda>(ts, v). (TokKey k # ts, v)) ls"

definition line_text :: "cfg_tok list \<times> string \<Rightarrow> string" where
  "line_text a = (case a of (ts, v) \<Rightarrow> path_text ts @ '' = '' @ quoted v @ [NL])"

lemma leaves_obj:
  "ntype n = CFG_OBJ \<Longrightarrow> leaves n = concat (map (\<lambda>c. under (name_text c) (leaves c)) (nchild n))"
  by (cases n) simp

lemma leaves_arr:
  "ntype n = CFG_ARR \<Longrightarrow> leaves n = map (\<lambda>c. ([TokAppend], val_or_empty c)) (nchild n)"
  by (cases n) simp

lemma leaves_str: "ntype n = CFG_STR \<Longrightarrow> leaves n = [([], val_or_empty n)]"
  by (cases n) simp

lemma canon_root [simp]: "ntype (canon n) = ntype n" "nname (canon n) = nname n"
  by (cases n; simp)+

section \<open>The text of a dump\<close>

lemma path_text_snoc:
  "join_path (path_text (map TokKey ks)) k = path_text (map TokKey (ks @ [k]))"
  if "\<And>j. j \<in> set ks \<Longrightarrow> j \<noteq> []"
proof (cases ks)
  case Nil
  then show ?thesis by (simp add: join_path_def path_text_def)
next
  case (Cons j js)
  with that have "j \<noteq> []" by simp
  then show ?thesis using Cons by (simp add: join_path_def path_text_def)
qed

lemma path_text_append: "ks \<noteq> [] \<Longrightarrow>
  path_text (map TokKey ks) @ ''[]'' = path_text (map TokKey ks @ [TokAppend])"
  by (cases ks) (simp_all add: path_text_def)

lemma dump_items_text:
  assumes "ks \<noteq> []" and "dump_items f cs (path_text (map TokKey ks)) = Inr f'"
  shows "obuf f' = obuf f @ concat (map line_text
    (map (\<lambda>c. (map TokKey ks @ [TokAppend], val_or_empty c)) cs))"
  using assms(2)
proof (induction cs arbitrary: f)
  case (Cons c cs)
  then obtain f1 where f1: "dump_str f (path_text (map TokKey ks) @ ''[]'') (val_or_empty c) = Inr f1"
    and r: "dump_items f1 cs (path_text (map TokKey ks)) = Inr f'"
    by (auto simp: ebind_Inr_iff split: if_splits)
  have "obuf f1 = obuf f @ line_text (map TokKey ks @ [TokAppend], val_or_empty c)"
    using fputs_obuf [OF f1 [unfolded dump_str_fputs]] assms(1)
    by (simp add: line_text_def path_text_append [symmetric])
  with Cons.IH [OF r] show ?case by simp
qed simp

abbreviation lines_under :: "string list \<Rightarrow> (cfg_tok list \<times> string) list \<Rightarrow> string" where
  "lines_under ks ls \<equiv> concat (map (\<lambda>(ts, v). line_text (map TokKey ks @ ts, v)) ls)"

lemma lines_under_snoc: "lines_under (ks @ [k]) ls = lines_under ks (under k ls)"
  by (simp add: comp_def case_prod_unfold)

lemma dump_node_text:
  shows "dump_node sz f n p = Inr f' \<Longrightarrow> p = path_text (map TokKey ks) \<Longrightarrow> node_wf n \<Longrightarrow>
     [] \<notin> set ks \<Longrightarrow> ks \<noteq> [] \<or> ntype n = CFG_OBJ \<Longrightarrow>
     obuf f' = obuf f @ lines_under ks (leaves n)"
    and "dump_objs sz f cs p = Inr f' \<Longrightarrow> p = path_text (map TokKey ks) \<Longrightarrow> list_all node_wf cs \<Longrightarrow>
     list_all (\<lambda>c. case nname c of None \<Rightarrow> False | Some k \<Rightarrow> key_ok k) cs \<Longrightarrow> [] \<notin> set ks \<Longrightarrow>
     obuf f' = obuf f @ lines_under ks (concat (map (\<lambda>c. under (name_text c) (leaves c)) cs))"
proof (induction sz f n p and sz f cs p arbitrary: ks f' and ks f' rule: dump_node_dump_objs.induct)
  case (1 sz f t n v cs p)
  show ?case
  proof (cases t)
    case CFG_OBJ
    with "1.prems" "1.IH" [OF CFG_OBJ _ "1.prems"(2)] show ?thesis by simp
  next
    case CFG_ARR
    with "1.prems" have "ks \<noteq> []" and "dump_items f cs (path_text (map TokKey ks)) = Inr f'" by auto
    from dump_items_text [OF this] CFG_ARR show ?thesis by (simp add: comp_def)
  next
    case CFG_STR
    with "1.prems" have "fputs f (line_text (map TokKey ks, val_or_empty (Node t n v cs))) = Inr f'"
      by (simp add: dump_str_fputs line_text_def)
    from fputs_obuf [OF this] CFG_STR show ?thesis by simp
  qed
next
  case (2 sz f p)
  then show ?case by simp
next
  case (3 sz f c cs p)
  from "3.prems"(4) have key: "name_text c \<noteq> []"
    by (auto simp: name_text_def key_ok_def split: option.splits)
  from "3.prems"(1) obtain f1 where len: "\<not> length (join_path p (name_text c)) \<ge> sz"
    and f1: "dump_node sz f c (join_path p (name_text c)) = Inr f1"
    and r: "dump_objs sz f1 cs p = Inr f'"
    by (auto simp: ebind_Inr_iff split: if_splits)
  have p: "join_path p (name_text c) = path_text (map TokKey (ks @ [name_text c]))"
    unfolding "3.prems"(2) using "3.prems"(5) by (intro path_text_snoc) auto
  have "obuf f1 = obuf f @ lines_under (ks @ [name_text c]) (leaves c)"
    using "3.IH"(1) [OF len f1 p] "3.prems" key by simp
  note this [unfolded lines_under_snoc]
  moreover have "obuf f' = obuf f1 @ lines_under ks (concat (map (\<lambda>c. under (name_text c) (leaves c)) cs))"
    using "3.IH"(2) [OF len f1 r "3.prems"(2)] "3.prems" by simp
  ultimately show ?case by simp
qed

section \<open>Replaying the leaves\<close>

lemma assign_under_existing:
  assumes "obj_find cur k = Some d" and "\<forall>(ts, v) \<in> set ls. ts \<noteq> [] \<and> tok_want (hd ts) = ntype d"
  shows "tree_store.assign_all (under k ls) cur = (case tree_store.assign_all ls d of
     (rc, d') \<Rightarrow> (rc, with_child cur (upd_first (named k) d' (nchild cur))))"
  using assms
proof (induction ls arbitrary: cur d)
  case Nil
  then show ?case using obj_find_Some [OF Nil(1)] by (simp add: upd_first_find_id)
next
  case (Cons a ls)
  obtain ts v where a: "a = (ts, v)" by (cases a)
  with Cons.prems(2) have ts: "ts \<noteq> []" "tok_want (hd ts) = ntype d" by auto
  obtain rc d1 where d1: "set_toks ts v d = (rc, d1)" by (cases "set_toks ts v d")
  let ?cur1 = "with_child cur (upd_first (named k) d1 (nchild cur))"
  have st: "set_toks (TokKey k # ts) v cur = (rc, ?cur1)"
    using ts d1 Cons.prems(1) obj_find_Some [OF Cons.prems(1)] by (simp add: set_toks_key)
  have n: "nname d1 = Some k" "ntype d1 = ntype d"
    using set_toks_root [OF d1] obj_find_Some [OF Cons.prems(1)] by auto
  show ?case
  proof (cases rc)
    case None
    have "obj_find ?cur1 k = Some d1" using obj_find_upd_first [OF Cons.prems(1) n(1)] by simp
    moreover have "upd_first (named k) d' (upd_first (named k) d1 xs) = upd_first (named k) d' xs" for d' xs
      using n(1) by (induction xs) auto
    ultimately show ?thesis
      using Cons.IH [of ?cur1 d1] Cons.prems(2) n a st d1 None
      by (auto simp: with_child_def split: prod.splits)
  next
    case (Some e)
    then show ?thesis using a st d1 by simp
  qed
qed

lemma assign_under_new:
  assumes "ntype cur = CFG_OBJ" and "obj_find cur k = None" and "ls \<noteq> []" and "t \<noteq> CFG_STR"
    and "\<forall>(ts, v) \<in> set ls. ts \<noteq> [] \<and> tok_want (hd ts) = t"
  shows "tree_store.assign_all (under k ls) cur =
    (case tree_store.assign_all ls (node_new t (Some k)) of (rc, d') \<Rightarrow> (rc, child_add cur d'))"
proof -
  obtain ts v ls' where ls: "ls = (ts, v) # ls'" using assms(3) by (cases ls) auto
  with assms(5) have ts: "ts \<noteq> []" "tok_want (hd ts) = t" by auto
  obtain rc d1 where d1: "set_toks ts v (node_new t (Some k)) = (rc, d1)"
    by (cases "set_toks ts v (node_new t (Some k))")
  have st: "set_toks (TokKey k # ts) v cur = (rc, child_add cur d1)"
    using ts d1 assms(1,2) by (simp add: set_toks_key)
  have n: "nname d1 = Some k" "ntype d1 = t" using set_toks_root [OF d1] by auto
  show ?thesis
  proof (cases rc)
    case None
    have f: "obj_find (child_add cur d1) k = Some d1"
      using obj_find_child_add [OF assms(1,2) n(1)] by simp
    have none: "List.find (named k) (nchild cur) = None" using assms(1,2) by (simp add: obj_find_def)
    have "with_child (child_add cur d1) (upd_first (named k) d' (nchild cur @ [d1])) = child_add cur d'" for d'
      using upd_first_last [OF none, of d1 d'] n(1) by (simp add: child_add_def with_child_def)
    then show ?thesis
      using assign_under_existing [OF f, of ls'] assms(5) n ls st d1 None
      by (auto split: prod.splits)
  next
    case (Some e)
    then show ?thesis using ls st d1 by simp
  qed
qed

lemma leaves_tok_want:
  "ntype n \<noteq> CFG_STR \<Longrightarrow> \<forall>(ts, v) \<in> set (leaves n). ts \<noteq> [] \<and> tok_want (hd ts) = ntype n"
  by (cases "ntype n") (auto simp: leaves_obj leaves_arr tok_want_def)

lemma canon_str: "ntype n = CFG_STR \<Longrightarrow> canon n = n"
  by (cases n) simp

lemma canon_arr: "ntype n = CFG_ARR \<Longrightarrow> canon n = n"
  by (cases n) simp

lemma assign_appends:
  "ntype cur = CFG_ARR \<Longrightarrow> list_all (\<lambda>c. nname c = None \<and> ntype c = CFG_STR \<and> node_wf c) cs \<Longrightarrow>
   tree_store.assign_all (map (\<lambda>c. ([TokAppend], val_or_empty c)) cs) cur
     = (None, with_child cur (nchild cur @ cs))"
proof (induction cs arbitrary: cur)
  case (Cons c cs)
  then have c: "with_val (node_new CFG_STR None) (val_or_empty c) = c"
    by (cases c) (auto simp: with_val_def val_or_empty_def)
  then show ?case
    using Cons by (simp add: set_arr_append_def child_add_def)
      (simp add: with_child_def)
qed simp

lemma leaves_canon: "leaves (canon n) = leaves n"
proof (induction n)
  case (Node t n v cs)
  show ?case
  proof (cases t)
    case CFG_OBJ
    have nt: "name_text (canon c) = name_text c" for c by (simp add: name_text_def)
    have "concat (map (\<lambda>c. under (name_text c) (leaves c)) (filter (\<lambda>c. leaves c \<noteq> []) (map canon ds)))
        = concat (map (\<lambda>c. under (name_text c) (leaves c)) ds)" if "set ds \<subseteq> set cs" for ds
      using that Node.IH by (induction ds) (auto simp: nt)
    then show ?thesis using CFG_OBJ by simp
  qed (auto simp: val_or_empty_def)
qed

text \<open>Adding the children of an object one after the other.\<close>

lemma assign_children:
  assumes "ntype cur = CFG_OBJ" and "distinct (map nname (nchild cur @ cs))"
    and "list_all (\<lambda>c. nname c \<noteq> None \<and> node_wf c) cs"
    and "\<And>c. c \<in> set cs \<Longrightarrow> ntype c \<noteq> CFG_STR \<Longrightarrow>
      tree_store.assign_all (leaves c) (node_new (ntype c) (nname c)) = (None, canon c)"
  shows "tree_store.assign_all (concat (map (\<lambda>c. under (name_text c) (leaves c)) cs)) cur =
    (None, with_child cur (nchild cur @ filter (\<lambda>c. leaves c \<noteq> []) (map canon cs)))"
  using assms
proof (induction cs arbitrary: cur)
  case (Cons c cs)
  obtain k where k: "nname c = Some k" using Cons.prems(3) by auto
  have none: "obj_find cur k = None"
    using Cons.prems(1,2) k by (auto simp: obj_find_None image_iff)
  define new where "new = (if leaves c \<noteq> [] then child_add cur (canon c) else cur)"
  have step: "tree_store.assign_all (under (name_text c) (leaves c)) cur = (None, new)"
  proof (cases "ntype c = CFG_STR")
    case True
    then have "with_val (node_new CFG_STR (Some k)) (val_or_empty c) = c"
      using Cons.prems(3) k by (cases c) (auto simp: with_val_def val_or_empty_def)
    then show ?thesis
      using True k none Cons.prems(1)
      by (simp add: new_def leaves_str canon_str name_text_def set_str_plain_def)
  next
    case False
    then show ?thesis
      using assign_under_new [OF Cons.prems(1) none _ False leaves_tok_want [OF False]]
        Cons.prems(4) [of c] k
      by (auto simp: new_def name_text_def)
  qed
  have new: "ntype new = CFG_OBJ" "distinct (map nname (nchild new @ cs))"
    using Cons.prems(1,2) by (auto simp: new_def)
  have "tree_store.assign_all (concat (map (\<lambda>c. under (name_text c) (leaves c)) cs)) new =
      (None, with_child new (nchild new @ filter (\<lambda>c. leaves c \<noteq> []) (map canon cs)))"
    using Cons.IH [OF new] Cons.prems(3,4) by simp
  with step show ?case
    by (auto simp: assign_all_append new_def with_child_def child_add_def leaves_canon)
qed simp

lemma assign_leaves:
  "node_wf n \<Longrightarrow> ntype n \<noteq> CFG_STR \<Longrightarrow>
     tree_store.assign_all (leaves n) (node_new (ntype n) (nname n)) = (None, canon n)"
proof (induction n)
  case (Node t nm v cs)
  show ?case
  proof (cases t)
    case CFG_OBJ
    have cs: "list_all (\<lambda>c. nname c \<noteq> None \<and> node_wf c) cs"
      using Node.prems(1) CFG_OBJ by (auto simp: list_all_iff split: option.splits)
    have "tree_store.assign_all (concat (map (\<lambda>c. under (name_text c) (leaves c)) cs)) (node_new CFG_OBJ nm)
        = (None, with_child (node_new CFG_OBJ nm) ([] @ filter (\<lambda>c. leaves c \<noteq> []) (map canon cs)))"
      using assign_children [of "node_new CFG_OBJ nm" cs] cs Node CFG_OBJ
      by (auto simp: list_all_iff)
    then show ?thesis using CFG_OBJ Node.prems(1) by (simp add: with_child_def)
  next
    case CFG_ARR
    then show ?thesis
      using Node.prems(1) assign_appends [of "node_new CFG_ARR nm" cs]
      by (simp add: list_all_iff with_child_def)
  next
    case CFG_STR
    then show ?thesis using Node.prems by simp
  qed
qed

section \<open>Reading the lines back\<close>

text \<open>A path that a file may hold: keys, and \<open>[]\<close> at the end.\<close>

definition line_ok :: "cfg_tok list \<times> string \<Rightarrow> bool" where
  "line_ok a = (case a of (ts, v) \<Rightarrow> ts \<noteq> [] \<and> path_ok CFG_PATH_DEPTH_MAX ts \<and> file_toks_ok ts
     \<and> no_nul v \<and> length (line_text a) < 4096)"

lemma file_path_chars:
  assumes "file_toks_ok ts" and "list_all tok_ok ts" and "c \<in> set (concat (map tok_text ts))"
  shows "is_key_char c \<or> c = CHR ''.'' \<or> c = CHR ''['' \<or> c = CHR '']''"
  using assms
proof (induction ts)
  case (Cons t ts)
  then show ?case
    by (cases t) (auto simp: key_ok_def list_all_iff)
qed simp

lemma file_path_clean:
  assumes "file_toks_ok ts" and "list_all tok_ok ts" and "c \<in> set (path_text ts)"
  shows "c \<noteq> NUL" "c \<noteq> NL" "c \<noteq> CHR ''=''" "c \<noteq> CHR ''#''" "\<not> is_blank c"
proof -
  have "c \<in> set (concat (map tok_text ts))"
    using assms(3) unfolding path_text_def by (cases "concat (map tok_text ts)") auto
  from file_path_chars [OF assms(1,2) this]
  show "c \<noteq> NUL" "c \<noteq> NL" "c \<noteq> CHR ''=''" "c \<noteq> CHR ''#''" "\<not> is_blank c"
    by (auto simp: is_blank_def is_key_char_def c_isalnum_def c_isalpha_def c_isdigit_def)
qed

lemma esc_clean: "no_nul v \<Longrightarrow> NUL \<notin> set (esc v) \<and> NL \<notin> set (esc v)"
  by (induction v) (auto simp: esc_def esc_char_def)

lemma path_text_hd:
  assumes "ts \<noteq> []" and "path_ok mx ts"
  shows "path_text ts \<noteq> [] \<and> hd (path_text ts) \<in> set (path_text ts)"
  using assms by (cases ts) (auto simp: path_ok_def path_text_def key_ok_def)

lemma line_assign_text:
  assumes "line_ok (ts, v)"
  shows "line_assign (path_text ts @ '' = '' @ quoted v) = Inr (Some (ts, v))"
proof -
  from assms have ts: "ts \<noteq> []" "path_ok CFG_PATH_DEPTH_MAX ts" "file_toks_ok ts" "list_all tok_ok ts"
    by (auto simp: line_ok_def path_ok_def)
  note clean = file_path_clean [OF ts(3,4)]
  note hd = path_text_hd [OF ts(1,2)]
  let ?l = "path_text ts @ '' = '' @ quoted v"
  have t: "trim ?l = ?l"
    using hd clean(5) by (intro trim_id) (auto simp: quoted_def)
  have "\<not> is_blank (last (path_text ts))" using hd clean(5) last_in_set by blast
  then have tp: "trim (path_text ts) = path_text ts" using hd clean(5) by (intro trim_id) auto
  have tk: "takeWhile (\<lambda>c. c \<noteq> CHR ''='') ?l = path_text ts @ '' ''"
    using takeWhile_stop [of "path_text ts @ '' ''" "\<lambda>c. c \<noteq> CHR ''=''" "CHR ''=''" "'' '' @ quoted v"]
      clean(3) by auto
  have dk: "dropWhile (\<lambda>c. c \<noteq> CHR ''='') ?l = ''= '' @ quoted v"
    using dropWhile_stop [of "path_text ts @ '' ''" "\<lambda>c. c \<noteq> CHR ''=''" "CHR ''=''" "'' '' @ quoted v"]
      clean(3) by auto
  have bl: "is_blank (CHR '' '')" by (simp add: is_blank_def)
  have pp: "parse_path CFG_PATH_DEPTH_MAX (path_text ts) = Inr ts" using ts(2) by (rule parse_path_text)
  have "hd ?l \<noteq> CHR ''#''" using hd clean(4) by auto
  then show ?thesis
    unfolding line_assign_def Let_def t tk dk
    using hd pp ts(3) trim_snoc_blank [OF bl, of "path_text ts"] tp
      trim_blank_Cons [OF bl, of "quoted v"]
    by (simp add: path_file_ok_def parse_value_quoted)
qed

lemma file_assigns_text:
  "list_all line_ok ls \<Longrightarrow> file_assigns (concat (map line_text ls)) = Inr ls"
proof (induction ls)
  case Nil
  show ?case by (simp add: file_assigns.simps fgets_def)
next
  case (Cons a ls)
  obtain ts v where a: "a = (ts, v)" by (cases a)
  let ?l = "path_text ts @ '' = '' @ quoted v" and ?r = "concat (map line_text ls)"
  from Cons.prems a have ok: "line_ok (ts, v)" by simp
  then have ts: "file_toks_ok ts" "list_all tok_ok ts" and len: "Suc (length ?l) < 4096"
    and v: "no_nul v"
    by (auto simp: line_ok_def path_ok_def line_text_def)
  have nl: "NL \<notin> set ?l" and nul: "no_nul (?l @ [NL])"
    using file_path_clean [OF ts] esc_clean [OF v] by (auto simp: quoted_def no_nul_def)
  have "fgets 4096 (line_text a @ ?r) = Some (?l @ [NL], False, ?r)"
    using fgets_line [OF nl len, of ?r] a by (simp add: line_text_def)
  moreover have "cstr (?l @ [NL]) = ?l @ [NL]" using nul by (rule cstr_id)
  moreover have "trim_eol (?l @ [NL]) = ?l" by (simp add: trim_eol_def is_eol_def quoted_def)
  ultimately show ?case
    using Cons line_assign_text [OF ok] a by (simp add: file_assigns.simps [of "line_text (ts, v) @ ?r"])
qed

section \<open>The round trip\<close>

text \<open>The leaves of a tree that the file format can hold: no NUL in a value, at most 64
  tokens in a path, at most 4095 bytes in a line.\<close>

definition fits_file :: "cfg_node \<Rightarrow> bool" where
  "fits_file n = list_all (\<lambda>(ts, v). length ts \<le> CFG_PATH_DEPTH_MAX \<and> no_nul v
     \<and> length (line_text (ts, v)) < 4096) (leaves n)"

lemma leaves_toks:
  "node_wf n \<Longrightarrow> (ts, v) \<in> set (leaves n) \<Longrightarrow> list_all tok_ok ts \<and> file_toks_ok ts"
proof (induction n arbitrary: ts)
  case (Node t nm w cs)
  then show ?case
    by (cases t) (fastforce simp: list_all_iff name_text_def split: option.splits)+
qed

lemma leaves_lines_ok:
  assumes "node_wf n" and "ntype n = CFG_OBJ" and "fits_file n"
  shows "list_all line_ok (leaves n)"
proof -
  have "line_ok (ts, v)" if "(ts, v) \<in> set (leaves n)" for ts v
    using leaves_toks [OF assms(1) that] leaves_tok_want [of n] that assms(2,3)
    by (fastforce simp: line_ok_def path_ok_def fits_file_def list_all_iff tok_want_def
        split: cfg_tok.splits)
  then show ?thesis by (auto simp: list_all_iff)
qed

lemma dump_load:
  assumes wf: "node_wf cfg" "ntype cfg = CFG_OBJ" "nname cfg = None" and fits: "fits_file cfg"
    and dump: "cfg_dump_file cfg f = Inr f'" and empty: "obuf f = []"
  shows "cfg_load (Inr (obuf f')) = Inr (canon cfg)"
proof -
  have "obuf f' = lines_under [] (leaves cfg)"
    using dump_node_text(1) [OF dump [unfolded cfg_dump_file_def], of "[]"] wf(1,2) empty
    by (simp add: path_text_def)
  then have "obuf f' = concat (map line_text (leaves cfg))" by simp
  then have "file_assigns (obuf f') = Inr (leaves cfg)"
    using file_assigns_text leaves_lines_ok [OF wf(1,2) fits] by simp
  moreover have "tree_store.assign_all (leaves cfg) cfg_init = (None, canon cfg)"
    using assign_leaves [OF wf(1)] wf(2,3) by (simp add: cfg_init_def node_new_def)
  ultimately show ?thesis
    using load_loop_assigns [of cfg_init "obuf f'" "canon cfg"] by (simp add: cfg_load_def)
qed

end
