(* ===== verification/Cfg_Api.thy ===== *)
theory Cfg_Api
  imports Cfg_Roundtrip "HOL-Library.Sublist"
begin

text \<open>
  What a client of \<open>cfg.h\<close> relies on, stated for the functions of the interface with paths as
  text: the invariant of every tree the interface can build, get after set, the frame of
  assignments and deletions, appending, and the round trip through a file.
\<close>

section \<open>Trees that the interface can build\<close>

inductive cfg_reach :: "cfg \<Rightarrow> bool" where
  reach_init: "cfg_reach cfg_init"
| reach_set: "cfg_reach cfg \<Longrightarrow> cfg_set_str cfg path v = (rc, cfg') \<Longrightarrow> cfg_reach cfg'"
| reach_del: "cfg_reach cfg \<Longrightarrow> cfg_del cfg path = (rc, cfg') \<Longrightarrow> cfg_reach cfg'"
| reach_load: "cfg_load bytes = Inr cfg \<Longrightarrow> cfg_reach cfg"

definition root_wf :: "cfg \<Rightarrow> bool" where
  "root_wf cfg \<longleftrightarrow> node_wf cfg \<and> ntype cfg = CFG_OBJ \<and> nname cfg = None"

lemma root_wf_set: "set_toks ts v cfg = (rc, cfg') \<Longrightarrow> list_all tok_ok ts \<Longrightarrow> root_wf cfg \<Longrightarrow> root_wf cfg'"
  by (auto simp: root_wf_def dest: set_toks_root intro: set_toks_wf)

lemma root_wf_cfg_set: "cfg_set_str cfg path v = (rc, cfg') \<Longrightarrow> root_wf cfg \<Longrightarrow> root_wf cfg'"
  by (auto simp: cfg_set_str_def path_ok_def split: sum.splits if_splits
      dest!: parse_path_Inr intro: root_wf_set)

lemma root_wf_cfg_del: "cfg_del cfg path = (rc, cfg') \<Longrightarrow> root_wf cfg \<Longrightarrow> root_wf cfg'"
  by (auto simp: cfg_del_def root_wf_def split: sum.splits if_splits dest: del_toks_root intro: del_toks_wf)

lemma load_line_set:
  "load_line cfg line = (rc, cfg') \<Longrightarrow> cfg' = cfg \<or> (\<exists>path v. cfg_set_str cfg path v = (rc, cfg'))"
  by (auto simp: load_line_def Let_def split: if_splits sum.splits)

lemma root_wf_load_loop: "load_loop cfg bytes = Inr cfg' \<Longrightarrow> root_wf cfg \<Longrightarrow> root_wf cfg'"
proof (induction cfg bytes rule: load_loop.induct)
  case (1 cfg bytes)
  show ?case
  proof (cases "fgets 4096 bytes")
    case None
    with 1 show ?thesis by (simp add: load_loop.simps [of cfg])
  next
    case (Some x)
    obtain line eof rest where x: "x = (line, eof, rest)" by (cases x) auto
    with Some "1.prems"(1) obtain cfg1 where
      l: "load_line cfg (trim_eol (cstr line)) = (None, cfg1)" "load_loop cfg1 rest = Inr cfg'"
      "\<not> (NL \<notin> set (cstr line) \<and> \<not> eof)"
      by (auto simp: load_loop.simps [of cfg] split: if_splits prod.splits option.splits)
    then have "root_wf cfg1" using load_line_set [OF l(1)] "1.prems"(2) root_wf_cfg_set by auto
    with "1.IH" [OF Some x [symmetric] refl l(3) l(1) [symmetric] refl l(2)] show ?thesis by simp
  qed
qed

lemma root_wf_init: "root_wf cfg_init"
  by (simp add: root_wf_def cfg_init_def)

lemma cfg_reach_wf: "cfg_reach cfg \<Longrightarrow> root_wf cfg"
proof (induction rule: cfg_reach.induct)
  case (reach_load bytes cfg)
  then show ?case
    using root_wf_load_loop root_wf_init by (auto simp: cfg_load_def ebind_Inr_iff)
qed (auto intro: root_wf_init root_wf_cfg_set root_wf_cfg_del)

section \<open>Reading through the text of a path\<close>

lemma cfg_get_str_text:
  assumes "path_ok CFG_PATH_DEPTH_MAX ts"
  shows "cfg_get_str cfg (path_text ts) = Inr s \<longleftrightarrow> val_at cfg ts = Some s"
  by (rule cfg_get_str_val_at [OF parse_path_text [OF assms]])

lemma read_toks_ok: "path_ok mx ts \<Longrightarrow> path_ok mx (read_toks ts)"
proof -
  have "length (read_toks ts) = length ts" for ts by (induction ts) auto
  moreover have "list_all tok_ok ts \<Longrightarrow> list_all tok_ok (read_toks ts)" for ts
    by (induction ts) (auto simp: INT_MIN_def INT_MAX_def)
  moreover have "hd ts = TokKey k \<Longrightarrow> ts \<noteq> [] \<Longrightarrow> hd (read_toks ts) = TokKey k" for ts k
    by (cases ts) auto
  ultimately show "path_ok mx ts \<Longrightarrow> path_ok mx (read_toks ts)"
    by (fastforce simp: path_ok_def)
qed

lemma read_toks_same: "last ts \<noteq> TokAppend \<Longrightarrow> read_toks ts = ts"
  by (induction ts) (auto split: if_splits)

text \<open>A path of keys.\<close>

definition keys_ok :: "string list \<Rightarrow> bool" where
  "keys_ok ks \<longleftrightarrow> ks \<noteq> [] \<and> length ks \<le> CFG_PATH_DEPTH_MAX \<and> list_all key_ok ks"

definition key_text :: "string list \<Rightarrow> string" where
  "key_text ks = path_text (map TokKey ks)"

lemma keys_path_ok: "keys_ok ks \<Longrightarrow> path_ok CFG_PATH_DEPTH_MAX (map TokKey ks)"
  by (auto simp: keys_ok_def path_ok_def list_all_iff hd_map)

lemma cfg_get_str_keys:
  "keys_ok ks \<Longrightarrow> cfg_get_str cfg (key_text ks) = Inr s \<longleftrightarrow> val_at cfg (map TokKey ks) = Some s"
  unfolding key_text_def by (rule cfg_get_str_text [OF keys_path_ok])

lemma cfg_set_str_toks:
  assumes "cfg_set_str cfg path v = (rc, cfg')"
  shows "(\<exists>ts. parse_path CFG_PATH_DEPTH_MAX path = Inr ts \<and> set_toks ts v cfg = (rc, cfg'))
    \<or> (rc \<noteq> None \<and> cfg' = cfg)"
  using assms by (auto simp: cfg_set_str_def split: sum.splits if_splits)

section \<open>Deletion leaves the other keys\<close>

lemma find_named_del_first:
  "j \<noteq> k \<Longrightarrow> List.find (named j) (del_first (named k) cs) = List.find (named j) cs"
  by (induction cs) auto

lemma val_at_del_other:
  "del_toks (map TokKey ks) cur = (None, cur') \<Longrightarrow> \<not> prefix ks q \<Longrightarrow>
     val_at cur' (map TokKey q) = val_at cur (map TokKey q)"
proof (induction ks arbitrary: cur cur' q)
  case (Cons k ks)
  show ?case
  proof (cases "ks = []")
    case True
    with Cons.prems have cur': "cur' = with_child cur (del_first (named k) (nchild cur))"
      and obj: "ntype cur = CFG_OBJ"
      by (auto simp: del_plain_def split: if_splits)
    with True Cons.prems(2) show ?thesis
      by (cases q) (auto simp: obj_find_def find_named_del_first)
  next
    case False
    then obtain c c' where c: "obj_find cur k = Some c"
      and r: "del_toks (map TokKey ks) c = (None, c')" and obj: "ntype cur = CFG_OBJ"
      and cur': "cur' = with_child cur (upd_first (named k) c' (nchild cur))"
      using Cons.prems(1) by (auto simp: del_toks_key split: if_splits option.splits prod.splits)
    have "nname c' = Some k" using del_toks_root [OF r] obj_find_Some [OF c] by simp
    then show ?thesis
      using cur' c obj Cons.IH [OF r] Cons.prems(2)
      by (cases q) (auto simp: obj_find_upd_first)
  qed
qed simp

section \<open>Dropping empty containers keeps every value\<close>

lemma leaves_Nil_val_at: "leaves n = [] \<Longrightarrow> node_wf n \<Longrightarrow> val_at n q = None"
proof (induction n arbitrary: q)
  case (Node t nm v cs)
  show ?case
  proof (cases q)
    case Nil
    with Node.prems(1) show ?thesis by (cases t) simp_all
  next
    case (Cons x xs)
    show ?thesis
    proof (cases x)
      case (TokKey k)
      then show ?thesis
        using Cons Node by (cases t)
          (auto simp: obj_find_def find_Some_iff list_all_iff split: option.splits)
    next
      case (TokIndex i)
      then show ?thesis
        using Cons Node.prems(1) by (cases t) (auto simp: arr_idx_def split: sum.splits)
    qed (simp add: Cons)
  qed
qed

lemma find_canon:
  "distinct (map nname cs) \<Longrightarrow>
   List.find (named k) (filter (\<lambda>c. leaves c \<noteq> []) (map canon cs)) =
     (case List.find (named k) cs of None \<Rightarrow> None | Some c \<Rightarrow> if leaves c = [] then None else Some (canon c))"
proof (induction cs)
  case (Cons c cs)
  show ?case
  proof (cases "named k c")
    case True
    then have "List.find (named k) cs = None"
      using Cons.prems by (auto simp: find_None_iff image_iff)
    with True Cons show ?thesis by (simp add: leaves_canon)
  qed (use Cons in \<open>simp add: leaves_canon\<close>)
qed simp

lemma val_at_canon: "node_wf n \<Longrightarrow> val_at (canon n) q = val_at n q"
proof (induction n arbitrary: q)
  case (Node t nm v cs)
  show ?case
  proof (cases "t = CFG_OBJ")
    case True
    note wf = Node.prems
    show ?thesis
    proof (cases q)
      case (Cons x xs)
      then show ?thesis
      proof (cases x)
        case (TokKey k)
        have d: "distinct (map nname cs)" using wf True by simp
        show ?thesis
        proof (cases "List.find (named k) cs")
          case None
          then show ?thesis using TokKey Cons True d by (simp add: obj_find_def find_canon)
        next
          case (Some c)
          then have c: "c \<in> set cs" by (auto simp: find_Some_iff)
          then have "node_wf c" using wf True by (simp add: list_all_iff)
          with Node.IH [OF c] leaves_Nil_val_at Some show ?thesis
            using TokKey Cons True d by (simp add: obj_find_def find_canon)
        qed
      qed (simp_all add: True arr_idx_def)
    qed (simp add: True)
  qed simp
qed

section \<open>Properties of the interface\<close>

lemma cfg_get_str_canon:
  assumes "node_wf cfg"
  shows "cfg_get_str (canon cfg) path = Inr s \<longleftrightarrow> cfg_get_str cfg path = Inr s"
proof (cases "parse_path CFG_PATH_DEPTH_MAX path")
  case (Inl e)
  then have "path \<noteq> []" by (auto simp: parse_path_def)
  with Inl show ?thesis by (simp add: cfg_get_str_def cfg_get_node_def walk_get_def)
next
  case (Inr ts)
  then show ?thesis by (simp add: cfg_get_str_val_at val_at_canon assms)
qed

text \<open>C5: dumping a configuration built through the interface and loading the file again gives the
  tree without its empty containers, and every path reads the same value as before. The file
  format must be able to hold the tree: values without NUL, paths of at most 64 tokens, lines of at
  most 4095 bytes.\<close>

theorem cfg_dump_load:
  assumes "cfg_reach cfg" and "fits_file cfg" and "obuf f = []"
    and "cfg_dump cfg (Inr f) None None = (None, Some bytes)"
  shows "cfg_load (Inr bytes) = Inr (canon cfg)
    \<and> (\<forall>path s. cfg_get_str (canon cfg) path = Inr s \<longleftrightarrow> cfg_get_str cfg path = Inr s)"
proof -
  have wf: "node_wf cfg" "ntype cfg = CFG_OBJ" "nname cfg = None"
    using cfg_reach_wf [OF assms(1)] by (simp_all add: root_wf_def)
  obtain f' where "cfg_dump_file cfg f = Inr f'" "bytes = obuf f'"
    using assms(4) by (auto simp: cfg_dump_def split: sum.splits)
  with dump_load [OF wf assms(2) _ assms(3)] show ?thesis
    using cfg_get_str_canon [OF wf(1)] by simp
qed

text \<open>C29: every tree the interface can build (from an empty one by any sequence of assignments and
  deletions, failed ones included, or by loading any file) is an object whose children carry distinct
  well-formed keys, whose arrays hold unnamed strings and whose strings have a value.\<close>

theorem cfg_reach_invariant:
  assumes "cfg_reach cfg"
  shows "node_wf cfg \<and> ntype cfg = CFG_OBJ \<and> nname cfg = None"
  using cfg_reach_wf [OF assms] by (simp add: root_wf_def)

text \<open>C30: a value that was assigned is read back: under the same path, and for a path that ends in
  \<open>[]\<close> under the same path with the index \<open>-1\<close>.\<close>

theorem cfg_get_after_set:
  assumes "cfg_set_str cfg path v = (None, cfg')"
  shows "\<exists>ts. parse_path CFG_PATH_DEPTH_MAX path = Inr ts
    \<and> cfg_get_str cfg' (path_text (read_toks ts)) = Inr v
    \<and> (last ts \<noteq> TokAppend \<longrightarrow> cfg_get_str cfg' path = Inr v)"
proof -
  obtain ts where ts: "parse_path CFG_PATH_DEPTH_MAX path = Inr ts" "set_toks ts v cfg = (None, cfg')"
    using cfg_set_str_toks [OF assms] by auto
  have "val_at cfg' (read_toks ts) = Some v" by (rule val_at_set [OF ts(2)])
  then show ?thesis
    using ts(1) cfg_get_str_text [OF read_toks_ok [OF parse_path_Inr [OF ts(1)]]]
      cfg_get_str_val_at [OF ts(1)] by (auto simp: read_toks_same)
qed

text \<open>C31: an assignment, successful or not, changes the value under no other path of keys.\<close>

theorem cfg_set_frame:
  assumes "cfg_set_str cfg path v = (rc, cfg')" and "keys_ok q"
    and "parse_path CFG_PATH_DEPTH_MAX path \<noteq> Inr (map TokKey q)"
  shows "cfg_get_str cfg' (key_text q) = Inr s \<longleftrightarrow> cfg_get_str cfg (key_text q) = Inr s"
  using cfg_set_str_toks [OF assms(1)] assms(3) cfg_get_str_keys [OF assms(2)]
  by (auto simp: val_at_set_other)

text \<open>A failed assignment changes the value under no path at all.\<close>

theorem cfg_set_failed:
  assumes "cfg_set_str cfg path v = (Some e, cfg')" and "path_ok CFG_PATH_DEPTH_MAX q"
  shows "cfg_get_str cfg' (path_text q) = Inr s \<longleftrightarrow> cfg_get_str cfg (path_text q) = Inr s"
  using cfg_set_str_toks [OF assms(1)] cfg_get_str_text [OF assms(2)]
  by (auto simp: set_toks_failed)

text \<open>Assigning to \<open>path[]\<close> adds the value at the end of the array under \<open>path\<close> and keeps the
  elements that were there; an array that was missing counts as empty.\<close>

theorem cfg_append_extends:
  assumes "cfg_set_str cfg (key_text ks @ ''[]'') v = (None, cfg')"
    and "keys_ok ks" and "length ks < CFG_PATH_DEPTH_MAX"
  shows "elems_at cfg' ks = elems_at cfg ks @ [v]
    \<and> cfg_arr_len cfg' (key_text ks) = Inr (Suc (length (elems_at cfg ks)))"
proof -
  let ?ts = "map TokKey ks @ [TokAppend]"
  have "path_text ?ts = key_text ks @ ''[]''"
    using assms(2) by (cases ks) (simp_all add: keys_ok_def key_text_def path_text_def)
  moreover have "path_ok CFG_PATH_DEPTH_MAX ?ts"
    using assms(2,3) by (auto simp: keys_ok_def path_ok_def list_all_iff hd_append hd_map)
  ultimately have "parse_path CFG_PATH_DEPTH_MAX (key_text ks @ ''[]'') = Inr ?ts"
    using parse_path_text by metis
  then have s: "set_toks ?ts v cfg = (None, cfg')"
    using assms(1) by (simp add: cfg_set_str_def)
  have e: "elems_at cfg' ks = elems_at cfg ks @ [v]" by (rule elems_at_append [OF s])
  then have ne: "elems_at cfg' ks \<noteq> []" by simp
  have "cfg_arr_len cfg' (key_text ks) = Inr (length (elems_at cfg' ks))"
  proof -
    have "walk_get cfg' (key_text ks) = walk_toks cfg' (map TokKey ks)"
      using parse_path_text [OF keys_path_ok [OF assms(2)]] by (simp add: walk_get_def key_text_def)
    moreover have "key_text ks \<noteq> []"
      using assms(2) by (cases ks) (auto simp: key_text_def path_text_def keys_ok_def key_ok_def)
    ultimately show ?thesis
      using ne by (auto simp: elems_at_def cfg_arr_len_def cfg_get_node_def split: sum.splits if_splits)
  qed
  with e show ?thesis by simp
qed

text \<open>C32: deleting a path of keys removes it (a lookup then reports \<open>ENOENT\<close>) and changes no value
  outside the deleted subtree.\<close>

theorem cfg_del_removes:
  assumes "cfg_reach cfg" and "cfg_del cfg (key_text ks) = (None, cfg')" and "keys_ok ks"
  shows "cfg_get_node cfg' (key_text ks) = Inl ENOENT
    \<and> (\<forall>q s. keys_ok q \<and> \<not> prefix ks q \<longrightarrow>
          (cfg_get_str cfg' (key_text q) = Inr s \<longleftrightarrow> cfg_get_str cfg (key_text q) = Inr s))"
proof -
  have p: "parse_path CFG_PATH_DEPTH_MAX (key_text ks) = Inr (map TokKey ks)"
    unfolding key_text_def by (rule parse_path_text [OF keys_path_ok [OF assms(3)]])
  then have d: "del_toks (map TokKey ks) cfg = (None, cfg')"
    using assms(2) by (simp add: cfg_del_def split: if_splits)
  have wf: "node_wf cfg" using cfg_reach_wf [OF assms(1)] by (simp add: root_wf_def)
  have "key_text ks \<noteq> []" using p assms(3) by (auto simp: parse_path_def keys_ok_def)
  with p walk_del_key [OF d wf] show ?thesis
    by (simp add: cfg_get_node_def walk_get_def cfg_get_str_keys val_at_del_other [OF d])
qed

text \<open>A failed deletion leaves the tree as it was.\<close>

theorem cfg_del_failed:
  assumes "cfg_del cfg path = (Some e, cfg')"
  shows "cfg' = cfg"
  using assms by (auto simp: cfg_del_def split: sum.splits if_splits dest: del_toks_failed)

text \<open>C34: the token lists the path parser returns are exactly the well-formed ones (at most \<open>mx\<close>
  tokens, a key first, keys of 1 to 127 key characters, indices of an \<open>int\<close>), and printing one gives a
  path that parses to it again.\<close>

theorem parse_path_exact:
  "((\<exists>path. parse_path mx path = Inr ts) \<longleftrightarrow> path_ok mx ts)
    \<and> (parse_path mx (path_text ts) = Inr ts \<longleftrightarrow> path_ok mx ts)"
  using parse_path_Inr parse_path_text by blast

text \<open>C33: a loaded file gives every key the value of its last line: reading a path of keys returns
  the value of the last assignment to it among the lines of the file, and fails when there is none.\<close>

theorem cfg_load_last:
  assumes "cfg_load (Inr bytes) = Inr cfg"
  shows "\<exists>as. file_assigns bytes = Inr as \<and> (\<forall>ks s. keys_ok ks \<longrightarrow>
    (cfg_get_str cfg (key_text ks) = Inr s \<longleftrightarrow> map_of (rev as) (map TokKey ks) = Some s))"
proof -
  obtain as where as: "file_assigns bytes = Inr as" "tree_store.assign_all as cfg_init = (None, cfg)"
    using assms load_loop_assigns by (auto simp: cfg_load_def)
  have "val_at cfg_init (map TokKey ks) = None" for ks
    by (cases ks) (simp_all add: cfg_init_def obj_find_def)
  with tree_store.assign_all_last [OF as(2)] as(1) show ?thesis
    by (auto simp: cfg_get_str_keys split: option.splits)
qed

section \<open>Concrete runs\<close>

text \<open>A tree with one key, and the same tree with an array beside it.\<close>

definition demo1 :: cfg where
  "demo1 = Node CFG_OBJ None None [Node CFG_OBJ (Some ''a'') None [Node CFG_STR (Some ''b'') (Some ''x'') []]]"

definition demo2 :: cfg where
  "demo2 = Node CFG_OBJ None None [Node CFG_OBJ (Some ''a'') None [Node CFG_STR (Some ''b'') (Some ''x'') []],
     Node CFG_ARR (Some ''d'') None [Node CFG_STR None (Some ''y'') []]]"

lemma demo_sets:
  "cfg_set_str cfg_init ''a.b'' ''x'' = (None, demo1)" "cfg_set_str demo1 ''d[]'' ''y'' = (None, demo2)"
  by code_simp+

lemma demo_reach: "cfg_reach demo1" "cfg_reach demo2"
  using demo_sets reach_init reach_set by blast+

definition fresh_file :: ofile where
  "fresh_file = \<lparr>obuf = [], oroom = 100, oerr = False\<rparr>"

lemma demo_keys: "keys_ok [''a'']" "keys_ok [''d'']" "keys_ok [''a'', ''b'']"
  by code_simp+

theorem cfg_dump_load_witness:
  "fst (cfg_dump demo2 (Inr fresh_file) None None) = None \<and>
   cfg_load (Inr (the (snd (cfg_dump demo2 (Inr fresh_file) None None)))) = Inr (canon demo2)"
proof -
  have d: "cfg_dump demo2 (Inr fresh_file) None None =
      (None, Some (''a.b = '' @ quoted ''x'' @ [NL] @ ''d[] = '' @ quoted ''y'' @ [NL]))"
    by code_simp
  have "fits_file demo2" "obuf fresh_file = []" by code_simp+
  from cfg_dump_load [OF demo_reach(2) this d] d show ?thesis by simp
qed

theorem cfg_reach_invariant_witness: "cfg_reach demo2 \<and> node_wf demo2"
  using cfg_reach_invariant [OF demo_reach(2)] demo_reach(2) by simp

theorem cfg_get_after_set_witness:
  "cfg_set_str demo1 ''d[]'' ''y'' = (None, demo2) \<and> cfg_get_str demo2 ''d[-1]'' = Inr ''y''"
proof -
  have "parse_path CFG_PATH_DEPTH_MAX ''d[]'' = Inr [TokKey ''d'', TokAppend]" by code_simp
  moreover have "path_text (read_toks [TokKey ''d'', TokAppend]) = ''d[-1]''" by code_simp
  ultimately show ?thesis using cfg_get_after_set [OF demo_sets(2)] demo_sets(2) by simp
qed

theorem cfg_set_frame_witness:
  "cfg_set_str demo1 ''d[]'' ''y'' = (None, demo2) \<and> cfg_get_str demo2 (key_text [''a'', ''b'']) = Inr ''x''"
proof -
  have "parse_path CFG_PATH_DEPTH_MAX ''d[]'' \<noteq> Inr (map TokKey [''a'', ''b''])" by code_simp
  moreover have "cfg_get_str demo1 (key_text [''a'', ''b'']) = Inr ''x''" by code_simp
  ultimately show ?thesis
    using cfg_set_frame [OF demo_sets(2) demo_keys(3), of "''x''"] demo_sets(2) by simp
qed

theorem cfg_set_failed_witness:
  "fst (cfg_set_str demo1 ''a'' ''z'') = Some EISDIR \<and>
   cfg_get_str (snd (cfg_set_str demo1 ''a'' ''z'')) (path_text [TokKey ''a'', TokKey ''b'']) = Inr ''x''"
proof -
  have s: "cfg_set_str demo1 ''a'' ''z'' = (Some EISDIR, demo1)" by code_simp
  have "path_ok CFG_PATH_DEPTH_MAX [TokKey ''a'', TokKey ''b'']"
    using keys_path_ok [OF demo_keys(3)] by simp
  moreover have "cfg_get_str demo1 (path_text [TokKey ''a'', TokKey ''b'']) = Inr ''x''" by code_simp
  ultimately show ?thesis using cfg_set_failed [OF s] s by simp
qed

theorem cfg_append_extends_witness:
  "cfg_set_str demo1 ''d[]'' ''y'' = (None, demo2) \<and> cfg_arr_len demo2 (key_text [''d'']) = Inr 1"
proof -
  have t: "key_text [''d''] @ ''[]'' = ''d[]''" by code_simp
  have "length [''d''] < CFG_PATH_DEPTH_MAX" "elems_at demo1 [''d''] = []" by code_simp+
  with cfg_append_extends [OF _ demo_keys(2), of demo1 "''y''" demo2] t demo_sets(2) show ?thesis by simp
qed

theorem cfg_del_removes_witness:
  "fst (cfg_del demo2 (key_text [''a''])) = None \<and>
   cfg_get_node (snd (cfg_del demo2 (key_text [''a'']))) (key_text [''a'']) = Inl ENOENT"
proof -
  have d: "cfg_del demo2 (key_text [''a'']) = (None, snd (cfg_del demo2 (key_text [''a''])))" by code_simp
  have "fst (cfg_del demo2 (key_text [''a''])) = None" by code_simp
  with cfg_del_removes [OF demo_reach(2) d demo_keys(1)] show ?thesis by blast
qed

theorem cfg_del_failed_witness: "cfg_del demo1 ''q'' = (Some ENOENT, demo1)"
proof -
  have d: "cfg_del demo1 ''q'' = (Some ENOENT, snd (cfg_del demo1 ''q''))" by code_simp
  from cfg_del_failed [OF d] d show ?thesis by simp
qed

theorem cfg_load_last_witness:
  "cfg_get_str (projr (cfg_load (Inr (''a = 1'' @ [NL] @ ''a = 2'' @ [NL])))) (key_text [''a'']) = Inr ''2''"
proof -
  let ?bytes = "''a = 1'' @ [NL] @ ''a = 2'' @ [NL]"
  have l: "cfg_load (Inr ?bytes) = Inr (projr (cfg_load (Inr ?bytes)))" by code_simp
  have "file_assigns ?bytes = Inr [([TokKey ''a''], ''1''), ([TokKey ''a''], ''2'')]" by code_simp
  with cfg_load_last [OF l] demo_keys(1) show ?thesis by simp
qed

end
