(* ===== verification/Netstate.thy ===== *)
theory Netstate
  imports Clib
begin

text \<open>
  \<open>state.h\<close> and \<open>state.c\<close>: the desired state read from the configuration, the snapshot of the
  kernel (\<open>real_state\<close>), the linear searches over the snapshot, and the reader of
  \<open>/etc/resolv.conf\<close>. A fixed array with its counter (\<open>ifaces\<close>, \<open>n_ifaces\<close>) is a list whose length
  is the counter; the array bounds are the \<open>NR_*_MAX\<close> constants.
\<close>

section \<open>Limits and records\<close>

definition NR_IFACE_MAX :: nat where "NR_IFACE_MAX = 2048"
definition NR_ADDR4_MAX :: nat where "NR_ADDR4_MAX = 8192"
definition NR_ROUTE4_MAX :: nat where "NR_ROUTE4_MAX = 32768"
definition NR_VXLAN_MAX :: nat where "NR_VXLAN_MAX = 1024"
definition NR_VLAN_MAX :: nat where "NR_VLAN_MAX = 4096"
definition NR_BR_PORT_MAX :: nat where "NR_BR_PORT_MAX = 32"
definition NR_DES_ROUTE4_MAX :: nat where "NR_DES_ROUTE4_MAX = 64"
definition NR_DES_DNS4_MAX :: nat where "NR_DES_DNS4_MAX = 4"
definition NR_DES_STATE_MAX :: nat where "NR_DES_STATE_MAX = 16"
definition NR_DNS4_MAX :: nat where "NR_DNS4_MAX = 16"

definition IFNAMSIZ :: nat where "IFNAMSIZ = 16"
definition INET_ADDRSTRLEN :: nat where "INET_ADDRSTRLEN = 16"

lemmas nr_limits =
  NR_IFACE_MAX_def NR_ADDR4_MAX_def NR_ROUTE4_MAX_def NR_VXLAN_MAX_def NR_VLAN_MAX_def
  NR_BR_PORT_MAX_def NR_DES_ROUTE4_MAX_def NR_DES_DNS4_MAX_def NR_DES_STATE_MAX_def
  NR_DNS4_MAX_def IFNAMSIZ_def INET_ADDRSTRLEN_def

datatype addr_mode = ADDR_NONE | ADDR_STATIC | ADDR_DHCP

record desired_route4 =
  dr_dst :: string
  dr_via :: string
  dr_dev :: string
  dr_has_via :: bool

record desired_state =
  scenario :: string
  br_name :: string
  br_addr_mode :: addr_mode
  br_addr :: string
  br_gateway :: string
  br_dns :: "string list"
  br_dhcp_cmd :: string
  br_ports :: "string list"
  up_ifname :: string
  vlan_ifname :: string
  vlan_id :: "32 word"
  vlan_link :: string
  vlan_bridge :: string
  wg_ifname :: string
  wg_peer_ip :: string
  wg_route_dev :: string
  vx_ifname :: string
  vx_vni :: "32 word"
  vx_remote :: string
  vx_dev :: string
  vx_bridge :: string
  routes :: "desired_route4 list"

text \<open>\<open>struct desired_set\<close> is the list of its first \<open>n_state\<close> states.\<close>

type_synonym desired_set = "desired_state list"

text \<open>\<open>memset(ds, 0, sizeof(*ds))\<close>.\<close>

definition ds_zero :: desired_state where
  "ds_zero = \<lparr>scenario = [], br_name = [], br_addr_mode = ADDR_NONE, br_addr = [],
     br_gateway = [], br_dns = [], br_dhcp_cmd = [], br_ports = [], up_ifname = [],
     vlan_ifname = [], vlan_id = 0, vlan_link = [], vlan_bridge = [], wg_ifname = [],
     wg_peer_ip = [], wg_route_dev = [], vx_ifname = [], vx_vni = 0, vx_remote = [],
     vx_dev = [], vx_bridge = [], routes = []\<rparr>"

record iface =
  if_name :: string
  if_kind :: string
  if_ifindex :: int
  if_flags :: "32 word"
  if_has_carrier :: bool
  if_carrier :: nat
  if_master :: int
  if_link :: int
  if_has_link :: bool

record addr4 =
  a4_ifindex :: int
  a4_addr :: "32 word"
  a4_prefix :: int

record route4 =
  r4_dst :: "32 word"
  r4_prefix :: int
  r4_gw :: "32 word"
  r4_has_gw :: bool
  r4_oif :: int

record vxlan =
  vxl_ifname :: string
  vxl_ifindex :: int
  vxl_vni :: "32 word"
  vxl_has_vni :: bool
  vxl_remote :: "32 word"
  vxl_has_remote :: bool
  vxl_link :: int
  vxl_has_link :: bool

record vlan =
  vln_ifname :: string
  vln_ifindex :: int
  vln_id :: "32 word"
  vln_has_id :: bool
  vln_link :: int
  vln_has_link :: bool

record real_state =
  ifaces :: "iface list"
  addr4s :: "addr4 list"
  route4s :: "route4 list"
  dns4 :: "32 word list"
  vxlans :: "vxlan list"
  vlans :: "vlan list"

definition rs_free :: "real_state \<Rightarrow> real_state" where
  "rs_free rs = \<lparr>ifaces = [], addr4s = [], route4s = [], dns4 = [], vxlans = [], vlans = []\<rparr>"

abbreviation rs_zero :: real_state where
  "rs_zero \<equiv> \<lparr>ifaces = [], addr4s = [], route4s = [], dns4 = [], vxlans = [], vlans = []\<rparr>"

text \<open>The snapshot never holds more entries than its arrays.\<close>

definition rs_wf :: "real_state \<Rightarrow> bool" where
  "rs_wf rs \<longleftrightarrow> length (ifaces rs) \<le> NR_IFACE_MAX \<and> length (addr4s rs) \<le> NR_ADDR4_MAX
     \<and> length (route4s rs) \<le> NR_ROUTE4_MAX \<and> length (dns4 rs) \<le> NR_DNS4_MAX
     \<and> length (vxlans rs) \<le> NR_VXLAN_MAX \<and> length (vlans rs) \<le> NR_VLAN_MAX"

lemma rs_wf_zero: "rs_wf rs_zero"
  by (simp add: rs_wf_def)

section \<open>Linear searches\<close>

fun find_first_by :: "('e \<Rightarrow> 'k) \<Rightarrow> 'e list \<Rightarrow> 'k \<Rightarrow> 'e option" where
  "find_first_by key [] k = None"
| "find_first_by key (e # es) k = (if key e = k then Some e else find_first_by key es k)"

definition rs_find_iface :: "real_state \<Rightarrow> string \<Rightarrow> iface option" where
  "rs_find_iface rs name = find_first_by if_name (ifaces rs) name"

definition rs_find_iface_idx :: "real_state \<Rightarrow> int \<Rightarrow> iface option" where
  "rs_find_iface_idx rs ifindex = find_first_by if_ifindex (ifaces rs) ifindex"

definition rs_find_vxlan :: "real_state \<Rightarrow> string \<Rightarrow> vxlan option" where
  "rs_find_vxlan rs name = find_first_by vxl_ifname (vxlans rs) name"

definition rs_find_vlan :: "real_state \<Rightarrow> string \<Rightarrow> vlan option" where
  "rs_find_vlan rs name = find_first_by vln_ifname (vlans rs) name"

fun dns4_loop :: "32 word list \<Rightarrow> 32 word \<Rightarrow> bool" where
  "dns4_loop [] addr = False"
| "dns4_loop (d # ds) addr = (if d = addr then True else dns4_loop ds addr)"

definition rs_dns4_exists :: "real_state \<Rightarrow> 32 word \<Rightarrow> bool" where
  "rs_dns4_exists rs addr = dns4_loop (dns4 rs) addr"

text \<open>What the verifier relies on: a search over a table returns the first entry with the
  key, and finds one exactly when the table has one.\<close>

locale table_search =
  fixes entries :: "'s \<Rightarrow> 'e list" and key :: "'e \<Rightarrow> 'k" and search :: "'s \<Rightarrow> 'k \<Rightarrow> 'e option"
  assumes search_first: "search s k = List.find (\<lambda>e. key e = k) (entries s)"
begin

lemma search_Some: "search s k = Some e \<Longrightarrow> e \<in> set (entries s) \<and> key e = k"
  by (auto simp: search_first dest: find_Some_set)

lemma search_None_iff: "search s k = None \<longleftrightarrow> k \<notin> key ` set (entries s)"
  by (auto simp: search_first find_None_conv)

lemma search_unique:
  assumes "distinct (map key (entries s))" and "e \<in> set (entries s)"
  shows "search s (key e) = Some e"
proof -
  obtain e' where e': "search s (key e) = Some e'"
    using assms(2) search_None_iff by (cases "search s (key e)") auto
  with search_Some have "e' \<in> set (entries s)" and "key e' = key e" by auto
  with assms have "e' = e" by (auto simp: distinct_map dest: inj_onD)
  with e' show ?thesis by simp
qed

lemma search_extend:
  assumes "entries s' = entries s @ [e]"
  shows "search s' k = (case search s k of Some x \<Rightarrow> Some x
     | None \<Rightarrow> if key e = k then Some e else None)"
  using assms by (auto simp: search_first find_append_None find_append_Some split: option.splits)

end

lemma find_first_by_find: "find_first_by key es k = List.find (\<lambda>e. key e = k) es"
  by (induction es) auto

interpretation iface_by_name: table_search ifaces if_name rs_find_iface
  by unfold_locales (simp add: rs_find_iface_def find_first_by_find)

interpretation iface_by_index: table_search ifaces if_ifindex rs_find_iface_idx
  by unfold_locales (simp add: rs_find_iface_idx_def find_first_by_find)

interpretation vxlan_by_name: table_search vxlans vxl_ifname rs_find_vxlan
  by unfold_locales (simp add: rs_find_vxlan_def find_first_by_find)

interpretation vlan_by_name: table_search vlans vln_ifname rs_find_vlan
  by unfold_locales (simp add: rs_find_vlan_def find_first_by_find)

lemma rs_dns4_exists_iff: "rs_dns4_exists rs a \<longleftrightarrow> a \<in> set (dns4 rs)"
proof -
  have "dns4_loop ds a \<longleftrightarrow> a \<in> set ds" for ds by (induction ds) auto
  then show ?thesis by (simp add: rs_dns4_exists_def)
qed

section \<open>resolv.conf\<close>

text \<open>One iteration of the loop: the address the line contributes, if any.\<close>

definition nameserver_of :: "string \<Rightarrow> 32 word option" where
  "nameserver_of line = (case sscanf_2 (cstr line) of
     None \<Rightarrow> None
   | Some (key, val) \<Rightarrow> if key \<noteq> ''nameserver'' then None else inet_pton val)"

function resolv_loop :: "real_state \<Rightarrow> string \<Rightarrow> real_state result" where
  "resolv_loop rs bytes = (case fgets 256 bytes of
     None \<Rightarrow> Inr rs
   | Some (line, eof, rest) \<Rightarrow> (case nameserver_of line of
       None \<Rightarrow> resolv_loop rs rest
     | Some addr \<Rightarrow>
         if length (dns4 rs) \<ge> NR_DNS4_MAX then Inl ENOSPC
         else resolv_loop (rs\<lparr>dns4 := dns4 rs @ [addr]\<rparr>) rest))"
  by pat_completeness auto
termination
  by (relation "measure (\<lambda>(rs, bytes). length bytes)") (auto dest: fgets_decreases)

declare resolv_loop.simps [simp del]

text \<open>\<open>rs_load_resolv_conf(rs, path)\<close>, with the contents of the file as argument (\<open>None\<close>: it
  cannot be opened).\<close>

definition rs_load_resolv_conf :: "real_state \<Rightarrow> string option \<Rightarrow> real_state result" where
  "rs_load_resolv_conf rs file = (let rs = rs\<lparr>dns4 := []\<rparr> in
     case file of None \<Rightarrow> Inr rs | Some bytes \<Rightarrow> resolv_loop rs bytes)"

text \<open>The lines that \<open>fgets\<close> delivers and the addresses they contribute; \<open>Resolv_Laws\<close> relates them to the
  format of the file.\<close>

function fgets_lines :: "nat \<Rightarrow> string \<Rightarrow> string list" where
  "fgets_lines n bytes = (if n \<le> 1 then [] else case fgets n bytes of
     None \<Rightarrow> [] | Some (line, eof, rest) \<Rightarrow> line # fgets_lines n rest)"
  by pat_completeness auto
termination
  by (relation "measure (\<lambda>(n, bytes). length bytes)") (auto dest: fgets_decreases)

declare fgets_lines.simps [simp del]

definition nameservers :: "string \<Rightarrow> 32 word list" where
  "nameservers bytes = List.map_filter nameserver_of (fgets_lines 256 bytes)"

lemma resolv_loop_spec:
  "length (dns4 rs) \<le> NR_DNS4_MAX \<Longrightarrow> resolv_loop rs bytes =
     (if length (dns4 rs) + length (nameservers bytes) \<le> NR_DNS4_MAX
      then Inr (rs\<lparr>dns4 := dns4 rs @ nameservers bytes\<rparr>) else Inl ENOSPC)"
proof (induction rs bytes rule: resolv_loop.induct)
  case (1 rs bytes)
  show ?case
  proof (cases "fgets 256 bytes")
    case None
    then have "nameservers bytes = []"
      by (simp add: nameservers_def fgets_lines.simps [of 256 bytes] map_filter_simps)
    with None "1.prems" show ?thesis by (simp add: resolv_loop.simps [of rs bytes])
  next
    case (Some t)
    obtain line eof rest where t: "fgets 256 bytes = Some (line, eof, rest)"
      using Some by (cases t) auto
    have ns: "nameservers bytes =
        (case nameserver_of line of None \<Rightarrow> nameservers rest | Some a \<Rightarrow> a # nameservers rest)"
      by (simp add: nameservers_def fgets_lines.simps [of 256 bytes] t map_filter_simps
          split: option.split)
    show ?thesis
    proof (cases "nameserver_of line")
      case None
      with "1.IH"(1) [OF t refl refl None "1.prems"] show ?thesis
        using t ns by (simp add: resolv_loop.simps [of rs bytes])
    next
      case (Some addr)
      show ?thesis
      proof (cases "length (dns4 rs) \<ge> NR_DNS4_MAX")
        case True
        then show ?thesis using t Some ns by (simp add: resolv_loop.simps [of rs bytes])
      next
        case False
        with "1.IH"(2) [OF t refl refl Some False] show ?thesis
          using t Some ns by (simp add: resolv_loop.simps [of rs bytes])
      qed
    qed
  qed
qed

end
