(* ===== verification/Yaml.thy ===== *)
theory Yaml
  imports Netstate Cfg_Roundtrip
begin

text \<open>
  \<open>yaml.c\<close>: the loader that turns a configuration tree into desired states. Every
  \<open>load_*\<close> function takes the desired state filled so far and returns it extended, or the error
  with which the C function returns. Fixed-size string fields are filled by \<open>cpy\<close>, which cuts
  the value to the field; \<open>ds_wf\<close> says that every field fits its array.
\<close>

section \<open>Reading fields\<close>

definition cpy :: "nat \<Rightarrow> string option \<Rightarrow> string" where
  "cpy sz src = (case src of None \<Rightarrow> [] | Some s \<Rightarrow> fit sz s)"

definition parse_u32_str :: "string option \<Rightarrow> 32 word result" where
  "parse_u32_str s = (case s of
     None \<Rightarrow> Inl EINVAL
   | Some t \<Rightarrow>
       if t = [] then Inl EINVAL
       else let (v, rest, err) = strtoul0 t in
         if err \<or> rest \<noteq> [] \<or> v > UINT32_MAX then Inl EINVAL else Inr (of_nat v))"

definition is_scn :: "desired_state \<Rightarrow> string \<Rightarrow> string option \<Rightarrow> bool" where
  "is_scn ds a b \<longleftrightarrow> scenario ds = a \<or> (case b of None \<Rightarrow> False | Some x \<Rightarrow> scenario ds = x)"

definition get_str :: "cfg_node \<Rightarrow> string \<Rightarrow> nat \<Rightarrow> bool \<Rightarrow> string result" where
  "get_str obj key sz req = (case cfg_child obj key of
     None \<Rightarrow> if \<not> req then Inr [] else Inl EINVAL
   | Some node \<Rightarrow>
       if cfg_type_of node \<noteq> CFG_STR then Inl EINVAL else Inr (cpy sz (cfg_str node)))"

definition get_u32 :: "cfg_node \<Rightarrow> string \<Rightarrow> 32 word result" where
  "get_u32 obj key = (case cfg_child obj key of
     None \<Rightarrow> Inl EINVAL
   | Some node \<Rightarrow>
       if cfg_type_of node \<noteq> CFG_STR then Inl EINVAL else parse_u32_str (cfg_str node))"

text \<open>The loop shared by \<open>get_str_arr\<close> and \<open>get_dns_arr\<close>: element size, limit, elements read.\<close>

fun items_loop :: "nat \<Rightarrow> nat \<Rightarrow> nat \<Rightarrow> cfg_node list \<Rightarrow> string list result" where
  "items_loop sz mx n [] = Inr []"
| "items_loop sz mx n (it # its) =
     (if cfg_type_of it \<noteq> CFG_STR then Inl EINVAL
      else if n \<ge> mx then Inl E2BIG
      else ebind (items_loop sz mx (n + 1) its) (\<lambda>r. Inr (cpy sz (cfg_str it) # r)))"

definition get_str_arr :: "cfg_node \<Rightarrow> string \<Rightarrow> nat \<Rightarrow> string list result" where
  "get_str_arr obj key mx = (case cfg_child obj key of
     None \<Rightarrow> Inr []
   | Some arr \<Rightarrow>
       if cfg_type_of arr \<noteq> CFG_ARR then Inl EINVAL
       else items_loop IFNAMSIZ mx 0 (cfg_items arr))"

definition get_dns_arr :: "cfg_node \<Rightarrow> string \<Rightarrow> nat \<Rightarrow> string list result" where
  "get_dns_arr obj key mx = (case cfg_child obj key of
     None \<Rightarrow> Inr []
   | Some arr \<Rightarrow>
       if cfg_type_of arr \<noteq> CFG_ARR then Inl EINVAL
       else items_loop INET_ADDRSTRLEN mx 0 (cfg_items arr))"

section \<open>Loading the parts\<close>

definition load_route :: "cfg_node \<Rightarrow> desired_route4 result" where
  "load_route it =
     ebind (get_str it ''dst'' 32 True) (\<lambda>dst.
     ebind (get_str it ''dev'' IFNAMSIZ True) (\<lambda>dev.
     ebind (get_str it ''via'' INET_ADDRSTRLEN False) (\<lambda>via.
       Inr \<lparr>dr_dst = dst, dr_via = via, dr_dev = dev, dr_has_via = (via \<noteq> [])\<rparr>)))"

fun routes_loop :: "nat \<Rightarrow> cfg_node list \<Rightarrow> desired_route4 list result" where
  "routes_loop n [] = Inr []"
| "routes_loop n (it # its) =
     (if cfg_type_of it \<noteq> CFG_OBJ then Inl EINVAL
      else if n \<ge> NR_DES_ROUTE4_MAX then Inl E2BIG
      else ebind (load_route it) (\<lambda>rt. ebind (routes_loop (n + 1) its) (\<lambda>r. Inr (rt # r))))"

definition load_routes :: "cfg_node \<Rightarrow> desired_state \<Rightarrow> desired_state result" where
  "load_routes root ds = (case cfg_child root ''routes'' of
     None \<Rightarrow> Inr (ds\<lparr>routes := []\<rparr>)
   | Some rts \<Rightarrow>
       if cfg_type_of rts \<noteq> CFG_OBJ then Inl EINVAL
       else ebind (routes_loop 0 (cfg_items rts)) (\<lambda>l. Inr (ds\<lparr>routes := l\<rparr>)))"

text \<open>The choice of the address mode in \<open>load_bridge\<close>.\<close>

definition bridge_mode :: "string \<Rightarrow> string \<Rightarrow> string \<Rightarrow> addr_mode result" where
  "bridge_mode mode addr dhcp_cmd =
     (if mode = [] then Inr (if addr \<noteq> [] then ADDR_STATIC else ADDR_NONE)
      else if mode = ''static'' then (if addr = [] then Inl EINVAL else Inr ADDR_STATIC)
      else if mode = ''dhcp'' then
        (if addr \<noteq> [] then Inl EINVAL else if dhcp_cmd = [] then Inl EINVAL else Inr ADDR_DHCP)
      else if mode = ''none'' then (if addr \<noteq> [] then Inl EINVAL else Inr ADDR_NONE)
      else Inl EINVAL)"

definition load_bridge :: "cfg_node \<Rightarrow> desired_state \<Rightarrow> desired_state result" where
  "load_bridge root ds = (case cfg_child root ''bridge'' of
     None \<Rightarrow> Inl EINVAL
   | Some br \<Rightarrow>
       if cfg_type_of br \<noteq> CFG_OBJ then Inl EINVAL
       else
         ebind (get_str br ''name'' IFNAMSIZ True) (\<lambda>name.
         ebind (get_str br ''addr'' 32 False) (\<lambda>addr.
         ebind (get_str br ''gateway'' INET_ADDRSTRLEN False) (\<lambda>gateway.
         ebind (get_dns_arr br ''dns'' NR_DES_DNS4_MAX) (\<lambda>dns.
         ebind (get_str br ''addr_mode'' 16 False) (\<lambda>mode.
         ebind (get_str br ''dhcp_cmd'' 128 False) (\<lambda>dhcp_cmd.
         ebind (bridge_mode mode addr dhcp_cmd) (\<lambda>am.
           if gateway \<noteq> [] \<and> am \<noteq> ADDR_STATIC then Inl EINVAL
           else if dns \<noteq> [] \<and> am \<noteq> ADDR_STATIC then Inl EINVAL
           else ebind (get_str_arr br ''ports'' NR_BR_PORT_MAX) (\<lambda>ports.
             Inr (ds\<lparr>br_name := name, br_addr := addr, br_gateway := gateway, br_dns := dns,
               br_dhcp_cmd := dhcp_cmd, br_addr_mode := am, br_ports := ports\<rparr>))))))))))"

definition load_uplink :: "cfg_node \<Rightarrow> desired_state \<Rightarrow> desired_state result" where
  "load_uplink root ds = (case cfg_child root ''uplink'' of
     None \<Rightarrow> Inl EINVAL
   | Some up \<Rightarrow>
       if cfg_type_of up \<noteq> CFG_OBJ then Inl EINVAL
       else ebind (get_str up ''ifname'' IFNAMSIZ True) (\<lambda>s. Inr (ds\<lparr>up_ifname := s\<rparr>)))"

definition load_vlan :: "cfg_node \<Rightarrow> desired_state \<Rightarrow> desired_state result" where
  "load_vlan root ds = (case cfg_child root ''vlan'' of
     None \<Rightarrow> Inl EINVAL
   | Some vl \<Rightarrow>
       if cfg_type_of vl \<noteq> CFG_OBJ then Inl EINVAL
       else
         ebind (get_str vl ''ifname'' IFNAMSIZ True) (\<lambda>ifname.
         ebind (get_u32 vl ''id'') (\<lambda>vid.
         ebind (get_str vl ''link'' IFNAMSIZ False) (\<lambda>link.
         ebind (get_str vl ''bridge'' IFNAMSIZ False) (\<lambda>bridge.
           let link = (if link = [] then cpy IFNAMSIZ (Some (up_ifname ds)) else link);
               bridge = (if bridge = [] then cpy IFNAMSIZ (Some (br_name ds)) else bridge)
           in if link \<noteq> up_ifname ds then Inl EINVAL
              else if bridge \<noteq> br_name ds then Inl EINVAL
              else Inr (ds\<lparr>vlan_ifname := ifname, vlan_id := vid, vlan_link := link,
                vlan_bridge := bridge\<rparr>))))))"

definition load_wg_vxlan :: "cfg_node \<Rightarrow> desired_state \<Rightarrow> desired_state result" where
  "load_wg_vxlan root ds = (case (cfg_child root ''wg'', cfg_child root ''vxlan'') of
     (Some wg, Some vx) \<Rightarrow>
       if cfg_type_of wg \<noteq> CFG_OBJ \<or> cfg_type_of vx \<noteq> CFG_OBJ then Inl EINVAL
       else
         ebind (get_str wg ''ifname'' IFNAMSIZ True) (\<lambda>wg_if.
         ebind (get_str wg ''peer_ip'' INET_ADDRSTRLEN True) (\<lambda>peer.
         ebind (get_str wg ''route_dev'' IFNAMSIZ True) (\<lambda>rdev.
         ebind (get_str vx ''ifname'' IFNAMSIZ True) (\<lambda>vx_if.
         ebind (get_u32 vx ''vni'') (\<lambda>vni.
         ebind (get_str vx ''remote'' INET_ADDRSTRLEN True) (\<lambda>remote.
         ebind (get_str vx ''dev'' IFNAMSIZ False) (\<lambda>dev.
         ebind (get_str vx ''bridge'' IFNAMSIZ True) (\<lambda>bridge.
           if dev \<noteq> [] \<and> dev \<noteq> wg_if then Inl EINVAL
           else if bridge \<noteq> br_name ds then Inl EINVAL
           else Inr (ds\<lparr>wg_ifname := wg_if, wg_peer_ip := peer, wg_route_dev := rdev,
             vx_ifname := vx_if, vx_vni := vni, vx_remote := remote, vx_dev := dev,
             vx_bridge := bridge\<rparr>)))))))))
   | _ \<Rightarrow> Inl EINVAL)"

section \<open>Loading a state and a set\<close>

definition load_state :: "cfg_node \<Rightarrow> desired_state result" where
  "load_state root =
     ebind (get_str root ''scenario'' 32 True) (\<lambda>scn.
       let ds = ds_zero\<lparr>scenario := scn\<rparr> in
       ebind
         (if is_scn ds ''only_uplink'' (Some ''only_uplink_iface'') then load_uplink root ds
          else if is_scn ds ''uplink_bridge'' (Some ''uplink_in_bridge'') then
            ebind (load_bridge root ds) (load_uplink root)
          else if is_scn ds ''vlan_bridge'' (Some ''vlan_in_bridge'') then
            ebind (load_bridge root ds) (\<lambda>ds. ebind (load_uplink root ds) (load_vlan root))
          else if scenario ds = ''wg_vxlan_bridge'' then
            ebind (load_bridge root ds) (\<lambda>ds.
            ebind (if cfg_child root ''uplink'' \<noteq> None then load_uplink root ds else Inr ds)
              (load_wg_vxlan root))
          else Inl EINVAL)
         (load_routes root))"

fun states_loop :: "nat \<Rightarrow> cfg_node list \<Rightarrow> desired_set result" where
  "states_loop n [] = Inr []"
| "states_loop n (it # its) =
     (if cfg_type_of it \<noteq> CFG_OBJ then Inl EINVAL
      else if n \<ge> NR_DES_STATE_MAX then Inl E2BIG
      else ebind (load_state it) (\<lambda>ds. ebind (states_loop (n + 1) its) (\<lambda>r. Inr (ds # r))))"

text \<open>\<open>yaml_load_desired_set(path, set)\<close> after \<open>cfg_load\<close>, and as a whole.\<close>

definition load_set :: "cfg \<Rightarrow> desired_set result" where
  "load_set root =
     (if cfg_child root ''scenario'' \<noteq> None then ebind (load_state root) (\<lambda>ds. Inr [ds])
      else (case cfg_child root ''state'' of
          None \<Rightarrow> Inl EINVAL
        | Some states \<Rightarrow>
            if cfg_type_of states \<noteq> CFG_OBJ then Inl EINVAL
            else ebind (states_loop 0 (cfg_items states)) (\<lambda>l.
              if l = [] then Inl EINVAL else Inr l)))"

definition yaml_load_desired_set :: "string result \<Rightarrow> desired_set result" where
  "yaml_load_desired_set file = ebind (cfg_load file) load_set"

definition yaml_load_desired :: "string result \<Rightarrow> desired_state result" where
  "yaml_load_desired file = ebind (yaml_load_desired_set file) (\<lambda>set.
     case set of [ds] \<Rightarrow> Inr ds | _ \<Rightarrow> Inl EINVAL)"

section \<open>Well-formed desired states\<close>

definition route_wf :: "desired_route4 \<Rightarrow> bool" where
  "route_wf rt \<longleftrightarrow> length (dr_dst rt) < 32 \<and> length (dr_via rt) < INET_ADDRSTRLEN
     \<and> length (dr_dev rt) < IFNAMSIZ \<and> (dr_has_via rt \<longleftrightarrow> dr_via rt \<noteq> [])"

text \<open>Every string fits its array, every list its bound.\<close>

definition ds_wf :: "desired_state \<Rightarrow> bool" where
  "ds_wf ds \<longleftrightarrow> length (scenario ds) < 32
     \<and> length (br_name ds) < IFNAMSIZ \<and> length (br_addr ds) < 32
     \<and> length (br_gateway ds) < INET_ADDRSTRLEN
     \<and> length (br_dns ds) \<le> NR_DES_DNS4_MAX \<and> (\<forall>s \<in> set (br_dns ds). length s < INET_ADDRSTRLEN)
     \<and> length (br_dhcp_cmd ds) < 128
     \<and> length (br_ports ds) \<le> NR_BR_PORT_MAX \<and> (\<forall>s \<in> set (br_ports ds). length s < IFNAMSIZ)
     \<and> length (up_ifname ds) < IFNAMSIZ
     \<and> length (vlan_ifname ds) < IFNAMSIZ \<and> length (vlan_link ds) < IFNAMSIZ
     \<and> length (vlan_bridge ds) < IFNAMSIZ
     \<and> length (wg_ifname ds) < IFNAMSIZ \<and> length (wg_peer_ip ds) < INET_ADDRSTRLEN
     \<and> length (wg_route_dev ds) < IFNAMSIZ
     \<and> length (vx_ifname ds) < IFNAMSIZ \<and> length (vx_remote ds) < INET_ADDRSTRLEN
     \<and> length (vx_dev ds) < IFNAMSIZ \<and> length (vx_bridge ds) < IFNAMSIZ
     \<and> length (routes ds) \<le> NR_DES_ROUTE4_MAX \<and> (\<forall>r \<in> set (routes ds). route_wf r)"

text \<open>The address-mode rules of the README.\<close>

definition bridge_rules :: "desired_state \<Rightarrow> bool" where
  "bridge_rules ds = (case br_addr_mode ds of
     ADDR_STATIC \<Rightarrow> br_addr ds \<noteq> []
   | ADDR_DHCP \<Rightarrow> br_addr ds = [] \<and> br_gateway ds = [] \<and> br_dns ds = [] \<and> br_dhcp_cmd ds \<noteq> []
   | ADDR_NONE \<Rightarrow> br_addr ds = [] \<and> br_gateway ds = [] \<and> br_dns ds = [])"

text \<open>The agreement between the parts of one scenario.\<close>

definition scenario_rules :: "desired_state \<Rightarrow> bool" where
  "scenario_rules ds \<longleftrightarrow>
     (scenario ds \<in> {''vlan_bridge'', ''vlan_in_bridge''} \<longrightarrow>
        vlan_link ds = up_ifname ds \<and> vlan_bridge ds = br_name ds)
   \<and> (scenario ds = ''wg_vxlan_bridge'' \<longrightarrow>
        vx_bridge ds = br_name ds \<and> (vx_dev ds = [] \<or> vx_dev ds = wg_ifname ds))"

definition known_scenario :: "string \<Rightarrow> bool" where
  "known_scenario s \<longleftrightarrow> s \<in> {''only_uplink'', ''only_uplink_iface'', ''uplink_bridge'',
     ''uplink_in_bridge'', ''vlan_bridge'', ''vlan_in_bridge'', ''wg_vxlan_bridge''}"

section \<open>Every loaded state is well-formed\<close>

lemma cpy_length: "0 < sz \<Longrightarrow> length (cpy sz s) < sz"
  by (auto simp: cpy_def length_fit split: option.splits)

lemma get_str_length: "get_str obj key sz req = Inr s \<Longrightarrow> 0 < sz \<Longrightarrow> length s < sz"
  by (auto simp: get_str_def cpy_length split: option.splits if_splits)

lemma items_loop_bounds:
  "items_loop sz mx n its = Inr l \<Longrightarrow> n \<le> mx \<Longrightarrow> 0 < sz \<Longrightarrow>
     n + length l \<le> mx \<and> (\<forall>s \<in> set l. length s < sz)"
  by (induction sz mx n its arbitrary: l rule: items_loop.induct)
     (fastforce simp: ebind_Inr_iff cpy_length split: if_splits)+

lemma get_arr_bounds:
  "get_str_arr obj key mx = Inr l \<Longrightarrow> length l \<le> mx \<and> (\<forall>s \<in> set l. length s < IFNAMSIZ)"
  "get_dns_arr obj key mx = Inr l \<Longrightarrow> length l \<le> mx \<and> (\<forall>s \<in> set l. length s < INET_ADDRSTRLEN)"
  by (auto simp: get_str_arr_def get_dns_arr_def IFNAMSIZ_def INET_ADDRSTRLEN_def
      split: option.splits if_splits dest: items_loop_bounds)

lemma ds_zero_wf: "ds_wf ds_zero"
  by (simp add: ds_wf_def ds_zero_def nr_limits)

lemma load_routes_spec:
  assumes "load_routes root ds = Inr ds'" and "ds_wf ds"
  shows "ds_wf ds'" and "\<exists>l. ds' = ds\<lparr>routes := l\<rparr>"
proof -
  have rt: "route_wf rt" if "load_route it = Inr rt" for it rt
    using that
    by (auto simp: load_route_def route_wf_def ebind_Inr_iff nr_limits dest!: get_str_length)
  have loop: "n \<le> NR_DES_ROUTE4_MAX \<Longrightarrow> n + length l \<le> NR_DES_ROUTE4_MAX \<and> (\<forall>r \<in> set l. route_wf r)"
    if "routes_loop n its = Inr l" for n its l
    using that
    by (induction n its arbitrary: l rule: routes_loop.induct)
       (fastforce simp: ebind_Inr_iff rt split: if_splits)+
  obtain l where l: "length l \<le> NR_DES_ROUTE4_MAX" "\<forall>r \<in> set l. route_wf r"
    and ds': "ds' = ds\<lparr>routes := l\<rparr>"
  proof (cases "cfg_child root ''routes''")
    case None
    with assms(1) have "ds' = ds\<lparr>routes := []\<rparr>" by (simp add: load_routes_def)
    then show thesis by (intro that [of "[]"]) simp_all
  next
    case (Some rs)
    with assms(1) show thesis
      by (auto simp: load_routes_def intro!: that split: if_splits elim!: ebind_InrE dest!: loop)
  qed
  show "ds_wf ds'" using assms(2) l by (simp add: ds' ds_wf_def)
  show "\<exists>l. ds' = ds\<lparr>routes := l\<rparr>" using ds' by blast
qed

lemma load_bridge_spec:
  assumes "load_bridge root ds = Inr ds'" and "ds_wf ds"
  shows "ds_wf ds'" and "bridge_rules ds'" and "scenario ds' = scenario ds"
proof -
  from assms(1) obtain br name addr gateway dns mode dhcp_cmd am ports where
      g: "get_str br ''name'' IFNAMSIZ True = Inr name" "get_str br ''addr'' 32 False = Inr addr"
        "get_str br ''gateway'' INET_ADDRSTRLEN False = Inr gateway"
        "get_dns_arr br ''dns'' NR_DES_DNS4_MAX = Inr dns" "get_str br ''dhcp_cmd'' 128 False = Inr dhcp_cmd"
        "get_str_arr br ''ports'' NR_BR_PORT_MAX = Inr ports"
      and m: "bridge_mode mode addr dhcp_cmd = Inr am"
      and st: "gateway \<noteq> [] \<longrightarrow> am = ADDR_STATIC" "dns \<noteq> [] \<longrightarrow> am = ADDR_STATIC"
      and ds': "ds' = ds\<lparr>br_name := name, br_addr := addr, br_gateway := gateway, br_dns := dns,
               br_dhcp_cmd := dhcp_cmd, br_addr_mode := am, br_ports := ports\<rparr>"
    by (auto simp: load_bridge_def split: option.splits if_splits elim!: ebind_InrE)
  show "ds_wf ds'"
    using assms(2) get_str_length [OF g(1)] get_str_length [OF g(2)] get_str_length [OF g(3)]
      get_arr_bounds(2) [OF g(4)] get_str_length [OF g(5)] get_arr_bounds(1) [OF g(6)]
    by (simp add: ds' ds_wf_def IFNAMSIZ_def INET_ADDRSTRLEN_def)
  show "bridge_rules ds'"
    using m st by (auto simp: ds' bridge_rules_def bridge_mode_def split: if_splits addr_mode.splits)
  show "scenario ds' = scenario ds" by (simp add: ds')
qed

lemma load_uplink_spec:
  assumes "load_uplink root ds = Inr ds'" and "ds_wf ds"
  shows "ds_wf ds'" and "\<exists>s. ds' = ds\<lparr>up_ifname := s\<rparr>"
proof -
  from assms(1) obtain up s where g: "get_str up ''ifname'' IFNAMSIZ True = Inr s"
    and ds': "ds' = ds\<lparr>up_ifname := s\<rparr>"
    by (auto simp: load_uplink_def split: option.splits if_splits elim!: ebind_InrE)
  from get_str_length [OF g] have "length s < IFNAMSIZ" by (simp add: IFNAMSIZ_def)
  then show "ds_wf ds'" using assms(2) by (simp add: ds' ds_wf_def)
  show "\<exists>s. ds' = ds\<lparr>up_ifname := s\<rparr>" using ds' by blast
qed

lemma load_vlan_spec:
  assumes "load_vlan root ds = Inr ds'" and "ds_wf ds"
  shows "ds_wf ds'" and "vlan_link ds' = up_ifname ds" and "vlan_bridge ds' = br_name ds"
    and "\<exists>i v l b. ds' = ds\<lparr>vlan_ifname := i, vlan_id := v, vlan_link := l, vlan_bridge := b\<rparr>"
proof -
  from assms(1) obtain vl ifname vid where g: "get_str vl ''ifname'' IFNAMSIZ True = Inr ifname"
    and ds': "ds' = ds\<lparr>vlan_ifname := ifname, vlan_id := vid, vlan_link := up_ifname ds,
      vlan_bridge := br_name ds\<rparr>"
    by (auto simp: load_vlan_def Let_def split: option.splits if_splits elim!: ebind_InrE)
  from get_str_length [OF g] have "length ifname < IFNAMSIZ" by (simp add: IFNAMSIZ_def)
  then show "ds_wf ds'" using assms(2) by (simp add: ds' ds_wf_def)
  show "vlan_link ds' = up_ifname ds" and "vlan_bridge ds' = br_name ds" by (simp_all add: ds')
  show "\<exists>i v l b. ds' = ds\<lparr>vlan_ifname := i, vlan_id := v, vlan_link := l, vlan_bridge := b\<rparr>"
    using ds' by blast
qed

lemma load_wg_vxlan_spec:
  assumes "load_wg_vxlan root ds = Inr ds'" and "ds_wf ds"
  shows "ds_wf ds'" and "vx_bridge ds' = br_name ds" and "vx_dev ds' = [] \<or> vx_dev ds' = wg_ifname ds'"
    and "\<exists>a b c d e f g h. ds' = ds\<lparr>wg_ifname := a, wg_peer_ip := b, wg_route_dev := c,
             vx_ifname := d, vx_vni := e, vx_remote := f, vx_dev := g, vx_bridge := h\<rparr>"
proof -
  from assms(1) obtain wg vx wg_if peer rdev vx_if vni remote dev where
      g: "get_str wg ''ifname'' IFNAMSIZ True = Inr wg_if"
        "get_str wg ''peer_ip'' INET_ADDRSTRLEN True = Inr peer"
        "get_str wg ''route_dev'' IFNAMSIZ True = Inr rdev"
        "get_str vx ''ifname'' IFNAMSIZ True = Inr vx_if"
        "get_str vx ''remote'' INET_ADDRSTRLEN True = Inr remote"
        "get_str vx ''dev'' IFNAMSIZ False = Inr dev"
      and dev: "dev = [] \<or> dev = wg_if"
      and ds': "ds' = ds\<lparr>wg_ifname := wg_if, wg_peer_ip := peer, wg_route_dev := rdev,
             vx_ifname := vx_if, vx_vni := vni, vx_remote := remote, vx_dev := dev,
             vx_bridge := br_name ds\<rparr>"
    by (auto simp: load_wg_vxlan_def split: option.splits if_splits elim!: ebind_InrE)
  note len = g [THEN get_str_length]
  show "ds_wf ds'" using assms(2) len by (simp add: ds' ds_wf_def IFNAMSIZ_def INET_ADDRSTRLEN_def)
  show "vx_bridge ds' = br_name ds" by (simp add: ds')
  show "vx_dev ds' = [] \<or> vx_dev ds' = wg_ifname ds'" using dev by (simp add: ds')
  show "\<exists>a b c d e f g h. ds' = ds\<lparr>wg_ifname := a, wg_peer_ip := b, wg_route_dev := c,
             vx_ifname := d, vx_vni := e, vx_remote := f, vx_dev := g, vx_bridge := h\<rparr>"
    using ds' by blast
qed

lemma bridge_rules_frame:
  "bridge_rules (ds\<lparr>up_ifname := s\<rparr>) = bridge_rules ds"
  "bridge_rules (ds\<lparr>routes := l\<rparr>) = bridge_rules ds"
  "bridge_rules (ds\<lparr>vlan_ifname := i, vlan_id := v, vlan_link := ll, vlan_bridge := b\<rparr>) = bridge_rules ds"
  "bridge_rules (ds\<lparr>wg_ifname := a, wg_peer_ip := b, wg_route_dev := c,
     vx_ifname := d, vx_vni := e, vx_remote := f, vx_dev := g, vx_bridge := h\<rparr>) = bridge_rules ds"
  by (simp_all add: bridge_rules_def split: addr_mode.split)

text \<open>What every accepted state satisfies.\<close>

definition ds_valid :: "desired_state \<Rightarrow> bool" where
  "ds_valid ds \<longleftrightarrow> ds_wf ds \<and> bridge_rules ds \<and> scenario_rules ds \<and> known_scenario (scenario ds)"

lemma ds_valid_routes:
  assumes "load_routes root ds = Inr ds'" and "ds_valid ds"
  shows "ds_valid ds'"
proof -
  have "ds_wf ds" using assms(2) by (simp add: ds_valid_def)
  from load_routes_spec [OF assms(1) this] obtain l where "ds_wf ds'" and "ds' = ds\<lparr>routes := l\<rparr>"
    by blast
  with assms(2) show ?thesis by (simp add: ds_valid_def bridge_rules_frame scenario_rules_def)
qed

lemma load_body_valid:
  assumes "ds = ds_zero\<lparr>scenario := scn\<rparr>" and "length scn < 32"
  shows "is_scn ds ''only_uplink'' (Some ''only_uplink_iface'') \<Longrightarrow>
      load_uplink root ds = Inr ds' \<Longrightarrow> ds_valid ds'"
    and "is_scn ds ''uplink_bridge'' (Some ''uplink_in_bridge'') \<Longrightarrow>
      load_bridge root ds = Inr d1 \<Longrightarrow> load_uplink root d1 = Inr ds' \<Longrightarrow> ds_valid ds'"
    and "is_scn ds ''vlan_bridge'' (Some ''vlan_in_bridge'') \<Longrightarrow>
      load_bridge root ds = Inr d1 \<Longrightarrow> load_uplink root d1 = Inr d2 \<Longrightarrow>
      load_vlan root d2 = Inr ds' \<Longrightarrow> ds_valid ds'"
    and "scenario ds = ''wg_vxlan_bridge'' \<Longrightarrow> load_bridge root ds = Inr d1 \<Longrightarrow>
      d2 = d1 \<or> load_uplink root d1 = Inr d2 \<Longrightarrow> load_wg_vxlan root d2 = Inr ds' \<Longrightarrow> ds_valid ds'"
proof -
  have wf: "ds_wf ds" using assms ds_zero_wf by (simp add: ds_wf_def)
  have br: "bridge_rules ds" using assms(1) by (simp add: bridge_rules_def ds_zero_def)
  note defs = ds_valid_def scenario_rules_def known_scenario_def is_scn_def
  show "ds_valid ds'" if "is_scn ds ''only_uplink'' (Some ''only_uplink_iface'')"
      and "load_uplink root ds = Inr ds'"
    using load_uplink_spec [OF that(2) wf] that(1) br by (auto simp: defs bridge_rules_frame)
  show "ds_valid ds'" if "is_scn ds ''uplink_bridge'' (Some ''uplink_in_bridge'')"
      and "load_bridge root ds = Inr d1" and "load_uplink root d1 = Inr ds'"
    using load_bridge_spec [OF that(2) wf] load_uplink_spec [OF that(3)] that(1)
    by (auto simp: defs bridge_rules_frame)
  show "ds_valid ds'" if "is_scn ds ''vlan_bridge'' (Some ''vlan_in_bridge'')"
      and "load_bridge root ds = Inr d1" and "load_uplink root d1 = Inr d2"
      and "load_vlan root d2 = Inr ds'"
  proof -
    note b = load_bridge_spec [OF that(2) wf]
    note u = load_uplink_spec [OF that(3) b(1)]
    from load_vlan_spec [OF that(4) u(1)] b u(2) that(1) show ?thesis
      by (auto simp: defs bridge_rules_frame)
  qed
  show "ds_valid ds'" if "scenario ds = ''wg_vxlan_bridge''" and "load_bridge root ds = Inr d1"
      and "d2 = d1 \<or> load_uplink root d1 = Inr d2" and "load_wg_vxlan root d2 = Inr ds'"
  proof -
    note b = load_bridge_spec [OF that(2) wf]
    from that(3) b(1) have wf2: "ds_wf d2" using load_uplink_spec(1) by blast
    from that(3) b have d2: "bridge_rules d2" "scenario d2 = scenario d1"
      by (auto simp: bridge_rules_frame dest!: load_uplink_spec(2))
    from load_wg_vxlan_spec [OF that(4) wf2] d2 b(3) that(1) show ?thesis
      by (auto simp: defs bridge_rules_frame)
  qed
qed

lemma load_state_valid:
  assumes "load_state root = Inr ds"
  shows "ds_valid ds"
proof -
  from assms obtain scn where scn: "get_str root ''scenario'' 32 True = Inr scn"
    by (auto simp: load_state_def ebind_Inr_iff)
  then have len: "length scn < 32" using get_str_length by simp
  define d0 where "d0 = ds_zero\<lparr>scenario := scn\<rparr>"
  note body = load_body_valid [OF d0_def len, of root]
  from assms scn obtain d where r: "load_routes root d = Inr ds" and m:
    "(if is_scn d0 ''only_uplink'' (Some ''only_uplink_iface'') then load_uplink root d0
      else if is_scn d0 ''uplink_bridge'' (Some ''uplink_in_bridge'') then
        ebind (load_bridge root d0) (load_uplink root)
      else if is_scn d0 ''vlan_bridge'' (Some ''vlan_in_bridge'') then
        ebind (load_bridge root d0) (\<lambda>ds. ebind (load_uplink root ds) (load_vlan root))
      else if scenario d0 = ''wg_vxlan_bridge'' then
        ebind (load_bridge root d0) (\<lambda>ds.
        ebind (if cfg_child root ''uplink'' \<noteq> None then load_uplink root ds else Inr ds)
          (load_wg_vxlan root))
      else Inl EINVAL) = Inr d"
    unfolding load_state_def scn Let_def d0_def by (auto simp only: ebind_simps ebind_Inr_iff)
  have "ds_valid d"
    using m by (auto split: if_splits elim!: ebind_InrE intro: body)
  then show ?thesis using r ds_valid_routes by blast
qed

lemma load_set_valid:
  assumes "load_set root = Inr sts"
  shows "list_all ds_valid sts" and "0 < length sts" and "length sts \<le> NR_DES_STATE_MAX"
proof -
  have loop: "n \<le> NR_DES_STATE_MAX \<Longrightarrow> n + length l \<le> NR_DES_STATE_MAX \<and> list_all ds_valid l"
    if "states_loop n its = Inr l" for n its l
    using that
    by (induction n its arbitrary: l rule: states_loop.induct)
       (fastforce simp: ebind_Inr_iff load_state_valid split: if_splits)+
  show "list_all ds_valid sts" and "0 < length sts" and "length sts \<le> NR_DES_STATE_MAX"
    using assms loop [of 0]
    by (auto simp: load_set_def ebind_Inr_iff NR_DES_STATE_MAX_def
        split: if_splits option.splits dest: load_state_valid)
qed

section \<open>Required fields\<close>

text \<open>The fields that a state of a scenario cannot do without, as section and key.\<close>

definition required_fields :: "string \<Rightarrow> (string \<times> string) list" where
  "required_fields scn =
     (if scn \<in> {''only_uplink'', ''only_uplink_iface''} then [(''uplink'', ''ifname'')]
      else if scn \<in> {''uplink_bridge'', ''uplink_in_bridge''} then
        [(''bridge'', ''name''), (''uplink'', ''ifname'')]
      else if scn \<in> {''vlan_bridge'', ''vlan_in_bridge''} then
        [(''bridge'', ''name''), (''uplink'', ''ifname''), (''vlan'', ''ifname''), (''vlan'', ''id'')]
      else [(''bridge'', ''name''), (''wg'', ''ifname''), (''wg'', ''peer_ip''), (''wg'', ''route_dev''),
        (''vxlan'', ''ifname''), (''vxlan'', ''vni''), (''vxlan'', ''remote''), (''vxlan'', ''bridge'')])"

definition has_str :: "cfg_node \<Rightarrow> string \<Rightarrow> bool" where
  "has_str obj key \<longleftrightarrow> (\<exists>v. cfg_child obj key = Some v \<and> cfg_type_of v = CFG_STR)"

definition has_field :: "cfg_node \<Rightarrow> string \<times> string \<Rightarrow> bool" where
  "has_field root f \<longleftrightarrow> (\<exists>sec. cfg_child root (fst f) = Some sec \<and> cfg_type_of sec = CFG_OBJ \<and> has_str sec (snd f))"

text \<open>The sections of a configuration that describe one state each.\<close>

definition state_sections :: "cfg \<Rightarrow> cfg_node list" where
  "state_sections root = (if cfg_child root ''scenario'' \<noteq> None then [root]
     else (case cfg_child root ''state'' of None \<Rightarrow> [] | Some states \<Rightarrow> cfg_items states))"

definition route_sections :: "cfg_node \<Rightarrow> cfg_node list" where
  "route_sections root = (case cfg_child root ''routes'' of None \<Rightarrow> [] | Some rts \<Rightarrow> cfg_items rts)"

definition section_complete :: "cfg_node \<Rightarrow> desired_state \<Rightarrow> bool" where
  "section_complete root ds \<longleftrightarrow> has_str root ''scenario''
     \<and> list_all (has_field root) (required_fields (scenario ds))
     \<and> list_all2 (\<lambda>it rt. has_str it ''dst'' \<and> has_str it ''dev'') (route_sections root) (routes ds)"

lemma get_str_required: "get_str obj key sz True = Inr s \<Longrightarrow> has_str obj key"
  by (auto simp: get_str_def has_str_def split: option.splits if_splits)

lemma get_u32_required: "get_u32 obj key = Inr v \<Longrightarrow> has_str obj key"
  by (auto simp: get_u32_def has_str_def split: option.splits if_splits)

lemma load_bridge_fields:
  "load_bridge root ds = Inr ds' \<Longrightarrow> has_field root (''bridge'', ''name'') \<and> scenario ds' = scenario ds"
  by (auto simp: load_bridge_def has_field_def split: option.splits if_splits
      elim!: ebind_InrE dest!: get_str_required)

lemma load_uplink_fields:
  "load_uplink root ds = Inr ds' \<Longrightarrow> has_field root (''uplink'', ''ifname'') \<and> scenario ds' = scenario ds"
  by (auto simp: load_uplink_def has_field_def split: option.splits if_splits
      elim!: ebind_InrE dest!: get_str_required)

lemma load_vlan_fields:
  "load_vlan root ds = Inr ds' \<Longrightarrow> has_field root (''vlan'', ''ifname'') \<and> has_field root (''vlan'', ''id'')
     \<and> scenario ds' = scenario ds"
  by (auto simp: load_vlan_def has_field_def Let_def split: option.splits if_splits
      elim!: ebind_InrE dest!: get_str_required get_u32_required)

lemma load_wg_vxlan_fields:
  assumes "load_wg_vxlan root ds = Inr ds'"
  shows "list_all (has_field root) [(''wg'', ''ifname''), (''wg'', ''peer_ip''), (''wg'', ''route_dev''),
    (''vxlan'', ''ifname''), (''vxlan'', ''vni''), (''vxlan'', ''remote''), (''vxlan'', ''bridge'')]"
    and "scenario ds' = scenario ds"
  using assms by (auto simp: load_wg_vxlan_def has_field_def split: option.splits if_splits
      elim!: ebind_InrE dest!: get_str_required get_u32_required)

lemma load_routes_fields:
  assumes "load_routes root ds = Inr ds'"
  shows "list_all2 (\<lambda>it rt. has_str it ''dst'' \<and> has_str it ''dev'') (route_sections root) (routes ds')"
    and "scenario ds' = scenario ds"
proof -
  have loop: "list_all2 (\<lambda>it rt. has_str it ''dst'' \<and> has_str it ''dev'') its l" if "routes_loop n its = Inr l" for n its l
    using that
    by (induction n its arbitrary: l rule: routes_loop.induct)
       (fastforce simp: ebind_Inr_iff load_route_def dest: get_str_required split: if_splits)+
  show "list_all2 (\<lambda>it rt. has_str it ''dst'' \<and> has_str it ''dev'') (route_sections root) (routes ds')"
    and "scenario ds' = scenario ds"
    using assms by (auto simp: load_routes_def route_sections_def split: option.splits if_splits
        elim!: ebind_InrE dest: loop)
qed

lemma load_body_fields:
  assumes "ds = ds_zero\<lparr>scenario := scn\<rparr>"
  shows "is_scn ds ''only_uplink'' (Some ''only_uplink_iface'') \<Longrightarrow>
      load_uplink root ds = Inr ds' \<Longrightarrow> list_all (has_field root) (required_fields (scenario ds'))"
    and "is_scn ds ''uplink_bridge'' (Some ''uplink_in_bridge'') \<Longrightarrow>
      load_bridge root ds = Inr d1 \<Longrightarrow> load_uplink root d1 = Inr ds' \<Longrightarrow>
      list_all (has_field root) (required_fields (scenario ds'))"
    and "is_scn ds ''vlan_bridge'' (Some ''vlan_in_bridge'') \<Longrightarrow>
      load_bridge root ds = Inr d1 \<Longrightarrow> load_uplink root d1 = Inr d2 \<Longrightarrow>
      load_vlan root d2 = Inr ds' \<Longrightarrow> list_all (has_field root) (required_fields (scenario ds'))"
    and "scenario ds = ''wg_vxlan_bridge'' \<Longrightarrow> load_bridge root ds = Inr d1 \<Longrightarrow>
      d2 = d1 \<or> load_uplink root d1 = Inr d2 \<Longrightarrow> load_wg_vxlan root d2 = Inr ds' \<Longrightarrow>
      list_all (has_field root) (required_fields (scenario ds'))"
proof -
  note defs = is_scn_def required_fields_def
  show "list_all (has_field root) (required_fields (scenario ds'))"
    if "is_scn ds ''only_uplink'' (Some ''only_uplink_iface'')" and "load_uplink root ds = Inr ds'"
    using load_uplink_fields [OF that(2)] that(1) by (auto simp: defs)
  show "list_all (has_field root) (required_fields (scenario ds'))"
    if "is_scn ds ''uplink_bridge'' (Some ''uplink_in_bridge'')" and "load_bridge root ds = Inr d1"
      and "load_uplink root d1 = Inr ds'"
    using load_bridge_fields [OF that(2)] load_uplink_fields [OF that(3)] that(1) by (auto simp: defs)
  show "list_all (has_field root) (required_fields (scenario ds'))"
    if "is_scn ds ''vlan_bridge'' (Some ''vlan_in_bridge'')" and "load_bridge root ds = Inr d1"
      and "load_uplink root d1 = Inr d2" and "load_vlan root d2 = Inr ds'"
    using load_bridge_fields [OF that(2)] load_uplink_fields [OF that(3)] load_vlan_fields [OF that(4)] that(1)
    by (auto simp: defs)
  show "list_all (has_field root) (required_fields (scenario ds'))"
    if "scenario ds = ''wg_vxlan_bridge''" and "load_bridge root ds = Inr d1"
      and "d2 = d1 \<or> load_uplink root d1 = Inr d2" and "load_wg_vxlan root d2 = Inr ds'"
  proof -
    have "scenario d2 = scenario d1" using that(3) load_uplink_fields by auto
    with load_bridge_fields [OF that(2)] load_wg_vxlan_fields [OF that(4)] that(1) show ?thesis
      by (simp add: required_fields_def)
  qed
qed

lemma load_state_complete:
  assumes "load_state root = Inr ds"
  shows "section_complete root ds"
proof -
  from assms obtain scn where scn: "get_str root ''scenario'' 32 True = Inr scn"
    by (auto simp: load_state_def ebind_Inr_iff)
  define d0 where "d0 = ds_zero\<lparr>scenario := scn\<rparr>"
  note body = load_body_fields [OF d0_def, of root]
  from assms scn obtain d where r: "load_routes root d = Inr ds" and m:
    "(if is_scn d0 ''only_uplink'' (Some ''only_uplink_iface'') then load_uplink root d0
      else if is_scn d0 ''uplink_bridge'' (Some ''uplink_in_bridge'') then
        ebind (load_bridge root d0) (load_uplink root)
      else if is_scn d0 ''vlan_bridge'' (Some ''vlan_in_bridge'') then
        ebind (load_bridge root d0) (\<lambda>ds. ebind (load_uplink root ds) (load_vlan root))
      else if scenario d0 = ''wg_vxlan_bridge'' then
        ebind (load_bridge root d0) (\<lambda>ds.
        ebind (if cfg_child root ''uplink'' \<noteq> None then load_uplink root ds else Inr ds)
          (load_wg_vxlan root))
      else Inl EINVAL) = Inr d"
    unfolding load_state_def scn Let_def d0_def by (auto simp only: ebind_simps ebind_Inr_iff)
  have "list_all (has_field root) (required_fields (scenario d))"
    using m by (auto split: if_splits elim!: ebind_InrE intro: body)
  then show ?thesis using get_str_required [OF scn] load_routes_fields [OF r] by (simp add: section_complete_def)
qed

lemma load_set_complete:
  assumes "load_set root = Inr sts"
  shows "list_all2 section_complete (state_sections root) sts"
proof -
  have loop: "list_all2 section_complete its l" if "states_loop n its = Inr l" for n its l
    using that
    by (induction n its arbitrary: l rule: states_loop.induct)
       (fastforce simp: ebind_Inr_iff load_state_complete split: if_splits)+
  show ?thesis
    using assms
    by (auto simp: load_set_def state_sections_def ebind_Inr_iff split: if_splits option.splits
        dest: load_state_complete loop)
qed

lemma parse_u32_str_fmt: "parse_u32_str (Some (fmt_u (unat (w :: 32 word)))) = Inr w"
proof -
  have "unat w < 2 ^ LENGTH(32)" by (rule unsigned_less)
  then have "unat w \<le> UINT32_MAX" by (simp add: UINT32_MAX_def)
  then show ?thesis
    by (simp add: parse_u32_str_def strtoul0_fmt_u ULONG_MAX_def UINT32_MAX_def)
qed

section \<open>Properties\<close>

text \<open>C9: a configuration that is accepted describes between 1 and 16 states, each within the bounds of
  \<open>struct desired_state\<close> (every string terminated inside its array, every list within its limit), of a
  known scenario, with the address-mode rules and the agreement between its parts kept; and the section
  of the file that describes it has every field that its scenario requires (a field may still be set to
  the empty string: the loader asks for the key, not for a value).\<close>

theorem yaml_loaded_valid:
  assumes "yaml_load_desired_set bytes = Inr sts"
  shows "list_all ds_valid sts \<and> 0 < length sts \<and> length sts \<le> NR_DES_STATE_MAX
    \<and> (\<exists>root. cfg_load bytes = Inr root \<and> list_all2 section_complete (state_sections root) sts)"
proof -
  from assms obtain root where "cfg_load bytes = Inr root" and "load_set root = Inr sts"
    by (auto simp: yaml_load_desired_set_def ebind_Inr_iff)
  with load_set_valid load_set_complete show ?thesis by blast
qed

text \<open>Every 32-bit number printed in decimal is read back by \<open>parse_u32_str\<close>.\<close>

theorem parse_u32_roundtrip: "parse_u32_str (Some (fmt_u (unat (w :: 32 word)))) = Inr w"
  by (rule parse_u32_str_fmt)

section \<open>A concrete configuration\<close>

definition demo_file :: "(cfg_tok list \<times> string) list" where
  "demo_file = [([TokKey ''scenario''], ''only_uplink''), ([TokKey ''uplink'', TokKey ''ifname''], ''eth0'')]"

definition demo_ds :: desired_state where
  "demo_ds = ds_zero\<lparr>scenario := ''only_uplink'', up_ifname := ''eth0''\<rparr>"

definition demo_tree :: cfg where
  "demo_tree = Node CFG_OBJ None None [Node CFG_STR (Some ''scenario'') (Some ''only_uplink'') [],
     Node CFG_OBJ (Some ''uplink'') None [Node CFG_STR (Some ''ifname'') (Some ''eth0'') []]]"

lemma demo_yaml: "yaml_load_desired_set (Inr (concat (map line_text demo_file))) = Inr [demo_ds]"
proof -
  have "list_all line_ok demo_file" by code_simp
  then have "file_assigns (concat (map line_text demo_file)) = Inr demo_file" by (rule file_assigns_text)
  moreover have "set_toks [TokKey ''scenario''] ''only_uplink'' cfg_init
      = (None, Node CFG_OBJ None None [Node CFG_STR (Some ''scenario'') (Some ''only_uplink'') []])"
    and "set_toks [TokKey ''uplink'', TokKey ''ifname''] ''eth0''
      (Node CFG_OBJ None None [Node CFG_STR (Some ''scenario'') (Some ''only_uplink'') []]) = (None, demo_tree)"
    by code_simp+
  then have "tree_store.assign_all demo_file cfg_init = (None, demo_tree)"
    by (simp add: demo_file_def del: set_toks.simps)
  ultimately have "load_loop cfg_init (concat (map line_text demo_file)) = Inr demo_tree"
    using load_loop_assigns by blast
  moreover have "load_set demo_tree = Inr [demo_ds]" by code_simp
  ultimately show ?thesis
    by (simp add: yaml_load_desired_set_def cfg_load_def)
qed

theorem yaml_loaded_valid_witness:
  "ds_valid demo_ds \<and> (\<exists>root. cfg_load (Inr (concat (map line_text demo_file))) = Inr root
     \<and> list_all2 section_complete (state_sections root) [demo_ds])"
  using yaml_loaded_valid [OF demo_yaml] by simp

end
