(* ===== verification/Verify.thy ===== *)
theory Verify
  imports Yaml "HOL-Library.State_Monad"
begin

text \<open>
  \<open>verify.c\<close>: the comparison of a desired state with the kernel snapshot. A check prints what
  holds (\<open>OK\<close>) and what does not (\<open>MISS\<close>), prints the command that would repair a difference
  (\<open>ACT\<close>) and, under \<open>--apply\<close>, runs it; it returns the number of differences. Checks are
  computations in the state monad over \<open>vctx\<close>, which has, beside the fields of the C structure,
  the lines printed and the argument vectors run so far. The child processes are a parameter
  \<open>sys\<close>: what \<open>fork\<close> and \<open>waitpid\<close> report for an argument vector after the ones already run.
\<close>

section \<open>Output and context\<close>

text \<open>A line on the standard output, by its tag.\<close>

datatype line =
    OK string
  | MISS string
  | ACT string
  | APPLY_OK string
  | APPLY_FAIL int string

fun line_bytes :: "line \<Rightarrow> string" where
  "line_bytes (OK t) = ''OK '' @ t @ [NL]"
| "line_bytes (MISS t) = ''MISS '' @ t @ [NL]"
| "line_bytes (ACT t) = ''ACT '' @ t @ [NL]"
| "line_bytes (APPLY_OK t) = ''APPLY_OK cmd='' @ t @ [NL]"
| "line_bytes (APPLY_FAIL rc t) = ''APPLY_FAIL rc='' @ fmt_d rc @ '' cmd='' @ t @ [NL]"

type_synonym argv = "string list"

record vctx =
  vc_apply :: bool
  vc_act_fail :: bool
  vc_out :: "line list"
  vc_runs :: "argv list"

text \<open>What \<open>waitpid\<close> reports for the child, after any number of interruptions (\<open>EINTR\<close>).\<close>

datatype wait_event =
    Interrupted wait_event
  | Wait_error errno
  | Exited nat
  | Signalled nat
  | Other_status

datatype proc_event = Fork_error errno | Child wait_event

type_synonym system = "argv list \<Rightarrow> argv \<Rightarrow> proc_event"

section \<open>Parsing and searching\<close>

definition parse_addr_prefix :: "string \<Rightarrow> (32 word \<times> int) result" where
  "parse_addr_prefix s =
     (if s = [] then Inl EINVAL
      else let buf = fit 64 s; host = takeWhile (\<lambda>c. c \<noteq> CHR ''/'') buf in
        case dropWhile (\<lambda>c. c \<noteq> CHR ''/'') buf of
          [] \<Rightarrow> Inl EINVAL
        | _ # p \<Rightarrow> (case inet_pton host of
            None \<Rightarrow> Inl EINVAL
          | Some addr \<Rightarrow> let (v, fin, err) = strtol10 p in
              if err \<or> fin \<noteq> [] \<or> v < 0 \<or> v > 32 then Inl EINVAL else Inr (addr, v)))"

definition parse_ip4 :: "string \<Rightarrow> 32 word result" where
  "parse_ip4 s = (case inet_pton s of None \<Rightarrow> Inl EINVAL | Some addr \<Rightarrow> Inr addr)"

fun route_loop :: "route4 list \<Rightarrow> 32 word \<Rightarrow> int \<Rightarrow> int \<Rightarrow> 32 word \<Rightarrow> bool \<Rightarrow> bool" where
  "route_loop [] dst prefix oif gw has_gw = False"
| "route_loop (r # rs) dst prefix oif gw has_gw =
     (if r4_oif r \<noteq> oif then route_loop rs dst prefix oif gw has_gw
      else if r4_prefix r \<noteq> prefix then route_loop rs dst prefix oif gw has_gw
      else if r4_dst r \<noteq> dst then route_loop rs dst prefix oif gw has_gw
      else if has_gw \<and> (\<not> r4_has_gw r \<or> r4_gw r \<noteq> gw) then route_loop rs dst prefix oif gw has_gw
      else if \<not> has_gw \<and> r4_has_gw r then route_loop rs dst prefix oif gw has_gw
      else True)"

definition route_exact :: "real_state \<Rightarrow> 32 word \<Rightarrow> int \<Rightarrow> int \<Rightarrow> 32 word \<Rightarrow> bool \<Rightarrow> bool" where
  "route_exact rs dst prefix oif gw has_gw =
     (if oif \<le> 0 then False else route_loop (route4s rs) dst prefix oif gw has_gw)"

fun addr_loop :: "addr4 list \<Rightarrow> int \<Rightarrow> 32 word \<Rightarrow> int \<Rightarrow> bool" where
  "addr_loop [] ifindex addr prefix = False"
| "addr_loop (a # as) ifindex addr prefix =
     (if a4_ifindex a \<noteq> ifindex then addr_loop as ifindex addr prefix
      else if a4_prefix a \<noteq> prefix then addr_loop as ifindex addr prefix
      else if a4_addr a = addr then True
      else addr_loop as ifindex addr prefix)"

definition addr_exists :: "real_state \<Rightarrow> int \<Rightarrow> 32 word \<Rightarrow> int \<Rightarrow> bool" where
  "addr_exists rs ifindex addr prefix = addr_loop (addr4s rs) ifindex addr prefix"

fun addr_any_loop :: "addr4 list \<Rightarrow> int \<Rightarrow> bool" where
  "addr_any_loop [] ifindex = False"
| "addr_any_loop (a # as) ifindex = (if a4_ifindex a = ifindex then True else addr_any_loop as ifindex)"

definition addr_any_exists :: "real_state \<Rightarrow> int \<Rightarrow> bool" where
  "addr_any_exists rs ifindex = addr_any_loop (addr4s rs) ifindex"

text \<open>The loop of \<open>subst_iface\<close>; \<open>acc\<close> is the destination filled so far (\<open>n\<close> bytes).\<close>

function subst_loop :: "nat \<Rightarrow> string \<Rightarrow> string \<Rightarrow> string \<Rightarrow> string result" where
  "subst_loop sz ifname acc src =
     (if src = [] then Inr acc
      else if has_prefix ''$iface'' src then
        (if length acc + length ifname \<ge> sz then Inl ENOSPC
         else subst_loop sz ifname (acc @ ifname) (drop 6 src))
      else if length acc + 1 \<ge> sz then Inl ENOSPC
      else subst_loop sz ifname (acc @ [hd src]) (tl src))"
  by pat_completeness auto
termination
  by (relation "measure (\<lambda>(sz, ifname, acc, src). length src)") auto

declare subst_loop.simps [simp del]

definition subst_iface :: "nat \<Rightarrow> string \<Rightarrow> string \<Rightarrow> string result" where
  "subst_iface sz src ifname = (if sz = 0 then Inl ENOSPC else subst_loop sz ifname [] src)"

section \<open>Printing and running commands\<close>

definition put_line :: "line \<Rightarrow> (vctx, unit) state" where
  "put_line l = State_Monad.update (\<lambda>c. c\<lparr>vc_out := vc_out c @ [l]\<rparr>)"

definition ok :: "string \<Rightarrow> (vctx, nat) state" where
  "ok t = do { put_line (OK t); State_Monad.return 0 }"

definition miss :: "string \<Rightarrow> (vctx, nat) state" where
  "miss t = do { put_line (MISS t); State_Monad.return 1 }"

text \<open>\<open>cmd_split\<close> with \<open>argc\<close> arguments found so far; the blanks it overwrites with NUL end the
  argument before them.\<close>

function cmd_split_loop :: "nat \<Rightarrow> nat \<Rightarrow> string \<Rightarrow> argv result" where
  "cmd_split_loop mx argc p = (let q = dropWhile is_blank p in
     if q = [] then Inr []
     else if argc + 1 \<ge> mx then Inl E2BIG
     else ebind (cmd_split_loop mx (argc + 1) (dropWhile (\<lambda>c. \<not> is_blank c) q)) (\<lambda>rest.
       Inr (takeWhile (\<lambda>c. \<not> is_blank c) q # rest)))"
  by pat_completeness auto
termination
proof (relation "measure (\<lambda>(mx, argc, p). length p)", goal_cases)
  case (2 mx argc p q)
  from 2(2) obtain c cs where q: "q = c # cs" by (meson neq_Nil_conv)
  have c: "\<not> is_blank c" using hd_dropWhile [of is_blank p] 2(1,2) q by (metis list.sel(1))
  have "length (dropWhile (\<lambda>c. \<not> is_blank c) q) < length q"
    using c by (simp add: q length_dropWhile_le le_imp_less_Suc)
  also have "\<dots> \<le> length p" using 2(1) by (simp add: length_dropWhile_le)
  finally show ?case by simp
qed simp

declare cmd_split_loop.simps [simp del]

definition cmd_split :: "nat \<Rightarrow> string \<Rightarrow> argv result" where
  "cmd_split mx cmd = cmd_split_loop mx 0 cmd"

text \<open>The \<open>for (;;)\<close> around \<open>waitpid\<close> and the decoding of the status.\<close>

fun wait_status :: "wait_event \<Rightarrow> int" where
  "wait_status (Interrupted w) = wait_status w"
| "wait_status (Wait_error e) = rc_of e"
| "wait_status (Exited n) = int n"
| "wait_status (Signalled n) = 128 + int n"
| "wait_status Other_status = rc_of EIO"

definition starts_hash :: "string \<Rightarrow> bool" where
  "starts_hash cmd = has_prefix ''#'' cmd"

text \<open>The return value, and the argument vectors run once the child exists.\<close>

definition cmd_exec :: "system \<Rightarrow> argv list \<Rightarrow> string \<Rightarrow> int \<times> argv list" where
  "cmd_exec sys runs cmd =
     (if starts_hash cmd then (0, runs)
      else case cmd_split 32 (fit 256 cmd) of
        Inl e \<Rightarrow> (rc_of e, runs)
      | Inr argv \<Rightarrow>
          if argv = [] then (rc_of EINVAL, runs)
          else case sys runs argv of
            Fork_error e \<Rightarrow> (rc_of e, runs)
          | Child w \<Rightarrow> (wait_status w, runs @ [argv]))"

definition act :: "system \<Rightarrow> string \<Rightarrow> (vctx, unit) state" where
  "act sys t = do {
     let cmd = fit 256 t;
     put_line (ACT cmd);
     ctx \<leftarrow> State_Monad.get;
     if \<not> vc_apply ctx \<or> starts_hash cmd then State_Monad.return ()
     else do {
       let (rc, runs) = cmd_exec sys (vc_runs ctx) cmd;
       State_Monad.set (ctx\<lparr>vc_runs := runs\<rparr>);
       if rc \<noteq> 0 then do {
         put_line (APPLY_FAIL rc cmd);
         State_Monad.update (\<lambda>c. c\<lparr>vc_act_fail := True\<rparr>)
       } else put_line (APPLY_OK cmd)
     }
   }"

text \<open>A sequence of \<open>diff += check(..)\<close>.\<close>

fun run_checks :: "(vctx, nat) state list \<Rightarrow> (vctx, nat) state" where
  "run_checks [] = State_Monad.return 0"
| "run_checks (m # ms) = do { d \<leftarrow> m; ds \<leftarrow> run_checks ms; State_Monad.return (d + ds) }"

section \<open>Checks\<close>

definition IFF_UP :: "32 word" where "IFF_UP = 1"

definition is_up :: "iface \<Rightarrow> bool" where
  "is_up i \<longleftrightarrow> and (if_flags i) IFF_UP \<noteq> 0"

definition check_bridge :: "system \<Rightarrow> desired_state \<Rightarrow> real_state \<Rightarrow> (vctx, nat) state" where
  "check_bridge sys ds rs = (case rs_find_iface rs (br_name ds) of
     Some br \<Rightarrow>
       if if_kind br = ''bridge'' then do {
         ok (''bridge '' @ br_name ds @ '' exists'');
         if is_up br then ok (''bridge '' @ br_name ds @ '' up'')
         else do {
           miss (''bridge '' @ br_name ds @ '' up'');
           act sys (''ip link set '' @ br_name ds @ '' up'');
           State_Monad.return 1
         }
       } else do {
         miss (''bridge '' @ br_name ds @ '' type bridge'');
         act sys (''ip link del '' @ br_name ds);
         act sys (''ip link add '' @ br_name ds @ '' type bridge'');
         act sys (''ip link set '' @ br_name ds @ '' up'');
         State_Monad.return 1
       }
   | None \<Rightarrow> do {
       miss (''bridge '' @ br_name ds @ '' exists'');
       act sys (''ip link add '' @ br_name ds @ '' type bridge'');
       act sys (''ip link set '' @ br_name ds @ '' up'');
       State_Monad.return 1
     })"

text \<open>The test \<open>br && p(br)\<close> on the pointer that a search returned.\<close>

definition found :: "'a option \<Rightarrow> ('a \<Rightarrow> bool) \<Rightarrow> bool" where
  "found r p = (case r of None \<Rightarrow> False | Some x \<Rightarrow> p x)"

definition check_bridge_addr :: "system \<Rightarrow> desired_state \<Rightarrow> real_state \<Rightarrow> (vctx, nat) state" where
  "check_bridge_addr sys ds rs = (let br = rs_find_iface rs (br_name ds) in
     case br_addr_mode ds of
       ADDR_NONE \<Rightarrow> State_Monad.return 0
     | ADDR_DHCP \<Rightarrow>
         if found br (\<lambda>br. addr_any_exists rs (if_ifindex br))
         then ok (''dhcp addr dev '' @ br_name ds)
         else do {
           miss (''dhcp addr dev '' @ br_name ds);
           (case subst_iface 256 (br_dhcp_cmd ds) (br_name ds) of
             Inl e \<Rightarrow> act sys ''# bad yaml bridge.dhcp_cmd too long''
           | Inr cmd \<Rightarrow> act sys cmd);
           State_Monad.return 1
         }
     | ADDR_STATIC \<Rightarrow> (case parse_addr_prefix (br_addr ds) of
         Inl e \<Rightarrow> do {
           miss (''addr '' @ br_addr ds @ '' dev '' @ br_name ds);
           act sys (''# bad yaml bridge.addr '' @ br_addr ds);
           State_Monad.return 1
         }
       | Inr (addr, prefix) \<Rightarrow>
           if found br (\<lambda>br. addr_exists rs (if_ifindex br) addr prefix)
           then ok (''addr '' @ br_addr ds @ '' dev '' @ br_name ds)
           else do {
             miss (''addr '' @ br_addr ds @ '' dev '' @ br_name ds);
             act sys (''ip addr add '' @ br_addr ds @ '' dev '' @ br_name ds);
             State_Monad.return 1
           }))"

definition check_bridge_gateway :: "system \<Rightarrow> desired_state \<Rightarrow> real_state \<Rightarrow> (vctx, nat) state" where
  "check_bridge_gateway sys ds rs =
     (if br_gateway ds = [] then State_Monad.return 0
      else case parse_ip4 (br_gateway ds) of
        Inl e \<Rightarrow> do {
          miss (''gateway '' @ br_gateway ds @ '' dev '' @ br_name ds);
          act sys (''# bad yaml bridge.gateway '' @ br_gateway ds);
          State_Monad.return 1
        }
      | Inr gw \<Rightarrow>
          if found (rs_find_iface rs (br_name ds)) (\<lambda>br. route_exact rs 0 0 (if_ifindex br) gw True)
          then ok (''gateway '' @ br_gateway ds @ '' dev '' @ br_name ds)
          else do {
            miss (''gateway '' @ br_gateway ds @ '' dev '' @ br_name ds);
            act sys (''ip route replace 0.0.0.0/0 via '' @ br_gateway ds @ '' dev '' @ br_name ds);
            State_Monad.return 1
          })"

text \<open>The body of the loop of \<open>check_bridge_dns\<close>, and the loop.\<close>

definition check_dns_one :: "system \<Rightarrow> string \<Rightarrow> real_state \<Rightarrow> string \<Rightarrow> (vctx, nat) state" where
  "check_dns_one sys br rs dns = (case parse_ip4 dns of
     Inl e \<Rightarrow> do {
       miss (''dns '' @ dns @ '' dev '' @ br);
       act sys (''# bad yaml bridge.dns '' @ dns);
       State_Monad.return 1
     }
   | Inr addr \<Rightarrow>
       if rs_dns4_exists rs addr then ok (''dns '' @ dns @ '' dev '' @ br)
       else do {
         miss (''dns '' @ dns @ '' dev '' @ br);
         act sys (''# set dns '' @ dns @ '' dev '' @ br);
         State_Monad.return 1
       })"

definition check_bridge_dns :: "system \<Rightarrow> desired_state \<Rightarrow> real_state \<Rightarrow> (vctx, nat) state" where
  "check_bridge_dns sys ds rs = run_checks (map (check_dns_one sys (br_name ds) rs) (br_dns ds))"

definition check_wg_peer_route :: "system \<Rightarrow> desired_state \<Rightarrow> real_state \<Rightarrow> (vctx, nat) state" where
  "check_wg_peer_route sys ds rs = (case parse_ip4 (wg_peer_ip ds) of
     Inl e \<Rightarrow> do {
       miss (''route '' @ wg_peer_ip ds @ ''/32 dev '' @ wg_route_dev ds);
       act sys (''# bad yaml wg.peer_ip '' @ wg_peer_ip ds);
       State_Monad.return 1
     }
   | Inr ip \<Rightarrow>
       if found (rs_find_iface rs (wg_route_dev ds)) (\<lambda>dev. route_exact rs ip 32 (if_ifindex dev) 0 False)
       then ok (''route '' @ wg_peer_ip ds @ ''/32 dev '' @ wg_route_dev ds)
       else do {
         miss (''route '' @ wg_peer_ip ds @ ''/32 dev '' @ wg_route_dev ds);
         act sys (''ip route replace '' @ wg_peer_ip ds @ ''/32 dev '' @ wg_route_dev ds);
         State_Monad.return 1
       })"

definition route_desc :: "desired_route4 \<Rightarrow> string" where
  "route_desc rt = dr_dst rt @ '' via '' @ dr_via rt @ '' dev '' @ dr_dev rt"

definition check_one_route :: "system \<Rightarrow> real_state \<Rightarrow> desired_route4 \<Rightarrow> (vctx, nat) state" where
  "check_one_route sys rs rt = (case parse_addr_prefix (dr_dst rt) of
     Inl e \<Rightarrow> do {
       miss (''route '' @ dr_dst rt @ '' dev '' @ dr_dev rt);
       act sys (''# bad yaml route.dst '' @ dr_dst rt);
       State_Monad.return 1
     }
   | Inr (dst, prefix) \<Rightarrow> (case (if dr_has_via rt then parse_ip4 (dr_via rt) else Inr 0) of
       Inl e \<Rightarrow> do {
         miss (''route '' @ route_desc rt);
         act sys (''# bad yaml route.via '' @ dr_via rt);
         State_Monad.return 1
       }
     | Inr via \<Rightarrow>
         if found (rs_find_iface rs (dr_dev rt))
              (\<lambda>dev. route_exact rs dst prefix (if_ifindex dev) via (dr_has_via rt))
         then if dr_has_via rt then ok (''route '' @ route_desc rt)
              else ok (''route '' @ dr_dst rt @ '' dev '' @ dr_dev rt)
         else if dr_has_via rt then do {
           miss (''route '' @ route_desc rt);
           act sys (''ip route replace '' @ route_desc rt);
           State_Monad.return 1
         } else do {
           miss (''route '' @ dr_dst rt @ '' dev '' @ dr_dev rt);
           act sys (''ip route replace '' @ dr_dst rt @ '' dev '' @ dr_dev rt);
           State_Monad.return 1
         }))"

definition check_routes :: "system \<Rightarrow> desired_state \<Rightarrow> real_state \<Rightarrow> (vctx, nat) state" where
  "check_routes sys ds rs = run_checks (map (check_one_route sys rs) (routes ds))"

definition check_iface_exists :: "string \<Rightarrow> string \<Rightarrow> iface option \<Rightarrow> (vctx, nat) state" where
  "check_iface_exists tag name ifa =
     (if ifa \<noteq> None then ok (tag @ '' '' @ name @ '' exists'')
      else miss (tag @ '' '' @ name @ '' exists''))"

definition check_iface_up :: "system \<Rightarrow> string \<Rightarrow> iface option \<Rightarrow> (vctx, nat) state" where
  "check_iface_up sys name ifa = (case ifa of
     None \<Rightarrow> miss (''iface '' @ name)
   | Some i \<Rightarrow>
       if is_up i then ok (''iface '' @ name @ '' up'')
       else do {
         miss (''iface '' @ name @ '' up'');
         act sys (''ip link set '' @ name @ '' up'');
         State_Monad.return 1
       })"

definition check_master ::
  "system \<Rightarrow> string \<Rightarrow> iface option \<Rightarrow> string \<Rightarrow> real_state \<Rightarrow> (vctx, nat) state" where
  "check_master sys ifname ifa br rs = (case ifa of
     None \<Rightarrow> State_Monad.return 0
   | Some i \<Rightarrow>
       if found (rs_find_iface rs br) (\<lambda>b. if_master i = if_ifindex b)
       then ok (''iface '' @ ifname @ '' master '' @ br)
       else do {
         miss (''iface '' @ ifname @ '' master '' @ br);
         act sys (''ip link set '' @ ifname @ '' master '' @ br);
         State_Monad.return 1
       })"

text \<open>The body of the loop of \<open>check_bridge_ports\<close>, and the loop.\<close>

definition check_port_one :: "system \<Rightarrow> string \<Rightarrow> real_state \<Rightarrow> string \<Rightarrow> (vctx, nat) state" where
  "check_port_one sys br rs name = (let port = rs_find_iface rs name in
     do {
       d \<leftarrow> check_iface_exists ''bridge-port'' name port;
       if port = None then do {
         act sys (''# provide bridge port iface '' @ name);
         State_Monad.return d
       } else do {
         e \<leftarrow> run_checks [check_iface_up sys name port, check_master sys name port br rs];
         State_Monad.return (d + e)
       }
     })"

definition check_bridge_ports :: "system \<Rightarrow> desired_state \<Rightarrow> real_state \<Rightarrow> (vctx, nat) state" where
  "check_bridge_ports sys ds rs = run_checks (map (check_port_one sys (br_name ds) rs) (br_ports ds))"

section \<open>VXLAN and VLAN attributes\<close>

definition act_add_vxlan :: "system \<Rightarrow> desired_state \<Rightarrow> (vctx, unit) state" where
  "act_add_vxlan sys ds =
     (if vx_dev ds \<noteq> [] then
        act sys (''ip link add '' @ vx_ifname ds @ '' type vxlan id '' @ fmt_u (unat (vx_vni ds))
          @ '' remote '' @ vx_remote ds @ '' dev '' @ vx_dev ds)
      else
        act sys (''ip link add '' @ vx_ifname ds @ '' type vxlan id '' @ fmt_u (unat (vx_vni ds))
          @ '' remote '' @ vx_remote ds))"

text \<open>Creation of the link, its administrative state and its bridge, in the order of the code.\<close>

definition act_new_vxlan :: "system \<Rightarrow> desired_state \<Rightarrow> (vctx, unit) state" where
  "act_new_vxlan sys ds = do {
     act_add_vxlan sys ds;
     act sys (''ip link set '' @ vx_ifname ds @ '' up'');
     act sys (''ip link set '' @ vx_ifname ds @ '' master '' @ vx_bridge ds)
   }"

text \<open>One attribute: \<open>OK\<close> or \<open>MISS\<close> with the difference counted.\<close>

definition check_attr :: "bool \<Rightarrow> string \<Rightarrow> (vctx, nat) state" where
  "check_attr b t = (if b then ok t else miss t)"

text \<open>The three attributes of an existing VXLAN link: each returns the differences and whether
  the link has to be recreated.\<close>

definition check_vx_vni :: "desired_state \<Rightarrow> vxlan \<Rightarrow> (vctx, nat \<times> bool) state" where
  "check_vx_vni ds vx = do {
     let same = (vxl_has_vni vx \<and> vxl_vni vx = vx_vni ds);
     d \<leftarrow> check_attr same (''vxlan '' @ vx_ifname ds @ '' vni '' @ fmt_u (unat (vx_vni ds)));
     State_Monad.return (d, \<not> same)
   }"

definition check_vx_remote :: "system \<Rightarrow> desired_state \<Rightarrow> vxlan \<Rightarrow> (vctx, nat \<times> bool) state" where
  "check_vx_remote sys ds vx = (case parse_ip4 (vx_remote ds) of
     Inl e \<Rightarrow> do {
       d \<leftarrow> miss (''vxlan '' @ vx_ifname ds @ '' remote '' @ vx_remote ds);
       act sys (''# bad yaml vxlan.remote '' @ vx_remote ds);
       State_Monad.return (d, False)
     }
   | Inr remote \<Rightarrow> do {
       let same = (vxl_has_remote vx \<and> vxl_remote vx = remote);
       d \<leftarrow> check_attr same (''vxlan '' @ vx_ifname ds @ '' remote '' @ vx_remote ds);
       State_Monad.return (d, \<not> same)
     })"

definition check_vx_dev :: "desired_state \<Rightarrow> real_state \<Rightarrow> vxlan \<Rightarrow> (vctx, nat \<times> bool) state" where
  "check_vx_dev ds rs vx =
     (if vx_dev ds = [] then State_Monad.return (0, False)
      else do {
        let same = found (rs_find_iface rs (vx_dev ds))
                     (\<lambda>dev. vxl_has_link vx \<and> vxl_link vx = if_ifindex dev);
        d \<leftarrow> check_attr same (''vxlan '' @ vx_ifname ds @ '' dev '' @ vx_dev ds);
        State_Monad.return (d, \<not> same)
      })"

definition check_vxlan_attrs ::
  "system \<Rightarrow> desired_state \<Rightarrow> real_state \<Rightarrow> iface option \<Rightarrow> vxlan option \<Rightarrow> (vctx, nat \<times> bool) state" where
  "check_vxlan_attrs sys ds rs vx_if vx = (case vx of
     None \<Rightarrow> do {
       (if vx_if \<noteq> None then do {
          miss (''iface '' @ vx_ifname ds @ '' type vxlan'');
          act sys (''ip link del '' @ vx_ifname ds)
        } else do { miss (''iface '' @ vx_ifname ds); State_Monad.return () });
       act_new_vxlan sys ds;
       State_Monad.return (1, True)
     }
   | Some x \<Rightarrow> do {
       ok (''iface '' @ vx_ifname ds @ '' exists'');
       (d1, r1) \<leftarrow> check_vx_vni ds x;
       (d2, r2) \<leftarrow> check_vx_remote sys ds x;
       (d3, r3) \<leftarrow> check_vx_dev ds rs x;
       if r1 \<or> r2 \<or> r3 then do {
         act sys (''ip link del '' @ vx_ifname ds);
         act_new_vxlan sys ds;
         State_Monad.return (d1 + d2 + d3, True)
       } else do {
         d4 \<leftarrow> check_iface_up sys (vx_ifname ds) vx_if;
         State_Monad.return (d1 + d2 + d3 + d4, False)
       }
     })"

definition act_add_vlan :: "system \<Rightarrow> desired_state \<Rightarrow> (vctx, unit) state" where
  "act_add_vlan sys ds =
     act sys (''ip link add link '' @ vlan_link ds @ '' name '' @ vlan_ifname ds
       @ '' type vlan id '' @ fmt_u (unat (vlan_id ds)))"

definition act_new_vlan :: "system \<Rightarrow> desired_state \<Rightarrow> (vctx, unit) state" where
  "act_new_vlan sys ds = do {
     act_add_vlan sys ds;
     act sys (''ip link set '' @ vlan_ifname ds @ '' up'');
     act sys (''ip link set '' @ vlan_ifname ds @ '' master '' @ vlan_bridge ds)
   }"

definition check_vlan_attrs ::
  "system \<Rightarrow> desired_state \<Rightarrow> real_state \<Rightarrow> iface option \<Rightarrow> vlan option \<Rightarrow> (vctx, nat \<times> bool) state" where
  "check_vlan_attrs sys ds rs vl_if vl = (case vl of
     None \<Rightarrow> do {
       (if vl_if \<noteq> None then do {
          miss (''iface '' @ vlan_ifname ds @ '' type vlan'');
          act sys (''ip link del '' @ vlan_ifname ds)
        } else do { miss (''iface '' @ vlan_ifname ds); State_Monad.return () });
       act_new_vlan sys ds;
       State_Monad.return (1, True)
     }
   | Some v \<Rightarrow> do {
       ok (''iface '' @ vlan_ifname ds @ '' exists'');
       let same_id = (vln_has_id v \<and> vln_id v = vlan_id ds);
       d1 \<leftarrow> check_attr same_id (''vlan '' @ vlan_ifname ds @ '' id '' @ fmt_u (unat (vlan_id ds)));
       let same_link = found (rs_find_iface rs (vlan_link ds))
                         (\<lambda>link. vln_has_link v \<and> vln_link v = if_ifindex link);
       d2 \<leftarrow> check_attr same_link (''vlan '' @ vlan_ifname ds @ '' link '' @ vlan_link ds);
       if \<not> same_id \<or> \<not> same_link then do {
         act sys (''ip link del '' @ vlan_ifname ds);
         act_new_vlan sys ds;
         State_Monad.return (d1 + d2, True)
       } else do {
         d3 \<leftarrow> check_iface_up sys (vlan_ifname ds) vl_if;
         State_Monad.return (d1 + d2 + d3, False)
       }
     })"

section \<open>Scenarios\<close>

definition verify_only_uplink :: "system \<Rightarrow> desired_state \<Rightarrow> real_state \<Rightarrow> (vctx, nat) state" where
  "verify_only_uplink sys ds rs = (let up = rs_find_iface rs (up_ifname ds) in
     do {
       d \<leftarrow> check_iface_exists ''uplink'' (up_ifname ds) up;
       if up = None then do {
         act sys (''# provide uplink iface '' @ up_ifname ds);
         State_Monad.return d
       } else do {
         e \<leftarrow> check_iface_up sys (up_ifname ds) up;
         State_Monad.return (d + e)
       }
     })"

definition verify_uplink_bridge :: "system \<Rightarrow> desired_state \<Rightarrow> real_state \<Rightarrow> (vctx, nat) state" where
  "verify_uplink_bridge sys ds rs = run_checks [
     check_bridge sys ds rs,
     check_bridge_addr sys ds rs,
     check_bridge_gateway sys ds rs,
     check_bridge_dns sys ds rs,
     verify_only_uplink sys ds rs,
     check_master sys (up_ifname ds) (rs_find_iface rs (up_ifname ds)) (br_name ds) rs,
     check_bridge_ports sys ds rs]"

text \<open>The last step of the two tunnel scenarios: the attributes of the link, and its master
  unless the link is recreated.\<close>

definition attrs_then_master ::
  "(vctx, nat \<times> bool) state \<Rightarrow> (vctx, nat) state \<Rightarrow> (vctx, nat) state" where
  "attrs_then_master attrs master = do {
     (d, recreate) \<leftarrow> attrs;
     if \<not> recreate then do { e \<leftarrow> master; State_Monad.return (d + e) }
     else State_Monad.return d
   }"

definition verify_vlan_bridge :: "system \<Rightarrow> desired_state \<Rightarrow> real_state \<Rightarrow> (vctx, nat) state" where
  "verify_vlan_bridge sys ds rs =
     (let vl_if = rs_find_iface rs (vlan_ifname ds); vl = rs_find_vlan rs (vlan_ifname ds) in
      run_checks [
        check_bridge sys ds rs,
        check_bridge_addr sys ds rs,
        check_bridge_gateway sys ds rs,
        check_bridge_dns sys ds rs,
        verify_only_uplink sys ds rs,
        check_bridge_ports sys ds rs,
        attrs_then_master (check_vlan_attrs sys ds rs vl_if vl)
          (check_master sys (vlan_ifname ds) vl_if (vlan_bridge ds) rs)])"

text \<open>The WireGuard link of \<open>verify_wg_vxlan_bridge\<close>.\<close>

definition check_wg :: "system \<Rightarrow> desired_state \<Rightarrow> real_state \<Rightarrow> (vctx, nat) state" where
  "check_wg sys ds rs = (let wg = rs_find_iface rs (wg_ifname ds) in
     if wg \<noteq> None then do {
       ok (''iface '' @ wg_ifname ds @ '' exists'');
       check_iface_up sys (wg_ifname ds) wg
     } else do {
       d \<leftarrow> miss (''iface '' @ wg_ifname ds);
       act sys (''ip link add '' @ wg_ifname ds @ '' type wireguard'');
       State_Monad.return d
     })"

definition verify_wg_vxlan_bridge :: "system \<Rightarrow> desired_state \<Rightarrow> real_state \<Rightarrow> (vctx, nat) state" where
  "verify_wg_vxlan_bridge sys ds rs =
     (let vx_if = rs_find_iface rs (vx_ifname ds); vx = rs_find_vxlan rs (vx_ifname ds) in
      run_checks [
        check_bridge sys ds rs,
        check_bridge_addr sys ds rs,
        check_bridge_gateway sys ds rs,
        check_bridge_dns sys ds rs,
        (if up_ifname ds \<noteq> [] then verify_only_uplink sys ds rs else State_Monad.return 0),
        check_bridge_ports sys ds rs,
        check_wg_peer_route sys ds rs,
        check_wg sys ds rs,
        attrs_then_master (check_vxlan_attrs sys ds rs vx_if vx)
          (check_master sys (vx_ifname ds) vx_if (vx_bridge ds) rs)])"

text \<open>The dispatch on the scenario; \<open>None\<close> is the branch that returns 1 without touching
  \<open>act_fail\<close>.\<close>

definition verify_scenario ::
  "system \<Rightarrow> desired_state \<Rightarrow> real_state \<Rightarrow> (vctx, nat) state option" where
  "verify_scenario sys ds rs =
     (if scenario ds = ''only_uplink'' \<or> scenario ds = ''only_uplink_iface''
      then Some (verify_only_uplink sys ds rs)
      else if scenario ds = ''uplink_bridge'' \<or> scenario ds = ''uplink_in_bridge''
      then Some (verify_uplink_bridge sys ds rs)
      else if scenario ds = ''vlan_bridge'' \<or> scenario ds = ''vlan_in_bridge''
      then Some (verify_vlan_bridge sys ds rs)
      else if scenario ds = ''wg_vxlan_bridge'' then Some (verify_wg_vxlan_bridge sys ds rs)
      else None)"

text \<open>\<open>verify_state\<close>: the value returned, the value stored in \<open>*act_fail\<close> (\<open>None\<close>: not written), the
  lines printed and the argument vectors run, given the ones run before.\<close>

definition verify_state ::
  "system \<Rightarrow> argv list \<Rightarrow> desired_state \<Rightarrow> real_state \<Rightarrow> bool \<Rightarrow>
     nat \<times> bool option \<times> line list \<times> argv list" where
  "verify_state sys runs ds rs apply = (case verify_scenario sys ds rs of
     None \<Rightarrow> (1, None, [], runs)
   | Some m \<Rightarrow>
       let (diff, ctx) = run_state (run_checks [m, check_routes sys ds rs])
             \<lparr>vc_apply = apply, vc_act_fail = False, vc_out = [], vc_runs = runs\<rparr>
       in (diff, Some (vc_act_fail ctx), vc_out ctx, vc_runs ctx))"

end
