(* ===== verification/Tokens.thy ===== *)
theory Tokens
  imports Clib
begin

text \<open>
  Words separated by blanks. The C code cuts strings into words in several places (the argument
  vector of a command, the lists in UCI values); \<open>words\<close> is the reference they are compared with.
\<close>

section \<open>Words\<close>

text \<open>The reference: cut the string at every blank and drop the empty pieces.\<close>

fun pieces :: "string \<Rightarrow> string list" where
  "pieces [] = [[]]"
| "pieces (c # cs) = (if is_blank c then [] # pieces cs
     else case pieces cs of [] \<Rightarrow> [[c]] | f # fs \<Rightarrow> (c # f) # fs)"

definition words :: "string \<Rightarrow> string list" where
  "words s = filter (\<lambda>f. f \<noteq> []) (pieces s)"

lemma pieces_nonempty [simp]: "pieces s \<noteq> []"
  by (induction s) (auto split: list.splits)

lemma words_blank: "words (dropWhile is_blank s) = words s"
  by (induction s) (auto simp: words_def)

lemma pieces_word:
  "pieces s = takeWhile (\<lambda>c. \<not> is_blank c) s #
     (case dropWhile (\<lambda>c. \<not> is_blank c) s of [] \<Rightarrow> [] | _ # cs \<Rightarrow> pieces cs)"
  by (induction s) (auto split: list.splits)

lemma words_Nil [simp]: "words [] = []"
  by (simp add: words_def)

lemma words_word:
  assumes "s \<noteq> []" and "\<not> is_blank (hd s)"
  shows "words s = takeWhile (\<lambda>c. \<not> is_blank c) s # words (dropWhile (\<lambda>c. \<not> is_blank c) s)"
proof -
  have t: "takeWhile (\<lambda>c. \<not> is_blank c) s \<noteq> []" using assms by (cases s) simp_all
  have p: "words s = takeWhile (\<lambda>c. \<not> is_blank c) s #
      filter (\<lambda>f. f \<noteq> []) (case dropWhile (\<lambda>c. \<not> is_blank c) s of [] \<Rightarrow> [] | _ # cs \<Rightarrow> pieces cs)"
    unfolding words_def by (subst pieces_word) (simp only: filter.simps t not_False_eq_True if_True)
  show ?thesis
  proof (cases "dropWhile (\<lambda>c. \<not> is_blank c) s")
    case (Cons b cs)
    then have "is_blank b" using hd_dropWhile [of "\<lambda>c. \<not> is_blank c" s] by simp
    with Cons p show ?thesis by (simp add: words_def)
  next
    case Nil
    then show ?thesis unfolding p Nil by (simp only: list.case filter.simps words_Nil)
  qed
qed

lemma words_tokens: "w \<in> set (words s) \<Longrightarrow> w \<noteq> [] \<and> (\<forall>c \<in> set w. \<not> is_blank c)"
proof -
  have "\<forall>f \<in> set (pieces s). \<forall>c \<in> set f. \<not> is_blank c"
    by (induction s) (auto split: list.splits)
  then show "w \<in> set (words s) \<Longrightarrow> w \<noteq> [] \<and> (\<forall>c \<in> set w. \<not> is_blank c)"
    by (auto simp: words_def)
qed

text \<open>A command written as its words separated by single blanks is split into these words.\<close>

fun unwords :: "string list \<Rightarrow> string" where
  "unwords [] = []"
| "unwords [w] = w"
| "unwords (w # v # ws) = w @ '' '' @ unwords (v # ws)"

lemma pieces_append:
  "\<forall>c \<in> set w. \<not> is_blank c \<Longrightarrow> pieces (w @ '' '' @ s) = w # pieces s"
  by (induction w) (auto simp: is_blank_def)

lemma pieces_no_blank: "\<forall>c \<in> set w. \<not> is_blank c \<Longrightarrow> pieces w = [w]"
  by (induction w) auto

lemma words_unwords:
  "list_all (\<lambda>w. w \<noteq> [] \<and> (\<forall>c \<in> set w. \<not> is_blank c)) ws \<Longrightarrow> words (unwords ws) = ws"
  by (induction ws rule: unwords.induct)
     (simp_all add: words_def pieces_no_blank pieces_append [simplified])

end
