(* ===== verification/Verify_Cmd.thy ===== *)
theory Verify_Cmd
  imports Verify Tokens "HOL-Library.Sublist"
begin

text \<open>
  The string handling behind an \<open>ACT\<close> line: the substitution of \<open>$iface\<close> in the DHCP command,
  the split of a command into an argument vector, and the address/prefix notation. Each routine
  writes into a fixed buffer; the lemmas compare it with an unbounded reference definition.
\<close>

section \<open>Substitution\<close>

function subst_ref :: "string \<Rightarrow> string \<Rightarrow> string" where
  "subst_ref ifname src =
     (if src = [] then []
      else if has_prefix ''$iface'' src then ifname @ subst_ref ifname (drop 6 src)
      else hd src # subst_ref ifname (tl src))"
  by pat_completeness auto
termination
  by (relation "measure (\<lambda>(ifname, src). length src)") auto

declare subst_ref.simps [simp del]

lemma subst_loop_ref:
  "length acc < sz \<Longrightarrow> subst_loop sz ifname acc src =
     (if length acc + length (subst_ref ifname src) < sz then Inr (acc @ subst_ref ifname src)
      else Inl ENOSPC)"
proof (induction sz ifname acc src rule: subst_loop.induct)
  case (1 sz ifname acc src)
  show ?case
  proof (cases "src = []")
    case True
    with "1.prems" show ?thesis by (simp add: subst_loop.simps subst_ref.simps)
  next
    case False
    show ?thesis
    proof (cases "has_prefix ''$iface'' src")
      case True
      with False show ?thesis
        using "1.IH"(1) [OF False True] "1.prems"
        by (simp add: subst_loop.simps [of sz ifname acc src] subst_ref.simps [of ifname src])
    next
      case noprefix: False
      with False show ?thesis
        using "1.IH"(2) [OF False noprefix] "1.prems"
        by (simp add: subst_loop.simps [of sz ifname acc src] subst_ref.simps [of ifname src])
    qed
  qed
qed

lemma subst_iface_ref:
  assumes "0 < sz"
  shows "subst_iface sz src ifname =
     (if length (subst_ref ifname src) < sz then Inr (subst_ref ifname src) else Inl ENOSPC)"
  using assms subst_loop_ref [of "[]" sz ifname src] by (simp add: subst_iface_def)

text \<open>A piece of text without the placeholder; single dollar signs and its beginnings may occur. A
  template is a list of such pieces with the placeholder, or what replaces it, between them.\<close>

abbreviation no_iface :: "string \<Rightarrow> bool" where
  "no_iface s \<equiv> \<not> sublist ''$iface'' s"

abbreviation joined :: "string \<Rightarrow> string \<Rightarrow> string list \<Rightarrow> string" where
  "joined x s0 rest \<equiv> s0 @ concat (map (\<lambda>s. x @ s) rest)"

lemma has_prefix_iff: "has_prefix p s \<longleftrightarrow> prefix p s"
proof
  assume "has_prefix p s"
  then have "s = p @ drop (length p) s" unfolding has_prefix_def by (metis append_take_drop_id)
  then show "prefix p s" by (rule prefixI)
qed (auto simp: has_prefix_def prefix_def)

lemma no_iface_tl: "no_iface (c # s) \<Longrightarrow> no_iface s"
  by (meson sublist_Cons_right)

text \<open>The placeholder does not overlap itself, so none begins before the end of a piece.\<close>

lemma no_iface_prefix:
  assumes "no_iface (c # pre)"
  shows "\<not> has_prefix ''$iface'' (c # pre @ ''$iface'' @ post)"
proof
  assume "has_prefix ''$iface'' (c # pre @ ''$iface'' @ post)"
  then obtain zs where eq: "(c # pre) @ ''$iface'' @ post = ''$iface'' @ zs"
    by (auto simp: has_prefix_iff prefix_def)
  let ?n = "length (c # pre)"
  show False
  proof (cases "6 \<le> ?n")
    case True
    have "prefix ''$iface'' (c # pre)"
      by (rule prefix_length_prefix [OF prefixI [OF eq] prefixI [OF refl]]) (use True in simp)
    with assms show False using prefix_imp_sublist by blast
  next
    case False
    have "(''$iface'' @ zs) ! ?n = CHR ''$''" unfolding eq [symmetric] by (subst nth_append) simp
    moreover from False have "length pre < 5" by simp
    then have "length pre = 0 \<or> length pre = 1 \<or> length pre = 2 \<or> length pre = 3 \<or> length pre = 4" by arith
    ultimately show False by auto
  qed
qed

lemma subst_ref_const: "no_iface src \<Longrightarrow> subst_ref ifname src = src"
proof (induction src)
  case Nil
  then show ?case by (simp add: subst_ref.simps)
next
  case (Cons c src)
  from Cons.prems have "\<not> has_prefix ''$iface'' (c # src)"
    using prefix_imp_sublist has_prefix_iff by blast
  with Cons.IH no_iface_tl [OF Cons.prems] show ?case by (subst subst_ref.simps) simp
qed

lemma subst_ref_split:
  assumes "no_iface pre"
  shows "subst_ref ifname (pre @ ''$iface'' @ post) = pre @ ifname @ subst_ref ifname post"
  using assms
proof (induction pre)
  case Nil
  then show ?case by (subst append_Nil, subst subst_ref.simps) (simp add: has_prefix_def)
next
  case (Cons c pre)
  from Cons.IH no_iface_tl [OF Cons.prems] no_iface_prefix [OF Cons.prems, of post] show ?case
    by (subst append_Cons, subst subst_ref.simps) simp
qed

lemma subst_ref_segments:
  "list_all no_iface (s0 # rest) \<Longrightarrow> subst_ref ifname (joined ''$iface'' s0 rest) = joined ifname s0 rest"
proof (induction rest arbitrary: s0)
  case Nil
  then show ?case by (simp add: subst_ref_const)
next
  case (Cons s rest)
  then show ?case using subst_ref_split [of s0 ifname "joined ''$iface'' s rest"] by simp
qed

lemma template_segments: "\<exists>s0 rest. list_all no_iface (s0 # rest) \<and> src = joined ''$iface'' s0 rest"
proof (induction src rule: length_induct)
  case (1 src)
  consider "src = []" | "src \<noteq> []" "has_prefix ''$iface'' src" | "src \<noteq> []" "\<not> has_prefix ''$iface'' src" by blast
  then show ?case
  proof cases
    case 1
    then show ?thesis by (intro exI [of _ "[]"]) simp
  next
    case 2
    then obtain src' where src: "src = ''$iface'' @ src'" by (auto simp: has_prefix_iff prefix_def)
    then have "length src' < length src" by simp
    with "1.IH" obtain s0 rest where "list_all no_iface (s0 # rest)" "src' = joined ''$iface'' s0 rest"
      by blast
    with src show ?thesis by (intro exI [of _ "[]"] exI [of _ "s0 # rest"]) simp
  next
    case 3
    then have "length (tl src) < length src" by simp
    with "1.IH" obtain s0 rest where r: "list_all no_iface (s0 # rest)" "tl src = joined ''$iface'' s0 rest"
      by blast
    with 3 have src: "src = joined ''$iface'' (hd src # s0) rest" by (metis append_Cons list.collapse)
    have "no_iface (hd src # s0)"
    proof
      assume "sublist ''$iface'' (hd src # s0)"
      with r(1) have "prefix ''$iface'' (hd src # s0)" by (auto simp: sublist_Cons_right)
      then have "prefix ''$iface'' ((hd src # s0) @ concat (map (\<lambda>s. ''$iface'' @ s) rest))" by (rule prefix_prefix)
      with 3 show False unfolding src [symmetric] by (simp add: has_prefix_iff)
    qed
    with src r(1) show ?thesis by (metis list.pred_inject(2))
  qed
qed

section \<open>Argument vectors\<close>

lemma cmd_split_loop_words:
  "argc < mx \<Longrightarrow> cmd_split_loop mx argc p =
     (if argc + length (words p) < mx then Inr (words p) else Inl E2BIG)"
proof (induction mx argc p rule: cmd_split_loop.induct)
  case (1 mx argc p)
  define q where "q = dropWhile is_blank p"
  have words: "words p = words q" by (simp add: q_def words_blank)
  show ?case
  proof (cases "q = []")
    case True
    with words "1.prems" show ?thesis
      by (simp add: cmd_split_loop.simps [of mx argc p] q_def [symmetric])
  next
    case False
    then have "\<not> is_blank (hd q)" unfolding q_def by (rule hd_dropWhile)
    with False words have w: "words p =
        takeWhile (\<lambda>c. \<not> is_blank c) q # words (dropWhile (\<lambda>c. \<not> is_blank c) q)"
      by (simp add: words_word)
    show ?thesis
      using "1.IH" [OF q_def False] False "1.prems" w
      by (cases "argc + 1 \<ge> mx")
         (simp_all add: cmd_split_loop.simps [of mx argc p] q_def [symmetric])
  qed
qed

lemma cmd_split_words:
  "0 < mx \<Longrightarrow> cmd_split mx s = (if length (words s) < mx then Inr (words s) else Inl E2BIG)"
  by (simp add: cmd_split_def cmd_split_loop_words)

section \<open>Address notation\<close>

text \<open>The bytes of a dotted quad.\<close>

lemma fmt_ip_bytes: "x \<in> set (fmt_ip a b c d) \<Longrightarrow> c_isdigit x \<or> x = CHR ''.''"
  by (auto simp: fmt_ip_def dest: fmt_u_digits)

lemma length_fmt_ip:
  assumes "a \<le> 255" "b \<le> 255" "c \<le> 255" "d \<le> 255"
  shows "length (fmt_ip a b c d) \<le> 15"
proof -
  have "length (fmt_u n) \<le> 3" if "n \<le> 255" for n using length_fmt_u [of n 3] that by simp
  from this [OF assms(1)] this [OF assms(2)] this [OF assms(3)] this [OF assms(4)] show ?thesis
    by (simp add: fmt_ip_def)
qed

lemma parse_addr_prefix_fmt:
  assumes "a \<le> 255" "b \<le> 255" "c \<le> 255" "d \<le> 255" and "p \<le> 32"
  shows "parse_addr_prefix (fmt_ip a b c d @ ''/'' @ fmt_u p) = Inr (le_word [a, b, c, d], int p)"
proof -
  let ?ip = "fmt_ip a b c d"
  have "length (fmt_u p) \<le> 2" using length_fmt_u [of p 2] assms(5) by simp
  then have fit: "fit 64 (?ip @ ''/'' @ fmt_u p) = ?ip @ ''/'' @ fmt_u p"
    using length_fmt_ip [OF assms(1-4)] by (intro fit_id) simp
  have ns: "\<forall>x \<in> set ?ip. x \<noteq> CHR ''/''" using fmt_ip_bytes [of "CHR ''/''" a b c d] by (auto simp: c_isdigit_def)
  have "fmt_d (int p) = fmt_u p" by (simp add: fmt_d_def)
  then have "strtol10 (fmt_u p) = (int p, [], False)"
    using strtol10_fmt_d [of "int p" "[]"] assms(5) by (simp add: LONG_MIN_def LONG_MAX_def)
  with fit ns show ?thesis
    using assms by (simp add: parse_addr_prefix_def Let_def inet_pton_fmt_ip takeWhile_stop dropWhile_stop)
qed

section \<open>Properties\<close>

text \<open>C36: \<open>subst_iface\<close> replaces every \<open>$iface\<close> of the command by the interface name and nothing else:
  every template is a list of pieces that do not contain \<open>$iface\<close> (other dollar signs are allowed) with
  \<open>$iface\<close> between them, and the result has the name at exactly these places and the same pieces. It
  reports \<open>ENOSPC\<close> when the result does not fit its buffer.\<close>

theorem subst_iface_exact:
  assumes "0 < sz"
  shows "(\<exists>s0 rest. list_all no_iface (s0 # rest) \<and> src = joined ''$iface'' s0 rest)
    \<and> (\<forall>s0 rest. list_all no_iface (s0 # rest) \<and> src = joined ''$iface'' s0 rest \<longrightarrow>
         subst_iface sz src ifname =
           (if length (joined ifname s0 rest) < sz then Inr (joined ifname s0 rest) else Inl ENOSPC))"
proof (intro conjI allI impI, rule template_segments, elim conjE)
  fix s0 rest assume "list_all no_iface (s0 # rest)" and "src = joined ''$iface'' s0 rest"
  then show "subst_iface sz src ifname =
      (if length (joined ifname s0 rest) < sz then Inr (joined ifname s0 rest) else Inl ENOSPC)"
    using subst_iface_ref [OF assms, of src ifname] subst_ref_segments [of s0 rest ifname] by (simp only:)
qed

theorem subst_iface_exact_witness:
  "subst_iface 256 ''udhcpc -i $iface -x $if $5'' ''br0'' = Inr ''udhcpc -i br0 -x $if $5''"
proof -
  have "list_all no_iface [''udhcpc -i '', '' -x $if $5'']" by code_simp
  then show ?thesis
    using spec [OF spec [OF conjunct2 [OF subst_iface_exact [of 256 "''udhcpc -i $iface -x $if $5''" "''br0''"]],
      of "''udhcpc -i ''"], of "['' -x $if $5'']"] by simp
qed

text \<open>C37: the argument vector of a command is the list of its words: a command written as words
  separated by blanks is split into these words when there are fewer than \<open>mx\<close>, and every argument
  is a non-empty word without blanks.\<close>

theorem cmd_split_exact:
  assumes "0 < mx"
  shows "(list_all (\<lambda>w. w \<noteq> [] \<and> (\<forall>c \<in> set w. \<not> is_blank c)) ws \<and> length ws < mx \<longrightarrow>
      cmd_split mx (unwords ws) = Inr ws)
    \<and> (cmd_split mx s = Inr argv \<longrightarrow> length argv < mx \<and> (\<forall>w \<in> set argv. w \<noteq> [] \<and> (\<forall>c \<in> set w. \<not> is_blank c)))"
  using words_unwords [of ws] words_tokens [of _ s]
  by (auto simp: cmd_split_words [OF assms] split: if_splits)

theorem cmd_split_exact_witness:
  "cmd_split 32 ''ip link set eth0 up'' = Inr [''ip'', ''link'', ''set'', ''eth0'', ''up'']"
  using cmd_split_exact [of 32 "[''ip'', ''link'', ''set'', ''eth0'', ''up'']"] by (simp add: is_blank_def)

text \<open>An address in CIDR notation is read back: the four octets of the dotted text and the prefix
  length, for every address and every prefix up to 32.\<close>

theorem parse_addr_prefix_roundtrip:
  assumes "a \<le> 255" "b \<le> 255" "c \<le> 255" "d \<le> 255" and "p \<le> 32"
  shows "parse_addr_prefix (fmt_ip a b c d @ ''/'' @ fmt_u p) = Inr (le_word [a, b, c, d], int p)"
  using assms by (rule parse_addr_prefix_fmt)

theorem parse_addr_prefix_roundtrip_witness:
  "parse_addr_prefix (fmt_ip 10 0 0 1 @ ''/'' @ fmt_u 24) = Inr (le_word [10, 0, 0, 1], 24)"
  using parse_addr_prefix_roundtrip [of 10 0 0 1 24] by simp

end
