(* ===== verification/Resolv_Laws.thy ===== *)
theory Resolv_Laws
  imports Netstate
begin

text \<open>
  The reader of \<open>/etc/resolv.conf\<close> against the format of the file: a file is written down as a list of
  entries (name servers with an IPv4 address, name servers with any other address, other keywords,
  blank lines), printed to text with free use of blanks, and the reader is shown to return the IPv4
  name servers of the entries. The text is made without the functions that the reader uses to take it
  apart.
\<close>

section \<open>Dotted quads are the only accepted addresses\<close>

lemma fmt_u_val_of:
  "ds \<noteq> [] \<Longrightarrow> list_all c_isdigit ds \<Longrightarrow> length ds = 1 \<or> hd ds \<noteq> CHR ''0'' \<Longrightarrow>
     fmt_u (val_of 10 ds) = ds \<and> (hd ds \<noteq> CHR ''0'' \<longrightarrow> 0 < val_of 10 ds)"
proof (induction ds rule: rev_induct)
  case (snoc c ds)
  have dc: "digit_char (digit_val c) = c" "digit_val c < 10"
    using snoc.prems(2) by (auto simp: c_isdigit_def digit_val_def digit_char_def)
  have c0: "0 < digit_val c" if "c \<noteq> CHR ''0''" using that dc(1) by (cases "digit_val c = 0") auto
  show ?case
  proof (cases "ds = []")
    case True
    then show ?thesis using dc c0 by (simp add: val_of_def fmt_u.simps [of "digit_val c"])
  next
    case False
    with snoc.prems have "hd ds \<noteq> CHR ''0''" "list_all c_isdigit ds" by auto
    with snoc.IH False have "fmt_u (val_of 10 ds) = ds" "0 < val_of 10 ds" by auto
    then show ?thesis using dc(2) by (simp add: val_of_snoc fmt_u.simps [of "val_of 10 ds * 10 + digit_val c"] dc(1))
  qed
qed simp

lemma octet_Some:
  assumes "octet s = Some (v, r)"
  shows "s = fmt_u v @ r \<and> v \<le> 255"
proof -
  define ds where "ds = takeWhile c_isdigit (take 3 s)"
  have ds: "ds \<noteq> []" "length ds = 1 \<or> hd ds \<noteq> CHR ''0''" "v = val_of 10 ds" "v \<le> 255" "r = drop (length ds) s"
    using assms by (auto simp: octet_def Let_def ds_def not_less le_Suc_eq split: if_splits)
  have "list_all c_isdigit ds" unfolding ds_def list_all_iff by (auto dest: set_takeWhileD)
  with ds fmt_u_val_of have "fmt_u v = ds" by blast
  moreover have "length ds \<le> 3" unfolding ds_def using length_takeWhile_le [of c_isdigit "take 3 s"] by simp
  then have "take (length ds) s = ds"
    using takeWhile_eq_take [of c_isdigit "take 3 s"] by (simp add: min_absorb1 flip: ds_def)
  ultimately show ?thesis using ds(4,5) append_take_drop_id [of "length ds" s] by simp
qed

lemma octets_last: "octets (Suc 0) s = Some vs \<Longrightarrow> \<exists>v. s = fmt_u v \<and> v \<le> 255 \<and> vs = [v]"
  by (auto split: option.splits if_splits dest!: octet_Some)

lemma octets_dot:
  assumes "octets (Suc (Suc k)) s = Some vs"
  shows "\<exists>v r ws. s = fmt_u v @ CHR ''.'' # r \<and> v \<le> 255 \<and> octets (Suc k) r = Some ws \<and> vs = v # ws"
proof -
  from assms obtain v r where o: "octet s = Some (v, r)" and r: "r \<noteq> []" "hd r = CHR ''.''"
    and m: "map_option ((#) v) (octets (Suc k) (tl r)) = Some vs"
    by (auto simp del: octets.simps(2) simp: octets.simps(2) [of "Suc k" s] split: option.splits if_splits prod.splits)
  from r have "r = CHR ''.'' # tl r" by (cases r) auto
  with octet_Some [OF o] m show ?thesis by (auto simp del: octets.simps)
qed

lemma inet_pton_Some:
  assumes "inet_pton s = Some w"
  shows "\<exists>a b c d. s = fmt_ip a b c d \<and> a \<le> 255 \<and> b \<le> 255 \<and> c \<le> 255 \<and> d \<le> 255"
proof -
  from assms obtain vs where 4: "octets (Suc (Suc (Suc (Suc 0)))) s = Some vs"
    by (auto simp: inet_pton_def numeral_eq_Suc simp del: octets.simps)
  from octets_dot [OF 4] obtain a r vs where 3: "s = fmt_u a @ CHR ''.'' # r" "a \<le> 255"
    "octets (Suc (Suc (Suc 0))) r = Some vs" by blast
  from octets_dot [OF 3(3)] obtain b r' vs where 2: "r = fmt_u b @ CHR ''.'' # r'" "b \<le> 255"
    "octets (Suc (Suc 0)) r' = Some vs" by blast
  from octets_dot [OF 2(3)] obtain c r'' vs where 1: "r' = fmt_u c @ CHR ''.'' # r''" "c \<le> 255"
    "octets (Suc 0) r'' = Some vs" by blast
  from octets_last [OF 1(3)] obtain d where "r'' = fmt_u d" "d \<le> 255" by blast
  with 1 2 3 show ?thesis by (intro exI [of _ a] exI [of _ b] exI [of _ c] exI [of _ d]) (simp add: fmt_ip_def)
qed

section \<open>The format of the file\<close>

text \<open>The lines of a file: a name server with an IPv4 address, one with another address, one without an
  address, another keyword or a comment, and a blank line. The strings are the blanks before, between
  and after the words, the words themselves, and whatever follows on the line.\<close>

datatype resolv_entry =
  Server4 string string nat nat nat nat string
| Server_other string string string string
| Server_none string string
| Keyword string string string
| Blank_line string

fun entry_text :: "resolv_entry \<Rightarrow> string" where
  "entry_text (Server4 pre sep a b c d post) = pre @ ''nameserver'' @ sep @ fmt_ip a b c d @ post"
| "entry_text (Server_other pre sep val post) = pre @ ''nameserver'' @ sep @ val @ post"
| "entry_text (Server_none pre post) = pre @ ''nameserver'' @ post"
| "entry_text (Keyword pre key post) = pre @ key @ post"
| "entry_text (Blank_line pre) = pre"

abbreviation blanks :: "string \<Rightarrow> bool" where "blanks \<equiv> list_all c_isspace"
abbreviation a_word :: "string \<Rightarrow> bool" where "a_word w \<equiv> w \<noteq> [] \<and> list_all (\<lambda>c. \<not> c_isspace c) w"
abbreviation separate :: "string \<Rightarrow> bool" where "separate t \<equiv> t = [] \<or> c_isspace (hd t)"

definition dotted_quad :: "string \<Rightarrow> bool" where
  "dotted_quad s \<longleftrightarrow> (\<exists>a b c d. s = fmt_ip a b c d \<and> a \<le> 255 \<and> b \<le> 255 \<and> c \<le> 255 \<and> d \<le> 255)"

fun entry_shape :: "resolv_entry \<Rightarrow> bool" where
  "entry_shape (Server4 pre sep a b c d post) \<longleftrightarrow> blanks pre \<and> blanks sep \<and> sep \<noteq> []
     \<and> a \<le> 255 \<and> b \<le> 255 \<and> c \<le> 255 \<and> d \<le> 255 \<and> separate post"
| "entry_shape (Server_other pre sep val post) \<longleftrightarrow> blanks pre \<and> blanks sep \<and> sep \<noteq> []
     \<and> a_word val \<and> \<not> dotted_quad val \<and> separate post"
| "entry_shape (Server_none pre post) \<longleftrightarrow> blanks pre \<and> blanks post"
| "entry_shape (Keyword pre key post) \<longleftrightarrow> blanks pre \<and> a_word key \<and> key \<noteq> ''nameserver'' \<and> separate post"
| "entry_shape (Blank_line pre) \<longleftrightarrow> blanks pre"

text \<open>A line is shorter than the buffer of the reader, and a line.\<close>

definition entry_ok :: "resolv_entry \<Rightarrow> bool" where
  "entry_ok e \<longleftrightarrow> entry_shape e \<and> length (entry_text e) < 255 \<and> NL \<notin> set (entry_text e) \<and> no_nul (entry_text e)"

fun entry_server :: "resolv_entry \<Rightarrow> 32 word option" where
  "entry_server (Server4 pre sep a b c d post) = Some (le_word [a, b, c, d])"
| "entry_server _ = None"

text \<open>The newline of the last line may be missing.\<close>

definition resolv_text :: "resolv_entry list \<Rightarrow> resolv_entry option \<Rightarrow> string" where
  "resolv_text es fin = concat (map (\<lambda>e. entry_text e @ [NL]) es) @ (case fin of None \<Rightarrow> [] | Some e \<Rightarrow> entry_text e)"

definition resolv_servers :: "resolv_entry list \<Rightarrow> resolv_entry option \<Rightarrow> 32 word list" where
  "resolv_servers es fin = List.map_filter entry_server (es @ (case fin of None \<Rightarrow> [] | Some e \<Rightarrow> [e]))"

section \<open>Reading a line\<close>

lemma scan_word_blanks: "blanks s \<Longrightarrow> scan_word n s = None"
proof -
  assume "blanks s"
  then have "dropWhile c_isspace s = []" by (simp add: list_all_iff dropWhile_eq_Nil_conv)
  then show ?thesis unfolding scan_word_def by (simp only: Let_def take_Nil takeWhile.simps simp_thms if_True)
qed

lemma scan_word_word:
  assumes "blanks pre" and "a_word w" and "separate r" and "0 < n"
  shows "scan_word n (pre @ w @ r) = Some (take n w, drop n w @ r)"
proof -
  obtain c cs where w: "w = c # cs" "\<not> c_isspace c" using assms(2) by (cases w) auto
  have "dropWhile c_isspace (pre @ w @ r) = w @ r"
    using dropWhile_stop [of pre c_isspace c "cs @ r"] assms(1) w by (auto simp: list_all_iff)
  moreover have "takeWhile (\<lambda>c. \<not> c_isspace c) (take n (w @ r)) = take n w"
  proof (cases "take (n - length w) r")
    case Nil
    moreover have "\<not> c_isspace x" if "x \<in> set (take n w)" for x
      using in_set_takeD [OF that] assms(2) by (simp add: list_all_iff)
    ultimately show ?thesis by (auto simp: takeWhile_all)
  next
    case (Cons x xs)
    then have "c_isspace x" using assms(3) by (cases r; cases "n - length w") auto
    moreover from Cons have "length w < n" by (cases "n \<le> length w") auto
    ultimately show ?thesis
      using Cons assms(2) takeWhile_stop [of w "\<lambda>c. \<not> c_isspace c" x xs] by (auto simp: list_all_iff)
  qed
  moreover have "take n w \<noteq> []" using assms(4) w by simp
  ultimately show ?thesis by (auto simp: scan_word_def Let_def min_def)
qed

lemma take_eq_short: "take n w = k \<Longrightarrow> length k < n \<Longrightarrow> w = k"
  by (cases "length w \<le> n") auto

lemma fmt_ip_word: "a_word (fmt_ip a b c d)"
proof -
  have "\<not> c_isspace x" if "x \<in> set (fmt_u n)" for x n using isdigit_not_special(1) [OF fmt_u_digits [OF that]] .
  then show ?thesis by (auto simp: fmt_ip_def list_all_iff c_isspace_def)
qed

lemma fmt_ip_length: "a \<le> 255 \<Longrightarrow> b \<le> 255 \<Longrightarrow> c \<le> 255 \<Longrightarrow> d \<le> 255 \<Longrightarrow> length (fmt_ip a b c d) \<le> 15"
  using length_fmt_u [of a 3] length_fmt_u [of b 3] length_fmt_u [of c 3] length_fmt_u [of d 3]
  by (simp add: fmt_ip_def)

lemma key_word: "a_word ''nameserver''"
  by (simp add: c_isspace_def)

lemma not_quad:
  assumes "\<not> dotted_quad val"
  shows "inet_pton (take 63 val) = None"
proof (rule ccontr)
  assume "inet_pton (take 63 val) \<noteq> None"
  then obtain w where "inet_pton (take 63 val) = Some w" by blast
  from inet_pton_Some [OF this] obtain a b c d where q: "take 63 val = fmt_ip a b c d"
    "a \<le> 255" "b \<le> 255" "c \<le> 255" "d \<le> 255" by blast
  have "length (fmt_ip a b c d) < 63" using fmt_ip_length [OF q(2-5)] by simp
  from take_eq_short [OF q(1) this] q(2-5) assms show False unfolding dotted_quad_def by blast
qed

lemma separate_append: "separate t \<Longrightarrow> e = [] \<or> e = [NL] \<Longrightarrow> separate (t @ e)"
  by (cases t) (auto simp: c_isspace_def)

lemma nameserver_of_entry:
  assumes "entry_ok e" and nl: "l = [] \<or> l = [NL]"
  shows "nameserver_of (entry_text e @ l) = entry_server e"
proof -
  have "no_nul (entry_text e @ l)" using assms by (auto simp: entry_ok_def)
  then have s: "cstr (entry_text e @ l) = entry_text e @ l" by (rule cstr_id)
  have lb: "blanks l" "separate l" using nl by (auto simp: c_isspace_def)
  have key: "scan_word 31 (pre @ ''nameserver'' @ r) = Some (''nameserver'', r)" if "blanks pre" "separate r" for pre r
    using scan_word_word [OF that(1) key_word that(2), of 31] by simp
  have sep: "separate (sep @ r)" if "blanks sep" "sep \<noteq> []" for sep r using that by (cases sep) auto
  have shape: "entry_shape e" using assms(1) by (simp add: entry_ok_def)
  show ?thesis
  proof (cases e)
    case (Server4 pre sep a b c d post)
    with shape have q: "blanks pre" "blanks sep" "sep \<noteq> []" "a \<le> 255" "b \<le> 255" "c \<le> 255" "d \<le> 255" "separate post"
      by auto
    have "scan_word 63 (sep @ fmt_ip a b c d @ post @ l) = Some (fmt_ip a b c d, post @ l)"
      using scan_word_word [OF q(2) fmt_ip_word separate_append [OF q(8) nl], of 63 a b c d] fmt_ip_length [OF q(4-7)]
      by simp
    then show ?thesis
      using key [OF q(1) sep [OF q(2,3)], of "fmt_ip a b c d @ post @ l"] inet_pton_fmt_ip [OF q(4-7)]
      unfolding nameserver_of_def s sscanf_2_def by (simp add: Server4)
  next
    case (Server_other pre sep val post)
    with shape have q: "blanks pre" "blanks sep" "sep \<noteq> []" "a_word val" "\<not> dotted_quad val" "separate post" by auto
    have "scan_word 63 (sep @ val @ post @ l) = Some (take 63 val, drop 63 val @ post @ l)"
      by (rule scan_word_word [OF q(2,4) separate_append [OF q(6) nl]]) simp
    then show ?thesis
      using key [OF q(1) sep [OF q(2,3)], of "val @ post @ l"] not_quad [OF q(5)]
      unfolding nameserver_of_def s sscanf_2_def by (simp add: Server_other)
  next
    case (Server_none pre post)
    with shape lb have q: "blanks pre" "blanks (post @ l)" by auto
    then have "separate (post @ l)" by (cases "post @ l") auto
    from key [OF q(1) this] scan_word_blanks [OF q(2)] show ?thesis
      unfolding nameserver_of_def s sscanf_2_def by (simp add: Server_none)
  next
    case (Keyword pre k post)
    with shape have q: "blanks pre" "a_word k" "k \<noteq> ''nameserver''" "separate post" by auto
    have "take 31 k \<noteq> ''nameserver''" using take_eq_short [of 31 k "''nameserver''"] q(3) by auto
    with scan_word_word [OF q(1,2) separate_append [OF q(4) nl], of 31] show ?thesis
      unfolding nameserver_of_def s sscanf_2_def by (auto simp: Keyword split: option.split)
  next
    case (Blank_line pre)
    with shape lb scan_word_blanks [of "pre @ l"] show ?thesis
      unfolding nameserver_of_def s sscanf_2_def by (simp add: Blank_line)
  qed
qed

section \<open>Reading the file\<close>

lemma nameservers_step:
  assumes "fgets 256 bytes = Some (line, eof, rest)"
  shows "nameservers bytes = (case nameserver_of line of None \<Rightarrow> [] | Some a \<Rightarrow> [a]) @ nameservers rest"
  using assms by (simp add: nameservers_def fgets_lines.simps [of 256 bytes] map_filter_simps split: option.split)

lemma nameservers_Nil: "nameservers [] = []"
  by (simp add: nameservers_def fgets_lines.simps fgets_def map_filter_simps)

lemma nameservers_line: "entry_ok e \<Longrightarrow> nameservers (entry_text e @ NL # rest) =
    (case entry_server e of None \<Rightarrow> [] | Some a \<Rightarrow> [a]) @ nameservers rest"
  using nameservers_step [OF fgets_line [of "entry_text e" 256 rest]] nameserver_of_entry [of e "[NL]"]
  by (simp add: entry_ok_def)

lemma fgets_rest:
  assumes "t \<noteq> []" and "NL \<notin> set t" and "length t < n - 1"
  shows "fgets n t = Some (t, True, [])"
proof -
  have "take (n - 1) t = t" using assms(3) by simp
  moreover have "length (takeWhile (\<lambda>c. c \<noteq> NL) t) = length t" using assms(2) by (subst takeWhile_all) auto
  ultimately show ?thesis using assms(1,3) by (simp add: fgets_def Let_def)
qed

lemma nameservers_fin:
  assumes "entry_ok e"
  shows "nameservers (entry_text e) = (case entry_server e of None \<Rightarrow> [] | Some a \<Rightarrow> [a])"
proof (cases "entry_text e = []")
  case True
  then have "entry_server e = None" by (cases e) auto
  with True show ?thesis by (simp add: nameservers_Nil)
next
  case False
  then have "fgets 256 (entry_text e) = Some (entry_text e, True, [])"
    using assms by (intro fgets_rest) (simp_all add: entry_ok_def)
  from nameservers_step [OF this] nameserver_of_entry [OF assms, of "[]"] show ?thesis by (simp add: nameservers_Nil)
qed

lemma nameservers_text:
  assumes "list_all entry_ok es" and "pred_option entry_ok fin"
  shows "nameservers (resolv_text es fin) = resolv_servers es fin"
  using assms(1)
proof (induction es)
  case Nil
  then show ?case using assms(2)
    by (auto simp: resolv_text_def resolv_servers_def map_filter_simps nameservers_Nil nameservers_fin split: option.split)
next
  case (Cons e es)
  then show ?case using nameservers_line [of e "resolv_text es fin"]
    by (auto simp: resolv_text_def resolv_servers_def map_filter_simps split: option.split)
qed

section \<open>Properties\<close>

text \<open>C38: reading a \<open>resolv.conf\<close> gives exactly the IPv4 addresses of its \<open>nameserver\<close> entries, in order:
  a file is any list of entries (name servers with an IPv4 address in dotted notation, name servers with
  another or no address, other keywords, comments, blank lines), printed with arbitrary blanks, each line
  shorter than the 255 bytes that one call of \<open>fgets\<close> takes and without NUL bytes, the last newline
  optional; a file with more addresses than the snapshot can hold is refused with \<open>ENOSPC\<close>.\<close>

theorem rs_load_resolv_conf_exact:
  assumes "list_all entry_ok es" and "pred_option entry_ok fin"
  shows "rs_load_resolv_conf rs (Some (resolv_text es fin)) =
     (if length (resolv_servers es fin) \<le> NR_DNS4_MAX then Inr (rs\<lparr>dns4 := resolv_servers es fin\<rparr>) else Inl ENOSPC)"
  using nameservers_text [OF assms] by (simp add: rs_load_resolv_conf_def resolv_loop_spec)

lemma v6_not_quad: "\<not> dotted_quad ''::1''"
proof
  assume "dotted_quad ''::1''"
  then obtain a b c d where "''::1'' = fmt_ip a b c d" by (auto simp: dotted_quad_def)
  then have "hd (fmt_u a @ ''.'' @ fmt_u b @ ''.'' @ fmt_u c @ ''.'' @ fmt_u d) = CHR '':''"
    unfolding fmt_ip_def by (metis list.sel(1))
  then have "hd (fmt_u a) = CHR '':''" by (simp add: hd_append)
  moreover have "c_isdigit (hd (fmt_u a))" by (rule fmt_u_digits [of _ a]) simp
  ultimately have "c_isdigit (CHR '':'')" by simp
  then show False by (simp add: c_isdigit_def)
qed

theorem rs_load_resolv_conf_exact_witness:
  "rs_load_resolv_conf rs_zero (Some (resolv_text
     [Keyword [] ''search'' '' lan'', Server4 [] '' '' 192 0 2 53 '' # first'', Server_other [] '' '' ''::1'' []]
     (Some (Server4 '' '' '' '' 192 0 2 54 [])))) =
   Inr (rs_zero\<lparr>dns4 := [le_word [192, 0, 2, 53], le_word [192, 0, 2, 54]]\<rparr>)"
proof -
  have q: "fmt_ip 192 0 2 53 = ''192.0.2.53''" "fmt_ip 192 0 2 54 = ''192.0.2.54''" by code_simp+
  have "list_all entry_ok [Keyword [] ''search'' '' lan'', Server4 [] '' '' 192 0 2 53 '' # first'',
      Server_other [] '' '' ''::1'' []]" and "pred_option entry_ok (Some (Server4 '' '' '' '' 192 0 2 54 []))"
    by (simp_all add: entry_ok_def v6_not_quad c_isspace_def q)
  from rs_load_resolv_conf_exact [OF this, of rs_zero] show ?thesis
    by (simp add: resolv_servers_def map_filter_simps NR_DNS4_MAX_def)
qed

end
