(* ===== verification/Uci_Db.thy ===== *)
theory Uci_Db
  imports Yaml Tokens
begin

text \<open>
  The first half of \<open>uci.c\<close>: the flat database of \<open>uci show\<close> lines, its two readers (a file, and
  the output of the \<open>uci\<close> command), and the searches the builder of desired states performs on
  it. The copies of \<open>cpy\<close>, \<open>trim_eol\<close> and \<open>parse_u32_str\<close> in \<open>uci.c\<close> are the ones of \<open>yaml.c\<close> and
  \<open>cfg.c\<close>. The file system and the command are parameters: \<open>fs path\<close> is what \<open>fopen\<close> and the
  reads deliver, \<open>run argv\<close> what \<open>pipe\<close>, \<open>fork\<close>, the reads from the pipe and \<open>waitpid\<close> report.
\<close>

section \<open>Items\<close>

definition NR_UCI_ITEM_MAX :: nat where "NR_UCI_ITEM_MAX = 1024"
definition UCI_PKG_SZ :: nat where "UCI_PKG_SZ = 16"
definition UCI_SECT_SZ :: nat where "UCI_SECT_SZ = 64"
definition UCI_OPT_SZ :: nat where "UCI_OPT_SZ = 64"
definition UCI_VAL_SZ :: nat where "UCI_VAL_SZ = 256"

lemmas uci_limits = NR_UCI_ITEM_MAX_def UCI_PKG_SZ_def UCI_SECT_SZ_def UCI_OPT_SZ_def UCI_VAL_SZ_def

record uci_item =
  it_pkg :: string
  it_sect :: string
  it_opt :: string
  it_val :: string
  it_is_type :: bool

text \<open>\<open>struct uci_db\<close> is the list of its first \<open>n_item\<close> items.\<close>

type_synonym uci_db = "uci_item list"

section \<open>Words and quotes\<close>

definition strip_quotes :: "string \<Rightarrow> string" where
  "strip_quotes s = (if length s \<ge> 2 \<and> hd s = APOS \<and> last s = APOS then butlast (tl s) else s)"

text \<open>\<open>next_word(&src, dst, sz)\<close>: \<open>Inr None\<close> is the return value 0 (no word left), \<open>Inr (Some (w, r))\<close>
  the value 1 with the word and the advanced pointer.\<close>

definition next_word :: "nat \<Rightarrow> string \<Rightarrow> (string \<times> string) option result" where
  "next_word sz src = (let s = dropWhile is_blank src; w = takeWhile (\<lambda>c. \<not> is_blank c) s in
     if s = [] then Inr None
     else if length w + 1 > sz then Inl E2BIG
     else Inr (Some (w, drop (length w) s)))"

lemma next_word_decreases: "next_word sz src = Inr (Some (w, r)) \<Longrightarrow> length r < length src"
proof -
  assume a: "next_word sz src = Inr (Some (w, r))"
  define s where "s = dropWhile is_blank src"
  from a have s: "s \<noteq> []" and w: "w = takeWhile (\<lambda>c. \<not> is_blank c) s" and r: "r = drop (length w) s"
    by (auto simp: next_word_def Let_def s_def split: if_splits)
  have "\<not> is_blank (hd s)" using s unfolding s_def by (rule hd_dropWhile)
  then have "0 < length w" using s by (cases s) (auto simp: w)
  moreover have "length s \<le> length src" by (simp add: s_def length_dropWhile_le)
  moreover have "0 < length s" using s by simp
  ultimately show "length r < length src" unfolding r length_drop by arith
qed

function token_loop :: "string \<Rightarrow> string \<Rightarrow> bool" where
  "token_loop p token = (case next_word UCI_VAL_SZ p of
     Inl e \<Rightarrow> False
   | Inr None \<Rightarrow> False
   | Inr (Some (word, p')) \<Rightarrow> if word = token then True else token_loop p' token)"
  by pat_completeness auto
termination
  by (relation "measure (\<lambda>(p, token). length p)") (auto dest: next_word_decreases)

declare token_loop.simps [simp del]

definition value_has_token :: "string option \<Rightarrow> string \<Rightarrow> bool" where
  "value_has_token val token = (case val of None \<Rightarrow> False | Some v \<Rightarrow> token_loop v token)"

section \<open>Filling the database\<close>

definition db_add :: "uci_db \<Rightarrow> string \<Rightarrow> string \<Rightarrow> string \<Rightarrow> string \<Rightarrow> bool \<Rightarrow> uci_db result" where
  "db_add db pkg sect opt val is_type =
     (if length db \<ge> NR_UCI_ITEM_MAX then Inl E2BIG
      else Inr (db @ [\<lparr>it_pkg = fit UCI_PKG_SZ pkg, it_sect = fit UCI_SECT_SZ sect,
        it_opt = fit UCI_OPT_SZ opt, it_val = fit UCI_VAL_SZ val, it_is_type = is_type\<rparr>]))"

text \<open>The position of a character splits the string into what precedes it and what follows it.\<close>

abbreviation before :: "char \<Rightarrow> string \<Rightarrow> string" where
  "before c s \<equiv> takeWhile (\<lambda>x. x \<noteq> c) s"

abbreviation after :: "char \<Rightarrow> string \<Rightarrow> string" where
  "after c s \<equiv> tl (dropWhile (\<lambda>x. x \<noteq> c) s)"

definition db_load_line :: "uci_db \<Rightarrow> string \<Rightarrow> uci_db result" where
  "db_load_line db line0 = (let line = trim_eol line0; lhs = before CHR ''='' line in
     if line = [] then Inr db
     else if CHR ''='' \<notin> set line \<or> CHR ''.'' \<notin> set lhs then Inl EINVAL
     else let pkg = before CHR ''.'' lhs; mid = after CHR ''.'' lhs;
              val = strip_quotes (dropWhile is_blank (after CHR ''='' line)) in
       if length pkg + 1 > UCI_PKG_SZ then Inl E2BIG
       else if CHR ''.'' \<in> set mid then
         let sect = before CHR ''.'' mid; opt = after CHR ''.'' mid in
           if length sect + 1 > UCI_SECT_SZ then Inl E2BIG
           else if length opt + 1 > UCI_OPT_SZ then Inl E2BIG
           else db_add db pkg sect opt val False
       else if length mid + 1 > UCI_SECT_SZ then Inl E2BIG
       else db_add db pkg mid [] val True)"

function file_loop :: "uci_db \<Rightarrow> string \<Rightarrow> uci_db result" where
  "file_loop db bytes = (case fgets 1024 bytes of
     None \<Rightarrow> Inr db
   | Some (line, eof, rest) \<Rightarrow>
       if NL \<notin> set (cstr line) \<and> \<not> eof then Inl E2BIG
       else (case db_load_line db (cstr line) of
           Inl e \<Rightarrow> Inl e
         | Inr db' \<Rightarrow> file_loop db' rest))"
  by pat_completeness auto
termination
  by (relation "measure (\<lambda>(db, bytes). length bytes)") (auto dest: fgets_decreases)

declare file_loop.simps [simp del]

definition db_load_file :: "uci_db \<Rightarrow> string result \<Rightarrow> uci_db result" where
  "db_load_file db file = ebind file (file_loop db)"

section \<open>Running the command\<close>

text \<open>What the reads from the pipe deliver: bytes (a \<open>read\<close> takes as many as fit), an interruption
  or an error; the end of the list is the end of file.\<close>

datatype pipe_event = Bytes string | Read_intr | Read_error errno

fun pipe_size :: "pipe_event list \<Rightarrow> nat" where
  "pipe_size [] = 0"
| "pipe_size (Bytes b # es) = 1 + length b + pipe_size es"
| "pipe_size (_ # es) = 1 + pipe_size es"

text \<open>\<open>read_all_fd\<close> with the capacity of the buffer and its contents; the buffer is doubled
  before a read that would have no room.\<close>

function read_loop :: "nat \<Rightarrow> string \<Rightarrow> pipe_event list \<Rightarrow> string result" where
  "read_loop cap0 buf es = (let cap = (if length buf + 1 \<ge> cap0 then cap0 * 2 else cap0);
       room = cap - length buf - 1 in
     case es of
       [] \<Rightarrow> Inr buf
     | Read_intr # es' \<Rightarrow> read_loop cap buf es'
     | Read_error e # es' \<Rightarrow> Inl e
     | Bytes b # es' \<Rightarrow>
         if length b \<le> room then read_loop cap (buf @ b) es'
         else if room = 0 then Inr buf
         else read_loop cap (buf @ take room b) (Bytes (drop room b) # es'))"
  by pat_completeness auto
termination
  by (relation "measure (\<lambda>(cap, buf, es). pipe_size es)") auto

declare read_loop.simps [simp del]

definition read_all_fd :: "pipe_event list \<Rightarrow> string result" where
  "read_all_fd es = read_loop 4096 [] es"

datatype exit_event = Wait_failed errno | Exit nat | Killed

datatype captured = Pipe_failed errno | Fork_failed errno | Ran "pipe_event list" exit_event

definition run_capture :: "(string list \<Rightarrow> captured) \<Rightarrow> string list \<Rightarrow> string result" where
  "run_capture run argv =
     (if argv = [] then Inl EINVAL
      else case run argv of
        Pipe_failed e \<Rightarrow> Inl e
      | Fork_failed e \<Rightarrow> Inl e
      | Ran es st \<Rightarrow> (case st of
          Wait_failed e \<Rightarrow> Inl e
        | _ \<Rightarrow> (case read_all_fd es of
            Inl e \<Rightarrow> Inl e
          | Inr buf \<Rightarrow> if st \<noteq> Exit 0 then Inl EINVAL else Inr buf)))"

text \<open>The loop of \<open>db_load_buf\<close>; after a line it skips at most one CR and one NL.\<close>

definition skip_char :: "char \<Rightarrow> string \<Rightarrow> string" where
  "skip_char c s = (if s \<noteq> [] \<and> hd s = c then tl s else s)"

lemma length_skip_char: "length (skip_char c s) \<le> length s"
  by (auto simp: skip_char_def)

function buf_loop :: "uci_db \<Rightarrow> string \<Rightarrow> uci_db result" where
  "buf_loop db s =
     (if s = [] then Inr db
      else let line = takeWhile (\<lambda>c. \<not> is_eol c) s in
        if length line + 1 > 1024 then Inl E2BIG
        else case db_load_line db line of
          Inl e \<Rightarrow> Inl e
        | Inr db' \<Rightarrow> buf_loop db' (skip_char NL (skip_char CR (drop (length line) s))))"
  by pat_completeness auto
termination
proof (relation "measure (\<lambda>(db, s). length s)", goal_cases)
  case (2 db s line db')
  have "length (skip_char NL (skip_char CR (drop (length line) s))) < length s"
  proof (cases "line = []")
    case True
    then obtain c cs where s: "s = c # cs" and c: "is_eol c"
      using 2(1,2) by (cases s) (auto split: if_splits)
    have "skip_char NL (skip_char CR s) = cs \<or> skip_char NL (skip_char CR s) = tl cs"
      using c by (cases cs) (auto simp: s skip_char_def is_eol_def)
    with True s show ?thesis by auto
  next
    case False
    have "length (skip_char NL (skip_char CR (drop (length line) s))) \<le> length (drop (length line) s)"
      using length_skip_char le_trans by blast
    also have "\<dots> < length s" using False 2(1) by simp
    finally show ?thesis .
  qed
  then show ?case by simp
qed simp

declare buf_loop.simps [simp del]

definition db_load_buf :: "uci_db \<Rightarrow> string \<Rightarrow> uci_db result" where
  "db_load_buf db buf = buf_loop db (cstr buf)"

definition db_load_live ::
  "(string list \<Rightarrow> captured) \<Rightarrow> uci_db \<Rightarrow> string option \<Rightarrow> string \<Rightarrow> uci_db result" where
  "db_load_live run db uci_bin pkg =
     ebind (run_capture run [case uci_bin of Some b \<Rightarrow> b | None \<Rightarrow> ''uci'', ''show'', pkg])
       (db_load_buf db)"

section \<open>Searching\<close>

text \<open>\<open>db_get\<close> runs from the last item to the first.\<close>

fun get_loop :: "uci_item list \<Rightarrow> string \<Rightarrow> string \<Rightarrow> string \<Rightarrow> string option" where
  "get_loop [] pkg sect opt = None"
| "get_loop (it # its) pkg sect opt =
     (if it_is_type it then get_loop its pkg sect opt
      else if it_pkg it \<noteq> pkg then get_loop its pkg sect opt
      else if it_sect it \<noteq> sect then get_loop its pkg sect opt
      else if it_opt it \<noteq> opt then get_loop its pkg sect opt
      else Some (it_val it))"

definition db_get :: "uci_db \<Rightarrow> string \<Rightarrow> string \<Rightarrow> string \<Rightarrow> string option" where
  "db_get db pkg sect opt = get_loop (rev db) pkg sect opt"

fun iface_loop :: "uci_db \<Rightarrow> uci_item list \<Rightarrow> string \<Rightarrow> string option" where
  "iface_loop db [] br = None"
| "iface_loop db (it # its) br =
     (if \<not> it_is_type it then iface_loop db its br
      else if it_pkg it \<noteq> ''network'' then iface_loop db its br
      else if it_val it \<noteq> ''interface'' then iface_loop db its br
      else if db_get db ''network'' (it_sect it) ''device'' \<noteq> Some br then iface_loop db its br
      else case db_get db ''network'' (it_sect it) ''proto'' of
        None \<Rightarrow> iface_loop db its br
      | Some proto \<Rightarrow> if proto = [] then iface_loop db its br else Some (it_sect it))"

definition find_iface_by_device :: "uci_db \<Rightarrow> string \<Rightarrow> string option" where
  "find_iface_by_device db br = iface_loop db db br"

end
