(* ===== verification/Uci_Build.thy ===== *)
theory Uci_Build
  imports Uci_Db
begin

text \<open>
  The builder in \<open>uci.c\<close>: from the database of the \<open>network\<close> and the \<open>wireless\<close> package to a set of
  desired states, one per bridge device. Functions that fill a \<open>struct desired_state\<close> in place
  take the state and return it updated.
\<close>

section \<open>Bridge ports\<close>

definition add_bridge_port :: "desired_state \<Rightarrow> string option \<Rightarrow> desired_state result" where
  "add_bridge_port ds ifname = (case ifname of
     None \<Rightarrow> Inr ds
   | Some i \<Rightarrow>
       if i = [] then Inr ds
       else if up_ifname ds \<noteq> [] \<and> up_ifname ds = i then Inr ds
       else if vx_ifname ds \<noteq> [] \<and> vx_ifname ds = i then Inr ds
       else if i \<in> set (br_ports ds) then Inr ds
       else if length (br_ports ds) \<ge> NR_BR_PORT_MAX then Inl E2BIG
       else Inr (ds\<lparr>br_ports := br_ports ds @ [fit IFNAMSIZ i]\<rparr>))"

fun wireless_loop :: "uci_db \<Rightarrow> uci_item list \<Rightarrow> string \<Rightarrow> desired_state \<Rightarrow> desired_state result" where
  "wireless_loop db [] net ds = Inr ds"
| "wireless_loop db (it # its) net ds =
     (if \<not> it_is_type it then wireless_loop db its net ds
      else if it_pkg it \<noteq> ''wireless'' then wireless_loop db its net ds
      else if it_val it \<noteq> ''wifi-iface'' then wireless_loop db its net ds
      else let get = db_get db ''wireless'' (it_sect it) in
        if get ''disabled'' \<noteq> None \<and> get ''disabled'' \<noteq> Some ''0'' then wireless_loop db its net ds
        else if \<not> value_has_token (get ''network'') net then wireless_loop db its net ds
        else if get ''ifname'' = None \<or> get ''ifname'' = Some [] then wireless_loop db its net ds
        else ebind (add_bridge_port ds (get ''ifname'')) (wireless_loop db its net))"

definition add_wireless_ports :: "uci_db \<Rightarrow> string \<Rightarrow> desired_state \<Rightarrow> desired_state result" where
  "add_wireless_ports db net ds = wireless_loop db db net ds"

function ports_loop :: "string \<Rightarrow> bool \<Rightarrow> bool \<Rightarrow> desired_state \<Rightarrow> desired_state result" where
  "ports_loop p skip_first first ds = (case next_word IFNAMSIZ p of
     Inl e \<Rightarrow> Inl e
   | Inr None \<Rightarrow> Inr ds
   | Inr (Some (word, p')) \<Rightarrow>
       if skip_first \<and> first then ports_loop p' skip_first False ds
       else (case add_bridge_port ds (Some word) of
           Inl e \<Rightarrow> Inl e
         | Inr ds' \<Rightarrow> ports_loop p' skip_first False ds'))"
  by pat_completeness auto
termination
  by (relation "measure (\<lambda>(p, s, f, ds). length p)") (auto dest: next_word_decreases)

declare ports_loop.simps [simp del]

definition add_device_ports :: "string option \<Rightarrow> desired_state \<Rightarrow> bool \<Rightarrow> desired_state result" where
  "add_device_ports ports ds skip_first = (case ports of
     None \<Rightarrow> Inr ds
   | Some p \<Rightarrow> if p = [] then Inr ds else ports_loop p skip_first True ds)"

definition first_device_port :: "string option \<Rightarrow> nat \<Rightarrow> string result" where
  "first_device_port ports sz = (case ports of
     None \<Rightarrow> Inl ENOENT
   | Some p \<Rightarrow>
       if p = [] then Inl ENOENT
       else (case next_word sz p of
         Inl e \<Rightarrow> Inl e
       | Inr None \<Rightarrow> Inl ENOENT
       | Inr (Some (w, r)) \<Rightarrow> Inr w))"

section \<open>Netmasks and address lists\<close>

text \<open>The first loop of \<open>mask_to_prefix\<close>, from the highest bit down: no set bit after a clear
  one.\<close>

fun mask_scan :: "32 word \<Rightarrow> nat list \<Rightarrow> bool \<Rightarrow> bool" where
  "mask_scan v [] zero_seen = True"
| "mask_scan v (i # is) zero_seen =
     (if bit v (31 - i) then if zero_seen then False else mask_scan v is zero_seen
      else mask_scan v is True)"

lemma shift_top_decreases:
  fixes v :: "32 word"
  assumes "bit v 31"
  shows "unat (push_bit 1 v) < unat v"
proof -
  have v: "unat v < 2 ^ 32" using unsigned_less [of v] by simp
  have "2 ^ 31 \<le> unat v"
  proof (rule ccontr)
    assume "\<not> 2 ^ 31 \<le> unat v"
    then have "\<not> bit (unat v) 31" by (simp add: bit_iff_odd)
    with assms show False by (simp add: bit_unsigned_iff)
  qed
  have "unat (push_bit 1 v) = (2 * unat v) mod 2 ^ 32"
    by (simp add: push_bit_eq_mult unat_word_ariths mult.commute)
  also have "\<dots> = 2 * unat v - 2 ^ 32"
    using v \<open>2 ^ 31 \<le> unat v\<close> by (simp add: mod_if)
  also have "\<dots> < unat v" using v \<open>2 ^ 31 \<le> unat v\<close> by simp
  finally show ?thesis .
qed

text \<open>The second loop counts the leading ones while shifting them out.\<close>

function lead_ones :: "nat \<Rightarrow> 32 word \<Rightarrow> nat" where
  "lead_ones bits v = (if bit v 31 then lead_ones (bits + 1) (push_bit 1 v) else bits)"
  by pat_completeness auto
termination
  by (relation "measure (\<lambda>(bits, v). unat v)") (use shift_top_decreases in auto)

declare lead_ones.simps [simp del]

definition mask_to_prefix :: "string \<Rightarrow> nat result" where
  "mask_to_prefix m = (case inet_pton m of
     None \<Rightarrow> Inl EINVAL
   | Some a \<Rightarrow> let v = ntohl a in
       if \<not> mask_scan v [0..<32] False then Inl EINVAL else Inr (lead_ones 0 v))"

text \<open>\<open>split_ip_list\<close>: at most \<open>mx\<close> words, each cut to an address field.\<close>

function ip_list_loop :: "nat \<Rightarrow> nat \<Rightarrow> string \<Rightarrow> string list result" where
  "ip_list_loop mx n p = (case next_word 32 p of
     Inl e \<Rightarrow> Inl e
   | Inr None \<Rightarrow> Inr []
   | Inr (Some (word, p')) \<Rightarrow>
       if n \<ge> mx then Inl E2BIG
       else (case ip_list_loop mx (n + 1) p' of
           Inl e \<Rightarrow> Inl e
         | Inr l \<Rightarrow> Inr (fit INET_ADDRSTRLEN word # l)))"
  by pat_completeness auto
termination
  by (relation "measure (\<lambda>(mx, n, p). length p)") (auto dest: next_word_decreases)

declare ip_list_loop.simps [simp del]

definition split_ip_list :: "string option \<Rightarrow> nat \<Rightarrow> string list result" where
  "split_ip_list src mx = (case src of
     None \<Rightarrow> Inr []
   | Some s \<Rightarrow> if s = [] then Inr [] else ip_list_loop mx 0 s)"

section \<open>One bridge\<close>

definition fill_bridge_proto :: "uci_db \<Rightarrow> string \<Rightarrow> desired_state \<Rightarrow> desired_state result" where
  "fill_bridge_proto db if_sect ds = (let get = db_get db ''network'' if_sect in
     case get ''proto'' of
       None \<Rightarrow> Inl EINVAL
     | Some proto \<Rightarrow>
         if proto = [] then Inl EINVAL
         else if proto = ''static'' then
           (case (get ''ipaddr'', get ''netmask'') of
              (Some ipaddr, Some netmask) \<Rightarrow>
                ebind (mask_to_prefix netmask) (\<lambda>plen.
                let ds = ds\<lparr>br_addr_mode := ADDR_STATIC,
                            br_addr := fit 32 (ipaddr @ ''/'' @ fmt_u plen)\<rparr>;
                    ds = (case get ''gateway'' of
                            None \<Rightarrow> ds
                          | Some gateway \<Rightarrow> ds\<lparr>br_gateway := fit INET_ADDRSTRLEN gateway\<rparr>) in
                ebind (split_ip_list (get ''dns'') NR_DES_DNS4_MAX) (\<lambda>dns.
                Inr (ds\<lparr>br_dns := dns\<rparr>)))
            | _ \<Rightarrow> Inl EINVAL)
         else if proto = ''dhcp'' then
           Inr (ds\<lparr>br_addr_mode := ADDR_DHCP, br_dhcp_cmd := fit 128 ''udhcpc -i $iface -q -n''\<rparr>)
         else if proto = ''none'' then Inr (ds\<lparr>br_addr_mode := ADDR_NONE\<rparr>)
         else Inl EINVAL)"

text \<open>The two loops of \<open>find_wg_for_remote\<close>: a WireGuard peer section whose allowed addresses
  name the remote, otherwise the only WireGuard interface (the last one found and their number).\<close>

fun wg_peer_loop :: "uci_db \<Rightarrow> uci_item list \<Rightarrow> string \<Rightarrow> nat \<Rightarrow> string option" where
  "wg_peer_loop db [] remote sz = None"
| "wg_peer_loop db (it # its) remote sz =
     (if \<not> it_is_type it then wg_peer_loop db its remote sz
      else if it_pkg it \<noteq> ''network'' then wg_peer_loop db its remote sz
      else if \<not> has_prefix ''wireguard_'' (it_val it) then wg_peer_loop db its remote sz
      else let allowed_ips = db_get db ''network'' (it_sect it) ''allowed_ips'' in
        if allowed_ips = None then wg_peer_loop db its remote sz
        else if \<not> value_has_token allowed_ips (fit 32 (remote @ ''/32''))
              \<and> \<not> value_has_token allowed_ips remote then wg_peer_loop db its remote sz
        else Some (fit sz (drop 10 (it_val it))))"

fun wg_iface_loop :: "uci_db \<Rightarrow> uci_item list \<Rightarrow> nat \<Rightarrow> string \<Rightarrow> nat \<Rightarrow> string \<times> nat" where
  "wg_iface_loop db [] sz name n = (name, n)"
| "wg_iface_loop db (it # its) sz name n =
     (if \<not> it_is_type it then wg_iface_loop db its sz name n
      else if it_pkg it \<noteq> ''network'' then wg_iface_loop db its sz name n
      else if it_val it \<noteq> ''interface'' then wg_iface_loop db its sz name n
      else if db_get db ''network'' (it_sect it) ''proto'' \<noteq> Some ''wireguard''
        then wg_iface_loop db its sz name n
      else wg_iface_loop db its sz (fit sz (it_sect it)) (n + 1))"

definition find_wg_for_remote :: "uci_db \<Rightarrow> string \<Rightarrow> nat \<Rightarrow> string result" where
  "find_wg_for_remote db remote sz = (case wg_peer_loop db db remote sz of
     Some name \<Rightarrow> Inr name
   | None \<Rightarrow> let (name, n) = wg_iface_loop db db sz [] 0 in
       if n = 1 then Inr name else Inl EINVAL)"

text \<open>\<open>add_state\<close> hands out the next, zeroed state of the set.\<close>

definition add_state :: "desired_set \<Rightarrow> desired_state result" where
  "add_state sts = (if length sts \<ge> NR_DES_STATE_MAX then Inl E2BIG else Inr ds_zero)"

definition build_uplink_bridge ::
  "uci_db \<Rightarrow> uci_db \<Rightarrow> string \<Rightarrow> string \<Rightarrow> string \<Rightarrow> desired_set \<Rightarrow> desired_set result" where
  "build_uplink_bridge net wifi dev_sect if_sect br sts =
     ebind (add_state sts) (\<lambda>ds.
     let ds = ds\<lparr>scenario := fit 32 ''uplink_bridge'', br_name := fit IFNAMSIZ br\<rparr> in
     ebind (fill_bridge_proto net if_sect ds) (\<lambda>ds.
     let ports = db_get net ''network'' dev_sect ''ports'' in
     ebind (first_device_port ports IFNAMSIZ) (\<lambda>up.
     ebind (add_device_ports ports (ds\<lparr>up_ifname := up\<rparr>) True) (\<lambda>ds.
     ebind (add_wireless_ports wifi if_sect ds) (\<lambda>ds.
     Inr (sts @ [ds]))))))"

definition build_wg_vxlan_bridge ::
  "uci_db \<Rightarrow> uci_db \<Rightarrow> string \<Rightarrow> string \<Rightarrow> string \<Rightarrow> desired_set \<Rightarrow> desired_set result" where
  "build_wg_vxlan_bridge net wifi dev_sect if_sect br sts =
     (let ports = db_get net ''network'' dev_sect ''ports'' in
     ebind (add_state sts) (\<lambda>ds.
     let ds = ds\<lparr>scenario := fit 32 ''wg_vxlan_bridge'', br_name := fit IFNAMSIZ br,
                 br_addr_mode := ADDR_NONE\<rparr> in
     ebind (first_device_port ports IFNAMSIZ) (\<lambda>vx.
     let ds = ds\<lparr>vx_ifname := vx\<rparr>; get = db_get net ''network'' vx in
     if get ''proto'' \<noteq> Some ''vxlan'' then Inl EINVAL
     else case (get ''vid'', get ''peeraddr'') of
       (Some vid, Some peeraddr) \<Rightarrow>
         ebind (parse_u32_str (Some vid)) (\<lambda>vni.
         ebind (find_wg_for_remote net peeraddr IFNAMSIZ) (\<lambda>wg.
         let ds = ds\<lparr>vx_vni := vni, wg_ifname := fit IFNAMSIZ wg,
                     wg_peer_ip := fit INET_ADDRSTRLEN peeraddr, wg_route_dev := fit IFNAMSIZ wg,
                     vx_remote := fit INET_ADDRSTRLEN peeraddr, vx_bridge := fit IFNAMSIZ br\<rparr> in
         ebind (add_device_ports ports ds True) (\<lambda>ds.
         ebind (add_wireless_ports wifi if_sect ds) (\<lambda>ds.
         Inr (sts @ [ds])))))
     | _ \<Rightarrow> Inl EINVAL)))"

section \<open>The set\<close>

fun build_loop :: "uci_db \<Rightarrow> uci_db \<Rightarrow> uci_item list \<Rightarrow> desired_set \<Rightarrow> desired_set result" where
  "build_loop net wifi [] sts = Inr sts"
| "build_loop net wifi (it # its) sts =
     (if \<not> it_is_type it then build_loop net wifi its sts
      else if it_pkg it \<noteq> ''network'' then build_loop net wifi its sts
      else if it_val it \<noteq> ''device'' then build_loop net wifi its sts
      else if db_get net ''network'' (it_sect it) ''type'' \<noteq> Some ''bridge''
        then build_loop net wifi its sts
      else case db_get net ''network'' (it_sect it) ''name'' of
        None \<Rightarrow> Inl EINVAL
      | Some br \<Rightarrow>
          if br = [] then Inl EINVAL
          else (case find_iface_by_device net br of
            None \<Rightarrow> Inl EINVAL
          | Some if_sect \<Rightarrow> (case db_get net ''network'' if_sect ''proto'' of
              None \<Rightarrow> Inl EINVAL
            | Some proto \<Rightarrow>
                if proto = [] then Inl EINVAL
                else ebind
                  (if proto = ''static'' \<or> proto = ''dhcp''
                   then build_uplink_bridge net wifi (it_sect it) if_sect br sts
                   else if proto = ''none''
                   then build_wg_vxlan_bridge net wifi (it_sect it) if_sect br sts
                   else Inl EINVAL)
                  (build_loop net wifi its))))"

text \<open>A path that is given selects the file reader, otherwise the command is run.\<close>

definition uci_build_desired_set ::
  "(string \<Rightarrow> string result) \<Rightarrow> (string list \<Rightarrow> captured) \<Rightarrow> string option \<Rightarrow> string option \<Rightarrow>
     string option \<Rightarrow> desired_set result" where
  "uci_build_desired_set fs run uci_bin network_path wireless_path =
     ebind (case network_path of
         Some p \<Rightarrow> db_load_file [] (fs p)
       | None \<Rightarrow> db_load_live run [] uci_bin ''network'') (\<lambda>net.
     ebind (case wireless_path of
         Some p \<Rightarrow> db_load_file [] (fs p)
       | None \<Rightarrow> db_load_live run [] uci_bin ''wireless'') (\<lambda>wifi.
     ebind (build_loop net wifi net []) (\<lambda>sts.
     if sts = [] then Inl EINVAL else Inr sts)))"

end
