(* ===== verification/Uci_Emit.thy ===== *)
theory Uci_Emit
  imports Uci_Build
begin

text \<open>
  The second half of \<open>uci.c\<close>: writing a set of desired states as a configuration file, and the two
  entry points. \<open>cfg_quote\<close> is the same loop as \<open>quote\<close> of \<open>cfg.c\<close>. Temporary files, \<open>fflush\<close> and
  \<open>fclose\<close> are parameters: the error each of them reports, if any.
\<close>

section \<open>Lines\<close>

definition cfg_line_str :: "ofile \<Rightarrow> string \<Rightarrow> string \<Rightarrow> ofile result" where
  "cfg_line_str f path val =
     ebind (fputs f (path @ '' = '')) (\<lambda>f. ebind (quote f val) (\<lambda>f. fputs f [NL]))"

definition cfg_line_u32 :: "ofile \<Rightarrow> string \<Rightarrow> 32 word \<Rightarrow> ofile result" where
  "cfg_line_u32 f path val = fputs f (path @ '' = '' @ [QUOTE] @ fmt_u (unat val) @ [QUOTE, NL])"

definition cfg_path :: "nat \<Rightarrow> string \<Rightarrow> string \<Rightarrow> string result" where
  "cfg_path sz sid tail = (let p = ''state.'' @ sid @ ''.'' @ tail in
     if length p \<ge> sz then Inl E2BIG else Inr p)"

section \<open>Identifiers\<close>

text \<open>The loop of \<open>cfg_state_id\<close>; \<open>acc\<close> is \<open>dst[0..n)\<close>.\<close>

fun state_id_loop :: "nat \<Rightarrow> string \<Rightarrow> string \<Rightarrow> string result" where
  "state_id_loop sz acc [] = Inr acc"
| "state_id_loop sz acc (c # src) =
     (if length acc + 1 \<ge> sz then Inl E2BIG
      else if acc = [] then
        if c_isalpha c \<or> c = CHR ''_'' then state_id_loop sz [c] src
        else if c_isdigit c then
          if 1 + 1 \<ge> sz then Inl E2BIG else state_id_loop sz [CHR ''_'', c] src
        else state_id_loop sz [CHR ''_''] src
      else if c_isalpha c \<or> c_isdigit c \<or> c = CHR ''_'' then state_id_loop sz (acc @ [c]) src
      else state_id_loop sz (acc @ [CHR ''_'']) src)"

definition cfg_state_id :: "desired_state \<Rightarrow> nat \<Rightarrow> nat \<Rightarrow> string result" where
  "cfg_state_id ds sz idx =
     (let src = (if br_name ds \<noteq> [] then br_name ds else scenario ds) in
      ebind (state_id_loop sz [] src) (\<lambda>sid.
      if sid = [] then
        let s = CHR ''s'' # fmt_u idx in if length s \<ge> sz then Inl E2BIG else Inr s
      else Inr sid))"

section \<open>States\<close>

text \<open>The pair \<open>cfg_path(..); cfg_line_str(..)\<close> that the code repeats, for one value and for each
  value of an array.\<close>

definition put_str :: "ofile \<Rightarrow> string \<Rightarrow> string \<Rightarrow> string \<Rightarrow> ofile result" where
  "put_str f sid tail val = ebind (cfg_path 256 sid tail) (\<lambda>p. cfg_line_str f p val)"

definition put_u32 :: "ofile \<Rightarrow> string \<Rightarrow> string \<Rightarrow> 32 word \<Rightarrow> ofile result" where
  "put_u32 f sid tail val = ebind (cfg_path 256 sid tail) (\<lambda>p. cfg_line_u32 f p val)"

fun put_each :: "ofile \<Rightarrow> string \<Rightarrow> string \<Rightarrow> string list \<Rightarrow> ofile result" where
  "put_each f sid tail [] = Inr f"
| "put_each f sid tail (v # vs) = ebind (put_str f sid tail v) (\<lambda>f. put_each f sid tail vs)"

definition put_opt :: "ofile \<Rightarrow> string \<Rightarrow> string \<Rightarrow> string \<Rightarrow> ofile result" where
  "put_opt f sid tail val = (if val \<noteq> [] then put_str f sid tail val else Inr f)"

definition cfg_bridge :: "ofile \<Rightarrow> string \<Rightarrow> desired_state \<Rightarrow> ofile result" where
  "cfg_bridge f sid ds =
     (if br_name ds \<noteq> [] then
        ebind (put_str f sid ''bridge.name'' (br_name ds)) (\<lambda>f.
        ebind (case br_addr_mode ds of
            ADDR_STATIC \<Rightarrow>
              ebind (put_str f sid ''bridge.addr_mode'' ''static'') (\<lambda>f.
              ebind (put_str f sid ''bridge.addr'' (br_addr ds)) (\<lambda>f.
              ebind (put_opt f sid ''bridge.gateway'' (br_gateway ds)) (\<lambda>f.
              put_each f sid ''bridge.dns[]'' (br_dns ds))))
          | ADDR_DHCP \<Rightarrow>
              ebind (put_str f sid ''bridge.addr_mode'' ''dhcp'') (\<lambda>f.
              put_str f sid ''bridge.dhcp_cmd'' (br_dhcp_cmd ds))
          | ADDR_NONE \<Rightarrow> put_str f sid ''bridge.addr_mode'' ''none'') (\<lambda>f.
        put_each f sid ''bridge.ports[]'' (br_ports ds)))
      else Inr f)"

definition cfg_vlan :: "ofile \<Rightarrow> string \<Rightarrow> desired_state \<Rightarrow> ofile result" where
  "cfg_vlan f sid ds =
     (if vlan_ifname ds \<noteq> [] then
        ebind (put_str f sid ''vlan.ifname'' (vlan_ifname ds)) (\<lambda>f.
        ebind (put_u32 f sid ''vlan.id'' (vlan_id ds)) (\<lambda>f.
        ebind (put_opt f sid ''vlan.link'' (vlan_link ds)) (\<lambda>f.
        put_opt f sid ''vlan.bridge'' (vlan_bridge ds))))
      else Inr f)"

definition cfg_wg :: "ofile \<Rightarrow> string \<Rightarrow> desired_state \<Rightarrow> ofile result" where
  "cfg_wg f sid ds =
     (if wg_ifname ds \<noteq> [] then
        ebind (put_str f sid ''wg.ifname'' (wg_ifname ds)) (\<lambda>f.
        ebind (put_str f sid ''wg.peer_ip'' (wg_peer_ip ds)) (\<lambda>f.
        put_str f sid ''wg.route_dev'' (wg_route_dev ds)))
      else Inr f)"

definition cfg_vxlan :: "ofile \<Rightarrow> string \<Rightarrow> desired_state \<Rightarrow> ofile result" where
  "cfg_vxlan f sid ds =
     (if vx_ifname ds \<noteq> [] then
        ebind (put_str f sid ''vxlan.ifname'' (vx_ifname ds)) (\<lambda>f.
        ebind (put_u32 f sid ''vxlan.vni'' (vx_vni ds)) (\<lambda>f.
        ebind (put_str f sid ''vxlan.remote'' (vx_remote ds)) (\<lambda>f.
        ebind (put_opt f sid ''vxlan.dev'' (vx_dev ds)) (\<lambda>f.
        put_str f sid ''vxlan.bridge'' (vx_bridge ds)))))
      else Inr f)"

definition route_path :: "nat \<Rightarrow> string \<Rightarrow> string result" where
  "route_path i leaf = (let p = ''routes.r'' @ fmt_u i @ ''.'' @ leaf in
     if length p \<ge> 64 then Inl E2BIG else Inr p)"

fun cfg_routes :: "ofile \<Rightarrow> string \<Rightarrow> nat \<Rightarrow> desired_route4 list \<Rightarrow> ofile result" where
  "cfg_routes f sid i [] = Inr f"
| "cfg_routes f sid i (rt # rts) =
     ebind (route_path i ''dst'') (\<lambda>p.
     ebind (put_str f sid p (dr_dst rt)) (\<lambda>f.
     ebind (route_path i ''dev'') (\<lambda>p.
     ebind (put_str f sid p (dr_dev rt)) (\<lambda>f.
     ebind (if dr_has_via rt
            then ebind (route_path i ''via'') (\<lambda>p. put_str f sid p (dr_via rt))
            else Inr f) (\<lambda>f.
     cfg_routes f sid (i + 1) rts)))))"

definition cfg_state :: "ofile \<Rightarrow> desired_state \<Rightarrow> nat \<Rightarrow> ofile result" where
  "cfg_state f ds idx =
     ebind (cfg_state_id ds IFNAMSIZ idx) (\<lambda>sid.
     ebind (put_str f sid ''scenario'' (scenario ds)) (\<lambda>f.
     ebind (cfg_bridge f sid ds) (\<lambda>f.
     ebind (put_opt f sid ''uplink.ifname'' (up_ifname ds)) (\<lambda>f.
     ebind (cfg_vlan f sid ds) (\<lambda>f.
     ebind (cfg_wg f sid ds) (\<lambda>f.
     ebind (cfg_vxlan f sid ds) (\<lambda>f.
     ebind (cfg_routes f sid 0 (routes ds)) (\<lambda>f.
     if oerr f then Inl EIO else Inr f))))))))"

fun cfg_set_loop :: "ofile \<Rightarrow> nat \<Rightarrow> desired_set \<Rightarrow> ofile result" where
  "cfg_set_loop f i [] = Inr f"
| "cfg_set_loop f i (ds # sts) = ebind (cfg_state f ds i) (\<lambda>f. cfg_set_loop f (i + 1) sts)"

definition cfg_set :: "ofile \<Rightarrow> desired_set \<Rightarrow> ofile result" where
  "cfg_set f sts = cfg_set_loop f 0 sts"

section \<open>Entry points\<close>

definition uci2yml_file ::
  "(string \<Rightarrow> string result) \<Rightarrow> (string list \<Rightarrow> captured) \<Rightarrow> string option \<Rightarrow> string option \<Rightarrow>
     ofile \<Rightarrow> ofile result" where
  "uci2yml_file fs run network_path wireless_path f =
     ebind (uci_build_desired_set fs run None network_path wireless_path) (cfg_set f)"

text \<open>Closing the stream: \<open>fflush\<close> is called when all is well so far, \<open>fclose\<close> always; the first
  error is the one returned.\<close>

definition finish :: "errno option \<Rightarrow> errno option \<Rightarrow> 'a result \<Rightarrow> 'a result" where
  "finish flush close rc =
     (let rc = (case rc of Inl e \<Rightarrow> Inl e | Inr x \<Rightarrow> case flush of None \<Rightarrow> Inr x | Some e \<Rightarrow> Inl e) in
      case rc of Inl e \<Rightarrow> Inl e | Inr x \<Rightarrow> case close of None \<Rightarrow> Inr x | Some e \<Rightarrow> Inl e)"

text \<open>\<open>uci2yml\<close>: the return value and the bytes left at \<open>yaml_path\<close>; after an error there is no
  file (it was not created, or it is removed).\<close>

definition uci2yml ::
  "(string \<Rightarrow> string result) \<Rightarrow> (string list \<Rightarrow> captured) \<Rightarrow> string option \<Rightarrow> string option \<Rightarrow>
     ofile result \<Rightarrow> errno option \<Rightarrow> errno option \<Rightarrow> string result" where
  "uci2yml fs run network_path wireless_path out flush close =
     ebind out (\<lambda>f.
     ebind (finish flush close (uci2yml_file fs run network_path wireless_path f)) (\<lambda>f.
     Inr (obuf f)))"

text \<open>\<open>uci_load_desired_set\<close>: build the set, write it to a temporary file and load it from there.
  \<open>tmp\<close> is the stream that \<open>mkstemp\<close> and \<open>fdopen\<close> give; the file is removed on every path.\<close>

definition uci_load_desired_set ::
  "(string \<Rightarrow> string result) \<Rightarrow> (string list \<Rightarrow> captured) \<Rightarrow> ofile result \<Rightarrow> errno option \<Rightarrow>
     errno option \<Rightarrow> (string \<Rightarrow> string result) \<Rightarrow> string option \<Rightarrow> string option \<Rightarrow> string option \<Rightarrow>
     desired_set result" where
  "uci_load_desired_set fs run tmp flush close reopen uci_bin network_path wireless_path =
     ebind tmp (\<lambda>f.
     ebind (finish flush close
       (ebind (uci_build_desired_set fs run uci_bin network_path wireless_path) (cfg_set f))) (\<lambda>f.
     yaml_load_desired_set (reopen (obuf f))))"

end
