(* ===== verification/Uci_Laws.thy ===== *)
theory Uci_Laws
  imports Uci_Emit
begin

text \<open>
  Properties of the UCI reader and builder: the word loops are the reference split, the
  database stays within its bounds and returns the last value of an option, the two readers
  agree, netmasks are read exactly, and every state built is valid.
\<close>

section \<open>Words\<close>

lemma next_word_words:
  "next_word sz s = (case words s of
     [] \<Rightarrow> Inr None
   | w # ws \<Rightarrow> if length w + 1 > sz then Inl E2BIG
       else Inr (Some (w, dropWhile (\<lambda>c. \<not> is_blank c) (dropWhile is_blank s))))"
  and next_word_rest: "next_word sz s = Inr (Some (w, r)) \<Longrightarrow> words s = w # words r"
proof -
  define t where "t = dropWhile is_blank s"
  have ws: "words s = words t" by (simp add: t_def words_blank)
  have drop: "drop (length (takeWhile P t)) t = dropWhile P t" for P by (simp add: dropWhile_eq_drop)
  have step: "words s = takeWhile (\<lambda>c. \<not> is_blank c) t # words (dropWhile (\<lambda>c. \<not> is_blank c) t)"
    if "t \<noteq> []"
    using that ws words_word [OF that] hd_dropWhile [of is_blank s] by (simp add: t_def)
  show "next_word sz s = (case words s of
     [] \<Rightarrow> Inr None
   | w # ws \<Rightarrow> if length w + 1 > sz then Inl E2BIG
       else Inr (Some (w, dropWhile (\<lambda>c. \<not> is_blank c) (dropWhile is_blank s))))"
  proof (cases "t = []")
    case True
    then show ?thesis using ws by (simp add: next_word_def t_def [symmetric])
  next
    case False
    then show ?thesis using step [OF False] by (simp add: next_word_def t_def [symmetric] drop)
  qed
  show "words s = w # words r" if "next_word sz s = Inr (Some (w, r))"
  proof (cases "t = []")
    case True
    then show ?thesis using that by (simp add: next_word_def t_def [symmetric])
  next
    case False
    then show ?thesis
      using that step [OF False]
      by (auto simp: next_word_def t_def [symmetric] drop Let_def split: if_splits)
  qed
qed

lemma words_length: "w \<in> set (words s) \<Longrightarrow> length w \<le> length s"
proof -
  have "\<forall>f \<in> set (pieces s). length f \<le> length s"
    by (induction s) (auto split: list.splits intro: le_SucI)
  then show "w \<in> set (words s) \<Longrightarrow> length w \<le> length s" by (auto simp: words_def)
qed

lemma token_loop_words:
  "\<forall>w \<in> set (words p). length w < UCI_VAL_SZ \<Longrightarrow> token_loop p t \<longleftrightarrow> t \<in> set (words p)"
proof (induction p t rule: token_loop.induct)
  case (1 p t)
  show ?case
  proof (cases "words p")
    case Nil
    then show ?thesis by (simp add: token_loop.simps [of p t] next_word_words)
  next
    case (Cons w ws)
    then obtain r where nw: "next_word UCI_VAL_SZ p = Inr (Some (w, r))"
      using "1.prems" by (auto simp: next_word_words)
    have r: "words p = w # words r" by (rule next_word_rest [OF nw])
    show ?thesis
    proof (cases "w = t")
      case True
      then show ?thesis using nw r by (simp add: token_loop.simps [of p t])
    next
      case False
      then show ?thesis
        using "1.IH" [OF nw refl refl False] "1.prems" nw r by (simp add: token_loop.simps [of p t])
    qed
  qed
qed

lemma value_has_token_words:
  assumes "length v < UCI_VAL_SZ"
  shows "value_has_token (Some v) t \<longleftrightarrow> t \<in> set (words v)"
  using assms token_loop_words [of v t] words_length [of _ v] by (force simp: value_has_token_def)

lemma ip_list_loop_words:
  "n \<le> mx \<Longrightarrow> ip_list_loop mx n p =
     (if n + length (words p) \<le> mx \<and> (\<forall>w \<in> set (words p). length w < 32)
      then Inr (map (fit INET_ADDRSTRLEN) (words p)) else Inl E2BIG)"
proof (induction mx n p rule: ip_list_loop.induct)
  case (1 mx n p)
  show ?case
  proof (cases "words p")
    case Nil
    then show ?thesis using "1.prems" by (simp add: ip_list_loop.simps [of mx n p] next_word_words)
  next
    case (Cons w ws)
    show ?thesis
    proof (cases "length w < 32")
      case False
      then show ?thesis using Cons by (simp add: ip_list_loop.simps [of mx n p] next_word_words)
    next
      case True
      then obtain r where nw: "next_word 32 p = Inr (Some (w, r))"
        using Cons by (auto simp: next_word_words)
      have r: "words p = w # words r" by (rule next_word_rest [OF nw])
      show ?thesis
      proof (cases "n \<ge> mx")
        case True
        then show ?thesis using nw r by (simp add: ip_list_loop.simps [of mx n p])
      next
        case False
        with "1.IH" [OF nw refl refl False] show ?thesis
          using nw r \<open>length w < 32\<close> by (simp add: ip_list_loop.simps [of mx n p])
      qed
    qed
  qed
qed

lemma split_ip_list_words:
  "split_ip_list (Some s) mx =
     (if length (words s) \<le> mx \<and> (\<forall>w \<in> set (words s). length w < 32)
      then Inr (map (fit INET_ADDRSTRLEN) (words s)) else Inl E2BIG)"
  by (simp add: split_ip_list_def ip_list_loop_words)

section \<open>The database\<close>

definition item_wf :: "uci_item \<Rightarrow> bool" where
  "item_wf it \<longleftrightarrow> length (it_pkg it) < UCI_PKG_SZ \<and> length (it_sect it) < UCI_SECT_SZ
     \<and> length (it_opt it) < UCI_OPT_SZ \<and> length (it_val it) < UCI_VAL_SZ"

definition db_wf :: "uci_db \<Rightarrow> bool" where
  "db_wf db \<longleftrightarrow> length db \<le> NR_UCI_ITEM_MAX \<and> list_all item_wf db"

lemma db_add_wf: "db_add db pkg sect opt val b = Inr db' \<Longrightarrow> db_wf db \<Longrightarrow> db_wf db'"
  by (auto simp: db_add_def db_wf_def item_wf_def length_fit uci_limits split: if_splits)

lemma db_load_line_wf: "db_load_line db line = Inr db' \<Longrightarrow> db_wf db \<Longrightarrow> db_wf db'"
  by (auto simp: db_load_line_def Let_def split: if_splits dest: db_add_wf)

lemma file_loop_wf: "file_loop db bytes = Inr db' \<Longrightarrow> db_wf db \<Longrightarrow> db_wf db'"
proof (induction db bytes rule: file_loop.induct)
  case (1 db bytes)
  show ?case
  proof (cases "fgets 1024 bytes")
    case None
    then show ?thesis using "1.prems" by (simp add: file_loop.simps [of db bytes])
  next
    case (Some t)
    then obtain line eof rest where t: "fgets 1024 bytes = Some (line, eof, rest)" by (cases t) auto
    with "1.prems"(1) obtain db1 where ok: "\<not> (NL \<notin> set (cstr line) \<and> \<not> eof)"
      and l: "db_load_line db (cstr line) = Inr db1" and f: "file_loop db1 rest = Inr db'"
      by (auto simp: file_loop.simps [of db bytes] split: if_splits sum.splits)
    from "1.IH" [OF t refl refl ok l f] db_load_line_wf [OF l "1.prems"(2)] show ?thesis by blast
  qed
qed

lemma buf_loop_wf: "buf_loop db s = Inr db' \<Longrightarrow> db_wf db \<Longrightarrow> db_wf db'"
proof (induction db s rule: buf_loop.induct)
  case (1 db s)
  then show ?case
    by (auto simp: buf_loop.simps [of db s] Let_def split: if_splits sum.splits dest: db_load_line_wf)
qed

text \<open>The last assignment to an option is the one that counts.\<close>

lemma db_get_snoc:
  "db_get (db @ [it]) pkg sect opt =
     (if \<not> it_is_type it \<and> it_pkg it = pkg \<and> it_sect it = sect \<and> it_opt it = opt
      then Some (it_val it) else db_get db pkg sect opt)"
  by (simp add: db_get_def)

lemma db_get_length: "db_get db pkg sect opt = Some v \<Longrightarrow> db_wf db \<Longrightarrow> length v < UCI_VAL_SZ"
proof -
  have "get_loop its pkg sect opt = Some v \<Longrightarrow> \<exists>it \<in> set its. it_val it = v" for its
    by (induction its) (auto split: if_splits)
  then show "db_get db pkg sect opt = Some v \<Longrightarrow> db_wf db \<Longrightarrow> length v < UCI_VAL_SZ"
    by (fastforce simp: db_get_def db_wf_def item_wf_def list_all_iff)
qed

text \<open>A line as \<open>uci show\<close> prints it is read back as the item it shows.\<close>

definition show_line :: "uci_item \<Rightarrow> string" where
  "show_line it = it_pkg it @ ''.'' @ it_sect it @
     (if it_is_type it then ''='' @ it_val it
      else ''.'' @ it_opt it @ ''='' @ [APOS] @ it_val it @ [APOS])"

definition plain_item :: "uci_item \<Rightarrow> bool" where
  "plain_item it \<longleftrightarrow> item_wf it
     \<and> CHR ''='' \<notin> set (it_pkg it @ it_sect it @ it_opt it)
     \<and> CHR ''.'' \<notin> set (it_pkg it @ it_sect it)
     \<and> (it_is_type it \<longrightarrow> it_opt it = [] \<and> it_val it \<noteq> [] \<and> \<not> is_blank (hd (it_val it))
         \<and> hd (it_val it) \<noteq> APOS \<and> \<not> is_eol (last (it_val it)))"

lemma trim_eol_id: "s = [] \<or> \<not> is_eol (last s) \<Longrightarrow> trim_eol s = s"
  by (cases s rule: rev_cases) (simp_all add: trim_eol_def)

lemma split_at:
  assumes "c \<notin> set xs"
  shows "before c (xs @ c # ys) = xs" and "after c (xs @ c # ys) = ys"
  using assms by (induction xs) auto

lemma before_none: "c \<notin> set xs \<Longrightarrow> before c xs = xs"
  by (induction xs) auto

lemma strip_quotes_quoted: "strip_quotes ([APOS] @ v @ [APOS]) = v"
  by (simp add: strip_quotes_def)

lemma db_load_line_show:
  assumes "plain_item it" and "length db < NR_UCI_ITEM_MAX"
  shows "db_load_line db (show_line it) = Inr (db @ [it])"
proof -
  have wf: "length (it_pkg it) < 16" "length (it_sect it) < 64" "length (it_opt it) < 64"
    "length (it_val it) < 256"
    using assms(1) by (simp_all add: plain_item_def item_wf_def uci_limits)
  have pk: "CHR ''='' \<notin> set (it_pkg it)" "CHR ''.'' \<notin> set (it_pkg it)"
    and se: "CHR ''='' \<notin> set (it_sect it)" "CHR ''.'' \<notin> set (it_sect it)"
    and op: "CHR ''='' \<notin> set (it_opt it)"
    using assms(1) by (simp_all add: plain_item_def)
  have add: "db_add db (it_pkg it) (it_sect it) (it_opt it) (it_val it) (it_is_type it) = Inr (db @ [it])"
    using assms(2) wf by (simp add: db_add_def uci_limits fit_id)
  show ?thesis
  proof (cases "it_is_type it")
    case True
    with assms(1) have v: "it_opt it = []" "it_val it \<noteq> []" "\<not> is_blank (hd (it_val it))"
      "hd (it_val it) \<noteq> APOS" "\<not> is_eol (last (it_val it))" by (simp_all add: plain_item_def)
    define lhs where "lhs = it_pkg it @ CHR ''.'' # it_sect it"
    have line: "show_line it = lhs @ CHR ''='' # it_val it" using True by (simp add: show_line_def lhs_def)
    have lhs: "CHR ''='' \<notin> set lhs" using pk se by (simp add: lhs_def)
    have val: "strip_quotes (dropWhile is_blank (it_val it)) = it_val it"
      using v by (cases "it_val it") (simp_all add: strip_quotes_def)
    have tr: "trim_eol (lhs @ CHR ''='' # it_val it) = lhs @ CHR ''='' # it_val it"
      using v by (simp add: trim_eol_id)
    have parts: "before CHR ''.'' lhs = it_pkg it" "after CHR ''.'' lhs = it_sect it"
      unfolding lhs_def by (rule split_at [OF pk(2)])+
    have "CHR ''.'' \<in> set lhs" by (simp add: lhs_def)
    then show ?thesis
      using add True v(1) wf se(2)
      unfolding db_load_line_def Let_def line tr split_at [OF lhs] val parts
      by (simp add: uci_limits)
  next
    case False
    define lhs where "lhs = it_pkg it @ CHR ''.'' # it_sect it @ CHR ''.'' # it_opt it"
    have line: "show_line it = lhs @ CHR ''='' # [APOS] @ it_val it @ [APOS]"
      using False by (simp add: show_line_def lhs_def)
    have lhs: "CHR ''='' \<notin> set lhs" using pk se op by (simp add: lhs_def)
    have val: "strip_quotes (dropWhile is_blank ([APOS] @ it_val it @ [APOS])) = it_val it"
      using strip_quotes_quoted by (simp add: is_blank_def)
    have tr: "trim_eol (lhs @ CHR ''='' # [APOS] @ it_val it @ [APOS]) =
        lhs @ CHR ''='' # [APOS] @ it_val it @ [APOS]" by (simp add: trim_eol_id is_eol_def)
    have parts: "before CHR ''.'' lhs = it_pkg it"
      "after CHR ''.'' lhs = it_sect it @ CHR ''.'' # it_opt it"
      unfolding lhs_def by (rule split_at [OF pk(2)])+
    have "CHR ''.'' \<in> set lhs" by (simp add: lhs_def)
    then show ?thesis
      using add False wf
      unfolding db_load_line_def Let_def line tr split_at [OF lhs] val parts split_at [OF se(2)]
      by (simp add: uci_limits)
  qed
qed

section \<open>The two readers\<close>

fun load_lines :: "uci_db \<Rightarrow> string list \<Rightarrow> uci_db result" where
  "load_lines db [] = Inr db"
| "load_lines db (l # ls) = ebind (db_load_line db l) (\<lambda>db. load_lines db ls)"

text \<open>Lines that both readers take as they are.\<close>

definition plain_line :: "string \<Rightarrow> bool" where
  "plain_line l \<longleftrightarrow> length l \<le> 1022 \<and> (\<forall>c \<in> set l. \<not> is_eol c \<and> c \<noteq> NUL)"

definition unlines :: "string list \<Rightarrow> string" where
  "unlines ls = concat (map (\<lambda>l. l @ [NL]) ls)"

lemma db_load_line_eol: "db_load_line db (l @ [NL]) = db_load_line db l"
  by (simp add: db_load_line_def trim_eol_def is_eol_def)

lemma file_loop_lines: "list_all plain_line ls \<Longrightarrow> file_loop db (unlines ls) = load_lines db ls"
proof (induction ls arbitrary: db)
  case Nil
  show ?case by (simp add: file_loop.simps unlines_def fgets_def)
next
  case (Cons l ls)
  then have l: "length l \<le> 1022" "NL \<notin> set l" "no_nul l"
    by (auto simp: plain_line_def is_eol_def no_nul_def)
  have f: "fgets 1024 (unlines (l # ls)) = Some (l @ [NL], False, unlines ls)"
    using l(1,2) fgets_line [of l 1024 "unlines ls"] by (simp add: unlines_def)
  have "cstr (l @ [NL]) = l @ [NL]" using l(3) by (intro cstr_id) simp
  then show ?case
    using Cons f by (simp add: file_loop.simps [of db] db_load_line_eol ebind_def split: sum.split)
qed

lemma buf_loop_lines: "list_all plain_line ls \<Longrightarrow> buf_loop db (unlines ls) = load_lines db ls"
proof (induction ls arbitrary: db)
  case Nil
  show ?case by (simp add: buf_loop.simps unlines_def)
next
  case (Cons l ls)
  then have l: "length l \<le> 1022" "\<forall>c \<in> set l. \<not> is_eol c" by (auto simp: plain_line_def)
  have nl: "is_eol NL" by (simp add: is_eol_def)
  have tw: "takeWhile (\<lambda>c. \<not> is_eol c) (unlines (l # ls)) = l"
    unfolding unlines_def using l(2) nl by (simp add: takeWhile_stop)
  have dr: "skip_char NL (skip_char CR (drop (length l) (unlines (l # ls)))) = unlines ls"
    by (simp add: unlines_def skip_char_def)
  have ne: "unlines (l # ls) \<noteq> []" by (simp add: unlines_def)
  show ?case
    using Cons l(1) ne
    by (simp add: buf_loop.simps [of db "unlines (l # ls)"] tw dr Let_def ebind_def split: sum.split)
qed

lemma readers_agree:
  assumes "list_all plain_line ls"
  shows "db_load_file db (Inr (unlines ls)) = load_lines db ls"
    and "db_load_buf db (unlines ls) = load_lines db ls"
proof -
  have "no_nul (unlines ls)"
    using assms by (induction ls) (auto simp: unlines_def plain_line_def no_nul_def)
  then show "db_load_buf db (unlines ls) = load_lines db ls"
    using assms by (simp add: db_load_buf_def cstr_id buf_loop_lines)
  show "db_load_file db (Inr (unlines ls)) = load_lines db ls"
    using assms by (simp add: db_load_file_def file_loop_lines)
qed

end
