(* ===== verification/Uci_Valid.thy ===== *)
theory Uci_Valid
  imports Uci_Laws
begin

text \<open>
  Reading the output of the command, netmasks, and the validity of what the builder produces.
\<close>

section \<open>Reading a pipe\<close>

text \<open>What the pipe carries up to its end or its first error.\<close>

fun pipe_text :: "pipe_event list \<Rightarrow> string result" where
  "pipe_text [] = Inr []"
| "pipe_text (Bytes b # es) = ebind (pipe_text es) (\<lambda>t. Inr (b @ t))"
| "pipe_text (Read_intr # es) = pipe_text es"
| "pipe_text (Read_error e # es) = Inl e"

lemma read_loop_text:
  "length buf < cap \<Longrightarrow> read_loop cap buf es = ebind (pipe_text es) (\<lambda>t. Inr (buf @ t))"
proof (induction cap buf es rule: read_loop.induct)
  case (1 cap0 buf es)
  define cap where "cap = (if length buf + 1 \<ge> cap0 then cap0 * 2 else cap0)"
  define room where "room = cap - length buf - 1"
  have room: "0 < room" "length buf < cap" "length buf + room < cap"
    using "1.prems" by (auto simp: room_def cap_def)
  note step = read_loop.simps [of cap0 buf es, folded cap_def, unfolded Let_def, folded room_def]
  note IH = "1.IH" [OF cap_def room_def]
  show ?case
  proof (cases es)
    case Nil
    then show ?thesis by (subst step) simp
  next
    case (Cons e es')
    show ?thesis
    proof (cases e)
      case (Bytes b)
      note es = Cons [unfolded Bytes]
      show ?thesis
      proof (cases "length b \<le> room")
        case True
        then show ?thesis using IH(1) [OF es refl True] room by (subst step) (simp add: es ebind_assoc)
      next
        case False
        have whole: "take room b @ drop room b @ x = b @ x" for x
          by (metis append.assoc append_take_drop_id)
        from False have "room \<noteq> 0" "length (buf @ take room b) < cap" using room by simp_all
        from IH(2) [OF es refl False this] show ?thesis
          using False room whole by (subst step) (simp add: es ebind_assoc)
      qed
    next
      case Read_intr
      note es = Cons [unfolded Read_intr]
      then show ?thesis using IH(3) [OF es refl] room by (subst step) (simp add: es)
    next
      case (Read_error err)
      then show ?thesis using Cons by (subst step) simp
    qed
  qed
qed

lemma read_all_fd_text: "read_all_fd es = pipe_text es"
  by (simp add: read_all_fd_def read_loop_text)

section \<open>Netmasks\<close>

text \<open>The \<open>p\<close> highest bits are set and no others.\<close>

definition prefix_mask :: "nat \<Rightarrow> 32 word \<Rightarrow> bool" where
  "prefix_mask p v \<longleftrightarrow> p \<le> 32 \<and> (\<forall>i < 32. bit v (31 - i) \<longleftrightarrow> i < p)"

lemma lead_ones_mask: "prefix_mask p v \<Longrightarrow> lead_ones n v = n + p"
proof (induction p arbitrary: n v)
  case 0
  then have "\<not> bit v 31" by (auto simp: prefix_mask_def dest!: spec [of _ 0])
  then show ?case by (simp add: lead_ones.simps)
next
  case (Suc q)
  have top: "bit v 31" using Suc.prems by (auto simp: prefix_mask_def dest!: spec [of _ 0])
  have "prefix_mask q (push_bit 1 v)"
    unfolding prefix_mask_def
  proof (intro conjI allI impI)
    show "q \<le> 32" using Suc.prems by (simp add: prefix_mask_def)
    fix i :: nat
    assume i: "i < 32"
    show "bit (push_bit 1 v) (31 - i) \<longleftrightarrow> i < q"
    proof (cases "i = 31")
      case True
      then show ?thesis using Suc.prems unfolding bit_push_bit_iff by (simp add: prefix_mask_def)
    next
      case False
      then have "Suc i < 32" using i by simp
      with Suc.prems have "bit v (31 - Suc i) \<longleftrightarrow> Suc i < Suc q" unfolding prefix_mask_def by blast
      then show ?thesis using \<open>Suc i < 32\<close> unfolding bit_push_bit_iff by auto
    qed
  qed
  with Suc.IH top show ?case by (simp add: lead_ones.simps [of n v])
qed

lemma mask_scan_upt:
  "k \<le> 32 \<Longrightarrow> mask_scan v [k..<32] z \<longleftrightarrow>
     (\<exists>p. k \<le> p \<and> p \<le> 32 \<and> (z \<longrightarrow> p = k) \<and> (\<forall>i. k \<le> i \<and> i < 32 \<longrightarrow> (bit v (31 - i) \<longleftrightarrow> i < p)))"
proof (induction "32 - k" arbitrary: k z)
  case 0
  then show ?case by auto
next
  case (Suc n)
  then have k: "k < 32" by simp
  have IH: "mask_scan v [Suc k..<32] z' \<longleftrightarrow> (\<exists>p. Suc k \<le> p \<and> p \<le> 32 \<and> (z' \<longrightarrow> p = Suc k)
      \<and> (\<forall>i. Suc k \<le> i \<and> i < 32 \<longrightarrow> (bit v (31 - i) \<longleftrightarrow> i < p)))" for z'
    using Suc k by simp
  have split: "(\<forall>i. k \<le> i \<and> i < 32 \<longrightarrow> Q i) \<longleftrightarrow> Q k \<and> (\<forall>i. Suc k \<le> i \<and> i < 32 \<longrightarrow> Q i)" for Q
    using k by (auto simp: Suc_le_eq) (metis le_neq_implies_less)
  show ?case
  proof (cases "bit v (31 - k)")
    case True
    then have "mask_scan v [k..<32] z \<longleftrightarrow> \<not> z \<and> mask_scan v [Suc k..<32] False"
      using k by (auto simp: upt_conv_Cons)
    moreover have "(\<exists>p. k \<le> p \<and> p \<le> 32 \<and> (z \<longrightarrow> p = k) \<and> (bit v (31 - k) \<longleftrightarrow> k < p) \<and> R p) \<longleftrightarrow>
        \<not> z \<and> (\<exists>p. Suc k \<le> p \<and> p \<le> 32 \<and> R p)" for R
      using True by (auto simp: Suc_le_eq intro: less_imp_le_nat)
    ultimately show ?thesis unfolding IH split by simp
  next
    case False
    then have "mask_scan v [k..<32] z \<longleftrightarrow> mask_scan v [Suc k..<32] True"
      using k by (auto simp: upt_conv_Cons)
    moreover have "(\<exists>p. k \<le> p \<and> p \<le> 32 \<and> (z \<longrightarrow> p = k) \<and> (bit v (31 - k) \<longleftrightarrow> k < p) \<and> R p) \<longleftrightarrow> R k" for R
      using False k by (auto dest: le_antisym)
    moreover have "(i < k) = (i < Suc k)" if "Suc k \<le> i" for i using that by simp
    ultimately show ?thesis unfolding IH split using k by (auto simp: Suc_le_eq)
  qed
qed

lemma mask_scan_iff: "mask_scan v [0..<32] False \<longleftrightarrow> (\<exists>p. prefix_mask p v)"
  by (simp add: mask_scan_upt prefix_mask_def)

lemma mask_to_prefix_iff:
  "mask_to_prefix s = Inr p \<longleftrightarrow> (\<exists>a. inet_pton s = Some a \<and> prefix_mask p (ntohl a))"
proof -
  have "lead_ones 0 v = p \<longleftrightarrow> prefix_mask p v" if "prefix_mask q v" for v q
    using lead_ones_mask [of _ v 0] that by (metis add_0)
  then show ?thesis
    by (auto simp: mask_to_prefix_def mask_scan_iff Let_def split: option.splits)
qed

section \<open>Validity\<close>

text \<open>The functions that add ports change the ports only, and keep them within the array.\<close>

definition ports_ok :: "string list \<Rightarrow> bool" where
  "ports_ok ps \<longleftrightarrow> length ps \<le> NR_BR_PORT_MAX \<and> (\<forall>p \<in> set ps. length p < IFNAMSIZ)"

definition adds_ports :: "desired_state \<Rightarrow> desired_state result \<Rightarrow> bool" where
  "adds_ports ds r \<longleftrightarrow> (\<forall>ds'. r = Inr ds' \<longrightarrow> ports_ok (br_ports ds) \<longrightarrow>
     (\<exists>ps. ds' = ds\<lparr>br_ports := ps\<rparr> \<and> ports_ok ps))"

lemma adds_ports_Inr: "adds_ports ds (Inr ds)"
proof -
  have "ds = ds\<lparr>br_ports := br_ports ds\<rparr>" by simp
  then show ?thesis unfolding adds_ports_def by blast
qed

lemma adds_ports_Inl: "adds_ports ds (Inl e)"
  by (simp add: adds_ports_def)

lemma adds_ports_bind:
  assumes "adds_ports ds m" and "\<And>ds'. m = Inr ds' \<Longrightarrow> adds_ports ds' (k ds')"
  shows "adds_ports ds (ebind m k)"
  unfolding adds_ports_def
proof (intro allI impI)
  fix ds'
  assume r: "ebind m k = Inr ds'" and ok: "ports_ok (br_ports ds)"
  from r obtain d1 where m: "m = Inr d1" and k: "k d1 = Inr ds'" by (rule ebind_InrE)
  from assms(1) m ok obtain ps where 1: "d1 = ds\<lparr>br_ports := ps\<rparr>" "ports_ok ps"
    unfolding adds_ports_def by blast
  then have "ports_ok (br_ports d1)" by simp
  with assms(2) [OF m] k obtain qs where "ds' = d1\<lparr>br_ports := qs\<rparr>" "ports_ok qs"
    unfolding adds_ports_def by blast
  with 1 show "\<exists>ps. ds' = ds\<lparr>br_ports := ps\<rparr> \<and> ports_ok ps" by auto
qed

lemma add_bridge_port_adds: "adds_ports ds (add_bridge_port ds i)"
proof -
  have "adds_ports ds (Inr (ds\<lparr>br_ports := br_ports ds @ [fit IFNAMSIZ s]\<rparr>))"
    if "length (br_ports ds) < NR_BR_PORT_MAX" for s
    using that unfolding adds_ports_def ports_ok_def
    by (intro allI impI exI [of _ "br_ports ds @ [fit IFNAMSIZ s]"]) (auto simp: length_fit IFNAMSIZ_def)
  then show ?thesis
    by (auto simp: add_bridge_port_def adds_ports_Inr adds_ports_Inl not_le split: option.splits)
qed

lemma wireless_loop_adds: "adds_ports ds (wireless_loop db its net ds)"
  by (induction db its net ds rule: wireless_loop.induct)
     (simp_all add: adds_ports_Inr Let_def adds_ports_bind add_bridge_port_adds)

lemma ports_loop_adds: "adds_ports ds (ports_loop p sf first ds)"
proof (induction p sf first ds rule: ports_loop.induct)
  case (1 p sf first ds)
  show ?case
  proof (cases "next_word IFNAMSIZ p")
    case (Inl e)
    then show ?thesis by (simp add: ports_loop.simps [of p] adds_ports_def)
  next
    case (Inr o1)
    show ?thesis
    proof (cases o1)
      case None
      then show ?thesis using Inr by (simp add: ports_loop.simps [of p] adds_ports_Inr)
    next
      case (Some wr)
      obtain w r where nw: "next_word IFNAMSIZ p = Inr (Some (w, r))" using Inr Some by (cases wr) auto
      show ?thesis
      proof (cases "sf \<and> first")
        case True
        then show ?thesis using "1.IH"(1) [OF nw refl refl True] nw by (simp add: ports_loop.simps [of p])
      next
        case False
        have "adds_ports ds (ebind (add_bridge_port ds (Some w)) (ports_loop r sf False))"
          by (rule adds_ports_bind [OF add_bridge_port_adds]) (rule "1.IH"(2) [OF nw refl refl False])
        then show ?thesis using False nw by (auto simp: ports_loop.simps [of p] ebind_def)
      qed
    qed
  qed
qed

lemma add_device_ports_adds: "adds_ports ds (add_device_ports ports ds b)"
  by (auto simp: add_device_ports_def adds_ports_Inr ports_loop_adds split: option.splits)

lemma add_ports_adds:
  "adds_ports ds (ebind (add_device_ports ports ds b) (add_wireless_ports wifi net))"
  unfolding add_wireless_ports_def
  by (rule adds_ports_bind [OF add_device_ports_adds]) (rule wireless_loop_adds)

lemma next_word_length: "next_word sz p = Inr (Some (w, r)) \<Longrightarrow> length w < sz"
  by (auto simp: next_word_def Let_def split: if_splits)

lemma first_device_port_length: "first_device_port ports sz = Inr w \<Longrightarrow> length w < sz"
  by (auto simp: first_device_port_def split: option.splits sum.splits if_splits dest: next_word_length)

text \<open>The address part of a bridge, filled from the zeroed state.\<close>

definition filled :: "desired_state \<Rightarrow> desired_state \<Rightarrow> bool" where
  "filled ds ds' \<longleftrightarrow> (\<exists>m a g dns c. ds' = ds\<lparr>br_addr_mode := m, br_addr := a, br_gateway := g,
      br_dns := dns, br_dhcp_cmd := c\<rparr> \<and> length a < 32 \<and> length g < INET_ADDRSTRLEN
    \<and> length dns \<le> NR_DES_DNS4_MAX \<and> (\<forall>s \<in> set dns. length s < INET_ADDRSTRLEN) \<and> length c < 128)"

lemma filledI:
  assumes "ds' = ds\<lparr>br_addr_mode := m, br_addr := a, br_gateway := g, br_dns := dns, br_dhcp_cmd := c\<rparr>"
    and "length a < 32" and "length g < INET_ADDRSTRLEN" and "length dns \<le> NR_DES_DNS4_MAX"
    and "\<forall>s \<in> set dns. length s < INET_ADDRSTRLEN" and "length c < 128"
  shows "filled ds ds'"
  unfolding filled_def
  by (intro exI [of _ m] exI [of _ a] exI [of _ g] exI [of _ dns] exI [of _ c] conjI) (use assms in simp_all)

lemma split_ip_list_ok:
  assumes "split_ip_list src mx = Inr l"
  shows "length l \<le> mx \<and> (\<forall>s \<in> set l. length s < INET_ADDRSTRLEN)"
proof (cases src)
  case None
  then show ?thesis using assms by (simp add: split_ip_list_def)
next
  case (Some s)
  then show ?thesis using assms
    by (auto simp: split_ip_list_words length_fit INET_ADDRSTRLEN_def split: if_splits)
qed

lemma fill_bridge_proto_spec:
  assumes "fill_bridge_proto db sect ds = Inr ds'"
    and "br_addr ds = []" "br_gateway ds = []" "br_dns ds = []" "br_dhcp_cmd ds = []"
  shows "filled ds ds'" and "bridge_rules ds'"
proof -
  let ?get = "db_get db ''network'' sect"
  from assms(1) obtain proto where proto: "?get ''proto'' = Some proto" "proto \<noteq> []"
    by (auto simp: fill_bridge_proto_def Let_def split: option.splits if_splits)
  consider (static) "proto = ''static''" | (dhcp) "proto = ''dhcp''" | (none) "proto = ''none''"
    using assms(1) proto by (auto simp: fill_bridge_proto_def Let_def split: if_splits)
  then have "filled ds ds' \<and> bridge_rules ds'"
  proof cases
    case static
    define g where "g = (case ?get ''gateway'' of None \<Rightarrow> [] | Some g \<Rightarrow> fit INET_ADDRSTRLEN g)"
    from assms(1) proto static obtain ip nm where "?get ''ipaddr'' = Some ip" "?get ''netmask'' = Some nm"
      by (auto simp: fill_bridge_proto_def Let_def split: option.splits)
    with assms(1) proto static obtain plen dns where
      dns: "split_ip_list (?get ''dns'') NR_DES_DNS4_MAX = Inr dns"
      and c: "ds' = (case ?get ''gateway'' of
          None \<Rightarrow> ds\<lparr>br_addr_mode := ADDR_STATIC, br_addr := fit 32 (ip @ CHR ''/'' # fmt_u plen)\<rparr>
        | Some g \<Rightarrow> ds\<lparr>br_addr_mode := ADDR_STATIC, br_addr := fit 32 (ip @ CHR ''/'' # fmt_u plen),
            br_gateway := fit INET_ADDRSTRLEN g\<rparr>)\<lparr>br_dns := dns\<rparr>"
      by (simp add: fill_bridge_proto_def Let_def) (elim ebind_InrE, simp, metis)
    have ds': "ds' = ds\<lparr>br_addr_mode := ADDR_STATIC, br_addr := fit 32 (ip @ CHR ''/'' # fmt_u plen),
         br_gateway := g, br_dns := dns, br_dhcp_cmd := []\<rparr>"
      by (rule desired_state.equality) (simp_all add: c g_def assms(3,5) split: option.split)
    have "length g < INET_ADDRSTRLEN" by (simp add: g_def length_fit INET_ADDRSTRLEN_def split: option.split)
    moreover have "fit 32 (ip @ CHR ''/'' # fmt_u plen) \<noteq> []" by (simp add: fit_eq_Nil)
    ultimately show ?thesis
      using ds' split_ip_list_ok [OF dns]
      by (auto intro!: filledI simp: length_fit bridge_rules_def)
  next
    case dhcp
    with assms(1) proto have ds': "ds' = ds\<lparr>br_addr_mode := ADDR_DHCP, br_addr := [], br_gateway := [],
        br_dns := [], br_dhcp_cmd := fit 128 ''udhcpc -i $iface -q -n''\<rparr>"
      using assms(2-5) by (simp add: fill_bridge_proto_def) (auto intro!: desired_state.equality)
    show ?thesis
      by (rule conjI, rule filledI [OF ds']) (simp_all add: ds' bridge_rules_def fit_def nr_limits)
  next
    case none
    with assms(1) proto have ds': "ds' = ds\<lparr>br_addr_mode := ADDR_NONE, br_addr := [], br_gateway := [],
        br_dns := [], br_dhcp_cmd := []\<rparr>"
      using assms(2-5) by (simp add: fill_bridge_proto_def) (auto intro!: desired_state.equality)
    show ?thesis
      by (rule conjI, rule filledI [OF ds']) (simp_all add: ds' bridge_rules_def nr_limits)
  qed
  then show "filled ds ds'" and "bridge_rules ds'" by simp_all
qed

lemma filled_wf: "filled ds ds' \<Longrightarrow> ds_wf ds \<Longrightarrow> ds_wf ds'"
  unfolding filled_def by (elim exE conjE) (simp add: ds_wf_def)

lemma filled_frame:
  assumes "filled ds ds'"
  shows "scenario ds' = scenario ds" and "br_ports ds' = br_ports ds" and "br_name ds' = br_name ds"
    and "routes ds' = routes ds"
  using assms unfolding filled_def by (elim exE conjE; simp)+

lemma ports_wf: "ds_wf ds \<Longrightarrow> ports_ok ps \<Longrightarrow> ds_wf (ds\<lparr>br_ports := ps\<rparr>)"
  by (simp add: ds_wf_def ports_ok_def)

lemma bridge_rules_ports [simp]: "bridge_rules (ds\<lparr>br_ports := ps\<rparr>) = bridge_rules ds"
  by (simp add: bridge_rules_def split: addr_mode.split)

lemma ds_valid_ports:
  assumes "adds_ports ds m" and "m = Inr ds'" and "ds_valid ds" and "br_ports ds = []"
  shows "ds_valid ds'"
proof -
  have "ports_ok (br_ports ds)" using assms(4) by (simp add: ports_ok_def)
  with assms(1,2) obtain ps where ps: "ds' = ds\<lparr>br_ports := ps\<rparr>" "ports_ok ps"
    unfolding adds_ports_def by blast
  with assms(3) show ?thesis by (simp add: ds_valid_def ports_wf scenario_rules_def)
qed

lemma build_uplink_bridge_valid:
  assumes "build_uplink_bridge net wifi dev sect br sts = Inr sts'"
  shows "\<exists>ds. sts' = sts @ [ds] \<and> ds_valid ds \<and> length sts < NR_DES_STATE_MAX"
proof -
  define d0 where "d0 = ds_zero\<lparr>scenario := fit 32 ''uplink_bridge'', br_name := fit IFNAMSIZ br\<rparr>"
  let ?ports = "db_get net ''network'' dev ''ports''"
  from assms obtain d1 up ds where n: "length sts < NR_DES_STATE_MAX"
    and fill: "fill_bridge_proto net sect d0 = Inr d1"
    and up: "first_device_port ?ports IFNAMSIZ = Inr up"
    and r: "ebind (add_device_ports ?ports (d1\<lparr>up_ifname := up\<rparr>) True) (add_wireless_ports wifi sect) = Inr ds"
    and sts': "sts' = sts @ [ds]"
    by (auto simp: build_uplink_bridge_def add_state_def Let_def d0_def not_le elim!: ebind_InrE
        split: if_splits)
  have d0: "ds_wf d0" "scenario d0 = ''uplink_bridge''" "br_ports d0 = []"
    by (simp_all add: d0_def ds_wf_def ds_zero_def length_fit nr_limits fit_def)
  have f: "filled d0 d1" "bridge_rules d1"
    using fill_bridge_proto_spec [OF fill] by (simp_all add: d0_def ds_zero_def)
  have "ds_wf (d1\<lparr>up_ifname := up\<rparr>)"
    using filled_wf [OF f(1) d0(1)] first_device_port_length [OF up] by (simp add: ds_wf_def)
  then have "ds_valid (d1\<lparr>up_ifname := up\<rparr>)"
    using f filled_frame [OF f(1)] d0
    by (simp add: ds_valid_def bridge_rules_frame scenario_rules_def known_scenario_def)
  then have "ds_valid ds"
    using ds_valid_ports [OF add_ports_adds r] filled_frame(2) [OF f(1)] d0(3) by simp
  with sts' n show ?thesis by blast
qed

lemma find_wg_for_remote_length:
  assumes "find_wg_for_remote db remote sz = Inr name" and "0 < sz"
  shows "length name < sz"
proof -
  have a: "length name < sz" if "wg_peer_loop db its remote sz = Some name" for its
    using that assms(2) by (induction db its remote sz rule: wg_peer_loop.induct)
      (auto simp: Let_def length_fit split: if_splits)
  have b: "length (fst (wg_iface_loop db its sz nm n)) < sz" if "length nm < sz" for its nm n
    using that assms(2) by (induction db its sz nm n rule: wg_iface_loop.induct)
      (auto simp: length_fit split: if_splits)
  show ?thesis
    using assms a b [of "[]" db 0]
    by (auto simp: find_wg_for_remote_def split: option.splits if_splits prod.splits)
qed

definition wg_state :: "string \<Rightarrow> string \<Rightarrow> 32 word \<Rightarrow> string \<Rightarrow> string \<Rightarrow> desired_state" where
  "wg_state br vx vni wg peer = ds_zero\<lparr>scenario := fit 32 ''wg_vxlan_bridge'',
     br_name := fit IFNAMSIZ br, br_addr_mode := ADDR_NONE, vx_ifname := vx, vx_vni := vni,
     wg_ifname := fit IFNAMSIZ wg, wg_peer_ip := fit INET_ADDRSTRLEN peer,
     wg_route_dev := fit IFNAMSIZ wg, vx_remote := fit INET_ADDRSTRLEN peer,
     vx_bridge := fit IFNAMSIZ br\<rparr>"

lemma wg_state_valid: "length vx < IFNAMSIZ \<Longrightarrow> ds_valid (wg_state br vx vni wg peer)"
proof -
  have "fit 32 ''wg_vxlan_bridge'' = ''wg_vxlan_bridge''" by (simp add: fit_def)
  then show "length vx < IFNAMSIZ \<Longrightarrow> ds_valid (wg_state br vx vni wg peer)"
    by (simp add: wg_state_def ds_valid_def ds_wf_def ds_zero_def length_fit nr_limits
        bridge_rules_def scenario_rules_def known_scenario_def)
qed

lemma build_wg_vxlan_bridge_valid:
  assumes "build_wg_vxlan_bridge net wifi dev sect br sts = Inr sts'"
  shows "\<exists>ds. sts' = sts @ [ds] \<and> ds_valid ds \<and> length sts < NR_DES_STATE_MAX"
proof -
  let ?ports = "db_get net ''network'' dev ''ports''"
  from assms obtain vx vni wg peer d1 ds where n: "length sts < NR_DES_STATE_MAX"
    and vx: "first_device_port ?ports IFNAMSIZ = Inr vx"
    and 1: "add_device_ports ?ports (wg_state br vx vni wg peer) True = Inr d1"
    and 2: "add_wireless_ports wifi sect d1 = Inr ds"
    and sts': "sts' = sts @ [ds]"
    unfolding build_wg_vxlan_bridge_def add_state_def Let_def
    by (auto simp: wg_state_def not_le elim!: ebind_InrE split: if_splits option.splits)
  have r: "ebind (add_device_ports ?ports (wg_state br vx vni wg peer) True)
      (add_wireless_ports wifi sect) = Inr ds" using 1 2 by simp
  have "br_ports (wg_state br vx vni wg peer) = []" by (simp add: wg_state_def ds_zero_def)
  then have "ds_valid ds"
    using ds_valid_ports [OF add_ports_adds r] wg_state_valid [OF first_device_port_length [OF vx]] by simp
  with sts' n show ?thesis by blast
qed

lemma build_loop_step:
  assumes "build_loop net wifi (it # its) sts = Inr r"
  shows "\<exists>sts1. build_loop net wifi its sts1 = Inr r
     \<and> (sts1 = sts \<or> (\<exists>ds. sts1 = sts @ [ds] \<and> ds_valid ds \<and> length sts < NR_DES_STATE_MAX))"
  using assms
  by (auto split: if_splits option.splits elim!: ebind_InrE
      dest: build_uplink_bridge_valid build_wg_vxlan_bridge_valid)

lemma build_loop_valid:
  assumes "build_loop net wifi its sts = Inr r" and "list_all ds_valid sts"
    and "length sts \<le> NR_DES_STATE_MAX"
  shows "list_all ds_valid r \<and> length r \<le> NR_DES_STATE_MAX"
  using assms
proof (induction its arbitrary: sts)
  case (Cons it its)
  from build_loop_step [OF Cons.prems(1)] obtain sts1 where
    1: "build_loop net wifi its sts1 = Inr r"
    "sts1 = sts \<or> (\<exists>ds. sts1 = sts @ [ds] \<and> ds_valid ds \<and> length sts < NR_DES_STATE_MAX)" by blast
  then have "list_all ds_valid sts1 \<and> length sts1 \<le> NR_DES_STATE_MAX" using Cons.prems(2,3) by auto
  with Cons.IH [OF 1(1)] show ?case by blast
qed simp

lemma uci_build_valid:
  assumes "uci_build_desired_set fs run bin np wp = Inr sts"
  shows "list_all ds_valid sts" and "0 < length sts" and "length sts \<le> NR_DES_STATE_MAX"
proof -
  from assms obtain net wifi where "build_loop net wifi net [] = Inr sts" and ne: "sts \<noteq> []"
    by (auto simp: uci_build_desired_set_def elim!: ebind_InrE split: if_splits)
  with build_loop_valid [OF this(1)] show "list_all ds_valid sts" and "0 < length sts"
    and "length sts \<le> NR_DES_STATE_MAX" by simp_all
qed

section \<open>Properties\<close>

text \<open>C10: the states that \<open>uci_build_desired_set\<close> derives from the UCI configuration, live or from files,
  obey the same rules as the ones loaded from a configuration file: between 1 and 16 states, known
  scenarios with their fields, address-mode rules, and every string and list within its bounds.\<close>

theorem uci_built_valid:
  assumes "uci_build_desired_set fs run bin np wp = Inr sts"
  shows "list_all ds_valid sts \<and> 0 < length sts \<and> length sts \<le> NR_DES_STATE_MAX"
  using uci_build_valid [OF assms] by simp

text \<open>\<open>mask_to_prefix\<close> accepts exactly the dotted netmasks whose bits are contiguous, and returns the
  number of leading ones.\<close>

theorem mask_to_prefix_exact:
  "mask_to_prefix s = Inr p \<longleftrightarrow> (\<exists>a. inet_pton s = Some a \<and> prefix_mask p (ntohl a))"
  by (rule mask_to_prefix_iff)

text \<open>\<open>read_all_fd\<close> returns all the bytes that the pipe carries up to its end, however they are split
  into reads and however often the reads are interrupted, and the error of a failed read otherwise.\<close>

theorem read_all_fd_all: "read_all_fd es = pipe_text es"
  by (simp add: read_all_fd_def read_loop_text)

text \<open>Reading UCI text from a file and from the output of \<open>uci show\<close> gives the same database.\<close>

theorem uci_readers_agree:
  assumes "list_all plain_line ls"
  shows "db_load_file db (Inr (unlines ls)) = db_load_buf db (unlines ls)"
  using readers_agree [OF assms] by simp

theorem uci_readers_agree_witness:
  "db_load_file [] (Inr (unlines [''network.lan=interface'']))
     = db_load_buf [] (unlines [''network.lan=interface''])"
  by (rule uci_readers_agree) (simp add: plain_line_def is_eol_def)

lemma load_lines_show:
  "list_all plain_item its \<Longrightarrow> length db + length its \<le> NR_UCI_ITEM_MAX \<Longrightarrow>
   load_lines db (map show_line its) = Inr (db @ its)"
proof (induction its arbitrary: db)
  case (Cons it its)
  have "db_load_line db (show_line it) = Inr (db @ [it])"
    by (rule db_load_line_show) (use Cons.prems in simp_all)
  then show ?case using Cons by simp
qed simp

text \<open>C35: a database printed in the format of \<open>uci show\<close> is read back, item by item and in order, when
  names and values are free of the separators of the format.\<close>

theorem uci_show_load:
  assumes "list_all plain_item its" and "length its \<le> NR_UCI_ITEM_MAX"
    and "list_all plain_line (map show_line its)"
  shows "db_load_buf [] (unlines (map show_line its)) = Inr its"
  using readers_agree(2) [OF assms(3), of "[]"] load_lines_show [OF assms(1), of "[]"] assms(2) by simp

section \<open>A concrete configuration\<close>

definition uci_type :: "string \<Rightarrow> string \<Rightarrow> uci_item" where
  "uci_type sect t = \<lparr>it_pkg = ''network'', it_sect = sect, it_opt = [], it_val = t, it_is_type = True\<rparr>"

definition uci_option :: "string \<Rightarrow> string \<Rightarrow> string \<Rightarrow> uci_item" where
  "uci_option sect opt v = \<lparr>it_pkg = ''network'', it_sect = sect, it_opt = opt, it_val = v, it_is_type = False\<rparr>"

definition demo_net :: "uci_item list" where
  "demo_net = [uci_type ''bridge1'' ''device'', uci_option ''bridge1'' ''name'' ''br-lan'',
     uci_option ''bridge1'' ''type'' ''bridge'', uci_option ''bridge1'' ''ports'' ''wan'',
     uci_type ''lan'' ''interface'', uci_option ''lan'' ''device'' ''br-lan'', uci_option ''lan'' ''proto'' ''dhcp'']"

definition demo_fs :: "string \<Rightarrow> string result" where
  "demo_fs p = Inr (if p = ''network'' then unlines (map show_line demo_net) else [])"

lemma demo_net_plain:
  "list_all plain_item demo_net" "list_all plain_line (map show_line demo_net)" "length demo_net \<le> NR_UCI_ITEM_MAX"
  by code_simp+

theorem uci_show_load_witness: "db_load_buf [] (unlines (map show_line demo_net)) = Inr demo_net"
  by (rule uci_show_load [OF demo_net_plain(1,3,2)])

definition demo_lan :: desired_state where
  "demo_lan = ds_zero\<lparr>scenario := ''uplink_bridge'', br_name := ''br-lan'', br_addr_mode := ADDR_DHCP,
     br_dhcp_cmd := ''udhcpc -i $iface -q -n'', up_ifname := ''wan''\<rparr>"

lemma demo_build:
  "uci_build_desired_set demo_fs (\<lambda>_. Pipe_failed EIO) None (Some ''network'') (Some ''wireless'') = Inr [demo_lan]"
proof -
  have "db_load_file [] (demo_fs ''network'') = Inr demo_net"
    using readers_agree(1) [OF demo_net_plain(2), of "[]"] load_lines_show [OF demo_net_plain(1), of "[]"]
      demo_net_plain(3) by (simp add: demo_fs_def)
  moreover have "db_load_file [] (demo_fs ''wireless'') = Inr []"
    using readers_agree(1) [of "[]" "[]"] by (simp add: demo_fs_def unlines_def)
  moreover have "build_loop demo_net [] demo_net [] = Inr [demo_lan]" by code_simp
  ultimately show ?thesis by (simp add: uci_build_desired_set_def)
qed

theorem uci_built_valid_witness: "ds_valid demo_lan"
  using uci_built_valid [OF demo_build] by simp

end
