(* ===== verification/Uci_Roundtrip.thy ===== *)
theory Uci_Roundtrip
  imports Uci_Valid
begin

text \<open>
  The file that \<open>cfg_set\<close> of \<open>uci.c\<close> writes is read back by the loader of \<open>yaml.c\<close> as the same set.
  The lines written are the leaves of a configuration tree (\<open>set_tree\<close>); replaying them
  rebuilds the tree, and the loader reads every state from its node. This is the path that
  \<open>uci_load_desired_set\<close> takes.
\<close>

section \<open>The tree of a set\<close>

definition str_node :: "string \<Rightarrow> string \<Rightarrow> cfg_node" where
  "str_node k v = Node CFG_STR (Some k) (Some v) []"

definition arr_node :: "string \<Rightarrow> string list \<Rightarrow> cfg_node" where
  "arr_node k vs = Node CFG_ARR (Some k) None (map (\<lambda>v. Node CFG_STR None (Some v) []) vs)"

definition obj_node :: "string \<Rightarrow> cfg_node list \<Rightarrow> cfg_node" where
  "obj_node k cs = Node CFG_OBJ (Some k) None cs"

definition opt_part :: "string \<Rightarrow> string \<Rightarrow> cfg_node list" where
  "opt_part k v = (if v \<noteq> [] then [str_node k v] else [])"

definition arr_part :: "string \<Rightarrow> string list \<Rightarrow> cfg_node list" where
  "arr_part k vs = (if vs \<noteq> [] then [arr_node k vs] else [])"

definition obj_part :: "bool \<Rightarrow> string \<Rightarrow> cfg_node list \<Rightarrow> cfg_node list" where
  "obj_part b k cs = (if b then [obj_node k cs] else [])"

definition mode_nodes :: "desired_state \<Rightarrow> cfg_node list" where
  "mode_nodes ds = (case br_addr_mode ds of
     ADDR_STATIC \<Rightarrow> [str_node ''addr_mode'' ''static'', str_node ''addr'' (br_addr ds)]
       @ opt_part ''gateway'' (br_gateway ds) @ arr_part ''dns'' (br_dns ds)
   | ADDR_DHCP \<Rightarrow> [str_node ''addr_mode'' ''dhcp'', str_node ''dhcp_cmd'' (br_dhcp_cmd ds)]
   | ADDR_NONE \<Rightarrow> [str_node ''addr_mode'' ''none''])"

definition bridge_nodes :: "desired_state \<Rightarrow> cfg_node list" where
  "bridge_nodes ds = str_node ''name'' (br_name ds) # mode_nodes ds @ arr_part ''ports'' (br_ports ds)"

definition vlan_nodes :: "desired_state \<Rightarrow> cfg_node list" where
  "vlan_nodes ds = [str_node ''ifname'' (vlan_ifname ds), str_node ''id'' (fmt_u (unat (vlan_id ds)))]
     @ opt_part ''link'' (vlan_link ds) @ opt_part ''bridge'' (vlan_bridge ds)"

definition wg_nodes :: "desired_state \<Rightarrow> cfg_node list" where
  "wg_nodes ds = [str_node ''ifname'' (wg_ifname ds), str_node ''peer_ip'' (wg_peer_ip ds),
     str_node ''route_dev'' (wg_route_dev ds)]"

definition vxlan_nodes :: "desired_state \<Rightarrow> cfg_node list" where
  "vxlan_nodes ds = [str_node ''ifname'' (vx_ifname ds), str_node ''vni'' (fmt_u (unat (vx_vni ds))),
     str_node ''remote'' (vx_remote ds)] @ opt_part ''dev'' (vx_dev ds)
     @ [str_node ''bridge'' (vx_bridge ds)]"

definition route_node :: "nat \<Rightarrow> desired_route4 \<Rightarrow> cfg_node" where
  "route_node i rt = obj_node (CHR ''r'' # fmt_u i) ([str_node ''dst'' (dr_dst rt),
     str_node ''dev'' (dr_dev rt)] @ (if dr_has_via rt then [str_node ''via'' (dr_via rt)] else []))"

fun route_nodes :: "nat \<Rightarrow> desired_route4 list \<Rightarrow> cfg_node list" where
  "route_nodes i [] = []"
| "route_nodes i (rt # rts) = route_node i rt # route_nodes (i + 1) rts"

definition state_nodes :: "desired_state \<Rightarrow> cfg_node list" where
  "state_nodes ds = str_node ''scenario'' (scenario ds)
     # obj_part (br_name ds \<noteq> []) ''bridge'' (bridge_nodes ds)
     @ obj_part (up_ifname ds \<noteq> []) ''uplink'' [str_node ''ifname'' (up_ifname ds)]
     @ obj_part (vlan_ifname ds \<noteq> []) ''vlan'' (vlan_nodes ds)
     @ obj_part (wg_ifname ds \<noteq> []) ''wg'' (wg_nodes ds)
     @ obj_part (vx_ifname ds \<noteq> []) ''vxlan'' (vxlan_nodes ds)
     @ obj_part (routes ds \<noteq> []) ''routes'' (route_nodes 0 (routes ds))"

definition set_tree :: "(string \<times> desired_state) list \<Rightarrow> cfg_node" where
  "set_tree ss = Node CFG_OBJ None None
     [obj_node ''state'' (map (\<lambda>(sid, ds). obj_node sid (state_nodes ds)) ss)]"

lemmas part_defs = opt_part_def arr_part_def obj_part_def

section \<open>The lines written\<close>

text \<open>The leaves of a list of children.\<close>

definition kid_leaves :: "cfg_node list \<Rightarrow> (cfg_tok list \<times> string) list" where
  "kid_leaves cs = concat (map (\<lambda>c. under (name_text c) (leaves c)) cs)"

lemma kid_leaves_simps [simp]:
  "kid_leaves [] = []"
  "kid_leaves (c # cs) = under (name_text c) (leaves c) @ kid_leaves cs"
  "kid_leaves (as @ bs) = kid_leaves as @ kid_leaves bs"
  by (simp_all add: kid_leaves_def)

lemma node_simps [simp]:
  "name_text (str_node k v) = k" "leaves (str_node k v) = [([], v)]"
  "name_text (arr_node k vs) = k" "leaves (arr_node k vs) = map (\<lambda>v. ([TokAppend], v)) vs"
  "name_text (obj_node k cs) = k" "leaves (obj_node k cs) = kid_leaves cs"
  by (simp_all add: str_node_def arr_node_def obj_node_def name_text_def val_or_empty_def
      kid_leaves_def comp_def)

text \<open>A writer that succeeds has appended the given lines, each with a path of less than 256 bytes.\<close>

definition writes :: "ofile \<Rightarrow> ofile result \<Rightarrow> (cfg_tok list \<times> string) list \<Rightarrow> bool" where
  "writes f r ls \<longleftrightarrow> (\<forall>f'. r = Inr f' \<longrightarrow> obuf f' = obuf f @ concat (map line_text ls)
     \<and> list_all (\<lambda>(ts, v). length (path_text ts) < 256) ls)"

abbreviation at_state :: "string \<Rightarrow> (cfg_tok list \<times> string) list \<Rightarrow> (cfg_tok list \<times> string) list" where
  "at_state sid ls \<equiv> under ''state'' (under sid ls)"

lemma writes_Inr: "writes f (Inr f) []"
  by (simp add: writes_def)

lemma writes_Inl: "writes f (Inl e) ls"
  by (simp add: writes_def)

lemma writes_bind:
  assumes "writes f m as" and "\<And>f'. m = Inr f' \<Longrightarrow> writes f' (k f') bs"
  shows "writes f (ebind m k) (as @ bs)"
proof (cases m)
  case (Inl e)
  then show ?thesis by (simp add: writes_Inl)
next
  case (Inr f1)
  show ?thesis
    unfolding writes_def
  proof (intro allI impI)
    fix f' assume "ebind m k = Inr f'"
    then have k: "k f1 = Inr f'" by (simp add: Inr)
    have "obuf f1 = obuf f @ concat (map line_text as)"
      and "list_all (\<lambda>(ts, v). length (path_text ts) < 256) as"
      using assms(1) Inr unfolding writes_def by blast+
    moreover have "obuf f' = obuf f1 @ concat (map line_text bs)"
      and "list_all (\<lambda>(ts, v). length (path_text ts) < 256) bs"
      using assms(2) [OF Inr] k unfolding writes_def by blast+
    ultimately show "obuf f' = obuf f @ concat (map line_text (as @ bs))
      \<and> list_all (\<lambda>(ts, v). length (path_text ts) < 256) (as @ bs)" by simp
  qed
qed

lemma cfg_line_fputs: "cfg_line_str f p v = fputs f (p @ '' = '' @ quoted v @ [NL])"
  by (simp add: cfg_line_str_def quote_fputs stdio.put_put)

lemma esc_fmt_u: "esc (fmt_u n) = fmt_u n"
proof -
  have "list_all c_isdigit s \<Longrightarrow> esc s = s" for s
    by (induction s) (auto simp: esc_def esc_char_def c_isdigit_def)
  then show ?thesis using fmt_u_digits by (simp add: list_all_iff)
qed

lemma cfg_line_u32_str: "cfg_line_u32 f p w = cfg_line_str f p (fmt_u (unat w))"
  by (simp add: cfg_line_u32_def cfg_line_fputs quoted_def esc_fmt_u)

lemma put_u32_str: "put_u32 f sid tail w = put_str f sid tail (fmt_u (unat w))"
  by (simp add: put_u32_def put_str_def cfg_line_u32_str)

lemma put_str_writes:
  assumes "tail = path_text (TokKey k # ts)"
  shows "writes f (put_str f sid tail v) (at_state sid [(TokKey k # ts, v)])"
proof -
  have p: "path_text (TokKey ''state'' # TokKey sid # TokKey k # ts) = ''state.'' @ sid @ ''.'' @ tail"
    using assms by (simp add: path_text_def)
  have l: "line_text (TokKey ''state'' # TokKey sid # TokKey k # ts, v)
      = (''state.'' @ sid @ ''.'' @ tail) @ '' = '' @ quoted v @ [NL]"
    unfolding line_text_def prod.case p by simp
  have w: "writes f (fputs f (line_text (us, v))) [(us, v)]" if "length (path_text us) < 256" for us
    using that by (simp add: writes_def fputs_def)
  show ?thesis
  proof (cases "length (''state.'' @ sid @ ''.'' @ tail) < 256")
    case True
    with w [of "TokKey ''state'' # TokKey sid # TokKey k # ts", unfolded p l] show ?thesis
      unfolding put_str_def cfg_path_def Let_def cfg_line_fputs by (simp add: not_le)
  next
    case False
    then show ?thesis unfolding put_str_def cfg_path_def Let_def by (simp add: writes_Inl not_less)
  qed
qed

lemma put_each_writes:
  assumes "tail = path_text (TokKey k # ts)"
  shows "writes f (put_each f sid tail vs) (at_state sid (map (\<lambda>v. (TokKey k # ts, v)) vs))"
proof (induction vs arbitrary: f)
  case Nil
  show ?case by (simp add: writes_Inr)
next
  case (Cons v vs)
  from writes_bind [OF put_str_writes [OF assms] this] show ?case by simp
qed

text \<open>The lines of a part \<open>a\<close> of a state.\<close>

lemma put_part:
  "writes f (put_str f sid (a @ ''.'' @ b) v) (at_state sid (under a (kid_leaves [str_node b v])))"
  using put_str_writes [of "a @ ''.'' @ b" a "[TokKey b]" f sid v] by (simp add: path_text_def)

lemma put_opt_part:
  "writes f (put_opt f sid (a @ ''.'' @ b) v) (at_state sid (under a (kid_leaves (opt_part b v))))"
  using put_part [of f sid a b v] by (simp add: put_opt_def opt_part_def writes_Inr)

lemma put_each_part:
  "writes f (put_each f sid (a @ ''.'' @ b @ ''[]'') vs) (at_state sid (under a (kid_leaves (arr_part b vs))))"
  using put_each_writes [of "a @ ''.'' @ b @ ''[]''" a "[TokKey b, TokAppend]" f sid vs]
  by (simp add: path_text_def arr_part_def comp_def writes_Inr)

lemmas put_lines =
  put_part [where a = "''bridge''" and b = "''name''", unfolded append.simps]
  put_part [where a = "''bridge''" and b = "''addr_mode''", unfolded append.simps]
  put_part [where a = "''bridge''" and b = "''addr''", unfolded append.simps]
  put_part [where a = "''bridge''" and b = "''dhcp_cmd''", unfolded append.simps]
  put_opt_part [where a = "''bridge''" and b = "''gateway''", unfolded append.simps]
  put_each_part [where a = "''bridge''" and b = "''dns''", unfolded append.simps]
  put_each_part [where a = "''bridge''" and b = "''ports''", unfolded append.simps]
  put_part [where a = "''vlan''" and b = "''ifname''", unfolded append.simps]
  put_part [where a = "''vlan''" and b = "''id''", unfolded append.simps]
  put_opt_part [where a = "''vlan''" and b = "''link''", unfolded append.simps]
  put_opt_part [where a = "''vlan''" and b = "''bridge''", unfolded append.simps]
  put_part [where a = "''wg''" and b = "''ifname''", unfolded append.simps]
  put_part [where a = "''wg''" and b = "''peer_ip''", unfolded append.simps]
  put_part [where a = "''wg''" and b = "''route_dev''", unfolded append.simps]
  put_part [where a = "''vxlan''" and b = "''ifname''", unfolded append.simps]
  put_part [where a = "''vxlan''" and b = "''vni''", unfolded append.simps]
  put_part [where a = "''vxlan''" and b = "''remote''", unfolded append.simps]
  put_opt_part [where a = "''vxlan''" and b = "''dev''", unfolded append.simps]
  put_part [where a = "''vxlan''" and b = "''bridge''", unfolded append.simps]

lemma writes_eq: "writes f r ls \<Longrightarrow> ls = ls' \<Longrightarrow> writes f r ls'"
  by simp

lemma cfg_bridge_writes:
  "writes f (cfg_bridge f sid ds)
     (at_state sid (kid_leaves (obj_part (br_name ds \<noteq> []) ''bridge'' (bridge_nodes ds))))"
proof (cases "br_name ds = []")
  case True
  then show ?thesis by (simp add: cfg_bridge_def obj_part_def writes_Inr)
next
  case False
  have mode: "writes f (case br_addr_mode ds of
            ADDR_STATIC \<Rightarrow>
              ebind (put_str f sid ''bridge.addr_mode'' ''static'') (\<lambda>f.
              ebind (put_str f sid ''bridge.addr'' (br_addr ds)) (\<lambda>f.
              ebind (put_opt f sid ''bridge.gateway'' (br_gateway ds)) (\<lambda>f.
              put_each f sid ''bridge.dns[]'' (br_dns ds))))
          | ADDR_DHCP \<Rightarrow>
              ebind (put_str f sid ''bridge.addr_mode'' ''dhcp'') (\<lambda>f.
              put_str f sid ''bridge.dhcp_cmd'' (br_dhcp_cmd ds))
          | ADDR_NONE \<Rightarrow> put_str f sid ''bridge.addr_mode'' ''none'')
      (at_state sid (under ''bridge'' (kid_leaves (mode_nodes ds))))" for f
  proof (cases "br_addr_mode ds")
    case ADDR_STATIC
    show ?thesis
      unfolding ADDR_STATIC addr_mode.case mode_nodes_def
      by (rule writes_eq, (rule writes_bind put_lines)+) simp
  next
    case ADDR_DHCP
    show ?thesis
      unfolding ADDR_DHCP addr_mode.case mode_nodes_def
      by (rule writes_eq, (rule writes_bind put_lines)+) simp
  next
    case ADDR_NONE
    show ?thesis
      unfolding ADDR_NONE addr_mode.case mode_nodes_def
      by (rule writes_eq, (rule writes_bind put_lines)+) simp
  qed
  from False show ?thesis
    unfolding cfg_bridge_def obj_part_def bridge_nodes_def
    by simp (rule writes_eq, (rule writes_bind put_lines mode)+, simp)
qed

lemma cfg_vlan_writes:
  "writes f (cfg_vlan f sid ds)
     (at_state sid (kid_leaves (obj_part (vlan_ifname ds \<noteq> []) ''vlan'' (vlan_nodes ds))))"
proof (cases "vlan_ifname ds = []")
  case False
  then show ?thesis
    unfolding cfg_vlan_def obj_part_def vlan_nodes_def put_u32_str
    by simp (rule writes_eq, (rule writes_bind put_lines)+, simp)
qed (simp add: cfg_vlan_def obj_part_def writes_Inr)

lemma cfg_wg_writes:
  "writes f (cfg_wg f sid ds)
     (at_state sid (kid_leaves (obj_part (wg_ifname ds \<noteq> []) ''wg'' (wg_nodes ds))))"
proof (cases "wg_ifname ds = []")
  case False
  then show ?thesis
    unfolding cfg_wg_def obj_part_def wg_nodes_def
    by simp (rule writes_eq, (rule writes_bind put_lines)+, simp)
qed (simp add: cfg_wg_def obj_part_def writes_Inr)

lemma cfg_vxlan_writes:
  "writes f (cfg_vxlan f sid ds)
     (at_state sid (kid_leaves (obj_part (vx_ifname ds \<noteq> []) ''vxlan'' (vxlan_nodes ds))))"
proof (cases "vx_ifname ds = []")
  case False
  then show ?thesis
    unfolding cfg_vxlan_def obj_part_def vxlan_nodes_def put_u32_str
    by simp (rule writes_eq, (rule writes_bind put_lines)+, simp)
qed (simp add: cfg_vxlan_def obj_part_def writes_Inr)

lemma put_route:
  assumes "route_path i leaf = Inr p"
  shows "writes f (put_str f sid p v)
    (at_state sid (under ''routes'' (under (CHR ''r'' # fmt_u i) (kid_leaves [str_node leaf v]))))"
proof -
  have "p = path_text [TokKey ''routes'', TokKey (CHR ''r'' # fmt_u i), TokKey leaf]"
    using assms by (simp add: route_path_def path_text_def Let_def split: if_splits)
  from put_str_writes [OF this] show ?thesis by simp
qed

lemma writes_path:
  assumes "\<And>p. m = Inr p \<Longrightarrow> writes f (k p) ls"
  shows "writes f (ebind m k) ls"
  using assms by (cases m) (simp_all add: writes_Inl)

lemma put_route_bind:
  "writes f (ebind (route_path i leaf) (\<lambda>p. put_str f sid p v))
    (at_state sid (under ''routes'' (under (CHR ''r'' # fmt_u i) (kid_leaves [str_node leaf v]))))"
  by (rule writes_path) (rule put_route)

lemma cfg_routes_writes:
  "writes f (cfg_routes f sid i rts) (at_state sid (under ''routes'' (kid_leaves (route_nodes i rts))))"
proof (induction rts arbitrary: f i)
  case Nil
  show ?case by (simp add: writes_Inr)
next
  case (Cons rt rts)
  have via: "writes f (if dr_has_via rt
        then ebind (route_path i ''via'') (\<lambda>p. put_str f sid p (dr_via rt)) else Inr f)
      (at_state sid (under ''routes'' (under (CHR ''r'' # fmt_u i)
        (kid_leaves (if dr_has_via rt then [str_node ''via'' (dr_via rt)] else [])))))" for f
    by (cases "dr_has_via rt") (simp_all only: if_True if_False put_route_bind, simp add: writes_Inr)
  show ?case
    unfolding cfg_routes.simps route_nodes.simps route_node_def ebind_assoc [symmetric]
    by (rule writes_eq, (rule writes_bind put_route_bind via Cons.IH)+) simp
qed

lemma cfg_routes_part:
  "writes f (cfg_routes f sid 0 (routes ds))
     (at_state sid (kid_leaves (obj_part (routes ds \<noteq> []) ''routes'' (route_nodes 0 (routes ds)))))"
  using cfg_routes_writes [of f sid 0 "routes ds"] by (cases "routes ds") (simp_all add: obj_part_def)

lemma uplink_writes:
  "writes f (put_opt f sid ''uplink.ifname'' v)
     (at_state sid (kid_leaves (obj_part (v \<noteq> []) ''uplink'' [str_node ''ifname'' v])))"
  using put_opt_part [where a = "''uplink''" and b = "''ifname''", unfolded append.simps, of f sid v]
  by (cases v) (simp_all add: part_defs)

lemma scenario_writes:
  "writes f (put_str f sid ''scenario'' v) (at_state sid (kid_leaves [str_node ''scenario'' v]))"
  using put_str_writes [of "''scenario''" "''scenario''" "[]" f sid v] by (simp add: path_text_def)

lemma oerr_writes: "writes f (if oerr f then Inl EIO else Inr f) []"
  by (simp add: writes_def)

lemma cfg_state_writes:
  assumes "cfg_state_id ds IFNAMSIZ idx = Inr sid"
  shows "writes f (cfg_state f ds idx) (at_state sid (kid_leaves (state_nodes ds)))"
  unfolding cfg_state_def assms ebind_simps state_nodes_def
  by (rule writes_eq, (rule writes_bind scenario_writes cfg_bridge_writes uplink_writes cfg_vlan_writes
      cfg_wg_writes cfg_vxlan_writes cfg_routes_part oerr_writes)+) simp

text \<open>The identifiers of the states of a set, from the index \<open>i\<close> on.\<close>

fun state_ids :: "nat \<Rightarrow> desired_set \<Rightarrow> string result list" where
  "state_ids i [] = []"
| "state_ids i (ds # sts) = cfg_state_id ds IFNAMSIZ i # state_ids (i + 1) sts"

lemma cfg_set_loop_writes:
  assumes "cfg_set_loop f i sts = Inr f'"
  shows "\<exists>sids. state_ids i sts = map Inr sids \<and> writes f (cfg_set_loop f i sts)
    (under ''state'' (kid_leaves (map (\<lambda>(sid, ds). obj_node sid (state_nodes ds)) (zip sids sts))))"
  using assms
proof (induction sts arbitrary: f i)
  case Nil
  show ?case by (simp add: writes_Inr)
next
  case (Cons ds sts)
  then obtain f1 where f1: "cfg_state f ds i = Inr f1" and r: "cfg_set_loop f1 (i + 1) sts = Inr f'"
    by (auto simp: ebind_Inr_iff)
  from f1 obtain sid where sid: "cfg_state_id ds IFNAMSIZ i = Inr sid"
    by (auto simp: cfg_state_def ebind_Inr_iff)
  from Cons.IH [OF r] obtain sids where sids: "state_ids (i + 1) sts = map Inr sids"
    and w: "writes f1 (cfg_set_loop f1 (i + 1) sts)
      (under ''state'' (kid_leaves (map (\<lambda>(sid, ds). obj_node sid (state_nodes ds)) (zip sids sts))))"
    by blast
  have "writes f (cfg_set_loop f i (ds # sts)) (at_state sid (kid_leaves (state_nodes ds)) @
      under ''state'' (kid_leaves (map (\<lambda>(sid, ds). obj_node sid (state_nodes ds)) (zip sids sts))))"
    unfolding cfg_set_loop.simps
    by (rule writes_bind [OF cfg_state_writes [OF sid]]) (use f1 w in simp)
  with sid sids show ?case by (intro exI [of _ "sid # sids"]) simp
qed

section \<open>The tree is well-formed\<close>

text \<open>The strings of a state hold no NUL, as every C string does.\<close>

definition ds_cstr :: "desired_state \<Rightarrow> bool" where
  "ds_cstr ds \<longleftrightarrow> list_all no_nul ([scenario ds, br_name ds, br_addr ds, br_gateway ds, br_dhcp_cmd ds,
     up_ifname ds, vlan_ifname ds, vlan_link ds, vlan_bridge ds, wg_ifname ds, wg_peer_ip ds,
     wg_route_dev ds, vx_ifname ds, vx_remote ds, vx_dev ds, vx_bridge ds] @ br_dns ds @ br_ports ds)
   \<and> list_all (\<lambda>rt. no_nul (dr_dst rt) \<and> no_nul (dr_dev rt) \<and> no_nul (dr_via rt)) (routes ds)"

definition kids_wf :: "cfg_node list \<Rightarrow> bool" where
  "kids_wf cs \<longleftrightarrow> distinct (map nname cs) \<and> list_all node_wf cs
     \<and> list_all (\<lambda>c. case nname c of None \<Rightarrow> False | Some k \<Rightarrow> key_ok k) cs"

text \<open>No container without a value.\<close>

definition full :: "cfg_node \<Rightarrow> bool" where
  "full c \<longleftrightarrow> canon c = c \<and> leaves c \<noteq> []"

lemma nname_nodes [simp]:
  "nname (str_node k v) = Some k" "nname (arr_node k vs) = Some k" "nname (obj_node k cs) = Some k"
  by (simp_all add: str_node_def arr_node_def obj_node_def)

lemma node_wf_nodes [simp]:
  "node_wf (str_node k v)" "node_wf (arr_node k vs)" "node_wf (obj_node k cs) = kids_wf cs"
  by (simp_all add: str_node_def arr_node_def obj_node_def kids_wf_def list_all_iff)

lemma kids_full: "list_all full cs \<Longrightarrow> filter (\<lambda>c. leaves c \<noteq> []) (map canon cs) = cs"
  by (induction cs) (auto simp: full_def)

lemma full_nodes [simp]:
  "full (str_node k v)" "vs \<noteq> [] \<Longrightarrow> full (arr_node k vs)"
  "list_all full cs \<Longrightarrow> cs \<noteq> [] \<Longrightarrow> full (obj_node k cs)"
proof -
  show "full (str_node k v)" and "vs \<noteq> [] \<Longrightarrow> full (arr_node k vs)"
    by (simp_all add: full_def) (simp_all add: str_node_def arr_node_def)
  assume "list_all full cs" and "cs \<noteq> []"
  moreover from this have "kid_leaves cs \<noteq> []" by (cases cs) (simp_all add: full_def)
  ultimately show "full (obj_node k cs)"
    using kids_full [of cs] by (simp add: full_def) (simp add: obj_node_def)
qed

lemma key_ok_words [simp]:
  "key_ok ''state''" "key_ok ''scenario''" "key_ok ''bridge''" "key_ok ''uplink''" "key_ok ''vlan''"
  "key_ok ''wg''" "key_ok ''vxlan''" "key_ok ''routes''" "key_ok ''name''" "key_ok ''addr_mode''"
  "key_ok ''addr''" "key_ok ''gateway''" "key_ok ''dns''" "key_ok ''dhcp_cmd''" "key_ok ''ports''"
  "key_ok ''ifname''" "key_ok ''id''" "key_ok ''link''" "key_ok ''peer_ip''" "key_ok ''route_dev''"
  "key_ok ''vni''" "key_ok ''remote''" "key_ok ''dev''" "key_ok ''dst''" "key_ok ''via''"
  by code_simp+

lemma parts_wf:
  "kids_wf (bridge_nodes ds)" "kids_wf (vlan_nodes ds)" "kids_wf (wg_nodes ds)" "kids_wf (vxlan_nodes ds)"
  "list_all full (bridge_nodes ds)" "list_all full (vlan_nodes ds)" "list_all full (wg_nodes ds)"
  "list_all full (vxlan_nodes ds)"
  by (auto simp: kids_wf_def bridge_nodes_def mode_nodes_def vlan_nodes_def wg_nodes_def vxlan_nodes_def
      part_defs split: addr_mode.split)

lemma fmt_u_inject [simp]: "fmt_u i = fmt_u j \<longleftrightarrow> i = j"
  by (metis val_of_fmt_u)

lemma route_nodes_names: "nname ` set (route_nodes i rts) = (\<lambda>j. Some (CHR ''r'' # fmt_u j)) ` {i..<i + length rts}"
proof (induction rts arbitrary: i)
  case (Cons rt rts)
  have "{i..<i + length (rt # rts)} = insert i {i + 1..<i + 1 + length rts}" by auto
  with Cons.IH [of "i + 1"] show ?case by (simp add: route_node_def)
qed simp

lemma route_key_ok:
  assumes "i < 100"
  shows "key_ok (CHR ''r'' # fmt_u i)"
proof -
  have "length (fmt_u i) \<le> 2" using length_fmt_u [of i 2] assms by simp
  moreover have "list_all is_key_char (fmt_u i)"
    using fmt_u_digits [of _ i] by (auto simp: list_all_iff is_key_char_def c_isalnum_def)
  moreover have "is_key_start CHR ''r''" "is_key_char CHR ''r''" by code_simp+
  ultimately show ?thesis by (simp add: key_ok_def CFG_PATH_SEG_MAX_def)
qed

lemma route_nodes_wf: "i + length rts \<le> 100 \<Longrightarrow> kids_wf (route_nodes i rts) \<and> list_all full (route_nodes i rts)"
proof (induction rts arbitrary: i)
  case (Cons rt rts)
  have rt: "node_wf (route_node i rt)" "full (route_node i rt)" "nname (route_node i rt) = Some (CHR ''r'' # fmt_u i)"
    by (simp_all add: route_node_def kids_wf_def)
  have "Some (CHR ''r'' # fmt_u i) \<notin> nname ` set (route_nodes (i + 1) rts)"
    unfolding route_nodes_names by auto
  then show ?case
    using Cons.IH [of "i + 1"] Cons.prems rt route_key_ok [of i] by (simp add: kids_wf_def)
qed (simp add: kids_wf_def)

lemma state_nodes_wf:
  assumes "ds_wf ds"
  shows "kids_wf (state_nodes ds)" and "list_all full (state_nodes ds)" and "state_nodes ds \<noteq> []"
proof -
  have "length (routes ds) \<le> 100" using assms by (simp add: ds_wf_def nr_limits)
  then have r: "kids_wf (route_nodes 0 (routes ds))" "list_all full (route_nodes 0 (routes ds))"
    using route_nodes_wf [of 0 "routes ds"] by simp_all
  have ne: "route_nodes 0 (routes ds) \<noteq> []" if "routes ds \<noteq> []"
    using that by (cases "routes ds") simp_all
  have "kids_wf [str_node ''ifname'' (up_ifname ds)]" by (simp add: kids_wf_def)
  with parts_wf [of ds] r show "kids_wf (state_nodes ds)"
    unfolding kids_wf_def [of "state_nodes ds"] by (simp add: state_nodes_def part_defs)
  have nz: "bridge_nodes ds \<noteq> []" "vlan_nodes ds \<noteq> []" "wg_nodes ds \<noteq> []" "vxlan_nodes ds \<noteq> []"
    by (simp_all add: bridge_nodes_def vlan_nodes_def wg_nodes_def vxlan_nodes_def)
  show "list_all full (state_nodes ds)"
    using parts_wf [of ds] r ne nz by (simp add: state_nodes_def part_defs)
  show "state_nodes ds \<noteq> []" by (simp add: state_nodes_def)
qed

text \<open>Every identifier is a key of the configuration file.\<close>

lemma key_chars:
  "c_isalpha c \<Longrightarrow> is_key_start c" "is_key_start c \<Longrightarrow> is_key_char c" "c_isdigit c \<Longrightarrow> is_key_char c"
  "is_key_start CHR ''_''" "is_key_start CHR ''s''"
  by (auto simp: is_key_start_def is_key_char_def c_isalnum_def) code_simp

lemma state_id_loop_key:
  "state_id_loop sz acc src = Inr r \<Longrightarrow> acc = [] \<or> is_key_start (hd acc) \<and> list_all is_key_char acc \<Longrightarrow>
     length acc < sz \<Longrightarrow> (r = [] \<or> is_key_start (hd r) \<and> list_all is_key_char r) \<and> length r < sz"
proof (induction sz acc src rule: state_id_loop.induct)
  case (2 sz acc c src)
  note kc = key_chars key_chars(2) [OF key_chars(1)] key_chars(2) [OF key_chars(4)]
  from "2.prems"(1) have n: "\<not> length acc + 1 \<ge> sz" by (auto split: if_splits)
  show ?case
  proof (cases "acc = []")
    case True
    with n 2 kc show ?thesis by (auto split: if_splits)
  next
    case False
    with n 2 kc show ?thesis by (auto split: if_splits)
  qed
qed simp

lemma cfg_state_id_key:
  assumes "cfg_state_id ds sz idx = Inr sid" and "0 < sz" and "sz \<le> CFG_PATH_SEG_MAX"
  shows "key_ok sid"
proof -
  from assms(1) obtain r where r: "state_id_loop sz [] (if br_name ds \<noteq> [] then br_name ds else scenario ds) = Inr r"
    and sid: "if r = [] then sid = CHR ''s'' # fmt_u idx \<and> length sid < sz else sid = r"
    by (auto simp: cfg_state_id_def Let_def ebind_Inr_iff split: if_splits)
  have "list_all is_key_char (fmt_u idx)"
    using fmt_u_digits [of _ idx] key_chars(3) by (auto simp: list_all_iff)
  with state_id_loop_key [OF r] sid assms(2,3) key_chars(5) key_chars(2) [OF key_chars(5)]
  show ?thesis by (cases "r = []") (auto simp: key_ok_def)
qed

lemma state_ids_key: "state_ids i sts = map Inr sids \<Longrightarrow> list_all key_ok sids \<and> length sids = length sts"
proof (induction sts arbitrary: i sids)
  case (Cons ds sts)
  then obtain sid sids' where "sids = sid # sids'" "cfg_state_id ds IFNAMSIZ i = Inr sid"
    "state_ids (i + 1) sts = map Inr sids'" by (cases sids) auto
  with Cons.IH show ?case
    using cfg_state_id_key [of ds IFNAMSIZ i sid] by (simp add: IFNAMSIZ_def CFG_PATH_SEG_MAX_def)
qed simp

section \<open>The lines fit the file\<close>

definition str_ok :: "string \<Rightarrow> bool" where
  "str_ok v \<longleftrightarrow> length v < 128 \<and> no_nul v"

definition val_ok :: "nat \<Rightarrow> cfg_tok list \<times> string \<Rightarrow> bool" where
  "val_ok d a = (case a of (ts, v) \<Rightarrow> length ts \<le> d \<and> str_ok v)"

lemma val_ok_simps [simp]:
  "list_all (val_ok (Suc d)) (under k ls) = list_all (val_ok d) ls"
  "val_ok d ([], v) = str_ok v" "val_ok (Suc d) (t # ts, v) = val_ok d (ts, v)"
  "list_all (val_ok (Suc d)) (map (\<lambda>v. ([TokAppend], v)) vs) = list_all str_ok vs"
  by (auto simp: val_ok_def list_all_iff)

lemma val_ok_parts:
  "list_all (val_ok (Suc d)) (kid_leaves (obj_part b k cs)) \<longleftrightarrow> (b \<longrightarrow> list_all (val_ok d) (kid_leaves cs))"
  "list_all (val_ok (Suc d)) (kid_leaves (opt_part k v)) \<longleftrightarrow> (v \<noteq> [] \<longrightarrow> str_ok v)"
  "list_all (val_ok (Suc (Suc d))) (kid_leaves (arr_part k vs)) \<longleftrightarrow> list_all str_ok vs"
  by (auto simp: part_defs list_all_iff val_ok_def)

lemma num_ok [simp]: "str_ok (fmt_u (unat (w :: 32 word)))"
proof -
  have "unat w < 2 ^ LENGTH(32)" by (rule unsigned_less)
  then have "unat w < 10 ^ 10" by simp
  then have "length (fmt_u (unat w)) \<le> 10" by (rule length_fmt_u) simp
  then show ?thesis by (simp add: str_ok_def)
qed

lemma words_ok [simp]: "str_ok ''static''" "str_ok ''dhcp''" "str_ok ''none''"
  by code_simp+

lemma ds_str_ok:
  assumes "ds_wf ds" and "ds_cstr ds"
  shows "str_ok (scenario ds)" "str_ok (br_name ds)" "str_ok (br_addr ds)" "str_ok (br_gateway ds)"
    "str_ok (br_dhcp_cmd ds)" "str_ok (up_ifname ds)" "str_ok (vlan_ifname ds)" "str_ok (vlan_link ds)"
    "str_ok (vlan_bridge ds)" "str_ok (wg_ifname ds)" "str_ok (wg_peer_ip ds)" "str_ok (wg_route_dev ds)"
    "str_ok (vx_ifname ds)" "str_ok (vx_remote ds)" "str_ok (vx_dev ds)" "str_ok (vx_bridge ds)"
  using assms unfolding ds_wf_def ds_cstr_def nr_limits str_ok_def by simp_all

lemma ds_list_ok:
  assumes "ds_wf ds" and "ds_cstr ds"
  shows "list_all str_ok (br_dns ds)" "list_all str_ok (br_ports ds)"
    "list_all (\<lambda>rt. str_ok (dr_dst rt) \<and> str_ok (dr_dev rt) \<and> str_ok (dr_via rt)) (routes ds)"
proof -
  have l: "\<forall>s \<in> set (br_dns ds). length s < 16" "\<forall>s \<in> set (br_ports ds). length s < 16"
    "\<forall>r \<in> set (routes ds). route_wf r" using assms(1) unfolding ds_wf_def nr_limits by blast+
  have n: "list_all no_nul (br_dns ds)" "list_all no_nul (br_ports ds)"
    "list_all (\<lambda>rt. no_nul (dr_dst rt) \<and> no_nul (dr_dev rt) \<and> no_nul (dr_via rt)) (routes ds)"
    using assms(2) by (simp_all add: ds_cstr_def)
  from l n show "list_all str_ok (br_dns ds)" "list_all str_ok (br_ports ds)"
    by (fastforce simp: list_all_iff str_ok_def)+
  show "list_all (\<lambda>rt. str_ok (dr_dst rt) \<and> str_ok (dr_dev rt) \<and> str_ok (dr_via rt)) (routes ds)"
    using l(3) n(3) by (fastforce simp: list_all_iff str_ok_def route_wf_def nr_limits)
qed

lemma route_nodes_vals:
  "list_all (\<lambda>rt. str_ok (dr_dst rt) \<and> str_ok (dr_dev rt) \<and> str_ok (dr_via rt)) rts \<Longrightarrow>
   list_all (val_ok (Suc (Suc d))) (kid_leaves (route_nodes i rts))"
  by (induction i rts rule: route_nodes.induct) (simp_all add: route_node_def)

lemma state_nodes_vals:
  assumes "ds_wf ds" and "ds_cstr ds"
  shows "list_all (val_ok (Suc (Suc (Suc d)))) (kid_leaves (state_nodes ds))"
proof -
  note ok = ds_str_ok [OF assms] ds_list_ok [OF assms]
  have mode: "list_all (val_ok (Suc (Suc d))) (kid_leaves (mode_nodes ds))"
    by (cases "br_addr_mode ds") (simp_all add: mode_nodes_def val_ok_parts ok)
  have "list_all (val_ok (Suc (Suc d))) (kid_leaves (bridge_nodes ds))"
    "list_all (val_ok (Suc (Suc d))) (kid_leaves (vlan_nodes ds))"
    "list_all (val_ok (Suc (Suc d))) (kid_leaves (wg_nodes ds))"
    "list_all (val_ok (Suc (Suc d))) (kid_leaves (vxlan_nodes ds))"
    by (simp_all add: bridge_nodes_def vlan_nodes_def wg_nodes_def vxlan_nodes_def val_ok_parts ok mode)
  then show ?thesis
    using route_nodes_vals [OF ok(19), of d 0] by (simp add: state_nodes_def val_ok_parts ok)
qed

lemma length_esc: "length (esc v) \<le> 2 * length v"
  by (induction v) (auto simp: esc_def esc_char_def)

lemma val_ok_line:
  assumes "val_ok d (ts, v)" and "length (path_text ts) < 256"
  shows "length (line_text (ts, v)) < 4096"
  using assms length_esc [of v] by (simp add: val_ok_def str_ok_def line_text_def quoted_def)

section \<open>Loading the tree\<close>

lemma find_append: "List.find P (xs @ ys) = (case List.find P xs of None \<Rightarrow> List.find P ys | Some x \<Rightarrow> Some x)"
  by (induction xs) simp_all

lemma find_part [simp]:
  "List.find (named x) (opt_part k v) = (if k = x \<and> v \<noteq> [] then Some (str_node k v) else None)"
  "List.find (named x) (arr_part k vs) = (if k = x \<and> vs \<noteq> [] then Some (arr_node k vs) else None)"
  "List.find (named x) (obj_part b k cs) = (if k = x \<and> b then Some (obj_node k cs) else None)"
  by (simp_all add: part_defs)

lemma api_nodes [simp]:
  "cfg_child (obj_node k cs) x = List.find (named x) cs" "cfg_items (obj_node k cs) = cs"
  "cfg_type_of (str_node k v) = CFG_STR" "cfg_type_of (arr_node k vs) = CFG_ARR"
  "cfg_type_of (obj_node k cs) = CFG_OBJ" "cfg_str (str_node k v) = Some v"
  by (simp_all add: cfg_child_def obj_find_def cfg_items_def cfg_type_of_def cfg_str_def
      str_node_def arr_node_def obj_node_def)

lemma cpy_id: "length v < sz \<Longrightarrow> cpy sz (Some v) = v"
  by (simp add: cpy_def fit_id)

lemma items_loop_id:
  "n + length vs \<le> mx \<Longrightarrow> \<forall>v \<in> set vs. length v < sz \<Longrightarrow>
     items_loop sz mx n (map (\<lambda>v. Node CFG_STR None (Some v) []) vs) = Inr vs"
  by (induction vs arbitrary: n) (simp_all add: cfg_type_of_def cfg_str_def cpy_id)

lemma get_arr_part:
  assumes "List.find (named k) cs = (if vs \<noteq> [] then Some (arr_node k vs) else None)" and "length vs \<le> mx"
  shows "\<forall>v \<in> set vs. length v < IFNAMSIZ \<Longrightarrow> get_str_arr (obj_node r cs) k mx = Inr vs"
    and "\<forall>v \<in> set vs. length v < INET_ADDRSTRLEN \<Longrightarrow> get_dns_arr (obj_node r cs) k mx = Inr vs"
  using assms items_loop_id [of 0 vs mx]
  by (auto simp: get_str_arr_def get_dns_arr_def cfg_items_def cfg_type_of_def arr_node_def)

lemma route_nodes_load:
  "n + length rts \<le> NR_DES_ROUTE4_MAX \<Longrightarrow> list_all route_wf rts \<Longrightarrow> routes_loop n (route_nodes i rts) = Inr rts"
proof (induction rts arbitrary: n i)
  case (Cons rt rts)
  then have wf: "route_wf rt" by simp
  have "load_route (route_node i rt) = Inr rt"
    using wf by (cases rt) (auto simp: load_route_def get_str_def route_node_def find_append cpy_id route_wf_def)
  moreover have "cfg_type_of (route_node i rt) = CFG_OBJ" by (simp add: route_node_def)
  ultimately show ?case using Cons.IH [of "n + 1" "i + 1"] Cons.prems by simp
qed simp

lemma state_kids:
  "List.find (named ''scenario'') (state_nodes ds) = Some (str_node ''scenario'' (scenario ds))"
  "List.find (named ''bridge'') (state_nodes ds) =
     (if br_name ds \<noteq> [] then Some (obj_node ''bridge'' (bridge_nodes ds)) else None)"
  "List.find (named ''uplink'') (state_nodes ds) =
     (if up_ifname ds \<noteq> [] then Some (obj_node ''uplink'' [str_node ''ifname'' (up_ifname ds)]) else None)"
  "List.find (named ''vlan'') (state_nodes ds) =
     (if vlan_ifname ds \<noteq> [] then Some (obj_node ''vlan'' (vlan_nodes ds)) else None)"
  "List.find (named ''wg'') (state_nodes ds) =
     (if wg_ifname ds \<noteq> [] then Some (obj_node ''wg'' (wg_nodes ds)) else None)"
  "List.find (named ''vxlan'') (state_nodes ds) =
     (if vx_ifname ds \<noteq> [] then Some (obj_node ''vxlan'' (vxlan_nodes ds)) else None)"
  "List.find (named ''routes'') (state_nodes ds) =
     (if routes ds \<noteq> [] then Some (obj_node ''routes'' (route_nodes 0 (routes ds))) else None)"
  by (simp_all add: state_nodes_def find_append)

lemma bridge_kids:
  "List.find (named ''name'') (bridge_nodes ds) = Some (str_node ''name'' (br_name ds))"
  "List.find (named ''addr_mode'') (bridge_nodes ds) = Some (str_node ''addr_mode''
     (case br_addr_mode ds of ADDR_STATIC \<Rightarrow> ''static'' | ADDR_DHCP \<Rightarrow> ''dhcp'' | ADDR_NONE \<Rightarrow> ''none''))"
  "List.find (named ''addr'') (bridge_nodes ds) =
     (if br_addr_mode ds = ADDR_STATIC then Some (str_node ''addr'' (br_addr ds)) else None)"
  "List.find (named ''gateway'') (bridge_nodes ds) = (if br_addr_mode ds = ADDR_STATIC \<and> br_gateway ds \<noteq> []
     then Some (str_node ''gateway'' (br_gateway ds)) else None)"
  "List.find (named ''dns'') (bridge_nodes ds) = (if br_addr_mode ds = ADDR_STATIC \<and> br_dns ds \<noteq> []
     then Some (arr_node ''dns'' (br_dns ds)) else None)"
  "List.find (named ''dhcp_cmd'') (bridge_nodes ds) =
     (if br_addr_mode ds = ADDR_DHCP then Some (str_node ''dhcp_cmd'' (br_dhcp_cmd ds)) else None)"
  "List.find (named ''ports'') (bridge_nodes ds) =
     (if br_ports ds \<noteq> [] then Some (arr_node ''ports'' (br_ports ds)) else None)"
  by (cases "br_addr_mode ds"; simp add: bridge_nodes_def mode_nodes_def find_append)+

lemma get_str_kid:
  "get_str (obj_node k cs) x sz req = (case List.find (named x) cs of
     None \<Rightarrow> if \<not> req then Inr [] else Inl EINVAL
   | Some c \<Rightarrow> if cfg_type_of c \<noteq> CFG_STR then Inl EINVAL else Inr (cpy sz (cfg_str c)))"
  by (simp add: get_str_def)

text \<open>A state that holds the fields of its scenario and no others.\<close>

definition has_bridge :: "desired_state \<Rightarrow> bool" where
  "has_bridge ds \<longleftrightarrow> br_name ds \<noteq> [] \<and> (br_addr_mode ds \<noteq> ADDR_DHCP \<longrightarrow> br_dhcp_cmd ds = [])"

definition no_bridge :: "desired_state \<Rightarrow> bool" where
  "no_bridge ds \<longleftrightarrow> br_name ds = [] \<and> br_addr_mode ds = ADDR_NONE \<and> br_addr ds = [] \<and> br_gateway ds = []
     \<and> br_dns ds = [] \<and> br_dhcp_cmd ds = [] \<and> br_ports ds = []"

definition no_vlan :: "desired_state \<Rightarrow> bool" where
  "no_vlan ds \<longleftrightarrow> vlan_ifname ds = [] \<and> vlan_id ds = 0 \<and> vlan_link ds = [] \<and> vlan_bridge ds = []"

definition no_tunnel :: "desired_state \<Rightarrow> bool" where
  "no_tunnel ds \<longleftrightarrow> wg_ifname ds = [] \<and> wg_peer_ip ds = [] \<and> wg_route_dev ds = [] \<and> vx_ifname ds = []
     \<and> vx_vni ds = 0 \<and> vx_remote ds = [] \<and> vx_dev ds = [] \<and> vx_bridge ds = []"

definition state_closed :: "desired_state \<Rightarrow> bool" where
  "state_closed ds \<longleftrightarrow>
     (if is_scn ds ''only_uplink'' (Some ''only_uplink_iface'')
      then no_bridge ds \<and> up_ifname ds \<noteq> [] \<and> no_vlan ds \<and> no_tunnel ds
      else if is_scn ds ''uplink_bridge'' (Some ''uplink_in_bridge'')
      then has_bridge ds \<and> up_ifname ds \<noteq> [] \<and> no_vlan ds \<and> no_tunnel ds
      else if is_scn ds ''vlan_bridge'' (Some ''vlan_in_bridge'')
      then has_bridge ds \<and> up_ifname ds \<noteq> [] \<and> vlan_ifname ds \<noteq> [] \<and> no_tunnel ds
      else has_bridge ds \<and> no_vlan ds \<and> wg_ifname ds \<noteq> [] \<and> vx_ifname ds \<noteq> [])"

lemmas closed_defs = has_bridge_def no_bridge_def no_vlan_def no_tunnel_def

abbreviation with_bridge :: "desired_state \<Rightarrow> desired_state \<Rightarrow> desired_state" where
  "with_bridge ds d \<equiv> d\<lparr>br_name := br_name ds, br_addr := br_addr ds, br_gateway := br_gateway ds,
     br_dns := br_dns ds, br_dhcp_cmd := br_dhcp_cmd ds, br_addr_mode := br_addr_mode ds,
     br_ports := br_ports ds\<rparr>"

lemma load_bridge_tree:
  assumes "ds_wf ds" and "bridge_rules ds" and "has_bridge ds"
  shows "load_bridge (obj_node sid (state_nodes ds)) d = Inr (with_bridge ds d)"
proof -
  have len: "length (br_name ds) < IFNAMSIZ" "length (br_addr ds) < 32"
    "length (br_gateway ds) < INET_ADDRSTRLEN" "length (br_dhcp_cmd ds) < 128"
    "length (br_dns ds) \<le> NR_DES_DNS4_MAX" "\<forall>s \<in> set (br_dns ds). length s < INET_ADDRSTRLEN"
    "length (br_ports ds) \<le> NR_BR_PORT_MAX" "\<forall>s \<in> set (br_ports ds). length s < IFNAMSIZ"
    using assms(1) unfolding ds_wf_def by blast+
  have ports: "get_str_arr (obj_node r (bridge_nodes ds)) ''ports'' NR_BR_PORT_MAX = Inr (br_ports ds)" for r
    by (rule get_arr_part(1) [OF bridge_kids(7) len(7,8)])
  have dns: "get_dns_arr (obj_node r (bridge_nodes ds)) ''dns'' NR_DES_DNS4_MAX = Inr (br_dns ds)" for r
  proof (rule get_arr_part(2) [OF _ len(5,6)])
    show "List.find (named ''dns'') (bridge_nodes ds) =
        (if br_dns ds \<noteq> [] then Some (arr_node ''dns'' (br_dns ds)) else None)"
      using assms(2) by (cases "br_addr_mode ds") (simp_all add: bridge_kids bridge_rules_def)
  qed
  show ?thesis
    using assms(2,3)
    by (cases "br_addr_mode ds"; simp add: load_bridge_def state_kids get_str_kid bridge_kids ports dns
        cpy_id len bridge_rules_def has_bridge_def bridge_mode_def)
qed

lemma load_uplink_tree:
  assumes "ds_wf ds" and "up_ifname ds \<noteq> []"
  shows "load_uplink (obj_node sid (state_nodes ds)) d = Inr (d\<lparr>up_ifname := up_ifname ds\<rparr>)"
proof -
  have "length (up_ifname ds) < IFNAMSIZ" using assms(1) unfolding ds_wf_def by blast
  then show ?thesis using assms(2) by (simp add: load_uplink_def state_kids get_str_kid cpy_id)
qed

lemma load_vlan_tree:
  assumes "ds_wf ds" and "vlan_ifname ds \<noteq> []" and "up_ifname d = up_ifname ds" and "br_name d = br_name ds"
    and "vlan_link ds = up_ifname ds" and "vlan_bridge ds = br_name ds"
  shows "load_vlan (obj_node sid (state_nodes ds)) d = Inr (d\<lparr>vlan_ifname := vlan_ifname ds,
    vlan_id := vlan_id ds, vlan_link := vlan_link ds, vlan_bridge := vlan_bridge ds\<rparr>)"
proof -
  have "length (vlan_ifname ds) < IFNAMSIZ" "length (up_ifname ds) < IFNAMSIZ" "length (br_name ds) < IFNAMSIZ"
    using assms(1) unfolding ds_wf_def by blast+
  then show ?thesis
    using assms(2-6)
    by (simp add: load_vlan_def state_kids get_str_kid get_u32_def vlan_nodes_def find_append cpy_id
        parse_u32_str_fmt)
qed

lemma load_wg_vxlan_tree:
  assumes "ds_wf ds" and "wg_ifname ds \<noteq> []" and "vx_ifname ds \<noteq> []" and "br_name d = br_name ds"
    and "vx_bridge ds = br_name ds" and "vx_dev ds = [] \<or> vx_dev ds = wg_ifname ds"
  shows "load_wg_vxlan (obj_node sid (state_nodes ds)) d = Inr (d\<lparr>wg_ifname := wg_ifname ds,
    wg_peer_ip := wg_peer_ip ds, wg_route_dev := wg_route_dev ds, vx_ifname := vx_ifname ds,
    vx_vni := vx_vni ds, vx_remote := vx_remote ds, vx_dev := vx_dev ds, vx_bridge := vx_bridge ds\<rparr>)"
proof -
  have "length (wg_ifname ds) < IFNAMSIZ" "length (wg_peer_ip ds) < INET_ADDRSTRLEN"
    "length (wg_route_dev ds) < IFNAMSIZ" "length (vx_ifname ds) < IFNAMSIZ"
    "length (vx_remote ds) < INET_ADDRSTRLEN" "length (br_name ds) < IFNAMSIZ"
    using assms(1) unfolding ds_wf_def by blast+
  then show ?thesis
    using assms(2-6)
    by (auto simp: load_wg_vxlan_def state_kids get_str_kid get_u32_def wg_nodes_def vxlan_nodes_def
        find_append cpy_id parse_u32_str_fmt)
qed

lemma load_routes_tree:
  assumes "ds_wf ds"
  shows "load_routes (obj_node sid (state_nodes ds)) d = Inr (d\<lparr>routes := routes ds\<rparr>)"
proof -
  have "length (routes ds) \<le> NR_DES_ROUTE4_MAX" "list_all route_wf (routes ds)"
    using assms unfolding ds_wf_def list_all_iff by blast+
  with route_nodes_load [of 0 "routes ds" 0] show ?thesis
    by (simp add: load_routes_def state_kids)
qed

abbreviation only_uplink_scn :: "desired_state \<Rightarrow> bool" where
  "only_uplink_scn ds \<equiv> is_scn ds ''only_uplink'' (Some ''only_uplink_iface'')"

abbreviation uplink_bridge_scn :: "desired_state \<Rightarrow> bool" where
  "uplink_bridge_scn ds \<equiv> is_scn ds ''uplink_bridge'' (Some ''uplink_in_bridge'')"

abbreviation vlan_bridge_scn :: "desired_state \<Rightarrow> bool" where
  "vlan_bridge_scn ds \<equiv> is_scn ds ''vlan_bridge'' (Some ''vlan_in_bridge'')"

lemma load_state_scn:
  fixes ds sid
  defines "root \<equiv> obj_node sid (state_nodes ds)" and "d \<equiv> ds_zero\<lparr>scenario := scenario ds\<rparr>"
  assumes "ds_wf ds"
  shows "load_state root = ebind
     (if only_uplink_scn ds then load_uplink root d
      else if uplink_bridge_scn ds then ebind (load_bridge root d) (load_uplink root)
      else if vlan_bridge_scn ds then
        ebind (load_bridge root d) (\<lambda>d. ebind (load_uplink root d) (load_vlan root))
      else if scenario ds = ''wg_vxlan_bridge'' then
        ebind (load_bridge root d) (\<lambda>d.
        ebind (if cfg_child root ''uplink'' \<noteq> None then load_uplink root d else Inr d) (load_wg_vxlan root))
      else Inl EINVAL) (load_routes root)"
proof -
  have "get_str root ''scenario'' 32 True = Inr (scenario ds)"
    using assms(3) by (simp add: root_def get_str_kid state_kids cpy_id ds_wf_def)
  moreover have sc: "scenario d = scenario ds" by (simp add: d_def)
  moreover have "is_scn d a b = is_scn ds a b" for a b unfolding is_scn_def sc ..
  ultimately show ?thesis by (simp only: load_state_def ebind_simps Let_def flip: d_def)
qed

lemma load_state_up:
  assumes "ds_valid ds" and "state_closed ds" and "only_uplink_scn ds"
  shows "load_state (obj_node sid (state_nodes ds)) = Inr ds"
proof -
  have wf: "ds_wf ds" using assms(1) by (simp add: ds_valid_def)
  have c: "no_bridge ds" "up_ifname ds \<noteq> []" "no_vlan ds" "no_tunnel ds"
    using assms(2,3) by (simp_all add: state_closed_def)
  show ?thesis
    unfolding load_state_scn [OF wf] if_P [OF assms(3)] using c
    by (simp add: load_uplink_tree [OF wf] load_routes_tree [OF wf])
      (rule desired_state.equality, simp_all add: ds_zero_def closed_defs)
qed

lemma load_state_br:
  assumes "ds_valid ds" and "state_closed ds" and "\<not> only_uplink_scn ds" and "uplink_bridge_scn ds"
  shows "load_state (obj_node sid (state_nodes ds)) = Inr ds"
proof -
  have wf: "ds_wf ds" "bridge_rules ds" using assms(1) by (simp_all add: ds_valid_def)
  have c: "has_bridge ds" "up_ifname ds \<noteq> []" "no_vlan ds" "no_tunnel ds"
    using assms(2-4) by (simp_all add: state_closed_def)
  show ?thesis
    unfolding load_state_scn [OF wf(1)] if_not_P [OF assms(3)] if_P [OF assms(4)] using c
    by (simp add: load_bridge_tree [OF wf] load_uplink_tree [OF wf(1)] load_routes_tree [OF wf(1)])
      (rule desired_state.equality, simp_all add: ds_zero_def closed_defs)
qed

lemma load_state_vl:
  assumes "ds_valid ds" and "state_closed ds" and "\<not> only_uplink_scn ds" and "\<not> uplink_bridge_scn ds"
    and "vlan_bridge_scn ds"
  shows "load_state (obj_node sid (state_nodes ds)) = Inr ds"
proof -
  have wf: "ds_wf ds" "bridge_rules ds" using assms(1) by (simp_all add: ds_valid_def)
  have c: "has_bridge ds" "up_ifname ds \<noteq> []" "vlan_ifname ds \<noteq> []" "no_tunnel ds"
    using assms(2-5) by (simp_all add: state_closed_def)
  have l: "vlan_link ds = up_ifname ds" "vlan_bridge ds = br_name ds"
    using assms(1,5) by (auto simp: ds_valid_def scenario_rules_def is_scn_def)
  show ?thesis
    unfolding load_state_scn [OF wf(1)] if_not_P [OF assms(3)] if_not_P [OF assms(4)] if_P [OF assms(5)]
    using c l
    by (simp add: load_bridge_tree [OF wf] load_uplink_tree [OF wf(1)] load_routes_tree [OF wf(1)]
        load_vlan_tree [OF wf(1)])
      (rule desired_state.equality, simp_all add: ds_zero_def closed_defs)
qed

lemma load_state_wg:
  assumes "ds_valid ds" and "state_closed ds" and "scenario ds = ''wg_vxlan_bridge''"
  shows "load_state (obj_node sid (state_nodes ds)) = Inr ds"
proof -
  have wf: "ds_wf ds" "bridge_rules ds" using assms(1) by (simp_all add: ds_valid_def)
  have n: "\<not> only_uplink_scn ds" "\<not> uplink_bridge_scn ds" "\<not> vlan_bridge_scn ds"
    using assms(3) by (simp_all add: is_scn_def)
  have c: "has_bridge ds" "no_vlan ds" "wg_ifname ds \<noteq> []" "vx_ifname ds \<noteq> []"
    using assms(2) n by (simp_all add: state_closed_def)
  have l: "vx_bridge ds = br_name ds" "vx_dev ds = [] \<or> vx_dev ds = wg_ifname ds"
    using assms(1,3) by (auto simp: ds_valid_def scenario_rules_def)
  have up: "(if cfg_child (obj_node sid (state_nodes ds)) ''uplink'' \<noteq> None
      then load_uplink (obj_node sid (state_nodes ds)) d else Inr d) = Inr (d\<lparr>up_ifname := up_ifname ds\<rparr>)"
    if "up_ifname d = []" for d
    using that load_uplink_tree [OF wf(1)] by (cases "up_ifname ds = []") (simp_all add: state_kids)
  show ?thesis
    unfolding load_state_scn [OF wf(1)] if_not_P [OF n(1)] if_not_P [OF n(2)] if_not_P [OF n(3)]
      if_P [OF assms(3)] load_bridge_tree [OF wf c(1)] ebind_simps
    by (subst up, simp add: ds_zero_def, simp add: load_routes_tree [OF wf(1)] load_wg_vxlan_tree [OF wf(1)] c l)
      (rule desired_state.equality, use c l(1) in \<open>simp_all add: ds_zero_def closed_defs\<close>)
qed

lemma load_state_tree:
  assumes "ds_valid ds" and "state_closed ds"
  shows "load_state (obj_node sid (state_nodes ds)) = Inr ds"
proof -
  have "known_scenario (scenario ds)" using assms(1) by (simp add: ds_valid_def)
  then consider "only_uplink_scn ds" | "\<not> only_uplink_scn ds" "uplink_bridge_scn ds"
    | "\<not> only_uplink_scn ds" "\<not> uplink_bridge_scn ds" "vlan_bridge_scn ds"
    | "scenario ds = ''wg_vxlan_bridge''"
    by (auto simp: known_scenario_def is_scn_def)
  then show ?thesis
    by cases (use assms load_state_up load_state_br load_state_vl load_state_wg in blast)+
qed

text \<open>A WireGuard interface may come out of the UCI configuration without a name (a section type
  \<open>wireguard_\<close>). Such a state is written without its section \<open>wg\<close>, and the loader refuses it; every
  other state holds the fields of its scenario.\<close>

definition named_wg :: "desired_state \<Rightarrow> bool" where
  "named_wg ds \<longleftrightarrow> (scenario ds = ''wg_vxlan_bridge'' \<longrightarrow> wg_ifname ds \<noteq> [])"

definition nearly_closed :: "desired_state \<Rightarrow> bool" where
  "nearly_closed ds \<longleftrightarrow> (if named_wg ds then state_closed ds else has_bridge ds)"

lemma load_state_unnamed:
  assumes "ds_valid ds" and "has_bridge ds" and "\<not> named_wg ds"
  shows "load_state (obj_node sid (state_nodes ds)) = Inl EINVAL"
proof -
  have wf: "ds_wf ds" "bridge_rules ds" using assms(1) by (simp_all add: ds_valid_def)
  have sc: "scenario ds = ''wg_vxlan_bridge''" and wg: "wg_ifname ds = []"
    using assms(3) by (simp_all add: named_wg_def)
  have n: "\<not> only_uplink_scn ds" "\<not> uplink_bridge_scn ds" "\<not> vlan_bridge_scn ds"
    using sc by (simp_all add: is_scn_def)
  have none: "load_wg_vxlan (obj_node sid (state_nodes ds)) d = Inl EINVAL" for d
    using wg by (simp add: load_wg_vxlan_def state_kids)
  have up: "\<exists>d'. (if cfg_child (obj_node sid (state_nodes ds)) ''uplink'' \<noteq> None
      then load_uplink (obj_node sid (state_nodes ds)) d else Inr d) = Inr d'" for d
    using load_uplink_tree [OF wf(1)] by (cases "up_ifname ds = []") (simp_all add: state_kids)
  obtain d' where d': "(if cfg_child (obj_node sid (state_nodes ds)) ''uplink'' \<noteq> None
      then load_uplink (obj_node sid (state_nodes ds)) (with_bridge ds (ds_zero\<lparr>scenario := scenario ds\<rparr>))
      else Inr (with_bridge ds (ds_zero\<lparr>scenario := scenario ds\<rparr>))) = Inr d'" using up by blast
  show ?thesis
    unfolding load_state_scn [OF wf(1)] if_not_P [OF n(1)] if_not_P [OF n(2)] if_not_P [OF n(3)]
      if_P [OF sc] load_bridge_tree [OF wf assms(2)] ebind_simps d' none ..
qed

lemma closed_named: "state_closed ds \<Longrightarrow> named_wg ds"
  by (auto simp: state_closed_def named_wg_def is_scn_def)

lemma states_loop_tree:
  "n + length ss \<le> NR_DES_STATE_MAX \<Longrightarrow> list_all (\<lambda>(sid, ds). ds_valid ds \<and> nearly_closed ds) ss \<Longrightarrow>
   states_loop n (map (\<lambda>(sid, ds). obj_node sid (state_nodes ds)) ss) =
     (if list_all named_wg (map snd ss) then Inr (map snd ss) else Inl EINVAL)"
  by (induction ss arbitrary: n) (auto simp: load_state_tree load_state_unnamed nearly_closed_def closed_named split: if_splits)

lemma load_set_tree:
  assumes "ss \<noteq> []" and "length ss \<le> NR_DES_STATE_MAX"
    and "list_all (\<lambda>(sid, ds). ds_valid ds \<and> nearly_closed ds) ss"
  shows "load_set (set_tree ss) = (if list_all named_wg (map snd ss) then Inr (map snd ss) else Inl EINVAL)"
proof -
  have "cfg_child (set_tree ss) ''scenario'' = None"
    "cfg_child (set_tree ss) ''state'' =
       Some (obj_node ''state'' (map (\<lambda>(sid, ds). obj_node sid (state_nodes ds)) ss))"
    by (simp_all add: set_tree_def cfg_child_def obj_find_def)
  then show ?thesis using states_loop_tree [of 0 ss] assms by (simp add: load_set_def)
qed

section \<open>Writing and loading\<close>

lemma leaves_set_tree:
  "leaves (set_tree ss) =
     under ''state'' (kid_leaves (map (\<lambda>(sid, ds). obj_node sid (state_nodes ds)) ss))"
  by (simp add: set_tree_def)

lemma set_tree_wf:
  assumes "distinct (map fst ss)" and "list_all (\<lambda>(sid, ds). key_ok sid \<and> ds_wf ds) ss" and "ss \<noteq> []"
  shows "node_wf (set_tree ss)" and "canon (set_tree ss) = set_tree ss"
proof -
  let ?cs = "map (\<lambda>(sid, ds). obj_node sid (state_nodes ds)) ss"
  have "map nname ?cs = map Some (map fst ss)" by auto
  then have "distinct (map nname ?cs)" using assms(1) by (simp add: distinct_map del: map_map)
  moreover have "list_all node_wf ?cs" "list_all (\<lambda>c. case nname c of None \<Rightarrow> False | Some k \<Rightarrow> key_ok k) ?cs"
    "list_all full ?cs"
    using assms(2) by (auto simp: list_all_iff state_nodes_wf [unfolded list_all_iff])
  ultimately have cs: "kids_wf ?cs" "full (obj_node ''state'' ?cs)"
    using assms(3) by (simp_all add: kids_wf_def)
  then have "kids_wf [obj_node ''state'' ?cs]" by (simp add: kids_wf_def)
  then show "node_wf (set_tree ss)" by (simp add: set_tree_def kids_wf_def)
  show "canon (set_tree ss) = set_tree ss" using cs(2) by (simp add: set_tree_def full_def)
qed

lemma set_tree_fits:
  assumes "list_all (\<lambda>(sid, ds). ds_wf ds \<and> ds_cstr ds) ss"
    and "list_all (\<lambda>(ts, v). length (path_text ts) < 256) (leaves (set_tree ss))"
  shows "fits_file (set_tree ss)"
proof -
  have "list_all (val_ok 4) (kid_leaves (map (\<lambda>(sid, ds). obj_node sid (state_nodes ds)) ss))"
    using assms(1) state_nodes_vals [of _ 0]
    by (induction ss) (auto simp: numeral_eq_Suc)
  then have "list_all (val_ok 5) (leaves (set_tree ss))"
    by (simp add: leaves_set_tree numeral_eq_Suc)
  with assms(2) show ?thesis
    using val_ok_line [of 5]
    by (auto simp: fits_file_def list_all_iff val_ok_def str_ok_def CFG_PATH_DEPTH_MAX_def dest!: bspec)
qed

lemma set_tree_load:
  assumes "node_wf (set_tree ss)" and "canon (set_tree ss) = set_tree ss" and "fits_file (set_tree ss)"
  shows "cfg_load (Inr (concat (map line_text (leaves (set_tree ss))))) = Inr (set_tree ss)"
proof -
  have root: "ntype (set_tree ss) = CFG_OBJ" "nname (set_tree ss) = None" by (simp_all add: set_tree_def)
  have "file_assigns (concat (map line_text (leaves (set_tree ss)))) = Inr (leaves (set_tree ss))"
    by (rule file_assigns_text) (rule leaves_lines_ok [OF assms(1) root(1) assms(3)])
  moreover have "tree_store.assign_all (leaves (set_tree ss)) cfg_init = (None, set_tree ss)"
    using assign_leaves [OF assms(1)] root assms(2) by (simp add: cfg_init_def node_new_def)
  ultimately show ?thesis using load_loop_assigns by (simp add: cfg_load_def)
qed

lemma cfg_set_load:
  assumes w: "cfg_set f sts = Inr f'" "obuf f = []" and n: "sts \<noteq> []" "length sts \<le> NR_DES_STATE_MAX"
    and ds: "list_all (\<lambda>ds. ds_valid ds \<and> nearly_closed ds \<and> ds_cstr ds) sts"
    and ids: "distinct (state_ids 0 sts)"
  shows "yaml_load_desired_set (Inr (obuf f')) = (if list_all named_wg sts then Inr sts else Inl EINVAL)"
proof -
  from cfg_set_loop_writes [OF w(1) [unfolded cfg_set_def]] obtain sids where
    sids: "state_ids 0 sts = map Inr sids" and wr: "writes f (cfg_set f sts) (leaves (set_tree (zip sids sts)))"
    unfolding cfg_set_def leaves_set_tree by blast
  let ?ss = "zip sids sts"
  have k: "list_all key_ok sids" "length sids = length sts" using state_ids_key [OF sids] by simp_all
  have out: "obuf f' = concat (map line_text (leaves (set_tree ?ss)))"
    and len: "list_all (\<lambda>(ts, v). length (path_text ts) < 256) (leaves (set_tree ?ss))"
    using wr w unfolding writes_def by simp_all
  have all: "list_all (\<lambda>(sid, ds). key_ok sid \<and> ds_valid ds \<and> nearly_closed ds \<and> ds_cstr ds) ?ss"
    using ds k by (auto simp: list_all_iff dest: set_zip_leftD set_zip_rightD)
  have ss: "?ss \<noteq> []" "map snd ?ss = sts" "map fst ?ss = sids" "length ?ss = length sts" using n k(2) by auto
  have d: "distinct (map fst ?ss)" using ids unfolding ss(3) sids by (simp add: distinct_map)
  have "node_wf (set_tree ?ss)" "canon (set_tree ?ss) = set_tree ?ss"
    by (rule set_tree_wf [OF d _ ss(1)], use all in \<open>auto simp: list_all_iff ds_valid_def\<close>)+
  moreover have "fits_file (set_tree ?ss)"
    by (rule set_tree_fits [OF _ len]) (use all in \<open>auto simp: list_all_iff ds_valid_def\<close>)
  ultimately have "cfg_load (Inr (obuf f')) = Inr (set_tree ?ss)" unfolding out by (rule set_tree_load)
  moreover have "load_set (set_tree ?ss) = (if list_all named_wg (map snd ?ss) then Inr (map snd ?ss) else Inl EINVAL)"
    by (rule load_set_tree) (use all n ss in \<open>auto simp: list_all_iff\<close>)
  ultimately show ?thesis using ss(2) by (simp add: yaml_load_desired_set_def)
qed

section \<open>The states built from UCI\<close>

lemma first_device_port_nonempty: "first_device_port ports sz = Inr w \<Longrightarrow> w \<noteq> []"
proof -
  have "w \<noteq> []" if "next_word sz p = Inr (Some (w, r))" for p r
  proof -
    have "w \<in> set (words p)" using next_word_rest [OF that] by simp
    then show ?thesis by (simp add: words_def)
  qed
  then show "first_device_port ports sz = Inr w \<Longrightarrow> w \<noteq> []"
    by (auto simp: first_device_port_def split: option.splits sum.splits if_splits)
qed

lemma fill_bridge_proto_dhcp_cmd:
  "fill_bridge_proto db sect ds = Inr ds' \<Longrightarrow> br_dhcp_cmd ds = [] \<Longrightarrow> br_addr_mode ds' \<noteq> ADDR_DHCP \<Longrightarrow>
     br_dhcp_cmd ds' = []"
  by (auto simp: fill_bridge_proto_def Let_def ebind_Inr_iff split: option.splits if_splits)

lemma ports_added:
  assumes "adds_ports ds m" and "m = Inr ds'" and "br_ports ds = []"
  shows "\<exists>ps. ds' = ds\<lparr>br_ports := ps\<rparr>"
proof -
  have "ports_ok (br_ports ds)" using assms(3) by (simp add: ports_ok_def)
  with assms(1,2) show ?thesis unfolding adds_ports_def by blast
qed

lemma build_uplink_bridge_closed:
  assumes "build_uplink_bridge net wifi dev sect br sts = Inr sts'" and "br \<noteq> []"
  shows "\<exists>ds. sts' = sts @ [ds] \<and> nearly_closed ds"
proof -
  define d0 where "d0 = ds_zero\<lparr>scenario := fit 32 ''uplink_bridge'', br_name := fit IFNAMSIZ br\<rparr>"
  let ?ports = "db_get net ''network'' dev ''ports''"
  from assms(1) obtain d1 up ds where fill: "fill_bridge_proto net sect d0 = Inr d1"
    and up: "first_device_port ?ports IFNAMSIZ = Inr up"
    and r: "ebind (add_device_ports ?ports (d1\<lparr>up_ifname := up\<rparr>) True) (add_wireless_ports wifi sect) = Inr ds"
    and sts': "sts' = sts @ [ds]"
    by (auto simp: build_uplink_bridge_def add_state_def Let_def d0_def elim!: ebind_InrE split: if_splits)
  have f: "filled d0 d1" using fill_bridge_proto_spec(1) [OF fill] by (simp add: d0_def ds_zero_def)
  have cmd: "br_addr_mode d1 \<noteq> ADDR_DHCP \<longrightarrow> br_dhcp_cmd d1 = []"
    using fill_bridge_proto_dhcp_cmd [OF fill] by (simp add: d0_def ds_zero_def)
  from f have d1: "scenario d1 = ''uplink_bridge''" "br_name d1 \<noteq> []" "no_vlan d1" "no_tunnel d1" "br_ports d1 = []"
    using assms(2) unfolding filled_def
    by (auto simp: d0_def ds_zero_def no_vlan_def no_tunnel_def fit_def IFNAMSIZ_def)
  obtain ps where "ds = (d1\<lparr>up_ifname := up\<rparr>)\<lparr>br_ports := ps\<rparr>"
    using ports_added [OF add_ports_adds r] d1(5) by auto
  then have "nearly_closed ds"
    using d1 cmd first_device_port_nonempty [OF up]
    by (simp add: nearly_closed_def named_wg_def state_closed_def is_scn_def closed_defs)
  with sts' show ?thesis by blast
qed

lemma build_wg_vxlan_bridge_closed:
  assumes "build_wg_vxlan_bridge net wifi dev sect br sts = Inr sts'" and "br \<noteq> []"
  shows "\<exists>ds. sts' = sts @ [ds] \<and> nearly_closed ds"
proof -
  let ?ports = "db_get net ''network'' dev ''ports''"
  from assms(1) obtain vx vni wg peer d1 ds where
    vx: "first_device_port ?ports IFNAMSIZ = Inr vx"
    and 1: "add_device_ports ?ports (wg_state br vx vni wg peer) True = Inr d1"
    and 2: "add_wireless_ports wifi sect d1 = Inr ds"
    and sts': "sts' = sts @ [ds]"
    unfolding build_wg_vxlan_bridge_def add_state_def Let_def
    by (auto simp: wg_state_def elim!: ebind_InrE split: if_splits option.splits)
  have r: "ebind (add_device_ports ?ports (wg_state br vx vni wg peer) True)
      (add_wireless_ports wifi sect) = Inr ds" using 1 2 by simp
  obtain ps where "ds = (wg_state br vx vni wg peer)\<lparr>br_ports := ps\<rparr>"
    using ports_added [OF add_ports_adds r] by (auto simp: wg_state_def ds_zero_def)
  then have "nearly_closed ds"
    using assms(2) first_device_port_nonempty [OF vx]
    by (simp add: nearly_closed_def named_wg_def state_closed_def is_scn_def closed_defs wg_state_def ds_zero_def fit_def
        IFNAMSIZ_def)
  with sts' show ?thesis by blast
qed

lemma build_loop_closed:
  "build_loop net wifi its sts = Inr r \<Longrightarrow> list_all nearly_closed sts \<Longrightarrow>
     list_all nearly_closed r"
proof (induction its arbitrary: sts)
  case (Cons it its)
  have "\<exists>sts1. build_loop net wifi its sts1 = Inr r
      \<and> (sts1 = sts \<or> (\<exists>ds. sts1 = sts @ [ds] \<and> nearly_closed ds))"
    using Cons.prems(1)
    by (auto split: if_splits option.splits elim!: ebind_InrE
        dest: build_uplink_bridge_closed build_wg_vxlan_bridge_closed)
  with Cons.IH Cons.prems(2) show ?case by fastforce
qed simp

lemma uci_build_closed:
  assumes "uci_build_desired_set fs run bin np wp = Inr sts"
  shows "list_all nearly_closed sts"
proof -
  from assms obtain net wifi where "build_loop net wifi net [] = Inr sts"
    by (auto simp: uci_build_desired_set_def elim!: ebind_InrE split: if_splits)
  from build_loop_closed [OF this] show ?thesis by simp
qed

section \<open>Property\<close>

text \<open>C11: loading the desired set from UCI gives exactly the set that \<open>uci_build_desired_set\<close> built, or the
  error of writing it: what \<open>cfg_set\<close> writes to the temporary file, \<open>yaml_load_desired_set\<close> reads back state
  by state. The one exception is a WireGuard interface without a name (from a UCI section type
  \<open>wireguard_\<close>): then the load fails with \<open>EINVAL\<close>. The hypotheses: the strings of the states hold no
  NUL byte, the identifiers of the states differ (the lemma \<open>twins_lost\<close> below shows that
  this is needed), and the temporary file is new, can be closed and gives back the bytes written.\<close>

theorem uci_load_exact:
  assumes "uci_build_desired_set fs run bin np wp = Inr sts"
    and "list_all ds_cstr sts" and "distinct (state_ids 0 sts)" and "obuf f = []"
  shows "uci_load_desired_set fs run (Inr f) None None Inr bin np wp =
    ebind (cfg_set f sts) (\<lambda>_. if list_all named_wg sts then Inr sts else Inl EINVAL)"
proof (cases "cfg_set f sts")
  case (Inl e)
  then show ?thesis using assms(1) by (simp add: uci_load_desired_set_def finish_def)
next
  case (Inr f')
  have "list_all (\<lambda>ds. ds_valid ds \<and> nearly_closed ds \<and> ds_cstr ds) sts"
    using uci_build_valid(1) [OF assms(1)] uci_build_closed [OF assms(1)] assms(2)
    by (simp add: list_all_iff)
  then have "yaml_load_desired_set (Inr (obuf f')) = (if list_all named_wg sts then Inr sts else Inl EINVAL)"
    using cfg_set_load [OF Inr assms(4)] uci_build_valid(2,3) [OF assms(1)] assms(3) by simp
  then show ?thesis using assms(1) Inr by (auto simp: uci_load_desired_set_def finish_def)
qed

definition demo_out :: ofile where
  "demo_out = \<lparr>obuf = [], oroom = 512, oerr = False\<rparr>"

lemma demo_set: "is_ok (cfg_set demo_out [demo_lan])"
  by code_simp

theorem uci_load_exact_witness:
  "uci_load_desired_set demo_fs (\<lambda>_. Pipe_failed EIO) (Inr demo_out) None None Inr None
     (Some ''network'') (Some ''wireless'') = Inr [demo_lan]"
proof -
  have named: "list_all named_wg [demo_lan]" by code_simp
  have "list_all ds_cstr [demo_lan]" "distinct (state_ids 0 [demo_lan])" "obuf demo_out = []" by code_simp+
  from uci_load_exact [OF demo_build this] demo_set show ?thesis unfolding if_P [OF named]
    by (auto simp: is_ok_def split: sum.splits)
qed

section \<open>Colliding identifiers\<close>

text \<open>The hypothesis on the identifiers is needed. Two bridges whose names differ only in a character
  outside \<open>[A-Za-z0-9_]\<close> get the same identifier, and of their states only one is loaded.\<close>

definition twin :: "string \<Rightarrow> string \<Rightarrow> desired_state" where
  "twin br up = ds_zero\<lparr>scenario := ''uplink_bridge'', br_name := br, up_ifname := up\<rparr>"

definition twins :: desired_set where
  "twins = [twin ''br-1'' ''eth0'', twin ''br.1'' ''eth1'']"

fun replay :: "(cfg_tok list \<times> string) list \<Rightarrow> cfg \<Rightarrow> cfg mut" where
  "replay [] cfg = (None, cfg)"
| "replay ((ts, v) # ls) cfg = (case set_toks ts v cfg of
     (None, cfg') \<Rightarrow> replay ls cfg' | (Some e, cfg') \<Rightarrow> (Some e, cfg'))"

lemma assign_replay: "tree_store.assign_all ls cfg = replay ls cfg"
  by (induction ls cfg rule: replay.induct) (simp_all split: prod.splits option.splits)

lemma twin_ids: "state_ids 0 twins = [Inr ''br_1'', Inr ''br_1'']"
  by code_simp

lemma twins_lost:
  assumes "cfg_set f twins = Inr f'" and "obuf f = []"
  shows "yaml_load_desired_set (Inr (obuf f')) = Inr [twin ''br.1'' ''eth1'']"
proof -
  let ?ls = "leaves (set_tree (zip [''br_1'', ''br_1''] twins))"
  from cfg_set_loop_writes [OF assms(1) [unfolded cfg_set_def]] obtain sids where
    sids: "state_ids 0 twins = map Inr sids" and wr: "writes f (cfg_set f twins) (leaves (set_tree (zip sids twins)))"
    unfolding cfg_set_def leaves_set_tree by blast
  have "sids = [''br_1'', ''br_1'']" using sids twin_ids by (cases sids; cases "tl sids") auto
  with wr assms have out: "obuf f' = concat (map line_text ?ls)" unfolding writes_def by simp
  have "list_all line_ok ?ls" by code_simp
  then have "file_assigns (obuf f') = Inr ?ls" unfolding out by (rule file_assigns_text)
  moreover have "tree_store.assign_all ?ls cfg_init = (None, set_tree [(''br_1'', twin ''br.1'' ''eth1'')])"
    unfolding assign_replay by code_simp
  ultimately have "cfg_load (Inr (obuf f')) = Inr (set_tree [(''br_1'', twin ''br.1'' ''eth1'')])"
    using load_loop_assigns by (simp add: cfg_load_def)
  moreover have "load_set (set_tree [(''br_1'', twin ''br.1'' ''eth1'')]) = Inr [twin ''br.1'' ''eth1'']"
    by code_simp
  ultimately show ?thesis by (simp add: yaml_load_desired_set_def)
qed

end
