(* ===== verification/Verify_Laws.thy ===== *)
theory Verify_Laws
  imports Verify "HOL-Library.Sublist"
begin

text \<open>
  What the verifier promises. Every check prints a list of \<open>OK\<close>, \<open>MISS\<close> and \<open>ACT\<close> lines
  that depends on the desired state and the snapshot only (its plan), returns the number of
  \<open>MISS\<close> lines in it and, under \<open>--apply\<close>, executes the plan line by line. The locale \<open>checker\<close>
  states this contract together with the condition that the check decides; it is closed under
  the sequencing that the scenarios use, and interpreted for each scenario. \<open>state_met\<close> is the
  declarative meaning of a desired state over the snapshot.
\<close>

section \<open>Plans\<close>

fun is_plan :: "line \<Rightarrow> bool" where
  "is_plan (OK t) = True"
| "is_plan (MISS t) = True"
| "is_plan (ACT t) = True"
| "is_plan _ = False"

fun is_OK :: "line \<Rightarrow> bool" where
  "is_OK (OK t) = True"
| "is_OK _ = False"

fun is_MISS :: "line \<Rightarrow> bool" where
  "is_MISS (MISS t) = True"
| "is_MISS _ = False"

definition misses :: "line list \<Rightarrow> nat" where
  "misses ls = length (filter is_MISS ls)"

text \<open>The reference semantics of printing a plan: an \<open>ACT\<close> line is executed when \<open>--apply\<close> is
  given and it is not a comment, and its outcome is reported right after it.\<close>

fun perform_line :: "system \<Rightarrow> line \<Rightarrow> vctx \<Rightarrow> vctx" where
  "perform_line sys (ACT cmd) c =
     (if \<not> vc_apply c \<or> starts_hash cmd then c\<lparr>vc_out := vc_out c @ [ACT cmd]\<rparr>
      else let (rc, runs) = cmd_exec sys (vc_runs c) cmd in
        if rc = 0 then c\<lparr>vc_out := vc_out c @ [ACT cmd, APPLY_OK cmd], vc_runs := runs\<rparr>
        else c\<lparr>vc_out := vc_out c @ [ACT cmd, APPLY_FAIL rc cmd], vc_runs := runs,
               vc_act_fail := True\<rparr>)"
| "perform_line sys l c = c\<lparr>vc_out := vc_out c @ [l]\<rparr>"

definition perform :: "system \<Rightarrow> line list \<Rightarrow> vctx \<Rightarrow> vctx" where
  "perform sys ls = fold (perform_line sys) ls"

lemma misses_simps [simp]:
  "misses [] = 0"
  "misses (l # ls) = (if is_MISS l then 1 else 0) + misses ls"
  "misses (ls @ ls') = misses ls + misses ls'"
  by (simp_all add: misses_def)

lemma perform_append: "perform sys (ls @ ls') c = perform sys ls' (perform sys ls c)"
  by (simp add: perform_def)

text \<open>\<open>emits sys m ls v\<close>: from every context \<open>m\<close> returns \<open>v\<close> and performs the plan \<open>ls\<close>.\<close>

definition emits :: "system \<Rightarrow> (vctx, 'a) state \<Rightarrow> line list \<Rightarrow> 'a \<Rightarrow> bool" where
  "emits sys m ls v \<longleftrightarrow> (\<forall>c. run_state m c = (v, perform sys ls c))"

named_theorems emits_rules \<open>plans of the statements of a check\<close>

lemma emits_return [emits_rules]: "emits sys (State_Monad.return v) [] v"
  by (simp add: emits_def State_Monad.return_def perform_def)

lemma emits_bind [emits_rules]:
  assumes "emits sys m ls v" and "emits sys (f v) ls' w"
  shows "emits sys (State_Monad.bind m f) (ls @ ls') w"
  using assms by (simp add: emits_def perform_append State_Monad.bind_def)

lemma emits_ok [emits_rules]: "emits sys (ok t) [OK t] 0"
  by (simp add: emits_def ok_def put_line_def State_Monad.update_def State_Monad.return_def
      State_Monad.bind_def State_Monad.get_def State_Monad.set_def perform_def)

lemma emits_miss [emits_rules]: "emits sys (miss t) [MISS t] 1"
  by (simp add: emits_def miss_def put_line_def State_Monad.update_def State_Monad.return_def
      State_Monad.bind_def State_Monad.get_def State_Monad.set_def perform_def)

lemma emits_act [emits_rules]: "emits sys (act sys t) [ACT (fit 256 t)] ()"
  by (simp add: emits_def act_def put_line_def State_Monad.update_def State_Monad.return_def
      State_Monad.bind_def State_Monad.get_def State_Monad.set_def perform_def Let_def
      split: prod.split)

section \<open>Performing a plan\<close>

lemma perform_Nil [simp]: "perform sys [] c = c"
  by (simp add: perform_def)

lemma perform_Cons [simp]: "perform sys (l # ls) c = perform sys ls (perform_line sys l c)"
  by (simp add: perform_def)

lemma perform_dry: "\<not> vc_apply c \<Longrightarrow> perform sys ls c = c\<lparr>vc_out := vc_out c @ ls\<rparr>"
proof (induction ls arbitrary: c)
  case (Cons l ls)
  then have "perform_line sys l c = c\<lparr>vc_out := vc_out c @ [l]\<rparr>" by (cases l) auto
  then show ?case using Cons by simp
qed simp

text \<open>The argument vector that an \<open>ACT\<close> line stands for, if it is run at all.\<close>

fun argv_of :: "line \<Rightarrow> argv option" where
  "argv_of (ACT cmd) = (if starts_hash cmd then None else case cmd_split 32 (fit 256 cmd) of
     Inl e \<Rightarrow> None | Inr a \<Rightarrow> if a = [] then None else Some a)"
| "argv_of _ = None"

definition is_fail :: "line \<Rightarrow> bool" where
  "is_fail l \<longleftrightarrow> (\<exists>rc cmd. l = APPLY_FAIL rc cmd)"

text \<open>What one step adds: output that shows the line itself and at most its outcome, and at
  most the argument vector of the line.\<close>

lemma perform_line_adds:
  assumes "is_plan l"
  obtains out runs where
    "perform_line sys l c = c\<lparr>vc_out := vc_out c @ out, vc_runs := vc_runs c @ runs,
       vc_act_fail := (vc_act_fail c \<or> (\<exists>x \<in> set out. is_fail x))\<rparr>"
    and "filter is_plan out = [l]"
    and "runs = [] \<or> (\<exists>a. argv_of l = Some a \<and> runs = [a])"
proof (cases "\<exists>cmd. l = ACT cmd \<and> vc_apply c \<and> \<not> starts_hash cmd")
  case False
  then have "perform_line sys l c = c\<lparr>vc_out := vc_out c @ [l]\<rparr>"
    using assms by (cases l) auto
  moreover have "\<not> is_fail l" using assms by (auto simp: is_fail_def)
  ultimately show ?thesis using assms by (intro that [of "[l]" "[]"]) simp_all
next
  case True
  then obtain cmd where l: "l = ACT cmd" and a: "vc_apply c" "\<not> starts_hash cmd" by blast
  obtain rc runs where e: "cmd_exec sys (vc_runs c) cmd = (rc, runs)" by fastforce
  then have "\<exists>new. runs = vc_runs c @ new \<and> (new = [] \<or> (\<exists>a. argv_of l = Some a \<and> new = [a]))"
    using a(2) by (auto simp: l cmd_exec_def split: sum.splits if_splits proc_event.splits)
  then obtain new where new: "runs = vc_runs c @ new"
    "new = [] \<or> (\<exists>a. argv_of l = Some a \<and> new = [a])" by blast
  show ?thesis
    using a e new
    by (intro that [of "if rc = 0 then [ACT cmd, APPLY_OK cmd] else [ACT cmd, APPLY_FAIL rc cmd]" new])
       (auto simp: l is_fail_def)
qed

lemma perform_adds:
  assumes "list_all is_plan ls"
  obtains out runs where
    "perform sys ls c = c\<lparr>vc_out := vc_out c @ out, vc_runs := vc_runs c @ runs,
       vc_act_fail := (vc_act_fail c \<or> (\<exists>x \<in> set out. is_fail x))\<rparr>"
    and "filter is_plan out = ls" and "subseq runs (List.map_filter argv_of ls)"
proof -
  have "\<exists>out runs. perform sys ls c = c\<lparr>vc_out := vc_out c @ out, vc_runs := vc_runs c @ runs,
       vc_act_fail := (vc_act_fail c \<or> (\<exists>x \<in> set out. is_fail x))\<rparr>
     \<and> filter is_plan out = ls \<and> subseq runs (List.map_filter argv_of ls)"
    using assms
  proof (induction ls arbitrary: c)
    case Nil
    show ?case by (intro exI [of _ "[]"]) (simp add: map_filter_simps)
  next
    case (Cons l ls)
    then have "is_plan l" and ls: "list_all is_plan ls" by simp_all
    from perform_line_adds [OF this(1)] obtain o1 r1 where
      1: "perform_line sys l c = c\<lparr>vc_out := vc_out c @ o1, vc_runs := vc_runs c @ r1,
         vc_act_fail := (vc_act_fail c \<or> (\<exists>x \<in> set o1. is_fail x))\<rparr>"
        "filter is_plan o1 = [l]" "r1 = [] \<or> (\<exists>a. argv_of l = Some a \<and> r1 = [a])" .
    from Cons.IH [OF ls, of "perform_line sys l c"] obtain o2 r2 where
      2: "perform sys ls (perform_line sys l c) = (perform_line sys l c)\<lparr>
           vc_out := vc_out (perform_line sys l c) @ o2, vc_runs := vc_runs (perform_line sys l c) @ r2,
           vc_act_fail := (vc_act_fail (perform_line sys l c) \<or> (\<exists>x \<in> set o2. is_fail x))\<rparr>"
        "filter is_plan o2 = ls" "subseq r2 (List.map_filter argv_of ls)" by blast
    have "subseq (r1 @ r2) (List.map_filter argv_of (l # ls))"
      using 1(3) 2(3) by (auto simp: map_filter_simps split: option.splits)
    then show ?case
      using 1 2 by (intro exI [of _ "o1 @ o2"] exI [of _ "r1 @ r2"]) (simp add: bex_Un)
  qed
  then show thesis using that by blast
qed

section \<open>The contract of a check\<close>

lemma OK_lines: "list_all is_OK ls \<Longrightarrow> misses ls = 0 \<and> list_all is_plan ls"
proof (induction ls)
  case (Cons l ls)
  then show ?case by (cases l) simp_all
qed simp

lemma perform_OK: "list_all is_OK ls \<Longrightarrow> perform sys ls c = c\<lparr>vc_out := vc_out c @ ls\<rparr>"
proof (induction ls arbitrary: c)
  case (Cons l ls)
  then have "perform_line sys l c = c\<lparr>vc_out := vc_out c @ [l]\<rparr>" by (cases l) auto
  then show ?case using Cons by simp
qed simp

locale checker =
  fixes sys :: system and m :: "(vctx, nat) state" and met :: bool
  assumes contract: "\<exists>ls. emits sys m ls (misses ls) \<and> list_all is_plan ls
     \<and> (misses ls = 0 \<longrightarrow> met) \<and> (met \<longrightarrow> list_all is_OK ls)"
begin

lemma plan:
  "\<exists>ls. (\<forall>c. run_state m c = (misses ls, perform sys ls c)) \<and> list_all is_plan ls
     \<and> (misses ls = 0 \<longleftrightarrow> met) \<and> (met \<longrightarrow> list_all is_OK ls)"
proof -
  from contract obtain ls where ls: "emits sys m ls (misses ls)" "list_all is_plan ls"
    "misses ls = 0 \<longrightarrow> met" "met \<longrightarrow> list_all is_OK ls" by (elim exE conjE)
  moreover have "misses ls = 0 \<longleftrightarrow> met" using ls(3,4) OK_lines [of ls] by argo
  ultimately show ?thesis unfolding emits_def by (intro exI [of _ ls] conjI)
qed

text \<open>The check decides its condition, in every context.\<close>

lemma diff_zero_iff: "fst (run_state m c) = 0 \<longleftrightarrow> met"
proof -
  from plan obtain ls where ls: "\<forall>c. run_state m c = (misses ls, perform sys ls c)"
    "list_all is_plan ls" "misses ls = 0 \<longleftrightarrow> met" "met \<longrightarrow> list_all is_OK ls"
    by (elim exE conjE)
  then show ?thesis by simp
qed

text \<open>A dry run only prints its plan; the differences are the \<open>MISS\<close> lines.\<close>

lemma dry_run:
  assumes "\<not> vc_apply c"
  obtains ls where "run_state m c = (misses ls, c\<lparr>vc_out := vc_out c @ ls\<rparr>)"
    and "list_all is_plan ls" and "met \<Longrightarrow> list_all is_OK ls"
proof -
  from plan obtain ls where ls: "\<forall>c. run_state m c = (misses ls, perform sys ls c)"
    "list_all is_plan ls" "misses ls = 0 \<longleftrightarrow> met" "met \<longrightarrow> list_all is_OK ls"
    by (elim exE conjE)
  then show thesis using assms by (intro that [of ls]) (simp_all add: perform_dry)
qed

text \<open>A check whose condition holds only prints \<open>OK\<close> lines, also under \<open>--apply\<close>.\<close>

lemma met_run:
  assumes met
  obtains ls where "run_state m c = (0, c\<lparr>vc_out := vc_out c @ ls\<rparr>)" and "list_all is_OK ls"
proof -
  from plan obtain ls where ls: "\<forall>c. run_state m c = (misses ls, perform sys ls c)"
    "list_all is_plan ls" "misses ls = 0 \<longleftrightarrow> met" "met \<longrightarrow> list_all is_OK ls"
    by (elim exE conjE)
  then show thesis using assms by (intro that [of ls]) (simp_all add: perform_OK)
qed

text \<open>Under \<open>--apply\<close> the same plan is shown, the commands run are among the ones the plan
  shows, in that order, and the failure flag records the \<open>APPLY_FAIL\<close> lines.\<close>

lemma refines_dry_run:
  assumes "run_state m c = (d, c')" and "run_state m (c\<lparr>vc_apply := False\<rparr>) = (d0, c0)"
  obtains out0 out runs where "vc_out c0 = vc_out c @ out0" and "vc_out c' = vc_out c @ out"
    and "vc_runs c' = vc_runs c @ runs" and "d = d0" and "d = misses out0"
    and "filter is_plan out = out0" and "subseq runs (List.map_filter argv_of out0)"
    and "vc_act_fail c' \<longleftrightarrow> vc_act_fail c \<or> (\<exists>x \<in> set out. is_fail x)"
    and "vc_runs c0 = vc_runs c" and "vc_act_fail c0 = vc_act_fail c"
    and "met \<longrightarrow> list_all is_OK out0"
proof -
  from plan obtain ls where ls: "\<forall>c. run_state m c = (misses ls, perform sys ls c)"
    "list_all is_plan ls" "misses ls = 0 \<longleftrightarrow> met" "met \<longrightarrow> list_all is_OK ls"
    by (elim exE conjE)
  have c0: "c0 = c\<lparr>vc_apply := False, vc_out := vc_out c @ ls\<rparr>" and d0: "d0 = misses ls"
    using assms(2) ls(1) by (auto simp: perform_dry)
  have d: "d = misses ls" and c': "c' = perform sys ls c" using assms(1) ls(1) by simp_all
  obtain out runs where
    "perform sys ls c = c\<lparr>vc_out := vc_out c @ out, vc_runs := vc_runs c @ runs,
       vc_act_fail := (vc_act_fail c \<or> (\<exists>x \<in> set out. is_fail x))\<rparr>"
    "filter is_plan out = ls" "subseq runs (List.map_filter argv_of ls)"
    by (rule perform_adds [OF ls(2)])
  then show thesis
    by (intro that [of ls out runs]) (simp_all add: d d0 c' c0 ls(4))
qed

end

lemma checkerI:
  assumes "emits sys m ls (misses ls)" and "list_all is_plan ls"
    and "misses ls = 0 \<Longrightarrow> met" and "met \<Longrightarrow> list_all is_OK ls"
  shows "checker sys m met"
  using assms by (intro checker.intro exI [of _ ls]) simp

lemma emits_unique: "emits sys m ls v \<Longrightarrow> emits sys m ls' v' \<Longrightarrow> v = v'"
  by (simp add: emits_def)

text \<open>A statement sequence that only reports \<open>OK\<close> is a check of what holds, one that reports a
  \<open>MISS\<close> a check of what fails.\<close>

lemma checker_value:
  assumes "emits sys m ls v" and "checker sys m P"
  shows "v = 0 \<longleftrightarrow> P"
  using checker.diff_zero_iff [OF assms(2)] assms(1) by (simp add: emits_def)

lemma checker_fails:
  assumes "emits sys m ls v" and "v = misses ls" and "list_all is_plan ls" and "0 < misses ls"
  shows "checker sys m P \<longleftrightarrow> \<not> P"
  using assms checker_value [OF assms(1), of P] by (auto intro: checkerI)

lemma checker_holds:
  assumes "emits sys m ls v" and "v = 0" and "list_all is_OK ls"
  shows "checker sys m P \<longleftrightarrow> P"
  using assms checker_value [OF assms(1), of P] OK_lines [OF assms(3)]
  by (auto intro: checkerI [of sys m ls])

named_theorems checker_simps \<open>the checks that statement sequences are\<close>

lemma checker_leaf [checker_simps]:
  "checker sys (State_Monad.return 0) P \<longleftrightarrow> P"
  "checker sys (ok t) P \<longleftrightarrow> P"
  "checker sys (do { ok t; ok t' }) P \<longleftrightarrow> P"
  "checker sys (miss t) P \<longleftrightarrow> \<not> P"
  "checker sys (do { miss t; act sys a; State_Monad.return 1 }) P \<longleftrightarrow> \<not> P"
  "checker sys (do { ok t; miss t'; act sys a; State_Monad.return 1 }) P \<longleftrightarrow> \<not> P"
  "checker sys (do { miss t; act sys a; act sys a'; State_Monad.return 1 }) P \<longleftrightarrow> \<not> P"
  "checker sys (do { miss t; act sys a; act sys a'; act sys a''; State_Monad.return 1 }) P \<longleftrightarrow> \<not> P"
  "checker sys (do { d \<leftarrow> miss t; act sys a; State_Monad.return d }) P \<longleftrightarrow> \<not> P"
  "checker sys (do { d \<leftarrow> ok t; e \<leftarrow> ok t'; State_Monad.return (d + e) }) P \<longleftrightarrow> P"
  by (rule checker_holds checker_fails, (rule emits_rules)+, simp_all; fail)+

lemmas checker_leaf_Suc [checker_simps] = checker_leaf [unfolded One_nat_def]

section \<open>Sequences of checks\<close>

lemma checker_append:
  assumes "checker sys m P" and "checker sys n Q"
  shows "checker sys (do { d \<leftarrow> m; e \<leftarrow> n; State_Monad.return (d + e) }) (P \<and> Q)"
proof -
  from checker.contract [OF assms(1)] obtain l1 where 1: "emits sys m l1 (misses l1)"
    "list_all is_plan l1" "misses l1 = 0 \<longrightarrow> P" "P \<longrightarrow> list_all is_OK l1" by (elim exE conjE)
  from checker.contract [OF assms(2)] obtain l2 where 2: "emits sys n l2 (misses l2)"
    "list_all is_plan l2" "misses l2 = 0 \<longrightarrow> Q" "Q \<longrightarrow> list_all is_OK l2" by (elim exE conjE)
  have "emits sys (do { d \<leftarrow> m; e \<leftarrow> n; State_Monad.return (d + e) }) (l1 @ l2 @ [])
      (misses l1 + misses l2)"
    by (rule emits_bind [OF 1(1)], rule emits_bind [OF 2(1)], rule emits_return)
  then show ?thesis
    using 1(2,3,4) 2(2,3,4) by (intro checkerI [of _ _ "l1 @ l2"]) simp_all
qed

lemma checker_Nil: "checker sys (run_checks []) P \<longleftrightarrow> P"
  by (simp add: checker_simps)

lemma checker_Cons:
  "checker sys m P \<Longrightarrow> checker sys (run_checks ms) Q \<Longrightarrow> checker sys (run_checks (m # ms)) (P \<and> Q)"
  by (simp add: checker_append)

lemma checker_map:
  assumes "\<And>x. x \<in> set xs \<Longrightarrow> checker sys (f x) (P x)"
  shows "checker sys (run_checks (map f xs)) (\<forall>x \<in> set xs. P x)"
  using assms
proof (induction xs)
  case Nil
  then show ?case by (simp add: checker_simps)
next
  case (Cons x xs)
  then have "checker sys (run_checks (map f (x # xs))) (P x \<and> (\<forall>x \<in> set xs. P x))"
    unfolding list.map by (intro checker_Cons) simp_all
  then show ?case by simp
qed

text \<open>A check of an attribute also says whether the link has to be recreated, which it never
  does without a difference.\<close>

definition attr_checker :: "system \<Rightarrow> (vctx, nat \<times> bool) state \<Rightarrow> bool \<Rightarrow> bool" where
  "attr_checker sys m met \<longleftrightarrow> (\<exists>ls r. emits sys m ls (misses ls, r) \<and> list_all is_plan ls
     \<and> (misses ls = 0 \<longrightarrow> met) \<and> (met \<longrightarrow> list_all is_OK ls) \<and> (r \<longrightarrow> \<not> met))"

lemma attr_checkerI:
  assumes "emits sys m ls (d, r)" and "d = misses ls" and "list_all is_plan ls"
    and "misses ls = 0 \<longrightarrow> met" and "met \<longrightarrow> list_all is_OK ls" and "r \<longrightarrow> \<not> met"
  shows "attr_checker sys m met"
  using assms unfolding attr_checker_def by (intro exI [of _ ls] exI [of _ r]) simp

lemma attrs_then_master_checker:
  assumes "attr_checker sys attrs P" and "checker sys master Q"
  shows "checker sys (attrs_then_master attrs master) (P \<and> Q)"
proof -
  from assms(1) [unfolded attr_checker_def] obtain l1 r where 1: "emits sys attrs l1 (misses l1, r)"
    "list_all is_plan l1" "misses l1 = 0 \<longrightarrow> P" "P \<longrightarrow> list_all is_OK l1" "r \<longrightarrow> \<not> P"
    by (elim exE conjE)
  from checker.contract [OF assms(2)] obtain l2 where 2: "emits sys master l2 (misses l2)"
    "list_all is_plan l2" "misses l2 = 0 \<longrightarrow> Q" "Q \<longrightarrow> list_all is_OK l2" by (elim exE conjE)
  show ?thesis
  proof (cases r)
    case True
    have "emits sys (attrs_then_master attrs master) (l1 @ []) (misses l1)"
      unfolding attrs_then_master_def
      by (rule emits_bind [OF 1(1)]) (simp add: True emits_return)
    then show ?thesis using 1 True by (intro checkerI [of _ _ l1]) simp_all
  next
    case False
    have "emits sys (attrs_then_master attrs master) (l1 @ l2 @ []) (misses l1 + misses l2)"
      unfolding attrs_then_master_def
      by (rule emits_bind [OF 1(1)])
         (simp only: False prod.case not_False_eq_True if_True, rule emits_bind [OF 2(1)], rule emits_return)
    then show ?thesis using 1 2 by (intro checkerI [of _ _ "l1 @ l2"]) simp_all
  qed
qed

end
