(* ===== verification/Verify_Spec.thy ===== *)
theory Verify_Spec
  imports Verify_Laws
begin

text \<open>
  The declarative meaning of a desired state over a snapshot of the kernel, and the proof that
  every check of \<open>verify.c\<close> decides its part of it. The conditions quantify over the entries of
  the snapshot; the loops of the code are shown to be these searches.
\<close>

section \<open>What a desired state asks for\<close>

definition link_up :: "real_state \<Rightarrow> string \<Rightarrow> bool" where
  "link_up rs name \<longleftrightarrow> (\<exists>i. rs_find_iface rs name = Some i \<and> is_up i)"

definition enslaved :: "real_state \<Rightarrow> string \<Rightarrow> string \<Rightarrow> bool" where
  "enslaved rs name br \<longleftrightarrow> (\<exists>i b. rs_find_iface rs name = Some i \<and> rs_find_iface rs br = Some b
     \<and> if_master i = if_ifindex b)"

definition has_route :: "real_state \<Rightarrow> 32 word \<Rightarrow> int \<Rightarrow> string \<Rightarrow> 32 word option \<Rightarrow> bool" where
  "has_route rs dst plen dev via \<longleftrightarrow> (\<exists>d r. rs_find_iface rs dev = Some d \<and> 0 < if_ifindex d
     \<and> r \<in> set (route4s rs) \<and> r4_oif r = if_ifindex d \<and> r4_dst r = dst \<and> r4_prefix r = plen
     \<and> (case via of None \<Rightarrow> \<not> r4_has_gw r | Some gw \<Rightarrow> r4_has_gw r \<and> r4_gw r = gw))"

definition bridge_met :: "desired_state \<Rightarrow> real_state \<Rightarrow> bool" where
  "bridge_met ds rs \<longleftrightarrow>
     (\<exists>b. rs_find_iface rs (br_name ds) = Some b \<and> if_kind b = ''bridge'' \<and> is_up b)"

definition addr_met :: "desired_state \<Rightarrow> real_state \<Rightarrow> bool" where
  "addr_met ds rs = (case br_addr_mode ds of
     ADDR_NONE \<Rightarrow> True
   | ADDR_DHCP \<Rightarrow> \<exists>b. rs_find_iface rs (br_name ds) = Some b
       \<and> (\<exists>a \<in> set (addr4s rs). a4_ifindex a = if_ifindex b)
   | ADDR_STATIC \<Rightarrow> \<exists>b addr plen. rs_find_iface rs (br_name ds) = Some b
       \<and> parse_addr_prefix (br_addr ds) = Inr (addr, plen)
       \<and> (\<exists>a \<in> set (addr4s rs). a4_ifindex a = if_ifindex b \<and> a4_addr a = addr \<and> a4_prefix a = plen))"

definition gateway_met :: "desired_state \<Rightarrow> real_state \<Rightarrow> bool" where
  "gateway_met ds rs \<longleftrightarrow> br_gateway ds = []
     \<or> (\<exists>gw. inet_pton (br_gateway ds) = Some gw \<and> has_route rs 0 0 (br_name ds) (Some gw))"

definition dns_met :: "desired_state \<Rightarrow> real_state \<Rightarrow> bool" where
  "dns_met ds rs \<longleftrightarrow> (\<forall>s \<in> set (br_dns ds). \<exists>a \<in> set (dns4 rs). inet_pton s = Some a)"

definition ports_met :: "desired_state \<Rightarrow> real_state \<Rightarrow> bool" where
  "ports_met ds rs \<longleftrightarrow> (\<forall>p \<in> set (br_ports ds). link_up rs p \<and> enslaved rs p (br_name ds))"

definition route_met :: "real_state \<Rightarrow> desired_route4 \<Rightarrow> bool" where
  "route_met rs rt \<longleftrightarrow> (\<exists>dst plen via. parse_addr_prefix (dr_dst rt) = Inr (dst, plen)
     \<and> (if dr_has_via rt then \<exists>gw. inet_pton (dr_via rt) = Some gw \<and> via = Some gw else via = None)
     \<and> has_route rs dst plen (dr_dev rt) via)"

definition wg_route_met :: "desired_state \<Rightarrow> real_state \<Rightarrow> bool" where
  "wg_route_met ds rs \<longleftrightarrow>
     (\<exists>ip. inet_pton (wg_peer_ip ds) = Some ip \<and> has_route rs ip 32 (wg_route_dev ds) None)"

definition vlan_met :: "desired_state \<Rightarrow> real_state \<Rightarrow> bool" where
  "vlan_met ds rs \<longleftrightarrow> (\<exists>v link. rs_find_vlan rs (vlan_ifname ds) = Some v
     \<and> vln_has_id v \<and> vln_id v = vlan_id ds
     \<and> rs_find_iface rs (vlan_link ds) = Some link \<and> vln_has_link v \<and> vln_link v = if_ifindex link)
     \<and> link_up rs (vlan_ifname ds)"

definition vxlan_met :: "desired_state \<Rightarrow> real_state \<Rightarrow> bool" where
  "vxlan_met ds rs \<longleftrightarrow> (\<exists>x. rs_find_vxlan rs (vx_ifname ds) = Some x
     \<and> vxl_has_vni x \<and> vxl_vni x = vx_vni ds
     \<and> vxl_has_remote x \<and> inet_pton (vx_remote ds) = Some (vxl_remote x)
     \<and> (vx_dev ds = [] \<or> (\<exists>d. rs_find_iface rs (vx_dev ds) = Some d
          \<and> vxl_has_link x \<and> vxl_link x = if_ifindex d)))
     \<and> link_up rs (vx_ifname ds)"

text \<open>The bridge part shared by the bridge scenarios.\<close>

definition bridge_part_met :: "desired_state \<Rightarrow> real_state \<Rightarrow> bool" where
  "bridge_part_met ds rs \<longleftrightarrow>
     bridge_met ds rs \<and> addr_met ds rs \<and> gateway_met ds rs \<and> dns_met ds rs \<and> ports_met ds rs"

definition scenario_met :: "desired_state \<Rightarrow> real_state \<Rightarrow> bool" where
  "scenario_met ds rs =
     (if scenario ds \<in> {''only_uplink'', ''only_uplink_iface''} then link_up rs (up_ifname ds)
      else if scenario ds \<in> {''uplink_bridge'', ''uplink_in_bridge''} then
        bridge_part_met ds rs \<and> link_up rs (up_ifname ds) \<and> enslaved rs (up_ifname ds) (br_name ds)
      else if scenario ds \<in> {''vlan_bridge'', ''vlan_in_bridge''} then
        bridge_part_met ds rs \<and> link_up rs (up_ifname ds)
        \<and> vlan_met ds rs \<and> enslaved rs (vlan_ifname ds) (vlan_bridge ds)
      else if scenario ds = ''wg_vxlan_bridge'' then
        bridge_part_met ds rs \<and> (up_ifname ds = [] \<or> link_up rs (up_ifname ds))
        \<and> wg_route_met ds rs \<and> link_up rs (wg_ifname ds)
        \<and> vxlan_met ds rs \<and> enslaved rs (vx_ifname ds) (vx_bridge ds)
      else False)"

definition state_met :: "desired_state \<Rightarrow> real_state \<Rightarrow> bool" where
  "state_met ds rs \<longleftrightarrow> scenario_met ds rs \<and> (\<forall>rt \<in> set (routes ds). route_met rs rt)"

text \<open>The same conditions as the README words them. It lists the uplink checks of \<open>uplink_bridge\<close>, with
  \<open>uplink master is bridge\<close> among them, for \<open>vlan_bridge\<close> too, and for \<open>wg_vxlan_bridge\<close> when an uplink is
  configured. The code asks there only that the uplink is up (\<open>ctx.md\<close> agrees with the code on
  \<open>vlan_bridge\<close> and with the README on \<open>wg_vxlan_bridge\<close>), so \<^const>\<open>state_met\<close> and this reading differ.\<close>

definition uplink_checks :: "desired_state \<Rightarrow> real_state \<Rightarrow> bool" where
  "uplink_checks ds rs \<longleftrightarrow> link_up rs (up_ifname ds) \<and> enslaved rs (up_ifname ds) (br_name ds)"

definition documented_scenario :: "desired_state \<Rightarrow> real_state \<Rightarrow> bool" where
  "documented_scenario ds rs =
     (if scenario ds \<in> {''only_uplink'', ''only_uplink_iface''} then link_up rs (up_ifname ds)
      else if scenario ds \<in> {''uplink_bridge'', ''uplink_in_bridge''} then
        bridge_part_met ds rs \<and> uplink_checks ds rs
      else if scenario ds \<in> {''vlan_bridge'', ''vlan_in_bridge''} then
        bridge_part_met ds rs \<and> uplink_checks ds rs
        \<and> vlan_met ds rs \<and> enslaved rs (vlan_ifname ds) (vlan_bridge ds)
      else if scenario ds = ''wg_vxlan_bridge'' then
        bridge_part_met ds rs \<and> (up_ifname ds = [] \<or> uplink_checks ds rs)
        \<and> wg_route_met ds rs \<and> link_up rs (wg_ifname ds)
        \<and> vxlan_met ds rs \<and> enslaved rs (vx_ifname ds) (vx_bridge ds)
      else False)"

definition documented_met :: "desired_state \<Rightarrow> real_state \<Rightarrow> bool" where
  "documented_met ds rs \<longleftrightarrow> documented_scenario ds rs \<and> (\<forall>rt \<in> set (routes ds). route_met rs rt)"

text \<open>Where the two readings part: an uplink outside the bridge in one of these two scenarios.\<close>

definition uplink_outside :: "desired_state \<Rightarrow> real_state \<Rightarrow> bool" where
  "uplink_outside ds rs \<longleftrightarrow>
     (scenario ds \<in> {''vlan_bridge'', ''vlan_in_bridge''} \<or> scenario ds = ''wg_vxlan_bridge'' \<and> up_ifname ds \<noteq> [])
     \<and> \<not> enslaved rs (up_ifname ds) (br_name ds)"

lemma documented_met_iff: "documented_met ds rs \<longleftrightarrow> state_met ds rs \<and> \<not> uplink_outside ds rs"
  by (auto simp: documented_met_def documented_scenario_def state_met_def scenario_met_def uplink_checks_def
      uplink_outside_def)

section \<open>The loops are searches\<close>

lemma route_exact_iff:
  "route_exact rs dst plen oif gw has_gw \<longleftrightarrow> 0 < oif \<and> (\<exists>r \<in> set (route4s rs). r4_oif r = oif
     \<and> r4_dst r = dst \<and> r4_prefix r = plen
     \<and> (if has_gw then r4_has_gw r \<and> r4_gw r = gw else \<not> r4_has_gw r))"
proof -
  have "route_loop l dst plen oif gw has_gw \<longleftrightarrow> (\<exists>r \<in> set l. r4_oif r = oif
     \<and> r4_dst r = dst \<and> r4_prefix r = plen
     \<and> (if has_gw then r4_has_gw r \<and> r4_gw r = gw else \<not> r4_has_gw r))" for l
    by (induction l) auto
  then show ?thesis by (auto simp: route_exact_def)
qed

lemma addr_exists_iff:
  "addr_exists rs ifindex addr plen \<longleftrightarrow> (\<exists>a \<in> set (addr4s rs). a4_ifindex a = ifindex
     \<and> a4_addr a = addr \<and> a4_prefix a = plen)"
proof -
  have "addr_loop l ifindex addr plen \<longleftrightarrow> (\<exists>a \<in> set l. a4_ifindex a = ifindex
     \<and> a4_addr a = addr \<and> a4_prefix a = plen)" for l
    by (induction l) auto
  then show ?thesis by (simp add: addr_exists_def)
qed

lemma addr_any_exists_iff:
  "addr_any_exists rs ifindex \<longleftrightarrow> (\<exists>a \<in> set (addr4s rs). a4_ifindex a = ifindex)"
proof -
  have "addr_any_loop l ifindex \<longleftrightarrow> (\<exists>a \<in> set l. a4_ifindex a = ifindex)" for l
    by (induction l) auto
  then show ?thesis by (simp add: addr_any_exists_def)
qed

lemma found_iff: "found r p \<longleftrightarrow> (\<exists>x. r = Some x \<and> p x)"
  by (auto simp: found_def split: option.splits)

lemma found_route_iff:
  "found (rs_find_iface rs dev) (\<lambda>d. route_exact rs dst plen (if_ifindex d) gw hg)
     \<longleftrightarrow> has_route rs dst plen dev (if hg then Some gw else None)"
  by (auto simp: found_iff route_exact_iff has_route_def)

lemma parse_ip4_cases: "(\<exists>gw. inet_pton s = Some gw \<and> parse_ip4 s = Inr gw) \<or> (inet_pton s = None \<and> (\<exists>e. parse_ip4 s = Inl e))"
  by (auto simp: parse_ip4_def split: option.splits)

section \<open>Each check decides its condition\<close>

named_theorems checks \<open>the contracts of the checks\<close>

lemma check_bridge_checker [checks]: "checker sys (check_bridge sys ds rs) (bridge_met ds rs)"
  by (auto simp: check_bridge_def bridge_met_def checker_simps split: option.split)

lemma check_bridge_addr_checker [checks]: "checker sys (check_bridge_addr sys ds rs) (addr_met ds rs)"
  by (auto simp: check_bridge_addr_def addr_met_def found_iff addr_any_exists_iff addr_exists_iff
      checker_simps split: addr_mode.split sum.split)

lemma check_bridge_gateway_checker [checks]:
  "checker sys (check_bridge_gateway sys ds rs) (gateway_met ds rs)"
  using parse_ip4_cases [of "br_gateway ds"]
  by (auto simp: check_bridge_gateway_def gateway_met_def found_route_iff checker_simps)

lemma check_dns_one_checker:
  "checker sys (check_dns_one sys br rs s) (\<exists>a \<in> set (dns4 rs). inet_pton s = Some a)"
  using parse_ip4_cases [of s]
  by (auto simp: check_dns_one_def rs_dns4_exists_iff checker_simps)

lemma check_bridge_dns_checker [checks]: "checker sys (check_bridge_dns sys ds rs) (dns_met ds rs)"
  unfolding check_bridge_dns_def dns_met_def by (rule checker_map) (rule check_dns_one_checker)

lemma check_wg_peer_route_checker [checks]:
  "checker sys (check_wg_peer_route sys ds rs) (wg_route_met ds rs)"
  using parse_ip4_cases [of "wg_peer_ip ds"]
  by (auto simp: check_wg_peer_route_def wg_route_met_def found_route_iff checker_simps)

lemma check_one_route_checker: "checker sys (check_one_route sys rs rt) (route_met rs rt)"
  using parse_ip4_cases [of "dr_via rt"]
  by (auto simp: check_one_route_def route_met_def found_route_iff checker_simps
      split: sum.split)

lemma check_routes_checker [checks]:
  "checker sys (check_routes sys ds rs) (\<forall>rt \<in> set (routes ds). route_met rs rt)"
  unfolding check_routes_def by (rule checker_map) (rule check_one_route_checker)

lemma check_iface_up_checker:
  "checker sys (check_iface_up sys name (rs_find_iface rs name)) (link_up rs name)"
  by (auto simp: check_iface_up_def link_up_def checker_simps split: option.split)

lemma check_master_checker:
  "checker sys (check_master sys name (rs_find_iface rs name) br rs)
     (rs_find_iface rs name = None \<or> enslaved rs name br)"
  by (auto simp: check_master_def enslaved_def found_iff checker_simps split: option.split)

text \<open>An interface that has to exist and then has to pass a check: the shape of the uplink and of
  a bridge port.\<close>

lemma exists_then_checker:
  assumes "checker sys m P" and "P \<Longrightarrow> rs_find_iface rs name \<noteq> None"
  shows "checker sys (do {
      d \<leftarrow> check_iface_exists tag name (rs_find_iface rs name);
      if rs_find_iface rs name = None then do { act sys a; State_Monad.return d }
      else do { e \<leftarrow> m; State_Monad.return (d + e) } }) P"
proof (cases "rs_find_iface rs name")
  case None
  then show ?thesis using assms(2) by (auto simp: check_iface_exists_def checker_simps)
next
  case (Some i)
  have "checker sys (ok t) True" for t by (simp add: checker_simps)
  from checker_append [OF this assms(1)] Some show ?thesis
    by (simp add: check_iface_exists_def)
qed

lemma verify_only_uplink_checker [checks]:
  "checker sys (verify_only_uplink sys ds rs) (link_up rs (up_ifname ds))"
  unfolding verify_only_uplink_def Let_def
  by (rule exists_then_checker, rule check_iface_up_checker) (auto simp: link_up_def)

lemma check_port_one_checker:
  "checker sys (check_port_one sys br rs name) (link_up rs name \<and> enslaved rs name br)"
  unfolding check_port_one_def Let_def
proof (rule exists_then_checker)
  have "checker sys (run_checks [check_iface_up sys name (rs_find_iface rs name),
      check_master sys name (rs_find_iface rs name) br rs])
    (link_up rs name \<and> (rs_find_iface rs name = None \<or> enslaved rs name br) \<and> True)"
    by (intro checker_Cons check_iface_up_checker check_master_checker) (simp add: checker_simps)
  then show "checker sys (run_checks [check_iface_up sys name (rs_find_iface rs name),
      check_master sys name (rs_find_iface rs name) br rs]) (link_up rs name \<and> enslaved rs name br)"
    by (rule back_subst [where P = "checker sys _"]) (auto simp: link_up_def)
qed (auto simp: link_up_def)

lemma check_bridge_ports_checker [checks]:
  "checker sys (check_bridge_ports sys ds rs) (ports_met ds rs)"
  unfolding check_bridge_ports_def ports_met_def by (rule checker_map) (rule check_port_one_checker)

lemma check_wg_checker [checks]: "checker sys (check_wg sys ds rs) (link_up rs (wg_ifname ds))"
  by (auto simp: check_wg_def Let_def check_iface_up_def link_up_def checker_simps)

section \<open>Tunnel attributes\<close>

lemma emits_bind_pair:
  "emits sys m ls (a, b) \<Longrightarrow> emits sys (f a b) ls' w \<Longrightarrow>
     emits sys (State_Monad.bind m (\<lambda>(x, y). f x y)) (ls @ ls') w"
  by (rule emits_bind, assumption) simp

text \<open>Statements that only issue commands.\<close>

definition acts_only :: "system \<Rightarrow> (vctx, unit) state \<Rightarrow> bool" where
  "acts_only sys m \<longleftrightarrow> (\<exists>ls. emits sys m ls () \<and> list_all is_plan ls \<and> misses ls = 0)"

lemma acts_only_act: "acts_only sys (act sys a)"
  unfolding acts_only_def by (intro exI [of _ "[ACT (fit 256 a)]"]) (simp add: emits_act)

lemma acts_only_bind:
  assumes "acts_only sys m" and "acts_only sys n"
  shows "acts_only sys (do { m; n })"
proof -
  from assms obtain l1 l2 where "emits sys m l1 ()" "list_all is_plan l1" "misses l1 = 0"
    "emits sys n l2 ()" "list_all is_plan l2" "misses l2 = 0" unfolding acts_only_def by blast
  then show ?thesis
    unfolding acts_only_def by (intro exI [of _ "l1 @ l2"]) (simp add: emits_bind)
qed

lemma acts_only_new:
  "acts_only sys (act_new_vxlan sys ds)" "acts_only sys (act_new_vlan sys ds)"
  unfolding act_new_vxlan_def act_new_vlan_def act_add_vxlan_def act_add_vlan_def
  by (auto intro!: acts_only_bind acts_only_act)

text \<open>A link that does not exist as a tunnel is created.\<close>

lemma create_attr_checker:
  assumes "acts_only sys new"
  shows "attr_checker sys (do {
      (if b then do { miss t; act sys a } else do { miss t'; State_Monad.return () });
      new;
      State_Monad.return (1, True) }) False"
proof -
  from assms obtain ls where ls: "emits sys new ls ()" "list_all is_plan ls" "misses ls = 0"
    unfolding acts_only_def by blast
  have "emits sys (if b then do { miss t; act sys a } else do { miss t'; State_Monad.return () })
      (if b then [MISS t] @ [ACT (fit 256 a)] else [MISS t'] @ []) ()"
    by (cases b) (simp_all only: if_True if_False, (rule emits_bind emits_miss emits_act emits_return)+)
  show ?thesis
    by (rule attr_checkerI, rule emits_bind [OF \<open>emits sys (if b then _ else _) _ _\<close> emits_bind [OF ls(1) emits_return]])
       (use ls(2,3) in auto)
qed

text \<open>An existing tunnel: its attributes, then either its recreation or its link state.\<close>

lemma attrs_checker:
  assumes "attr_checker sys attrs P" and "checker sys up Q" and "acts_only sys new"
  shows "attr_checker sys (do {
      ok t;
      (d, r) \<leftarrow> attrs;
      if r then do { act sys a; new; State_Monad.return (d, True) }
      else do { e \<leftarrow> up; State_Monad.return (d + e, False) } }) (P \<and> Q)"
proof -
  from assms(1) [unfolded attr_checker_def] obtain l1 r where 1: "emits sys attrs l1 (misses l1, r)"
    "list_all is_plan l1" "misses l1 = 0 \<longrightarrow> P" "P \<longrightarrow> list_all is_OK l1" "r \<longrightarrow> \<not> P"
    by (elim exE conjE)
  from checker.contract [OF assms(2)] obtain l2 where 2: "emits sys up l2 (misses l2)"
    "list_all is_plan l2" "misses l2 = 0 \<longrightarrow> Q" "Q \<longrightarrow> list_all is_OK l2" by (elim exE conjE)
  from assms(3) obtain l3 where 3: "emits sys new l3 ()" "list_all is_plan l3" "misses l3 = 0"
    unfolding acts_only_def by blast
  note redo = emits_bind [OF emits_act emits_bind [OF 3(1) emits_return]]
  note go_on = emits_bind [OF 2(1) emits_return]
  show ?thesis
  proof (cases r)
    case True
    show ?thesis
      by (rule attr_checkerI, rule emits_bind [OF emits_ok emits_bind_pair [OF 1(1)]],
          simp only: True if_True, rule redo) (use 1 3 True in simp_all)
  next
    case False
    show ?thesis
      by (rule attr_checkerI, rule emits_bind [OF emits_ok emits_bind_pair [OF 1(1)]],
          simp only: False if_False, rule go_on) (use 1 2 in auto)
  qed
qed

text \<open>Two attributes in a row.\<close>

lemma attr_checker_append:
  assumes "attr_checker sys m P" and "attr_checker sys n Q"
  shows "attr_checker sys (do { (d1, r1) \<leftarrow> m; (d2, r2) \<leftarrow> n; State_Monad.return (d1 + d2, r1 \<or> r2) }) (P \<and> Q)"
proof -
  from assms(1) [unfolded attr_checker_def] obtain l1 r1 where 1: "emits sys m l1 (misses l1, r1)"
    "list_all is_plan l1" "misses l1 = 0 \<longrightarrow> P" "P \<longrightarrow> list_all is_OK l1" "r1 \<longrightarrow> \<not> P"
    by (elim exE conjE)
  from assms(2) [unfolded attr_checker_def] obtain l2 r2 where 2: "emits sys n l2 (misses l2, r2)"
    "list_all is_plan l2" "misses l2 = 0 \<longrightarrow> Q" "Q \<longrightarrow> list_all is_OK l2" "r2 \<longrightarrow> \<not> Q"
    by (elim exE conjE)
  show ?thesis
    by (rule attr_checkerI, rule emits_bind_pair [OF 1(1) emits_bind_pair [OF 2(1) emits_return]])
       (use 1 2 in auto)
qed

lemma check_attr_checker:
  "attr_checker sys (do { d \<leftarrow> check_attr b t; State_Monad.return (d, \<not> b) }) b"
proof -
  have "emits sys (check_attr b t) [if b then OK t else MISS t] (if b then 0 else 1)"
    by (simp add: check_attr_def emits_ok emits_miss [simplified])
  from attr_checkerI [OF emits_bind [OF this emits_return]] show ?thesis by simp
qed

lemma check_vx_checkers:
  "attr_checker sys (check_vx_vni ds x) (vxl_has_vni x \<and> vxl_vni x = vx_vni ds)"
  "attr_checker sys (check_vx_remote sys ds x)
     (vxl_has_remote x \<and> inet_pton (vx_remote ds) = Some (vxl_remote x))"
  "attr_checker sys (check_vx_dev ds rs x) (vx_dev ds = [] \<or> (\<exists>d. rs_find_iface rs (vx_dev ds) = Some d
     \<and> vxl_has_link x \<and> vxl_link x = if_ifindex d))"
proof -
  show "attr_checker sys (check_vx_vni ds x) (vxl_has_vni x \<and> vxl_vni x = vx_vni ds)"
    unfolding check_vx_vni_def Let_def by (rule check_attr_checker)
  show "attr_checker sys (check_vx_dev ds rs x) (vx_dev ds = [] \<or> (\<exists>d. rs_find_iface rs (vx_dev ds) = Some d
     \<and> vxl_has_link x \<and> vxl_link x = if_ifindex d))"
  proof (cases "vx_dev ds = []")
    case True
    have "attr_checker sys (State_Monad.return (0, False)) True"
      by (rule attr_checkerI, rule emits_return) simp_all
    with True show ?thesis by (simp add: check_vx_dev_def)
  next
    case False
    then show ?thesis
      using check_attr_checker [of sys "found (rs_find_iface rs (vx_dev ds))
        (\<lambda>dev. vxl_has_link x \<and> vxl_link x = if_ifindex dev)"]
      by (simp add: check_vx_dev_def Let_def found_iff)
  qed
  show "attr_checker sys (check_vx_remote sys ds x)
     (vxl_has_remote x \<and> inet_pton (vx_remote ds) = Some (vxl_remote x))"
  proof (cases "inet_pton (vx_remote ds)")
    case None
    have "attr_checker sys (do { d \<leftarrow> miss t; act sys a; State_Monad.return (d, False) }) False" for t a
      by (rule attr_checkerI, (rule emits_rules)+) simp_all
    with None show ?thesis by (simp add: check_vx_remote_def parse_ip4_def)
  next
    case (Some r)
    then show ?thesis
      using check_attr_checker [of sys "vxl_has_remote x \<and> vxl_remote x = r"]
      by (simp add: check_vx_remote_def parse_ip4_def eq_commute [of r])
  qed
qed

lemma check_vxlan_attrs_checker:
  "attr_checker sys (check_vxlan_attrs sys ds rs (rs_find_iface rs (vx_ifname ds))
     (rs_find_vxlan rs (vx_ifname ds))) (vxlan_met ds rs)"
proof (cases "rs_find_vxlan rs (vx_ifname ds)")
  case None
  then show ?thesis
    using create_attr_checker [OF acts_only_new(1)] by (simp add: check_vxlan_attrs_def vxlan_met_def)
next
  case (Some x)
  show ?thesis
    using attrs_checker [OF attr_checker_append [OF check_vx_checkers(1) [of sys ds x]
        attr_checker_append [OF check_vx_checkers(2) [of sys ds x] check_vx_checkers(3) [of sys ds rs x]]]
      check_iface_up_checker [of sys "vx_ifname ds" rs] acts_only_new(1) [of sys ds]]
    by (simp add: check_vxlan_attrs_def vxlan_met_def Some case_prod_beta' add.assoc disj_assoc
        cong: if_cong)
qed

lemma check_vlan_attrs_checker:
  "attr_checker sys (check_vlan_attrs sys ds rs (rs_find_iface rs (vlan_ifname ds))
     (rs_find_vlan rs (vlan_ifname ds))) (vlan_met ds rs)"
proof (cases "rs_find_vlan rs (vlan_ifname ds)")
  case None
  then show ?thesis
    using create_attr_checker [OF acts_only_new(2)] by (simp add: check_vlan_attrs_def vlan_met_def)
next
  case (Some v)
  define a where "a \<longleftrightarrow> vln_has_id v \<and> vln_id v = vlan_id ds"
  define b where "b \<longleftrightarrow> found (rs_find_iface rs (vlan_link ds))
    (\<lambda>link. vln_has_link v \<and> vln_link v = if_ifindex link)"
  have met: "vlan_met ds rs \<longleftrightarrow> (a \<and> b) \<and> link_up rs (vlan_ifname ds)"
    by (auto simp: vlan_met_def Some a_def b_def found_iff)
  show ?thesis
    unfolding check_vlan_attrs_def Some option.case Let_def a_def [symmetric] b_def [symmetric] met
    using attrs_checker [OF attr_checker_append [OF check_attr_checker [of sys a]
        check_attr_checker [of sys b]]
      check_iface_up_checker [of sys "vlan_ifname ds" rs] acts_only_new(2) [of sys ds]]
    by (simp cong: if_cong)
qed

section \<open>Scenarios\<close>

interpretation only_uplink: checker sys "verify_only_uplink sys ds rs" "link_up rs (up_ifname ds)"
  for sys ds rs
  by (rule verify_only_uplink_checker)

text \<open>The checks of a scenario give the conjunction of their conditions.\<close>

lemma verify_uplink_bridge_checker:
  "checker sys (verify_uplink_bridge sys ds rs)
     (bridge_part_met ds rs \<and> link_up rs (up_ifname ds) \<and> enslaved rs (up_ifname ds) (br_name ds))"
proof -
  have "checker sys (verify_uplink_bridge sys ds rs)
    (bridge_met ds rs \<and> addr_met ds rs \<and> gateway_met ds rs \<and> dns_met ds rs \<and> link_up rs (up_ifname ds)
     \<and> (rs_find_iface rs (up_ifname ds) = None \<or> enslaved rs (up_ifname ds) (br_name ds))
     \<and> ports_met ds rs \<and> True)"
    unfolding verify_uplink_bridge_def
    by (intro checker_Cons checks check_master_checker) (simp add: checker_simps)
  then show ?thesis
    by (rule back_subst [where P = "checker sys _"]) (auto simp: bridge_part_met_def link_up_def)
qed

lemma verify_vlan_bridge_checker:
  "checker sys (verify_vlan_bridge sys ds rs)
     (bridge_part_met ds rs \<and> link_up rs (up_ifname ds)
      \<and> vlan_met ds rs \<and> enslaved rs (vlan_ifname ds) (vlan_bridge ds))"
proof -
  have "checker sys (verify_vlan_bridge sys ds rs)
    (bridge_met ds rs \<and> addr_met ds rs \<and> gateway_met ds rs \<and> dns_met ds rs \<and> link_up rs (up_ifname ds)
     \<and> ports_met ds rs \<and> (vlan_met ds rs \<and>
        (rs_find_iface rs (vlan_ifname ds) = None \<or> enslaved rs (vlan_ifname ds) (vlan_bridge ds)))
     \<and> True)"
    unfolding verify_vlan_bridge_def Let_def
    by (intro checker_Cons checks attrs_then_master_checker check_vlan_attrs_checker check_master_checker)
       (simp add: checker_simps)
  then show ?thesis
    by (rule back_subst [where P = "checker sys _"])
       (auto simp: bridge_part_met_def vlan_met_def link_up_def)
qed

lemma verify_wg_vxlan_bridge_checker:
  "checker sys (verify_wg_vxlan_bridge sys ds rs)
     (bridge_part_met ds rs \<and> (up_ifname ds = [] \<or> link_up rs (up_ifname ds))
      \<and> wg_route_met ds rs \<and> link_up rs (wg_ifname ds)
      \<and> vxlan_met ds rs \<and> enslaved rs (vx_ifname ds) (vx_bridge ds))"
proof -
  have up: "checker sys (if up_ifname ds \<noteq> [] then verify_only_uplink sys ds rs else State_Monad.return 0)
      (up_ifname ds = [] \<or> link_up rs (up_ifname ds))"
    using verify_only_uplink_checker by (auto simp: checker_simps)
  have "checker sys (verify_wg_vxlan_bridge sys ds rs)
    (bridge_met ds rs \<and> addr_met ds rs \<and> gateway_met ds rs \<and> dns_met ds rs
     \<and> (up_ifname ds = [] \<or> link_up rs (up_ifname ds)) \<and> ports_met ds rs \<and> wg_route_met ds rs
     \<and> link_up rs (wg_ifname ds) \<and> (vxlan_met ds rs \<and>
        (rs_find_iface rs (vx_ifname ds) = None \<or> enslaved rs (vx_ifname ds) (vx_bridge ds)))
     \<and> True)"
    unfolding verify_wg_vxlan_bridge_def Let_def
    by (intro checker_Cons checks up attrs_then_master_checker check_vxlan_attrs_checker check_master_checker)
       (simp add: checker_simps)
  then show ?thesis
    by (rule back_subst [where P = "checker sys _"])
       (auto simp: bridge_part_met_def vxlan_met_def link_up_def)
qed

interpretation uplink_bridge: checker sys "verify_uplink_bridge sys ds rs"
  "bridge_part_met ds rs \<and> link_up rs (up_ifname ds) \<and> enslaved rs (up_ifname ds) (br_name ds)"
  for sys ds rs
  by (rule verify_uplink_bridge_checker)

interpretation vlan_scenario: checker sys "verify_vlan_bridge sys ds rs"
  "bridge_part_met ds rs \<and> link_up rs (up_ifname ds)
   \<and> vlan_met ds rs \<and> enslaved rs (vlan_ifname ds) (vlan_bridge ds)"
  for sys ds rs
  by (rule verify_vlan_bridge_checker)

interpretation wg_vxlan_scenario: checker sys "verify_wg_vxlan_bridge sys ds rs"
  "bridge_part_met ds rs \<and> (up_ifname ds = [] \<or> link_up rs (up_ifname ds))
   \<and> wg_route_met ds rs \<and> link_up rs (wg_ifname ds)
   \<and> vxlan_met ds rs \<and> enslaved rs (vx_ifname ds) (vx_bridge ds)"
  for sys ds rs
  by (rule verify_wg_vxlan_bridge_checker)

lemma verify_scenario_checker:
  assumes "verify_scenario sys ds rs = Some m"
  shows "checker sys m (scenario_met ds rs)"
  using assms verify_only_uplink_checker verify_uplink_bridge_checker verify_vlan_bridge_checker
    verify_wg_vxlan_bridge_checker
  by (auto simp: verify_scenario_def scenario_met_def split: if_splits)

lemma verify_all_checker:
  assumes "verify_scenario sys ds rs = Some m"
  shows "checker sys (run_checks [m, check_routes sys ds rs]) (state_met ds rs)"
proof -
  have "checker sys (run_checks [m, check_routes sys ds rs])
    (scenario_met ds rs \<and> (\<forall>rt \<in> set (routes ds). route_met rs rt) \<and> True)"
    by (intro checker_Cons verify_scenario_checker [OF assms] checks) (simp add: checker_simps)
  then show ?thesis by (simp add: state_met_def)
qed

lemma verify_scenario_None_iff:
  "verify_scenario sys ds rs = None \<longleftrightarrow> \<not> known_scenario (scenario ds)"
  by (auto simp: verify_scenario_def known_scenario_def)

end
