(* ===== verification/Netlink.thy ===== *)
theory Netlink
  imports Netstate
begin

text \<open>
  \<open>netlink.c\<close>: the snapshot of the kernel over a \<open>NETLINK_ROUTE\<close> socket. Datagrams are byte lists,
  a pointer into a buffer is the suffix of the datagram it points to, integers in messages are
  little-endian, and the macros of \<open>linux/netlink.h\<close> and \<open>linux/rtnetlink.h\<close> (\<open>RTA_OK\<close>, \<open>RTA_NEXT\<close>,
  \<open>NLMSG_OK\<close>, \<open>NLMSG_NEXT\<close>, the payload macros) are written out. The kernel is a parameter: what
  \<open>sendto\<close> reports for a request, and the outcomes of the calls of \<open>recv\<close>. A list of outcomes
  that ends before the dump does is a \<open>recv\<close> that blocks; the dump then has no result (\<open>None\<close>).
  The sizes of the attribute tables come from the headers the program is compiled with and are
  a parameter too. The text that \<open>nl_limit\<close> leaves for \<open>nl_errstr\<close> only reaches the log.
\<close>

section \<open>Integers in messages\<close>

type_synonym byte = "8 word"

definition le_nat :: "byte list \<Rightarrow> nat" where
  "le_nat bs = foldr (\<lambda>b a. unat b + 256 * a) bs 0"

definition u8_at :: "byte list \<Rightarrow> nat \<Rightarrow> nat" where "u8_at p off = le_nat (take 1 (drop off p))"
definition u16_at :: "byte list \<Rightarrow> nat \<Rightarrow> nat" where "u16_at p off = le_nat (take 2 (drop off p))"
definition u32_at :: "byte list \<Rightarrow> nat \<Rightarrow> nat" where "u32_at p off = le_nat (take 4 (drop off p))"

text \<open>A \<open>uint32_t\<close> stored in an \<open>int\<close>.\<close>

definition to_int :: "nat \<Rightarrow> int" where
  "to_int n = (if n < 2147483648 then int n else int n - 4294967296)"

text \<open>A C string at a pointer into the datagram. A string without its NUL ends with the datagram here; the
  code, which prints it with \<open>%s\<close>, goes on reading in the rest of the receive buffer. The kernel
  terminates the names it sends.\<close>

definition str_at :: "byte list \<Rightarrow> string" where
  "str_at p = map (\<lambda>b. char_of (unat b)) (takeWhile (\<lambda>b. b \<noteq> 0) p)"

definition align4 :: "nat \<Rightarrow> nat" where "align4 n = (n + 3) div 4 * 4"

section \<open>Constants\<close>

definition IFLA_IFNAME :: nat where "IFLA_IFNAME = 3"
definition IFLA_LINK :: nat where "IFLA_LINK = 5"
definition IFLA_MASTER :: nat where "IFLA_MASTER = 10"
definition IFLA_LINKINFO :: nat where "IFLA_LINKINFO = 18"
definition IFLA_CARRIER :: nat where "IFLA_CARRIER = 33"
definition IFLA_INFO_KIND :: nat where "IFLA_INFO_KIND = 1"
definition IFLA_INFO_DATA :: nat where "IFLA_INFO_DATA = 2"
definition IFLA_VXLAN_ID :: nat where "IFLA_VXLAN_ID = 1"
definition IFLA_VXLAN_GROUP :: nat where "IFLA_VXLAN_GROUP = 2"
definition IFLA_VXLAN_LINK :: nat where "IFLA_VXLAN_LINK = 3"
definition IFLA_VLAN_ID :: nat where "IFLA_VLAN_ID = 1"
definition IFA_ADDRESS :: nat where "IFA_ADDRESS = 1"
definition IFA_LOCAL :: nat where "IFA_LOCAL = 2"
definition RTA_DST :: nat where "RTA_DST = 1"
definition RTA_OIF :: nat where "RTA_OIF = 4"
definition RTA_GATEWAY :: nat where "RTA_GATEWAY = 5"
definition RTA_TABLE :: nat where "RTA_TABLE = 15"
definition RTN_UNICAST :: nat where "RTN_UNICAST = 1"
definition RTN_LOCAL :: nat where "RTN_LOCAL = 2"
definition RT_TABLE_MAIN :: nat where "RT_TABLE_MAIN = 254"
definition AF_INET :: nat where "AF_INET = 2"
definition NLMSG_ERROR :: nat where "NLMSG_ERROR = 2"
definition NLMSG_DONE :: nat where "NLMSG_DONE = 3"
definition RTM_NEWLINK :: nat where "RTM_NEWLINK = 16"
definition RTM_GETLINK :: nat where "RTM_GETLINK = 18"
definition RTM_NEWADDR :: nat where "RTM_NEWADDR = 20"
definition RTM_GETADDR :: nat where "RTM_GETADDR = 22"
definition RTM_NEWROUTE :: nat where "RTM_NEWROUTE = 24"
definition RTM_GETROUTE :: nat where "RTM_GETROUTE = 26"

lemmas nl_consts =
  IFLA_IFNAME_def IFLA_LINK_def IFLA_MASTER_def IFLA_LINKINFO_def IFLA_CARRIER_def
  IFLA_INFO_KIND_def IFLA_INFO_DATA_def IFLA_VXLAN_ID_def IFLA_VXLAN_GROUP_def
  IFLA_VXLAN_LINK_def IFLA_VLAN_ID_def IFA_ADDRESS_def IFA_LOCAL_def RTA_DST_def RTA_OIF_def
  RTA_GATEWAY_def RTA_TABLE_def RTN_UNICAST_def RTN_LOCAL_def RT_TABLE_MAIN_def AF_INET_def
  NLMSG_ERROR_def NLMSG_DONE_def RTM_NEWLINK_def RTM_GETLINK_def RTM_NEWADDR_def
  RTM_GETADDR_def RTM_NEWROUTE_def RTM_GETROUTE_def

text \<open>\<open>IFLA_MAX\<close>, \<open>IFLA_INFO_MAX\<close>, \<open>IFLA_VXLAN_MAX\<close>, \<open>IFLA_VLAN_MAX\<close>, \<open>IFA_MAX\<close> and \<open>RTA_MAX\<close> of the headers.\<close>

record nl_hdr =
  ifla_max :: nat
  info_max :: nat
  vxlan_max :: nat
  vlan_max :: nat
  ifa_max :: nat
  rta_max :: nat

text \<open>The headers define every attribute the program reads.\<close>

definition hdr_ok :: "nl_hdr \<Rightarrow> bool" where
  "hdr_ok h \<longleftrightarrow> IFLA_CARRIER \<le> ifla_max h \<and> IFLA_INFO_DATA \<le> info_max h
     \<and> IFLA_VXLAN_LINK \<le> vxlan_max h \<and> IFLA_VLAN_ID \<le> vlan_max h \<and> IFA_LOCAL \<le> ifa_max h
     \<and> RTA_TABLE \<le> rta_max h"

section \<open>Attributes\<close>

definition rta_len :: "byte list \<Rightarrow> nat" where "rta_len p = u16_at p 0"
definition rta_data :: "byte list \<Rightarrow> byte list" where "rta_data p = drop 4 p"
definition rta_payload :: "byte list \<Rightarrow> int" where "rta_payload p = int (rta_len p) - 4"

definition RTA_OK :: "byte list \<Rightarrow> int \<Rightarrow> bool" where
  "RTA_OK p len \<longleftrightarrow> len \<ge> 4 \<and> rta_len p \<ge> 4 \<and> int (rta_len p) \<le> len"

type_synonym attrs = "nat \<Rightarrow> byte list option"

text \<open>\<open>NLA_TYPE_MASK\<close> keeps the low 14 bits of the type.\<close>

definition rta_type :: "byte list \<Rightarrow> nat" where
  "rta_type p = u16_at p 2 mod 16384"

function rtattr_loop :: "nat \<Rightarrow> attrs \<Rightarrow> byte list \<Rightarrow> int \<Rightarrow> attrs" where
  "rtattr_loop mx tb rta len =
     (if RTA_OK rta len then
        rtattr_loop mx (if rta_type rta \<le> mx then tb(rta_type rta \<mapsto> rta) else tb)
          (drop (align4 (rta_len rta)) rta) (len - int (align4 (rta_len rta)))
      else tb)"
  by pat_completeness auto
termination
  by (relation "measure (\<lambda>(mx, tb, rta, len). nat len)") (auto simp: RTA_OK_def align4_def)

declare rtattr_loop.simps [simp del]

definition parse_rtattr :: "nat \<Rightarrow> byte list \<Rightarrow> int \<Rightarrow> attrs" where
  "parse_rtattr mx rta len = rtattr_loop mx (\<lambda>_. None) rta len"

text \<open>The value of a \<open>uint32_t\<close> attribute that is present and long enough.\<close>

definition attr_u32 :: "attrs \<Rightarrow> nat \<Rightarrow> nat option" where
  "attr_u32 tb t = (case tb t of
     None \<Rightarrow> None
   | Some a \<Rightarrow> if rta_payload a \<ge> 4 then Some (u32_at (rta_data a) 0) else None)"

definition nested :: "nat \<Rightarrow> byte list \<Rightarrow> attrs" where
  "nested mx a = parse_rtattr mx (rta_data a) (rta_payload a)"

section \<open>Links\<close>

definition link_kind :: "nl_hdr \<Rightarrow> attrs \<Rightarrow> nat \<Rightarrow> string" where
  "link_kind h tb sz = (case tb IFLA_LINKINFO of
     None \<Rightarrow> []
   | Some info \<Rightarrow> (case nested (info_max h) info IFLA_INFO_KIND of
       None \<Rightarrow> []
     | Some k \<Rightarrow> fit sz (str_at (rta_data k))))"

definition add_iface :: "nl_hdr \<Rightarrow> real_state \<Rightarrow> byte list \<Rightarrow> attrs \<Rightarrow> real_state result" where
  "add_iface h rs ifi tb = (case tb IFLA_IFNAME of
     None \<Rightarrow> Inr rs
   | Some name \<Rightarrow>
       if length (ifaces rs) \<ge> NR_IFACE_MAX then Inl ENOSPC
       else let carrier = (case tb IFLA_CARRIER of
                  None \<Rightarrow> None
                | Some a \<Rightarrow> if rta_payload a \<ge> 1 then Some (u8_at (rta_data a) 0) else None);
                link = attr_u32 tb IFLA_LINK in
         Inr (rs\<lparr>ifaces := ifaces rs @ [\<lparr>
           if_name = fit IFNAMSIZ (str_at (rta_data name)),
           if_kind = link_kind h tb 16,
           if_ifindex = to_int (u32_at ifi 4),
           if_flags = of_nat (u32_at ifi 8),
           if_has_carrier = (carrier \<noteq> None),
           if_carrier = (case carrier of None \<Rightarrow> 0 | Some c \<Rightarrow> c),
           if_master = (case attr_u32 tb IFLA_MASTER of None \<Rightarrow> 0 | Some m \<Rightarrow> to_int m),
           if_link = (case link of None \<Rightarrow> 0 | Some l \<Rightarrow> to_int l),
           if_has_link = (link \<noteq> None)\<rparr>]\<rparr>))"

text \<open>The link information that \<open>add_vxlan\<close> and \<open>add_vlan\<close> look for: the name of the link and
  its nested data, when the kind is the one asked for.\<close>

definition link_data :: "nl_hdr \<Rightarrow> attrs \<Rightarrow> string \<Rightarrow> (byte list \<times> byte list) option" where
  "link_data h tb kind = (case (tb IFLA_LINKINFO, tb IFLA_IFNAME) of
     (Some info, Some name) \<Rightarrow>
       let li = nested (info_max h) info in
       (case li IFLA_INFO_KIND of
          None \<Rightarrow> None
        | Some k \<Rightarrow>
            if str_at (rta_data k) \<noteq> kind then None
            else map_option (\<lambda>d. (name, d)) (li IFLA_INFO_DATA))
   | _ \<Rightarrow> None)"

definition add_vxlan :: "nl_hdr \<Rightarrow> real_state \<Rightarrow> byte list \<Rightarrow> attrs \<Rightarrow> real_state result" where
  "add_vxlan h rs ifi tb = (case link_data h tb ''vxlan'' of
     None \<Rightarrow> Inr rs
   | Some (name, d) \<Rightarrow>
       if length (vxlans rs) \<ge> NR_VXLAN_MAX then Inl ENOSPC
       else let vx = nested (vxlan_max h) d; vni = attr_u32 vx IFLA_VXLAN_ID;
                remote = attr_u32 vx IFLA_VXLAN_GROUP; link = attr_u32 vx IFLA_VXLAN_LINK in
         Inr (rs\<lparr>vxlans := vxlans rs @ [\<lparr>
           vxl_ifname = fit IFNAMSIZ (str_at (rta_data name)),
           vxl_ifindex = to_int (u32_at ifi 4),
           vxl_vni = (case vni of None \<Rightarrow> 0 | Some v \<Rightarrow> of_nat v),
           vxl_has_vni = (vni \<noteq> None),
           vxl_remote = (case remote of None \<Rightarrow> 0 | Some r \<Rightarrow> of_nat r),
           vxl_has_remote = (remote \<noteq> None),
           vxl_link = (case link of None \<Rightarrow> 0 | Some l \<Rightarrow> to_int l),
           vxl_has_link = (link \<noteq> None)\<rparr>]\<rparr>))"

definition add_vlan :: "nl_hdr \<Rightarrow> real_state \<Rightarrow> byte list \<Rightarrow> attrs \<Rightarrow> real_state result" where
  "add_vlan h rs ifi tb = (case link_data h tb ''vlan'' of
     None \<Rightarrow> Inr rs
   | Some (name, d) \<Rightarrow>
       if length (vlans rs) \<ge> NR_VLAN_MAX then Inl ENOSPC
       else let vl = nested (vlan_max h) d; link = attr_u32 tb IFLA_LINK;
                vid = (case vl IFLA_VLAN_ID of
                    None \<Rightarrow> None
                  | Some a \<Rightarrow> if rta_payload a \<ge> 2 then Some (u16_at (rta_data a) 0) else None) in
         Inr (rs\<lparr>vlans := vlans rs @ [\<lparr>
           vln_ifname = fit IFNAMSIZ (str_at (rta_data name)),
           vln_ifindex = to_int (u32_at ifi 4),
           vln_id = (case vid of None \<Rightarrow> 0 | Some i \<Rightarrow> of_nat i),
           vln_has_id = (vid \<noteq> None),
           vln_link = (case link of None \<Rightarrow> 0 | Some l \<Rightarrow> to_int l),
           vln_has_link = (link \<noteq> None)\<rparr>]\<rparr>))"

section \<open>Messages\<close>

definition nlmsg_len :: "byte list \<Rightarrow> nat" where "nlmsg_len nh = u32_at nh 0"
definition nlmsg_type :: "byte list \<Rightarrow> nat" where "nlmsg_type nh = u16_at nh 4"
definition nlmsg_seq :: "byte list \<Rightarrow> nat" where "nlmsg_seq nh = u32_at nh 8"
definition nlmsg_data :: "byte list \<Rightarrow> byte list" where "nlmsg_data nh = drop 16 nh"

definition parse_link_msg :: "nl_hdr \<Rightarrow> real_state \<Rightarrow> byte list \<Rightarrow> real_state result" where
  "parse_link_msg h rs nh =
     (if nlmsg_len nh < 16 + 16 then Inl EIO
      else let ifi = nlmsg_data nh;
               tb = parse_rtattr (ifla_max h) (drop 16 ifi) (int (nlmsg_len nh) - 32) in
        ebind (add_iface h rs ifi tb) (\<lambda>rs.
        ebind (add_vxlan h rs ifi tb) (\<lambda>rs.
        add_vlan h rs ifi tb)))"

definition parse_addr_msg :: "nl_hdr \<Rightarrow> real_state \<Rightarrow> byte list \<Rightarrow> real_state result" where
  "parse_addr_msg h rs nh =
     (if nlmsg_len nh < 16 + 8 then Inl EIO
      else let ifa = nlmsg_data nh in
        if u8_at ifa 0 \<noteq> AF_INET then Inr rs
        else let tb = parse_rtattr (ifa_max h) (drop 8 ifa) (int (nlmsg_len nh) - 24);
                 src = (if tb IFA_LOCAL \<noteq> None then tb IFA_LOCAL else tb IFA_ADDRESS) in
          case src of
            None \<Rightarrow> Inr rs
          | Some a \<Rightarrow>
              if rta_payload a < 4 then Inr rs
              else if length (addr4s rs) \<ge> NR_ADDR4_MAX then Inl ENOSPC
              else Inr (rs\<lparr>addr4s := addr4s rs @ [\<lparr>a4_ifindex = to_int (u32_at ifa 4),
                a4_addr = of_nat (u32_at (rta_data a) 0), a4_prefix = int (u8_at ifa 1)\<rparr>]\<rparr>))"

definition route_table :: "byte list \<Rightarrow> attrs \<Rightarrow> int" where
  "route_table rtm tb = (case attr_u32 tb RTA_TABLE of
     Some t \<Rightarrow> to_int t | None \<Rightarrow> int (u8_at rtm 4))"

definition parse_route_msg :: "nl_hdr \<Rightarrow> real_state \<Rightarrow> byte list \<Rightarrow> real_state result" where
  "parse_route_msg h rs nh =
     (if nlmsg_len nh < 16 + 12 then Inl EIO
      else let rtm = nlmsg_data nh in
        if u8_at rtm 0 \<noteq> AF_INET then Inr rs
        else if u8_at rtm 7 \<noteq> RTN_UNICAST \<and> u8_at rtm 7 \<noteq> RTN_LOCAL then Inr rs
        else let tb = parse_rtattr (rta_max h) (drop 12 rtm) (int (nlmsg_len nh) - 28) in
          if route_table rtm tb \<noteq> int RT_TABLE_MAIN then Inr rs
          else if length (route4s rs) \<ge> NR_ROUTE4_MAX then Inl ENOSPC
          else let gw = attr_u32 tb RTA_GATEWAY in
            Inr (rs\<lparr>route4s := route4s rs @ [\<lparr>
              r4_dst = (case attr_u32 tb RTA_DST of None \<Rightarrow> 0 | Some d \<Rightarrow> of_nat d),
              r4_prefix = int (u8_at rtm 1),
              r4_gw = (case gw of None \<Rightarrow> 0 | Some g \<Rightarrow> of_nat g),
              r4_has_gw = (gw \<noteq> None),
              r4_oif = (case attr_u32 tb RTA_OIF of None \<Rightarrow> 0 | Some i \<Rightarrow> to_int i)\<rparr>]\<rparr>))"

definition nl_err :: "byte list \<Rightarrow> real_state \<Rightarrow> real_state result" where
  "nl_err nh rs =
     (if nlmsg_len nh < 16 + 20 then Inl EIO
      else let err = to_int (u32_at (nlmsg_data nh) 0) in
        if err = 0 then Inr rs else Inl (Sys err))"

section \<open>Dumps\<close>

definition NLMSG_OK :: "byte list \<Rightarrow> int \<Rightarrow> bool" where
  "NLMSG_OK nh rem \<longleftrightarrow> rem \<ge> 16 \<and> nlmsg_len nh \<ge> 16 \<and> int (nlmsg_len nh) \<le> rem"

text \<open>The outcome of the loop over one datagram: \<open>Return\<close> is a return from \<open>recv_dump\<close>, \<open>More\<close> is
  the end of the loop with the bytes that remain.\<close>

datatype msgs_outcome = Return "real_state result" | More real_state int

definition parse_msg :: "nl_hdr \<Rightarrow> nat \<Rightarrow> real_state \<Rightarrow> byte list \<Rightarrow> real_state result" where
  "parse_msg h type rs nh =
     (if type = RTM_NEWLINK then parse_link_msg h rs nh
      else if type = RTM_NEWADDR then parse_addr_msg h rs nh
      else if type = RTM_NEWROUTE then parse_route_msg h rs nh
      else Inl EINVAL)"

function msgs_loop :: "nl_hdr \<Rightarrow> nat \<Rightarrow> nat \<Rightarrow> real_state \<Rightarrow> byte list \<Rightarrow> int \<Rightarrow> msgs_outcome" where
  "msgs_loop h seq type rs nh rem =
     (if \<not> NLMSG_OK nh rem then More rs rem
      else let nh' = drop (align4 (nlmsg_len nh)) nh; rem' = rem - int (align4 (nlmsg_len nh)) in
        if nlmsg_seq nh \<noteq> seq then msgs_loop h seq type rs nh' rem'
        else if nlmsg_type nh = NLMSG_DONE then Return (Inr rs)
        else if nlmsg_type nh = NLMSG_ERROR then Return (nl_err nh rs)
        else if nlmsg_type nh \<noteq> type then msgs_loop h seq type rs nh' rem'
        else (case parse_msg h type rs nh of
            Inl e \<Rightarrow> Return (Inl e)
          | Inr rs' \<Rightarrow> msgs_loop h seq type rs' nh' rem'))"
  by pat_completeness auto
termination
  by (relation "measure (\<lambda>(h, seq, type, rs, nh, rem). nat rem)") (auto simp: NLMSG_OK_def align4_def)

declare msgs_loop.simps [simp del]

datatype recv_event = Recv "byte list" | Recv_intr | Recv_error errno

text \<open>\<open>recv_dump\<close>: its value and the receptions left for later calls.\<close>

fun recv_dump ::
  "nl_hdr \<Rightarrow> nat \<Rightarrow> real_state \<Rightarrow> nat \<Rightarrow> recv_event list \<Rightarrow> (real_state result \<times> recv_event list) option" where
  "recv_dump h seq rs type [] = None"
| "recv_dump h seq rs type (Recv_intr # es) = recv_dump h seq rs type es"
| "recv_dump h seq rs type (Recv_error e # es) = Some (Inl e, es)"
| "recv_dump h seq rs type (Recv d # es) = (let buf = take 16384 d in
     if buf = [] then Some (Inl EIO, es)
     else case msgs_loop h seq type rs buf (int (length buf)) of
       Return r \<Rightarrow> Some (r, es)
     | More rs' rem \<Rightarrow> if rem \<noteq> 0 then Some (Inl EIO, es) else recv_dump h seq rs' type es)"

definition le16 :: "nat \<Rightarrow> byte list" where "le16 n = [of_nat n, of_nat (n div 256)]"
definition le32 :: "nat \<Rightarrow> byte list" where
  "le32 n = [of_nat n, of_nat (n div 256), of_nat (n div 65536), of_nat (n div 16777216)]"

text \<open>\<open>NLM_F_REQUEST | NLM_F_DUMP\<close> is \<open>0x301\<close>. \<open>send\<close> is the number of bytes that \<open>sendto\<close> takes.\<close>

definition nl_send :: "(byte list \<Rightarrow> nat result) \<Rightarrow> nat \<Rightarrow> byte list \<Rightarrow> nat \<Rightarrow> unit result" where
  "nl_send send type body seq =
     (if align4 (16 + length body) > 256 then Inl EINVAL
      else let msg = le32 (16 + length body) @ le16 type @ le16 0x301 @ le32 seq @ le32 0 @ body in
        ebind (send msg) (\<lambda>rc. if rc \<noteq> 16 + length body then Inl EIO else Inr ()))"

definition dump_req ::
  "nl_hdr \<Rightarrow> (byte list \<Rightarrow> nat result) \<Rightarrow> nat \<Rightarrow> byte list \<Rightarrow> nat \<Rightarrow> nat \<Rightarrow> real_state \<Rightarrow>
     recv_event list \<Rightarrow> (real_state result \<times> recv_event list) option" where
  "dump_req h send req body reply seq rs es = (case nl_send send req body seq of
     Inl e \<Rightarrow> Some (Inl e, es)
   | Inr _ \<Rightarrow> recv_dump h seq rs reply es)"

definition dump_links where
  "dump_links h send seq rs es = dump_req h send RTM_GETLINK [0] RTM_NEWLINK seq rs es"

definition dump_addr4 where
  "dump_addr4 h send seq rs es =
     dump_req h send RTM_GETADDR [of_nat AF_INET, 0, 0, 0, 0, 0, 0, 0] RTM_NEWADDR seq rs es"

definition dump_route4 where
  "dump_route4 h send seq rs es =
     dump_req h send RTM_GETROUTE
       [of_nat AF_INET, 0, 0, 0, of_nat RT_TABLE_MAIN, 0, 0, 0, 0, 0, 0, 0] RTM_NEWROUTE seq rs es"

text \<open>\<open>nl_load_state\<close>, with the error of \<open>nl_open\<close> if there is one; the sequence numbers are 1, 2, 3.\<close>

definition then_dump ::
  "(real_state result \<times> recv_event list) option \<Rightarrow>
     (real_state \<Rightarrow> recv_event list \<Rightarrow> (real_state result \<times> recv_event list) option) \<Rightarrow>
     (real_state result \<times> recv_event list) option" where
  "then_dump m k = (case m of
     None \<Rightarrow> None
   | Some (Inl e, es) \<Rightarrow> Some (Inl e, es)
   | Some (Inr rs, es) \<Rightarrow> k rs es)"

definition nl_load_state ::
  "nl_hdr \<Rightarrow> errno option \<Rightarrow> (byte list \<Rightarrow> nat result) \<Rightarrow> recv_event list \<Rightarrow> real_state result option" where
  "nl_load_state h opn send es = (case opn of
     Some e \<Rightarrow> Some (Inl e)
   | None \<Rightarrow> map_option fst
       (then_dump (dump_links h send 1 rs_zero es) (\<lambda>rs es.
        then_dump (dump_addr4 h send 2 rs es) (\<lambda>rs es.
        dump_route4 h send 3 rs es))))"

end
