(* ===== verification/Run.thy ===== *)
theory Run
  imports Verify_Spec Uci_Emit Netlink
begin

text \<open>
  \<open>run.c\<close> and \<open>main.c\<close>: one run of the program and its command line. Everything outside the
  process is the record \<open>world\<close>: the file system, the commands, the lock, and the kernel, whose
  state (what a snapshot reads) depends on the commands run so far. A run that waits for the
  kernel forever has no result (\<open>None\<close>).
\<close>

section \<open>The outside\<close>

record kernel =
  k_hdr :: nl_hdr
  k_open :: "errno option"
  k_send :: "byte list \<Rightarrow> nat result"
  k_recv :: "recv_event list"
  k_resolv :: "string option"

datatype lock_event = Lock_open_error errno | Lock_busy | Lock_taken

record world =
  w_fs :: "string \<Rightarrow> string result"
  w_uci :: "string list \<Rightarrow> captured"
  w_tmp :: "ofile result"
  w_flush :: "errno option"
  w_close :: "errno option"
  w_reopen :: "string \<Rightarrow> string result"
  w_lock :: lock_event
  w_sys :: system
  w_kernel :: "argv list \<Rightarrow> kernel"

record netrec_run_cfg =
  rc_cfg_path :: "string option"
  rc_source :: string
  rc_uci_bin :: "string option"
  rc_uci_network :: "string option"
  rc_uci_wireless :: "string option"
  rc_apply :: bool

datatype run_line = Line line | POST_VERIFY

section \<open>Snapshots and sets\<close>

definition apply_lock :: "lock_event \<Rightarrow> unit result" where
  "apply_lock l = (case l of
     Lock_open_error e \<Rightarrow> Inl e | Lock_busy \<Rightarrow> Inl EAGAIN | Lock_taken \<Rightarrow> Inr ())"

definition load_real :: "kernel \<Rightarrow> real_state result option" where
  "load_real k = (case nl_load_state (k_hdr k) (k_open k) (k_send k) (k_recv k) of
     None \<Rightarrow> None
   | Some (Inl e) \<Rightarrow> Some (Inl e)
   | Some (Inr rs) \<Rightarrow> Some (rs_load_resolv_conf rs (k_resolv k)))"

text \<open>What \<open>run_verify_set\<close> leaves behind: the return value, \<open>*act_fail\<close>, the lines printed and the
  commands run so far.\<close>

record set_run =
  sr_rc :: int
  sr_act_fail :: bool
  sr_out :: "line list"
  sr_runs :: "argv list"

text \<open>The loop over the states; \<open>verify_state\<close> writes \<open>*act_fail\<close> unless the scenario is unknown.\<close>

fun verify_loop :: "system \<Rightarrow> real_state \<Rightarrow> bool \<Rightarrow> desired_state list \<Rightarrow> set_run \<Rightarrow> set_run" where
  "verify_loop sys rs apply [] r = r"
| "verify_loop sys rs apply (ds # sts) r =
     (let (d, fail, out, runs) = verify_state sys (sr_runs r) ds rs apply in
      verify_loop sys rs apply sts
        (r\<lparr>sr_rc := sr_rc r + int d,
           sr_act_fail := (case fail of None \<Rightarrow> sr_act_fail r | Some b \<Rightarrow> b),
           sr_out := sr_out r @ out, sr_runs := runs\<rparr>))"

definition run_verify_set :: "world \<Rightarrow> argv list \<Rightarrow> desired_set \<Rightarrow> bool \<Rightarrow> bool \<Rightarrow> set_run option" where
  "run_verify_set w runs sts apply act_fail = (case load_real (w_kernel w runs) of
     None \<Rightarrow> None
   | Some (Inl e) \<Rightarrow> Some \<lparr>sr_rc = rc_of e, sr_act_fail = act_fail, sr_out = [], sr_runs = runs\<rparr>
   | Some (Inr rs) \<Rightarrow> Some (verify_loop (w_sys w) rs apply sts
       \<lparr>sr_rc = 0, sr_act_fail = False, sr_out = [], sr_runs = runs\<rparr>))"

definition load_desired_set :: "world \<Rightarrow> netrec_run_cfg \<Rightarrow> desired_set result" where
  "load_desired_set w cfg =
     (if rc_source cfg = ''yaml'' then
        (case rc_cfg_path cfg of
           None \<Rightarrow> Inl EINVAL
         | Some p \<Rightarrow> yaml_load_desired_set (w_fs w p))
      else if rc_source cfg = ''uci'' then
        uci_load_desired_set (w_fs w) (w_uci w) (w_tmp w) (w_flush w) (w_close w) (w_reopen w)
          (rc_uci_bin cfg) (rc_uci_network cfg) (rc_uci_wireless cfg)
      else Inl EINVAL)"

section \<open>One run\<close>

record run_result =
  rr_rc :: int
  rr_out :: "run_line list"
  rr_runs :: "argv list"

text \<open>After the set is loaded and, for \<open>--apply\<close>, the lock is held. Every path below closes the
  lock; \<open>diff\<close> is negative when the snapshot failed.\<close>

definition run_locked :: "world \<Rightarrow> argv list \<Rightarrow> desired_set \<Rightarrow> bool \<Rightarrow> run_result option" where
  "run_locked w runs sts apply = (case run_verify_set w runs sts apply False of
     None \<Rightarrow> None
   | Some r \<Rightarrow>
       let diff = sr_rc r;
           ret = (\<lambda>rc. Some \<lparr>rr_rc = rc, rr_out = map Line (sr_out r), rr_runs = sr_runs r\<rparr>) in
       if \<not> apply then ret (if diff > 0 then 1 else diff)
       else if diff < 0 \<or> sr_act_fail r then ret (if diff < 0 then diff else 1)
       else if diff = 0 then ret 0
       else (case run_verify_set w (sr_runs r) sts False (sr_act_fail r) of
           None \<Rightarrow> None
         | Some r' \<Rightarrow>
             Some \<lparr>rr_rc = (if sr_rc r' < 0 then sr_rc r'
                            else if sr_rc r' \<noteq> 0 \<or> sr_act_fail r' then 1 else 0),
                   rr_out = map Line (sr_out r) @ [POST_VERIFY] @ map Line (sr_out r'),
                   rr_runs = sr_runs r'\<rparr>))"

definition netrec_run_once :: "world \<Rightarrow> argv list \<Rightarrow> netrec_run_cfg \<Rightarrow> run_result option" where
  "netrec_run_once w runs cfg = (case load_desired_set w cfg of
     Inl e \<Rightarrow> Some \<lparr>rr_rc = rc_of e, rr_out = [], rr_runs = runs\<rparr>
   | Inr sts \<Rightarrow>
       if rc_apply cfg then
         (case apply_lock (w_lock w) of
            Inl e \<Rightarrow> Some \<lparr>rr_rc = rc_of e, rr_out = [], rr_runs = runs\<rparr>
          | Inr _ \<Rightarrow> run_locked w runs sts True)
       else run_locked w runs sts False)"

section \<open>The command line\<close>

record main_opts =
  mo_apply :: bool
  mo_watch :: bool
  mo_cfg :: "string option"
  mo_debounce :: "string option"
  mo_source :: string
  mo_uci_bin :: string
  mo_uci_network :: "string option"
  mo_uci_wireless :: "string option"

text \<open>The loop over \<open>argv\<close>; an option that takes a value needs a following argument. \<open>None\<close> is the
  usage message and exit status 2.\<close>

fun args_loop :: "main_opts \<Rightarrow> string list \<Rightarrow> main_opts option" where
  "args_loop opts [] = Some opts"
| "args_loop opts (a # as) =
     (if a = ''-a'' \<or> a = ''--apply'' then args_loop (opts\<lparr>mo_apply := True\<rparr>) as
      else if a = ''-w'' \<or> a = ''--watch'' \<or> a = ''--daemon'' then args_loop (opts\<lparr>mo_watch := True\<rparr>) as
      else case as of
        [] \<Rightarrow> None
      | v # as' \<Rightarrow>
          if a = ''-c'' then args_loop (opts\<lparr>mo_cfg := Some v\<rparr>) as'
          else if a = ''--debounce-ms'' then args_loop (opts\<lparr>mo_debounce := Some v\<rparr>) as'
          else if a = ''--source'' then args_loop (opts\<lparr>mo_source := v\<rparr>) as'
          else if a = ''--uci-bin'' then args_loop (opts\<lparr>mo_uci_bin := v\<rparr>) as'
          else if a = ''--uci-network'' then args_loop (opts\<lparr>mo_uci_network := Some v\<rparr>) as'
          else if a = ''--uci-wireless'' then args_loop (opts\<lparr>mo_uci_wireless := Some v\<rparr>) as'
          else None)"

text \<open>A \<open>long\<close> stored in an \<open>int\<close>.\<close>

definition long_to_int :: "int \<Rightarrow> int" where
  "long_to_int v = (v + 2147483648) mod 4294967296 - 2147483648"

definition parse_debounce :: "string option \<Rightarrow> int option" where
  "parse_debounce s = (case s of
     None \<Rightarrow> Some (- 1)
   | Some d \<Rightarrow> let (v, fin, err) = strtol10 d; ms = long_to_int v in
       if d = [] \<or> fin \<noteq> [] \<or> ms < 0 then None else Some ms)"

definition main_cfg :: "main_opts \<Rightarrow> netrec_run_cfg" where
  "main_cfg opts = \<lparr>rc_cfg_path = mo_cfg opts, rc_source = mo_source opts, rc_uci_bin = Some (mo_uci_bin opts),
     rc_uci_network = mo_uci_network opts, rc_uci_wireless = mo_uci_wireless opts, rc_apply = mo_apply opts\<rparr>"

text \<open>What \<open>main\<close> does: print the usage, watch, or run once.\<close>

datatype main_action = Usage | Watch netrec_run_cfg int | Run_once netrec_run_cfg

definition main_args :: "string list \<Rightarrow> main_action" where
  "main_args args = (case args_loop
       \<lparr>mo_apply = False, mo_watch = False, mo_cfg = None, mo_debounce = None, mo_source = ''yaml'',
        mo_uci_bin = ''uci'', mo_uci_network = None, mo_uci_wireless = None\<rparr> args of
     None \<Rightarrow> Usage
   | Some opts \<Rightarrow>
       if mo_source opts = ''yaml'' \<and> mo_cfg opts = None then Usage
       else if mo_source opts \<noteq> ''yaml'' \<and> mo_source opts \<noteq> ''uci'' then Usage
       else if mo_source opts = ''uci'' \<and> (mo_uci_network opts = None) \<noteq> (mo_uci_wireless opts = None)
         then Usage
       else (case parse_debounce (mo_debounce opts) of
           None \<Rightarrow> Usage
         | Some ms \<Rightarrow> if mo_watch opts then Watch (main_cfg opts) ms else Run_once (main_cfg opts)))"

text \<open>The exit status of a run that is not a watch, with the lines printed and commands run.\<close>

definition main_once :: "world \<Rightarrow> netrec_run_cfg \<Rightarrow> (nat \<times> run_line list \<times> argv list) option" where
  "main_once w cfg = map_option (\<lambda>r. (if rr_rc r \<noteq> 0 then 1 else 0, rr_out r, rr_runs r))
     (netrec_run_once w [] cfg)"

end
