(* ===== verification/Netlink_Laws.thy ===== *)
theory Netlink_Laws
  imports Netlink
begin

text \<open>
  Properties of the netlink reader that hold for arbitrary bytes from the socket: the snapshot
  stays within its arrays and its name fields, and a failure is a nonzero return value.
\<close>

section \<open>Results on arbitrary input\<close>

text \<open>A return value: a nonzero error, or a state with the property \<open>P\<close>.\<close>

definition result_ok :: "('a \<Rightarrow> bool) \<Rightarrow> 'a result \<Rightarrow> bool" where
  "result_ok P r = (case r of Inl e \<Rightarrow> rc_of e \<noteq> 0 | Inr x \<Rightarrow> P x)"

lemma result_ok_simps [simp]:
  "result_ok P (Inr x) \<longleftrightarrow> P x" "result_ok P (Inl e) \<longleftrightarrow> rc_of e \<noteq> 0"
  by (simp_all add: result_ok_def)

lemma result_ok_bind:
  "result_ok P m \<Longrightarrow> (\<And>x. P x \<Longrightarrow> result_ok Q (k x)) \<Longrightarrow> result_ok Q (ebind m k)"
  by (cases m) simp_all

lemma result_ok_cases:
  "result_ok P (case x of None \<Rightarrow> m | Some y \<Rightarrow> k y) \<longleftrightarrow>
     (x = None \<longrightarrow> result_ok P m) \<and> (\<forall>y. x = Some y \<longrightarrow> result_ok P (k y))"
  "result_ok P (case p of (a, b) \<Rightarrow> f a b) \<longleftrightarrow> result_ok P (f (fst p) (snd p))"
  "result_ok P (if b then m else n) \<longleftrightarrow> (if b then result_ok P m else result_ok P n)"
  by (auto split: option.split prod.split)

text \<open>The arrays are not overrun and every name is terminated within its field.\<close>

definition snapshot_wf :: "real_state \<Rightarrow> bool" where
  "snapshot_wf rs \<longleftrightarrow> rs_wf rs
     \<and> (\<forall>i \<in> set (ifaces rs). length (if_name i) < IFNAMSIZ \<and> length (if_kind i) < 16)
     \<and> (\<forall>v \<in> set (vxlans rs). length (vxl_ifname v) < IFNAMSIZ)
     \<and> (\<forall>v \<in> set (vlans rs). length (vln_ifname v) < IFNAMSIZ)"

lemma snapshot_wf_add:
  "snapshot_wf rs \<Longrightarrow> length (ifaces rs) < NR_IFACE_MAX \<Longrightarrow> length (if_name i) < IFNAMSIZ \<Longrightarrow>
     length (if_kind i) < 16 \<Longrightarrow> snapshot_wf (rs\<lparr>ifaces := ifaces rs @ [i]\<rparr>)"
  "snapshot_wf rs \<Longrightarrow> length (vxlans rs) < NR_VXLAN_MAX \<Longrightarrow> length (vxl_ifname x) < IFNAMSIZ \<Longrightarrow>
     snapshot_wf (rs\<lparr>vxlans := vxlans rs @ [x]\<rparr>)"
  "snapshot_wf rs \<Longrightarrow> length (vlans rs) < NR_VLAN_MAX \<Longrightarrow> length (vln_ifname v) < IFNAMSIZ \<Longrightarrow>
     snapshot_wf (rs\<lparr>vlans := vlans rs @ [v]\<rparr>)"
  "snapshot_wf rs \<Longrightarrow> length (addr4s rs) < NR_ADDR4_MAX \<Longrightarrow> snapshot_wf (rs\<lparr>addr4s := addr4s rs @ [a]\<rparr>)"
  "snapshot_wf rs \<Longrightarrow> length (route4s rs) < NR_ROUTE4_MAX \<Longrightarrow> snapshot_wf (rs\<lparr>route4s := route4s rs @ [r]\<rparr>)"
  by (simp_all add: snapshot_wf_def rs_wf_def)

lemma fit_IFNAMSIZ: "length (fit IFNAMSIZ s) < IFNAMSIZ"
  by (simp add: length_fit IFNAMSIZ_def)

lemma link_kind_length: "length (link_kind h tb 16) < 16"
  by (simp add: link_kind_def length_fit split: option.split)

lemma add_ok:
  assumes "snapshot_wf rs"
  shows "result_ok snapshot_wf (add_iface h rs ifi tb)" "result_ok snapshot_wf (add_vxlan h rs ifi tb)"
    "result_ok snapshot_wf (add_vlan h rs ifi tb)"
  unfolding add_iface_def add_vxlan_def add_vlan_def Let_def
  using assms
  by (simp_all add: result_ok_cases snapshot_wf_add fit_IFNAMSIZ link_kind_length not_le)

lemma parse_link_msg_ok: "snapshot_wf rs \<Longrightarrow> result_ok snapshot_wf (parse_link_msg h rs nh)"
  unfolding parse_link_msg_def Let_def
  by (simp add: result_ok_cases result_ok_bind [where P = snapshot_wf] add_ok)

lemma parse_addr_msg_ok: "snapshot_wf rs \<Longrightarrow> result_ok snapshot_wf (parse_addr_msg h rs nh)"
  unfolding parse_addr_msg_def Let_def by (simp add: result_ok_cases snapshot_wf_add not_le)

lemma parse_route_msg_ok: "snapshot_wf rs \<Longrightarrow> result_ok snapshot_wf (parse_route_msg h rs nh)"
  unfolding parse_route_msg_def Let_def by (simp add: result_ok_cases snapshot_wf_add not_le)

lemma parse_msg_ok: "snapshot_wf rs \<Longrightarrow> result_ok snapshot_wf (parse_msg h type rs nh)"
  by (simp add: parse_msg_def parse_link_msg_ok parse_addr_msg_ok parse_route_msg_ok)

definition outcome_ok :: "msgs_outcome \<Rightarrow> bool" where
  "outcome_ok m = (case m of Return r \<Rightarrow> result_ok snapshot_wf r | More rs rem \<Rightarrow> snapshot_wf rs)"

lemma msgs_loop_ok: "snapshot_wf rs \<Longrightarrow> outcome_ok (msgs_loop h seq type rs nh rem)"
proof (induction h seq type rs nh rem rule: msgs_loop.induct)
  case (1 h seq type rs nh rem)
  have err: "result_ok snapshot_wf (nl_err nh rs)" using "1.prems" by (simp add: nl_err_def Let_def)
  have simps: "outcome_ok (Return r) \<longleftrightarrow> result_ok snapshot_wf r"
    "outcome_ok (More rs' n) \<longleftrightarrow> snapshot_wf rs'" for r rs' n
    by (simp_all add: outcome_ok_def)
  note IH = "1.IH" [OF _ refl refl]
  show ?case
  proof (cases "parse_msg h type rs nh")
    case (Inl e)
    then show ?thesis
      using parse_msg_ok [OF "1.prems", of h type nh] "1.prems" err IH(1,2)
      by (subst msgs_loop.simps) (simp add: simps Let_def)
  next
    case (Inr rs')
    then show ?thesis
      using parse_msg_ok [OF "1.prems", of h type nh] "1.prems" err IH
      by (subst msgs_loop.simps) (simp add: simps Let_def)
  qed
qed

text \<open>System calls report errors by a nonzero \<open>errno\<close>.\<close>

definition recv_ok :: "recv_event list \<Rightarrow> bool" where
  "recv_ok es \<longleftrightarrow> (\<forall>e. Recv_error e \<in> set es \<longrightarrow> rc_of e \<noteq> 0)"

definition send_ok :: "(byte list \<Rightarrow> nat result) \<Rightarrow> bool" where
  "send_ok send \<longleftrightarrow> (\<forall>m e. send m = Inl e \<longrightarrow> rc_of e \<noteq> 0)"

lemma recv_dump_ok:
  assumes "recv_dump h seq rs type es = Some (r, es')" and "recv_ok es" and "snapshot_wf rs"
  shows "result_ok snapshot_wf r \<and> recv_ok es'"
  using assms
proof (induction h seq rs type es rule: recv_dump.induct)
  case (4 h seq rs type d es)
  have tail: "recv_ok es" using "4.prems"(2) by (simp add: recv_ok_def)
  have out: "outcome_ok (msgs_loop h seq type rs (take 16384 d) (int (length (take 16384 d))))"
    by (rule msgs_loop_ok [OF "4.prems"(3)])
  show ?case
    using "4.IH" "4.prems"(1) tail out
    by (auto simp: Let_def outcome_ok_def split: if_splits msgs_outcome.splits)
qed (auto simp: recv_ok_def)

lemma dump_req_ok:
  assumes "dump_req h send req body reply seq rs es = Some (r, es')"
    and "send_ok send" and "recv_ok es" and "snapshot_wf rs"
  shows "result_ok snapshot_wf r \<and> recv_ok es'"
proof (cases "nl_send send req body seq")
  case (Inl e)
  have "rc_of e \<noteq> 0"
    using Inl assms(2) by (auto simp: nl_send_def send_ok_def ebind_Inl_iff Let_def split: if_splits)
  with Inl assms show ?thesis by (auto simp: dump_req_def)
next
  case (Inr u)
  with assms recv_dump_ok show ?thesis by (simp add: dump_req_def)
qed

lemma then_dump_ok:
  assumes "then_dump m k = Some (r, es')"
    and "\<And>r es. m = Some (r, es) \<Longrightarrow> result_ok snapshot_wf r \<and> recv_ok es"
    and "\<And>rs es r es'. k rs es = Some (r, es') \<Longrightarrow> snapshot_wf rs \<Longrightarrow> recv_ok es \<Longrightarrow>
      result_ok snapshot_wf r \<and> recv_ok es'"
  shows "result_ok snapshot_wf r \<and> recv_ok es'"
  using assms by (force simp: then_dump_def split: option.splits sum.splits prod.splits)

lemma nl_load_state_ok:
  assumes "nl_load_state h opn send es = Some r"
    and "\<And>e. opn = Some e \<Longrightarrow> rc_of e \<noteq> 0" and "send_ok send" and "recv_ok es"
  shows "result_ok snapshot_wf r"
proof (cases opn)
  case (Some e)
  with assms(1,2) show ?thesis by (auto simp: nl_load_state_def)
next
  case None
  have zero: "snapshot_wf rs_zero" by (simp add: snapshot_wf_def rs_wf_def)
  from None assms(1) obtain es' where
    "then_dump (dump_links h send 1 rs_zero es) (\<lambda>rs es. then_dump (dump_addr4 h send 2 rs es)
       (dump_route4 h send 3)) = Some (r, es')"
    by (auto simp: nl_load_state_def)
  then have "result_ok snapshot_wf r \<and> recv_ok es'"
    by (rule then_dump_ok)
       (use zero assms(3,4) dump_req_ok in
         \<open>auto simp: dump_links_def dump_addr4_def dump_route4_def elim!: then_dump_ok\<close>)
  then show ?thesis ..
qed

end
