(* ===== verification/Run_Laws.thy ===== *)
theory Run_Laws
  imports Run Netlink_Laws
begin

text \<open>
  What a run guarantees: its exit status against the declarative meaning of the desired states,
  the commands it executes, and the absence of effects in a dry run.
\<close>

section \<open>One state\<close>

abbreviation vctx0 :: "bool \<Rightarrow> argv list \<Rightarrow> vctx" where
  "vctx0 ap runs \<equiv> \<lparr>vc_apply = ap, vc_act_fail = False, vc_out = [], vc_runs = runs\<rparr>"

lemma verify_state_unknown:
  "\<not> known_scenario (scenario ds) \<Longrightarrow> verify_state sys runs ds rs ap = (1, None, [], runs)"
  by (simp add: verify_state_def verify_scenario_None_iff [THEN iffD2])

lemma state_met_known: "state_met ds rs \<Longrightarrow> known_scenario (scenario ds)"
  by (auto simp: state_met_def scenario_met_def known_scenario_def split: if_splits)

lemma verify_state_run:
  assumes "verify_scenario sys ds rs = Some m"
    and "run_state (run_checks [m, check_routes sys ds rs]) (vctx0 ap runs) = (d, c)"
  shows "verify_state sys runs ds rs ap = (d, Some (vc_act_fail c), vc_out c, vc_runs c)"
  using assms unfolding verify_state_def by (simp only: option.case Let_def prod.case)

text \<open>The verdict, the plan and its execution, for a known scenario and either mode.\<close>

lemma verify_state_known:
  assumes "known_scenario (scenario ds)"
  obtains d out0 fail out new where
    "verify_state sys runs ds rs ap = (d, Some fail, out, runs @ new)"
    and "verify_state sys runs ds rs False = (d, Some False, out0, runs)"
    and "d = 0 \<longleftrightarrow> state_met ds rs" and "d = misses out0" and "filter is_plan out = out0"
    and "subseq new (List.map_filter argv_of out0)" and "fail \<longleftrightarrow> (\<exists>x \<in> set out. is_fail x)"
    and "state_met ds rs \<longrightarrow> list_all is_OK out0"
proof -
  obtain m where m: "verify_scenario sys ds rs = Some m"
    using assms verify_scenario_None_iff [of sys ds rs] by (cases "verify_scenario sys ds rs") auto
  let ?c = "run_checks [m, check_routes sys ds rs]"
  have ch: "checker sys ?c (state_met ds rs)" by (rule verify_all_checker [OF m])
  obtain d c where r: "run_state ?c (vctx0 ap runs) = (d, c)" by (cases "run_state ?c (vctx0 ap runs)")
  obtain d0 c0 where r0: "run_state ?c ((vctx0 ap runs)\<lparr>vc_apply := False\<rparr>) = (d0, c0)"
    by (cases "run_state ?c ((vctx0 ap runs)\<lparr>vc_apply := False\<rparr>)")
  obtain out0 out new where f: "vc_out c0 = out0" "vc_out c = out" "vc_runs c = runs @ new" "d = d0"
    "d = misses out0" "filter is_plan out = out0" "subseq new (List.map_filter argv_of out0)"
    "vc_act_fail c \<longleftrightarrow> (\<exists>x \<in> set out. is_fail x)" "vc_runs c0 = runs" "\<not> vc_act_fail c0"
    "state_met ds rs \<longrightarrow> list_all is_OK out0"
    by (rule checker.refines_dry_run [OF ch r r0]) simp
  have dry: "run_state ?c (vctx0 False runs) = (d0, c0)" using r0 by simp
  have z: "d = 0 \<longleftrightarrow> state_met ds rs" using checker.diff_zero_iff [OF ch, of "vctx0 ap runs"] r by simp
  show thesis
    by (rule that [of d "vc_act_fail c" out new out0])
       (use verify_state_run [OF m r] verify_state_run [OF m dry] f z in simp_all)
qed

text \<open>The same for every state; an unknown scenario prints nothing and is never met.\<close>

lemma verify_state_outcome:
  obtains d fail out0 fail0 out new where
    "verify_state sys runs ds rs ap = (d, fail, out, runs @ new)"
    and "verify_state sys runs ds rs False = (d, fail0, out0, runs)"
    and "d = 0 \<longleftrightarrow> state_met ds rs" and "filter is_plan out = out0"
    and "subseq new (List.map_filter argv_of out0)" and "state_met ds rs \<longrightarrow> list_all is_OK out0"
    and "fail0 \<noteq> Some True"
proof (cases "known_scenario (scenario ds)")
  case True
  obtain d out0 fail out new where k: "verify_state sys runs ds rs ap = (d, Some fail, out, runs @ new)"
    "verify_state sys runs ds rs False = (d, Some False, out0, runs)"
    "d = 0 \<longleftrightarrow> state_met ds rs" "d = misses out0" "filter is_plan out = out0"
    "subseq new (List.map_filter argv_of out0)" "fail \<longleftrightarrow> (\<exists>x \<in> set out. is_fail x)"
    "state_met ds rs \<longrightarrow> list_all is_OK out0"
    by (rule verify_state_known [OF True])
  show thesis by (rule that [OF k(1,2,3,5,6,8)]) simp
next
  case False
  then show thesis
    using state_met_known [of ds rs] verify_state_unknown [OF False]
    by (intro that [of 1 None "[]" "[]" None "[]"]) (auto simp: map_filter_simps)
qed

lemma OK_no_argv: "list_all is_OK ls \<Longrightarrow> List.map_filter argv_of ls = []"
proof (induction ls)
  case (Cons l ls)
  then show ?case by (cases l) (simp_all add: map_filter_simps)
qed (simp add: map_filter_simps)

section \<open>The loop over the states\<close>

lemma verify_loop_spec:
  obtains out new where
    "sr_out (verify_loop sys rs ap sts r) = sr_out r @ out"
    and "sr_runs (verify_loop sys rs ap sts r) = sr_runs r @ new"
    and "subseq new (List.map_filter argv_of out)"
    and "sr_rc r \<le> sr_rc (verify_loop sys rs ap sts r)"
    and "sr_rc (verify_loop sys rs ap sts r) = sr_rc r \<longleftrightarrow> (\<forall>ds \<in> set sts. state_met ds rs)"
    and "(\<forall>ds \<in> set sts. state_met ds rs) \<longrightarrow> new = []"
    and "\<not> ap \<longrightarrow> new = []"
    and "\<not> ap \<and> \<not> sr_act_fail r \<longrightarrow> \<not> sr_act_fail (verify_loop sys rs ap sts r)"
proof -
  have filt: "List.map_filter argv_of (filter is_plan ls) = List.map_filter argv_of ls" for ls
  proof (induction ls)
    case (Cons l ls)
    then show ?case by (cases l) (simp_all add: map_filter_simps split: option.split)
  qed simp
  have "\<exists>out new. sr_out (verify_loop sys rs ap sts r) = sr_out r @ out
    \<and> sr_runs (verify_loop sys rs ap sts r) = sr_runs r @ new
    \<and> subseq new (List.map_filter argv_of out)
    \<and> sr_rc r \<le> sr_rc (verify_loop sys rs ap sts r)
    \<and> (sr_rc (verify_loop sys rs ap sts r) = sr_rc r \<longleftrightarrow> (\<forall>ds \<in> set sts. state_met ds rs))
    \<and> ((\<forall>ds \<in> set sts. state_met ds rs) \<longrightarrow> new = [])
    \<and> (\<not> ap \<longrightarrow> new = [])
    \<and> (\<not> ap \<and> \<not> sr_act_fail r \<longrightarrow> \<not> sr_act_fail (verify_loop sys rs ap sts r))"
  proof (induction sts arbitrary: r)
    case Nil
    show ?case by (intro exI [of _ "[]"]) (simp add: map_filter_simps)
  next
    case (Cons ds sts)
    obtain d fail out0 fail0 o1 n1 where
      1: "verify_state sys (sr_runs r) ds rs ap = (d, fail, o1, sr_runs r @ n1)"
      "verify_state sys (sr_runs r) ds rs False = (d, fail0, out0, sr_runs r)"
      "d = 0 \<longleftrightarrow> state_met ds rs" "filter is_plan o1 = out0"
      "subseq n1 (List.map_filter argv_of out0)" "state_met ds rs \<longrightarrow> list_all is_OK out0"
      "fail0 \<noteq> Some True"
      by (rule verify_state_outcome)
    define r1 where "r1 = r\<lparr>sr_rc := sr_rc r + int d,
      sr_act_fail := (case fail of None \<Rightarrow> sr_act_fail r | Some b \<Rightarrow> b),
      sr_out := sr_out r @ o1, sr_runs := sr_runs r @ n1\<rparr>"
    have step: "verify_loop sys rs ap (ds # sts) r = verify_loop sys rs ap sts r1"
      by (simp add: 1(1) r1_def)
    have n1: "subseq n1 (List.map_filter argv_of o1)" using 1(4,5) filt [of o1] by simp
    have dry: "\<not> ap \<longrightarrow> n1 = [] \<and> fail = fail0" using 1(1,2) by auto
    have met: "state_met ds rs \<longrightarrow> n1 = []" using 1(5,6) OK_no_argv by force
    from Cons.IH [of r1] obtain o2 n2 where
      2: "sr_out (verify_loop sys rs ap sts r1) = sr_out r1 @ o2"
      "sr_runs (verify_loop sys rs ap sts r1) = sr_runs r1 @ n2"
      "subseq n2 (List.map_filter argv_of o2)"
      "sr_rc r1 \<le> sr_rc (verify_loop sys rs ap sts r1)"
      "sr_rc (verify_loop sys rs ap sts r1) = sr_rc r1 \<longleftrightarrow> (\<forall>ds \<in> set sts. state_met ds rs)"
      "(\<forall>ds \<in> set sts. state_met ds rs) \<longrightarrow> n2 = []" "\<not> ap \<longrightarrow> n2 = []"
      "\<not> ap \<and> \<not> sr_act_fail r1 \<longrightarrow> \<not> sr_act_fail (verify_loop sys rs ap sts r1)"
      by blast
    have "subseq (n1 @ n2) (List.map_filter argv_of (o1 @ o2))"
      using n1 2(3) by (simp add: map_filter_def list_emb_append_mono)
    moreover have "sr_rc r1 = sr_rc r + int d" "sr_out r1 = sr_out r @ o1" "sr_runs r1 = sr_runs r @ n1"
      by (simp_all add: r1_def)
    moreover have "\<not> ap \<and> \<not> sr_act_fail r \<longrightarrow> \<not> sr_act_fail r1"
      using dry 1(7) by (auto simp: r1_def split: option.splits)
    moreover have "sr_rc (verify_loop sys rs ap sts r1) = sr_rc r \<longleftrightarrow>
        d = 0 \<and> sr_rc (verify_loop sys rs ap sts r1) = sr_rc r1"
      using 2(4) \<open>sr_rc r1 = sr_rc r + int d\<close> by linarith
    ultimately show ?case
      unfolding step using 1(3) 2 dry met
      by (intro exI [of _ "o1 @ o2"] exI [of _ "n1 @ n2"] conjI) simp_all
  qed
  then show thesis using that by blast
qed

lemma verify_state_met:
  assumes "state_met ds rs"
  obtains out where "verify_state sys runs ds rs ap = (0, Some False, out, runs)" and "list_all is_OK out"
proof -
  obtain m where m: "verify_scenario sys ds rs = Some m"
    using state_met_known [OF assms] verify_scenario_None_iff [of sys ds rs]
    by (cases "verify_scenario sys ds rs") auto
  let ?c = "run_checks [m, check_routes sys ds rs]"
  obtain ls where ls: "run_state ?c (vctx0 ap runs) = (0, (vctx0 ap runs)\<lparr>vc_out := ls\<rparr>)" "list_all is_OK ls"
    by (rule checker.met_run [OF verify_all_checker [OF m] assms, of "vctx0 ap runs"]) simp
  show thesis
    by (rule that [of ls]) (use verify_state_run [OF m ls(1)] ls(2) in simp_all)
qed

lemma verify_loop_met:
  assumes "\<forall>ds \<in> set sts. state_met ds rs" and "\<not> sr_act_fail r"
  shows "\<exists>out. verify_loop sys rs ap sts r = r\<lparr>sr_out := sr_out r @ out\<rparr> \<and> list_all is_OK out"
  using assms
proof (induction sts arbitrary: r)
  case Nil
  show ?case by (intro exI [of _ "[]"]) simp
next
  case (Cons ds sts)
  then obtain o1 where 1: "verify_state sys (sr_runs r) ds rs ap = (0, Some False, o1, sr_runs r)"
    "list_all is_OK o1"
    using verify_state_met [of ds rs sys "sr_runs r" ap] by auto
  have r1: "r\<lparr>sr_rc := sr_rc r + int 0, sr_act_fail := False, sr_out := sr_out r @ o1, sr_runs := sr_runs r\<rparr>
      = r\<lparr>sr_out := sr_out r @ o1\<rparr>"
    using Cons.prems(2) by simp
  obtain o2 where "verify_loop sys rs ap sts (r\<lparr>sr_out := sr_out r @ o1\<rparr>)
      = r\<lparr>sr_out := sr_out r @ o1 @ o2\<rparr>" "list_all is_OK o2"
    using Cons.IH [of "r\<lparr>sr_out := sr_out r @ o1\<rparr>"] Cons.prems by auto
  with 1 r1 show ?case by (intro exI [of _ "o1 @ o2"]) simp
qed

section \<open>A run\<close>

text \<open>System calls report errors by a nonzero \<open>errno\<close>.\<close>

definition kernel_ok :: "kernel \<Rightarrow> bool" where
  "kernel_ok k \<longleftrightarrow> (\<forall>e. k_open k = Some e \<longrightarrow> rc_of e \<noteq> 0) \<and> send_ok (k_send k) \<and> recv_ok (k_recv k)"

definition world_ok :: "world \<Rightarrow> bool" where
  "world_ok w \<longleftrightarrow> (\<forall>runs. kernel_ok (w_kernel w runs)) \<and> (\<forall>e. w_lock w = Lock_open_error e \<longrightarrow> rc_of e \<noteq> 0)"

lemma rs_load_resolv_conf_ok:
  assumes "snapshot_wf rs"
  shows "result_ok snapshot_wf (rs_load_resolv_conf rs bs)"
proof (cases bs)
  case None
  then show ?thesis using assms by (simp add: rs_load_resolv_conf_def snapshot_wf_def rs_wf_def)
next
  case (Some bytes)
  have "resolv_loop (rs\<lparr>dns4 := []\<rparr>) bytes =
      (if length (nameservers bytes) \<le> NR_DNS4_MAX then Inr (rs\<lparr>dns4 := nameservers bytes\<rparr>) else Inl ENOSPC)"
    by (subst resolv_loop_spec) simp_all
  then show ?thesis
    using Some assms by (simp add: rs_load_resolv_conf_def snapshot_wf_def rs_wf_def Let_def)
qed

lemma load_real_ok:
  assumes "load_real k = Some r" and "kernel_ok k"
  shows "result_ok snapshot_wf r"
proof -
  from assms(1) obtain r0 where n: "nl_load_state (k_hdr k) (k_open k) (k_send k) (k_recv k) = Some r0"
    by (auto simp: load_real_def split: option.splits)
  have "result_ok snapshot_wf r0"
    by (rule nl_load_state_ok [OF n]) (use assms(2) in \<open>simp_all add: kernel_ok_def\<close>)
  with assms(1) n show ?thesis
    using rs_load_resolv_conf_ok by (auto simp: load_real_def split: sum.splits)
qed

text \<open>The snapshot a set of states was verified on.\<close>

definition set_met :: "world \<Rightarrow> argv list \<Rightarrow> desired_set \<Rightarrow> bool" where
  "set_met w runs sts \<longleftrightarrow> (\<exists>rs. load_real (w_kernel w runs) = Some (Inr rs) \<and> snapshot_wf rs
     \<and> (\<forall>ds \<in> set sts. state_met ds rs))"

lemma run_verify_set_spec:
  assumes "run_verify_set w runs sts ap fl = Some r" and "world_ok w"
  obtains new where "sr_runs r = runs @ new" and "subseq new (List.map_filter argv_of (sr_out r))"
    and "sr_rc r = 0 \<longleftrightarrow> set_met w runs sts" and "sr_rc r = 0 \<longrightarrow> new = []"
    and "\<not> ap \<longrightarrow> new = []" and "\<not> ap \<and> \<not> fl \<longrightarrow> \<not> sr_act_fail r"
proof -
  have k: "kernel_ok (w_kernel w runs)" using assms(2) by (simp add: world_ok_def)
  from assms(1) obtain x where x: "load_real (w_kernel w runs) = Some x"
    by (auto simp: run_verify_set_def split: option.splits)
  have ok: "result_ok snapshot_wf x" by (rule load_real_ok [OF x k])
  show thesis
  proof (cases x)
    case (Inl e)
    with assms(1) x ok show thesis
      by (intro that [of "[]"]) (auto simp: run_verify_set_def set_met_def map_filter_simps)
  next
    case (Inr rs)
    let ?r0 = "\<lparr>sr_rc = 0, sr_act_fail = False, sr_out = [], sr_runs = runs\<rparr>"
    have r: "r = verify_loop (w_sys w) rs ap sts ?r0" using assms(1) x Inr by (simp add: run_verify_set_def)
    obtain out new where v: "sr_out r = sr_out ?r0 @ out" "sr_runs r = sr_runs ?r0 @ new"
      "subseq new (List.map_filter argv_of out)" "sr_rc ?r0 \<le> sr_rc r"
      "sr_rc r = sr_rc ?r0 \<longleftrightarrow> (\<forall>ds \<in> set sts. state_met ds rs)"
      "(\<forall>ds \<in> set sts. state_met ds rs) \<longrightarrow> new = []" "\<not> ap \<longrightarrow> new = []"
      "\<not> ap \<and> \<not> sr_act_fail ?r0 \<longrightarrow> \<not> sr_act_fail r"
      unfolding r by (rule verify_loop_spec)
    show thesis
      by (rule that [of new]) (use v x Inr ok in \<open>simp_all add: set_met_def\<close>)
  qed
qed

lemma run_locked_success:
  assumes "run_locked w runs sts ap = Some r" and "world_ok w" and "rr_rc r = 0"
  shows "set_met w (rr_runs r) sts"
proof -
  from assms(1) obtain r1 where r1: "run_verify_set w runs sts ap False = Some r1"
    by (auto simp: run_locked_def split: option.splits)
  obtain new where 1: "sr_runs r1 = runs @ new" "sr_rc r1 = 0 \<longleftrightarrow> set_met w runs sts"
    "sr_rc r1 = 0 \<longrightarrow> new = []"
    by (rule run_verify_set_spec [OF r1 assms(2)])
  show ?thesis
  proof (cases "sr_rc r1 = 0")
    case True
    with assms(1,3) r1 1 show ?thesis by (auto simp: run_locked_def Let_def split: if_splits)
  next
    case False
    then obtain r2 where r2: "run_verify_set w (sr_runs r1) sts False (sr_act_fail r1) = Some r2"
      "sr_rc r2 = 0" "rr_runs r = sr_runs r2"
      using assms(1,3) r1 by (auto simp: run_locked_def Let_def split: if_splits option.splits)
    obtain new' where 2: "sr_runs r2 = sr_runs r1 @ new'"
      "sr_rc r2 = 0 \<longleftrightarrow> set_met w (sr_runs r1) sts" "sr_rc r2 = 0 \<longrightarrow> new' = []"
      by (rule run_verify_set_spec [OF r2(1) assms(2)])
    with r2 show ?thesis by simp
  qed
qed

lemma netrec_run_once_locked:
  assumes "netrec_run_once w runs cfg = Some r" and "load_desired_set w cfg = Inr sts"
    and "world_ok w" and "rr_rc r = 0"
  shows "run_locked w runs sts (rc_apply cfg) = Some r"
  using assms
  by (auto simp: netrec_run_once_def apply_lock_def world_ok_def split: if_splits lock_event.splits)

text \<open>Every command run is one that was printed, in that order.\<close>

fun line_argv :: "run_line \<Rightarrow> argv option" where
  "line_argv (Line l) = argv_of l"
| "line_argv POST_VERIFY = None"

lemma map_filter_Line: "List.map_filter line_argv (map Line ls) = List.map_filter argv_of ls"
  by (induction ls) (simp_all add: map_filter_simps split: option.split)

lemma map_filter_append: "List.map_filter f (xs @ ys) = List.map_filter f xs @ List.map_filter f ys"
  by (simp add: map_filter_def)

lemma run_locked_runs:
  assumes "run_locked w runs sts ap = Some r" and "world_ok w"
  shows "\<exists>new. rr_runs r = runs @ new \<and> subseq new (List.map_filter line_argv (rr_out r)) \<and> (\<not> ap \<longrightarrow> new = [])"
proof -
  from assms(1) obtain r1 where r1: "run_verify_set w runs sts ap False = Some r1"
    by (auto simp: run_locked_def split: option.splits)
  obtain new where 1: "sr_runs r1 = runs @ new" "subseq new (List.map_filter argv_of (sr_out r1))"
    "\<not> ap \<longrightarrow> new = []"
    by (rule run_verify_set_spec [OF r1 assms(2)])
  have "rr_runs r = sr_runs r1 \<and> (\<exists>rest. rr_out r = map Line (sr_out r1) @ rest)"
  proof (cases "rr_runs r = sr_runs r1 \<and> rr_out r = map Line (sr_out r1)")
    case False
    then obtain r2 where r2: "run_verify_set w (sr_runs r1) sts False (sr_act_fail r1) = Some r2"
      "rr_runs r = sr_runs r2" "rr_out r = map Line (sr_out r1) @ [POST_VERIFY] @ map Line (sr_out r2)"
      using assms(1) r1 by (auto simp: run_locked_def Let_def split: if_splits option.splits)
    obtain n2 where "sr_runs r2 = sr_runs r1 @ n2" "\<not> False \<longrightarrow> n2 = []"
      by (rule run_verify_set_spec [OF r2(1) assms(2)])
    with r2 show ?thesis by simp
  qed auto
  then obtain rest where "rr_runs r = sr_runs r1" "rr_out r = map Line (sr_out r1) @ rest" by blast
  with 1 show ?thesis
    by (intro exI [of _ new]) (simp add: map_filter_append map_filter_Line list_emb_append_mono [of _ _ _ "[]"]
        list_emb_prefix)
qed

section \<open>Properties of the verifier\<close>

text \<open>C2: \<open>verify_state\<close> decides the declarative meaning of a desired state that the checks of the code
  have: it reports no difference exactly when the snapshot meets the state, with and without \<open>--apply\<close>.
  This meaning is weaker than the documented one, and by exactly one condition: in \<open>vlan_bridge\<close>, and in
  \<open>wg_vxlan_bridge\<close> with an uplink, an uplink that is up but no port of the bridge is reported as no
  difference, although the README asks for it.\<close>

theorem verify_state_decides:
  "(fst (verify_state sys runs ds rs ap) = 0 \<longleftrightarrow> state_met ds rs)
   \<and> (documented_met ds rs \<longleftrightarrow> fst (verify_state sys runs ds rs ap) = 0 \<and> \<not> uplink_outside ds rs)"
proof -
  obtain d fail out0 fail0 out new where
    "verify_state sys runs ds rs ap = (d, fail, out, runs @ new)" "d = 0 \<longleftrightarrow> state_met ds rs"
    by (rule verify_state_outcome [of sys runs ds rs ap])
  then show ?thesis by (simp add: documented_met_iff)
qed

text \<open>C3: \<open>--apply\<close> refines the dry run: it reports the same difference count and prints the same \<open>OK\<close>,
  \<open>MISS\<close> and \<open>ACT\<close> lines, with outcomes added, and the commands it runs are among the ones that the dry
  run prints, in that order; the dry run itself runs none.\<close>

theorem verify_state_refines_dry_run:
  "\<exists>d fail fail0 out out0 new. verify_state sys runs ds rs True = (d, fail, out, runs @ new)
     \<and> verify_state sys runs ds rs False = (d, fail0, out0, runs)
     \<and> filter is_plan out = out0 \<and> subseq new (List.map_filter argv_of out0)"
proof -
  obtain d fail out0 fail0 out new where
    "verify_state sys runs ds rs True = (d, fail, out, runs @ new)"
    "verify_state sys runs ds rs False = (d, fail0, out0, runs)"
    "filter is_plan out = out0" "subseq new (List.map_filter argv_of out0)"
    by (rule verify_state_outcome [of sys runs ds rs True])
  then show ?thesis by blast
qed

end
