(* ===== verification/Watch_Loop.thy ===== *)
theory Watch_Loop
  imports Run
begin

text \<open>
  \<open>watch.c\<close>: the long-running mode. The main thread waits on a pipe, drains it, waits until the
  pipe has been quiet for \<open>debounce_ms\<close>, and runs once; the link monitor (\<open>nlmon\<close>, a library of
  its own), signals and \<open>netrec_watch_stop\<close> write to the pipe at any time. The interleaving is
  the step relation \<open>wstep\<close>: one rule per branch of the loop and one per outside event. The
  answers of \<open>pipe\<close>, \<open>fcntl\<close>, \<open>sigaction\<close>, \<open>nlmon_run\<close> and \<open>nlmon_subscribe\<close> are parameters.
\<close>

section \<open>The watch object\<close>

definition NETREC_WATCH_DEBOUNCE_MS :: int where "NETREC_WATCH_DEBOUNCE_MS = 500"

text \<open>The disposition of a signal: the handler \<open>watch_signal\<close>, or any other one. Number 0 stands for a
  \<open>struct sigaction\<close> of zero bytes, which is the default action.\<close>

datatype disposition = Watch_signal | Other_action nat

text \<open>The pipe is the number of bytes in it; \<open>wt_open\<close> says that both ends are open. \<open>wt_sig_global\<close>
  is \<open>g_sig_watch == watch\<close>; \<open>wt_int\<close> and \<open>wt_term\<close> are the dispositions that \<open>SIGINT\<close> and \<open>SIGTERM\<close> have in
  the process, \<open>wt_old_int\<close> and \<open>wt_old_term\<close> the saved ones.\<close>

record watch =
  wt_run :: netrec_run_cfg
  wt_debounce_ms :: int
  wt_manage_nlmon :: bool
  wt_manage_signals :: bool
  wt_sig_installed :: bool
  wt_sig_global :: bool
  wt_int :: disposition
  wt_term :: disposition
  wt_old_int :: disposition
  wt_old_term :: disposition
  wt_nlmon_started :: bool
  wt_sub :: bool
  wt_stop :: bool
  wt_pipe :: nat
  wt_open :: bool

record netrec_watch_opts =
  wo_debounce_ms :: int
  wo_manage_nlmon :: bool
  wo_manage_signals :: bool

text \<open>A byte is written unless the pipe is full (\<open>EAGAIN\<close>).\<close>

definition wake_watch :: "nat \<Rightarrow> watch \<Rightarrow> watch" where
  "wake_watch cap w = (if \<not> wt_open w then w
     else if wt_pipe w < cap then w\<lparr>wt_pipe := wt_pipe w + 1\<rparr> else w)"

definition watch_signal :: "nat \<Rightarrow> watch \<Rightarrow> watch" where
  "watch_signal cap w = (if \<not> wt_sig_global w then w else wake_watch cap (w\<lparr>wt_stop := True\<rparr>))"

definition watch_nlmon_cb :: "nat \<Rightarrow> watch \<Rightarrow> watch" where
  "watch_nlmon_cb cap w = wake_watch cap w"

text \<open>Reads of up to 128 bytes until the pipe is empty.\<close>

function drain_loop :: "nat \<Rightarrow> nat" where
  "drain_loop n = (if n = 0 then 0 else drain_loop (n - min n 128))"
  by pat_completeness auto
termination
  by (relation "measure id") auto

declare drain_loop.simps [simp del]

definition watch_drain :: "watch \<Rightarrow> watch" where
  "watch_drain w = w\<lparr>wt_pipe := drain_loop (wt_pipe w)\<rparr>"

text \<open>\<open>sigaction\<close> for \<open>SIGINT\<close> and for \<open>SIGTERM\<close>, each of which may fail; when the second fails the first
  is undone. The results of the calls that put a saved disposition back are not looked at by the
  code; these calls succeed, since the same signal was set before and the saved structure is valid.\<close>

definition watch_install_signals ::
  "errno option \<Rightarrow> errno option \<Rightarrow> watch \<Rightarrow> errno option \<times> watch" where
  "watch_install_signals sigint sigterm w =
     (let w = w\<lparr>wt_old_int := Other_action 0, wt_old_term := Other_action 0\<rparr> in
      case sigint of
        Some e \<Rightarrow> (Some e, w)
      | None \<Rightarrow>
          let w = w\<lparr>wt_old_int := wt_int w, wt_int := Watch_signal\<rparr> in
          (case sigterm of
             Some e \<Rightarrow> (Some e, w\<lparr>wt_int := wt_old_int w\<rparr>)
           | None \<Rightarrow>
               let w = w\<lparr>wt_old_term := wt_term w, wt_term := Watch_signal\<rparr> in
               (None, w\<lparr>wt_sig_global := True, wt_sig_installed := True\<rparr>)))"

definition watch_uninstall_signals :: "watch \<Rightarrow> watch" where
  "watch_uninstall_signals w = (if \<not> wt_sig_installed w then w
     else let w = w\<lparr>wt_sig_global := False\<rparr>;
              w = w\<lparr>wt_term := wt_old_term w\<rparr>;
              w = w\<lparr>wt_int := wt_old_int w\<rparr>
          in w\<lparr>wt_sig_installed := False\<rparr>)"

text \<open>The result of \<open>nlmon_unsubscribe\<close> is ignored, as in the code: the watch forgets its subscription.\<close>

definition watch_cleanup_runtime :: "watch \<Rightarrow> watch" where
  "watch_cleanup_runtime w =
     (let w = (if wt_sub w then w\<lparr>wt_sub := False\<rparr> else w);
          w = (if wt_nlmon_started w then w\<lparr>wt_nlmon_started := False\<rparr> else w)
      in watch_uninstall_signals w)"

text \<open>\<open>netrec_watch_open\<close>; \<open>sg\<close> holds the dispositions of \<open>SIGINT\<close> and \<open>SIGTERM\<close> at that time, \<open>pipe_ok\<close> and
  \<open>nonblock_ok\<close> are the answers of \<open>pipe\<close> and \<open>fcntl\<close>.\<close>

definition netrec_watch_open ::
  "disposition \<times> disposition \<Rightarrow> bool \<Rightarrow> bool \<Rightarrow> netrec_run_cfg \<Rightarrow> netrec_watch_opts option \<Rightarrow> watch option" where
  "netrec_watch_open sg pipe_ok nonblock_ok cfg opts =
     (let w = \<lparr>wt_run = cfg,
        wt_debounce_ms = (case opts of
            Some oo \<Rightarrow> if wo_debounce_ms oo \<ge> 0 then wo_debounce_ms oo else NETREC_WATCH_DEBOUNCE_MS
          | None \<Rightarrow> NETREC_WATCH_DEBOUNCE_MS),
        wt_manage_nlmon = (case opts of Some oo \<Rightarrow> wo_manage_nlmon oo | None \<Rightarrow> True),
        wt_manage_signals = (case opts of Some oo \<Rightarrow> wo_manage_signals oo | None \<Rightarrow> True),
        wt_sig_installed = False, wt_sig_global = False, wt_int = fst sg, wt_term = snd sg,
        wt_old_int = Other_action 0, wt_old_term = Other_action 0, wt_nlmon_started = False, wt_sub = False,
        wt_stop = False, wt_pipe = 0, wt_open = True\<rparr> in
      if \<not> pipe_ok then None else if \<not> nonblock_ok then None else Some w)"

definition netrec_watch_stop :: "nat \<Rightarrow> watch \<Rightarrow> watch" where
  "netrec_watch_stop cap w = wake_watch cap (w\<lparr>wt_stop := True\<rparr>)"

definition netrec_watch_close :: "watch \<Rightarrow> watch" where
  "netrec_watch_close w = (watch_cleanup_runtime w)\<lparr>wt_open := False\<rparr>"

section \<open>The loop\<close>

text \<open>The answers of the library and the system during the start.\<close>

record start_env =
  se_sigint :: "errno option"
  se_sigterm :: "errno option"
  se_nlmon_run :: bool
  se_subscribe :: bool

text \<open>\<open>netrec_watch_loop\<close> up to the \<open>while\<close>: \<open>Inl\<close> is the early return with status 1.\<close>

definition loop_start :: "nat \<Rightarrow> start_env \<Rightarrow> watch \<Rightarrow> watch + watch" where
  "loop_start cap e w0 =
     (let w0 = w0\<lparr>wt_stop := False\<rparr> in
      case (if wt_manage_signals w0 then watch_install_signals (se_sigint e) (se_sigterm e) w0
            else (None, w0)) of
        (Some _, w) \<Rightarrow> Inl w
      | (None, w) \<Rightarrow>
          if wt_manage_nlmon w \<and> \<not> se_nlmon_run e then Inl (watch_cleanup_runtime w)
          else let w = (if wt_manage_nlmon w then w\<lparr>wt_nlmon_started := True\<rparr> else w) in
            if \<not> se_subscribe e then Inl (watch_cleanup_runtime w)
            else Inr (wake_watch cap (w\<lparr>wt_sub := True\<rparr>)))"

text \<open>The control points of the loop: the test of \<open>while\<close>, the wait for an event, the test after
  the first drain, the wait for quiet, the test after a drain there, the run, and the end.\<close>

datatype wpc = At_while | At_wait | After_drain | At_debounce | After_debounce_drain
  | Before_run | In_run | At_exit | Returned

text \<open>\<open>wc_runs\<close> collects the return values of \<open>netrec_run_once\<close>. \<open>wc_fresh\<close> records that an event
  arrived after the last run started, the first wake-up included; no rule reads it.\<close>

record wconf =
  wc_pc :: wpc
  wc_watch :: watch
  wc_rc :: int
  wc_runs :: "int list"
  wc_fresh :: bool

inductive wstep :: "nat \<Rightarrow> wconf \<Rightarrow> wconf \<Rightarrow> bool" for cap :: nat where
  while_stop: "wc_pc c = At_while \<Longrightarrow> wt_stop (wc_watch c) \<Longrightarrow> wstep cap c (c\<lparr>wc_pc := At_exit\<rparr>)"
| while_go: "wc_pc c = At_while \<Longrightarrow> \<not> wt_stop (wc_watch c) \<Longrightarrow> wstep cap c (c\<lparr>wc_pc := At_wait\<rparr>)"
| wait_error: "wc_pc c = At_wait \<Longrightarrow> wstep cap c (c\<lparr>wc_pc := At_exit, wc_rc := 1\<rparr>)"
| wait_none: "wc_pc c = At_wait \<Longrightarrow> wt_pipe (wc_watch c) = 0 \<Longrightarrow>
    wstep cap c (c\<lparr>wc_pc := At_while\<rparr>)"
| wait_event: "wc_pc c = At_wait \<Longrightarrow> 0 < wt_pipe (wc_watch c) \<Longrightarrow>
    wstep cap c (c\<lparr>wc_pc := After_drain, wc_watch := watch_drain (wc_watch c)\<rparr>)"
| drain_stop: "wc_pc c = After_drain \<Longrightarrow> wt_stop (wc_watch c) \<Longrightarrow> wstep cap c (c\<lparr>wc_pc := At_exit\<rparr>)"
| drain_go: "wc_pc c = After_drain \<Longrightarrow> \<not> wt_stop (wc_watch c) \<Longrightarrow>
    wstep cap c (c\<lparr>wc_pc := At_debounce\<rparr>)"
| debounce_error: "wc_pc c = At_debounce \<Longrightarrow>
    wstep cap c (c\<lparr>wc_pc := Before_run, wc_rc := 1, wc_watch := (wc_watch c)\<lparr>wt_stop := True\<rparr>\<rparr>)"
| debounce_quiet: "wc_pc c = At_debounce \<Longrightarrow> wt_pipe (wc_watch c) = 0 \<Longrightarrow>
    wstep cap c (c\<lparr>wc_pc := Before_run\<rparr>)"
| debounce_event: "wc_pc c = At_debounce \<Longrightarrow> 0 < wt_pipe (wc_watch c) \<Longrightarrow>
    wstep cap c (c\<lparr>wc_pc := After_debounce_drain, wc_watch := watch_drain (wc_watch c)\<rparr>)"
| debounce_stop: "wc_pc c = After_debounce_drain \<Longrightarrow> wt_stop (wc_watch c) \<Longrightarrow>
    wstep cap c (c\<lparr>wc_pc := Before_run\<rparr>)"
| debounce_again: "wc_pc c = After_debounce_drain \<Longrightarrow> \<not> wt_stop (wc_watch c) \<Longrightarrow>
    wstep cap c (c\<lparr>wc_pc := At_debounce\<rparr>)"
| run_stop: "wc_pc c = Before_run \<Longrightarrow> wt_stop (wc_watch c) \<Longrightarrow> wstep cap c (c\<lparr>wc_pc := At_exit\<rparr>)"
| run_go: "wc_pc c = Before_run \<Longrightarrow> \<not> wt_stop (wc_watch c) \<Longrightarrow>
    wstep cap c (c\<lparr>wc_pc := In_run, wc_fresh := False\<rparr>)"
| run_done: "wc_pc c = In_run \<Longrightarrow>
    wstep cap c (c\<lparr>wc_pc := At_while, wc_runs := wc_runs c @ [rc]\<rparr>)"
| loop_exit: "wc_pc c = At_exit \<Longrightarrow>
    wstep cap c (c\<lparr>wc_pc := Returned, wc_watch := watch_cleanup_runtime (wc_watch c)\<rparr>)"
| link_event: "wt_sub (wc_watch c) \<Longrightarrow>
    wstep cap c (c\<lparr>wc_watch := watch_nlmon_cb cap (wc_watch c), wc_fresh := True\<rparr>)"
| signal_event: "wt_int (wc_watch c) = Watch_signal \<or> wt_term (wc_watch c) = Watch_signal \<Longrightarrow>
    wstep cap c (c\<lparr>wc_watch := watch_signal cap (wc_watch c)\<rparr>)"
| stop_call: "wt_open (wc_watch c) \<Longrightarrow>
    wstep cap c (c\<lparr>wc_watch := netrec_watch_stop cap (wc_watch c)\<rparr>)"

definition loop_init :: "watch \<Rightarrow> wconf" where
  "loop_init w = \<lparr>wc_pc = At_while, wc_watch = w, wc_rc = 0, wc_runs = [], wc_fresh = True\<rparr>"

text \<open>\<open>netrec_watch\<close>: the options it passes, and the configurations its loop reaches.\<close>

definition watch_opts :: "int \<Rightarrow> netrec_watch_opts" where
  "watch_opts debounce_ms =
     \<lparr>wo_debounce_ms = debounce_ms, wo_manage_nlmon = True, wo_manage_signals = True\<rparr>"

abbreviation wsteps :: "nat \<Rightarrow> wconf \<Rightarrow> wconf \<Rightarrow> bool" where
  "wsteps cap \<equiv> (wstep cap)\<^sup>*\<^sup>*"

definition netrec_watch ::
  "disposition \<times> disposition \<Rightarrow> nat \<Rightarrow> bool \<Rightarrow> bool \<Rightarrow> start_env \<Rightarrow> netrec_run_cfg \<Rightarrow> int \<Rightarrow> wconf \<Rightarrow> bool" where
  "netrec_watch sg cap pipe_ok nonblock_ok e cfg debounce_ms c \<longleftrightarrow>
     (\<exists>w w'. netrec_watch_open sg pipe_ok nonblock_ok cfg (Some (watch_opts debounce_ms)) = Some w
        \<and> loop_start cap e w = Inr w' \<and> wsteps cap (loop_init w') c)"

end
