(* ===== verification/Watch_Laws.thy ===== *)
theory Watch_Laws
  imports Watch_Loop
begin

text \<open>
  What the watch loop guarantees in every interleaving: no event is lost, no run starts after a
  stop request, a run starts only after a quiet poll, and the loop returns with the signal
  handlers, the monitor and the subscription undone.
\<close>

section \<open>Invariants\<close>

lemma drain_loop_zero [simp]: "drain_loop n = 0"
  by (induction n rule: drain_loop.induct) (simp add: drain_loop.simps)

lemma wake_watch_simps [simp]:
  "wt_stop (wake_watch cap w) = wt_stop w"
  "wt_open (wake_watch cap w) = wt_open w"
  "wt_sub (wake_watch cap w) = wt_sub w"
  "wt_nlmon_started (wake_watch cap w) = wt_nlmon_started w"
  "wt_sig_installed (wake_watch cap w) = wt_sig_installed w"
  "wt_sig_global (wake_watch cap w) = wt_sig_global w"
  "wt_int (wake_watch cap w) = wt_int w" "wt_term (wake_watch cap w) = wt_term w"
  "wt_old_int (wake_watch cap w) = wt_old_int w" "wt_old_term (wake_watch cap w) = wt_old_term w"
  "wt_debounce_ms (wake_watch cap w) = wt_debounce_ms w"
  "wt_run (wake_watch cap w) = wt_run w"
  by (simp_all add: wake_watch_def)

lemma wake_watch_pipe: "0 < cap \<Longrightarrow> wt_open w \<Longrightarrow> 0 < wt_pipe (wake_watch cap w)"
  by (auto simp: wake_watch_def)

lemma wake_watch_pipe_mono: "wt_pipe w \<le> wt_pipe (wake_watch cap w)"
  by (simp add: wake_watch_def)

text \<open>Nothing that the loop set up is left: no subscription, no monitor, and the signals have the
  dispositions \<open>sg\<close> that they had before.\<close>

definition quiescent :: "disposition \<times> disposition \<Rightarrow> watch \<Rightarrow> bool" where
  "quiescent sg w \<longleftrightarrow> \<not> wt_sub w \<and> \<not> wt_nlmon_started w \<and> \<not> wt_sig_installed w \<and> \<not> wt_sig_global w
     \<and> wt_int w = fst sg \<and> wt_term w = snd sg"

text \<open>The dispositions that the process had are in place or saved.\<close>

definition sig_saved :: "disposition \<times> disposition \<Rightarrow> watch \<Rightarrow> bool" where
  "sig_saved sg w \<longleftrightarrow> (wt_sig_global w \<longrightarrow> wt_sig_installed w)
     \<and> (if wt_sig_installed w then wt_old_int w = fst sg \<and> wt_old_term w = snd sg
        else wt_int w = fst sg \<and> wt_term w = snd sg)"

definition winv :: "disposition \<times> disposition \<Rightarrow> wconf \<Rightarrow> bool" where
  "winv sg c \<longleftrightarrow> wt_open (wc_watch c) \<and> sig_saved sg (wc_watch c)
     \<and> (if wc_pc c = Returned then quiescent sg (wc_watch c) else wt_sub (wc_watch c))
     \<and> (wc_pc c = At_wait \<and> wt_stop (wc_watch c) \<longrightarrow> 0 < wt_pipe (wc_watch c))
     \<and> (wc_fresh c \<longrightarrow> 0 < wt_pipe (wc_watch c) \<or> wt_stop (wc_watch c)
         \<or> wc_pc c \<in> {After_drain, At_debounce, After_debounce_drain, Before_run, At_exit, Returned})"

lemma cleanup_simps [simp]:
  "wt_open (watch_cleanup_runtime w) = wt_open w"
  "wt_stop (watch_cleanup_runtime w) = wt_stop w"
  "wt_pipe (watch_cleanup_runtime w) = wt_pipe w"
  by (simp_all add: watch_cleanup_runtime_def watch_uninstall_signals_def Let_def)

lemma cleanup_quiescent: "sig_saved sg w \<Longrightarrow> quiescent sg (watch_cleanup_runtime w)"
  by (auto simp: quiescent_def sig_saved_def watch_cleanup_runtime_def watch_uninstall_signals_def Let_def split: if_splits)

lemma quiescent_saved: "quiescent sg w \<Longrightarrow> sig_saved sg w"
  by (simp add: quiescent_def sig_saved_def)

text \<open>Whether the handlers can be installed or not, the old dispositions are in place or saved.\<close>

lemma install_signals_saved:
  assumes "quiescent sg w" and "watch_install_signals si st w = (r, w')"
  shows "sig_saved sg w'" and "r \<noteq> None \<Longrightarrow> quiescent sg w'" and "wt_sub w' = wt_sub w"
    and "wt_nlmon_started w' = wt_nlmon_started w" and "wt_open w' = wt_open w" and "wt_stop w' = wt_stop w"
  using assms
  by (auto simp: watch_install_signals_def quiescent_def sig_saved_def Let_def split: option.splits)

lemma wstep_winv:
  assumes "wstep cap c c'" and "winv sg c" and "0 < cap"
  shows "winv sg c'"
  using assms(1)
proof cases
  case link_event
  with assms(2,3) show ?thesis
    using wake_watch_pipe [of cap "wc_watch c"]
    by (auto simp: winv_def watch_nlmon_cb_def quiescent_def sig_saved_def split: if_splits)
next
  case signal_event
  with assms(2,3) show ?thesis
    using wake_watch_pipe [of cap "(wc_watch c)\<lparr>wt_stop := True\<rparr>"]
    by (auto simp: winv_def watch_signal_def quiescent_def sig_saved_def split: if_splits)
next
  case stop_call
  with assms(2,3) show ?thesis
    using wake_watch_pipe [of cap "(wc_watch c)\<lparr>wt_stop := True\<rparr>"]
    by (auto simp: winv_def netrec_watch_stop_def quiescent_def sig_saved_def split: if_splits)
next
  case loop_exit
  with assms(2) show ?thesis
    using cleanup_quiescent [of sg "wc_watch c"] by (auto simp: winv_def intro: quiescent_saved)
qed (use assms(2) in \<open>auto simp: winv_def watch_drain_def sig_saved_def quiescent_def split: if_splits\<close>)

lemma loop_start_Inr:
  assumes "loop_start cap e w = Inr w'" and "wt_open w" and "0 < cap" and "quiescent sg w"
  shows "wt_open w'" and "0 < wt_pipe w'" and "wt_sub w'" and "\<not> wt_stop w'" and "sig_saved sg w'"
proof -
  let ?w = "w\<lparr>wt_stop := False\<rparr>"
  obtain r v where v: "(if wt_manage_signals ?w then watch_install_signals (se_sigint e) (se_sigterm e) ?w
      else (None, ?w)) = (r, v)" by fastforce
  have "quiescent sg ?w" using assms(4) by (simp add: quiescent_def)
  then have "sig_saved sg v" "wt_open v" "\<not> wt_stop v"
    using v install_signals_saved [of sg ?w] quiescent_saved assms(2) by (auto split: if_splits)
  moreover have "w' = wake_watch cap (v\<lparr>wt_nlmon_started := wt_manage_nlmon v \<or> wt_nlmon_started v, wt_sub := True\<rparr>)"
    using assms(1) v by (auto simp: loop_start_def Let_def split: if_splits option.splits)
  ultimately show "wt_open w'" and "0 < wt_pipe w'" and "wt_sub w'" and "\<not> wt_stop w'" and "sig_saved sg w'"
    using wake_watch_pipe [OF assms(3)] by (simp_all add: sig_saved_def)
qed

lemma loop_start_Inl:
  assumes "loop_start cap e w = Inl w'" and "quiescent sg w"
  shows "quiescent sg w'"
proof -
  let ?w = "w\<lparr>wt_stop := False\<rparr>"
  obtain r v where v: "(if wt_manage_signals ?w then watch_install_signals (se_sigint e) (se_sigterm e) ?w
      else (None, ?w)) = (r, v)" by fastforce
  have "quiescent sg ?w" using assms(2) by (simp add: quiescent_def)
  then have saved: "sig_saved sg v" "r \<noteq> None \<Longrightarrow> quiescent sg v"
    using v install_signals_saved [of sg ?w] quiescent_saved by (auto split: if_splits)
  then have "quiescent sg (watch_cleanup_runtime v)"
    "quiescent sg (watch_cleanup_runtime (v\<lparr>wt_nlmon_started := True\<rparr>))"
    by (auto intro!: cleanup_quiescent simp: sig_saved_def)
  with saved(2) show ?thesis
    using assms(1) v by (auto simp: loop_start_def Let_def split: if_splits option.splits)
qed

lemma loop_init_winv:
  assumes "loop_start cap e w = Inr w'" and "wt_open w" and "0 < cap" and "quiescent sg w"
  shows "winv sg (loop_init w')"
  using loop_start_Inr [OF assms] by (simp add: winv_def loop_init_def)

lemma wsteps_winv:
  assumes "wsteps cap c c'" and "winv sg c" and "0 < cap"
  shows "winv sg c'"
  using assms by (induction rule: rtranclp_induct) (auto intro: wstep_winv)

lemma watch_open_facts:
  "netrec_watch_open sg a b cfg oo = Some w \<Longrightarrow> wt_open w \<and> quiescent sg w \<and> wt_run w = cfg"
  by (auto simp: netrec_watch_open_def quiescent_def Let_def split: if_splits)

lemma netrec_watch_winv: "netrec_watch sg cap a b e cfg ms c \<Longrightarrow> 0 < cap \<Longrightarrow> winv sg c"
  unfolding netrec_watch_def
  by (auto intro: wsteps_winv loop_init_winv dest!: watch_open_facts)

section \<open>Stopping\<close>

text \<open>A stop request is never withdrawn, and once it is set and no run is in progress the
  sequence of runs is final.\<close>

lemma wstep_stop:
  assumes "wstep cap c c'" and "wt_stop (wc_watch c)" and "wc_pc c \<noteq> In_run"
  shows "wt_stop (wc_watch c')" and "wc_pc c' \<noteq> In_run" and "wc_runs c' = wc_runs c"
  using assms
  by (cases; simp add: watch_drain_def watch_nlmon_cb_def watch_signal_def netrec_watch_stop_def; fail)+

lemma wsteps_stop:
  assumes "wsteps cap c c'" and "wt_stop (wc_watch c)" and "wc_pc c \<noteq> In_run"
  shows "wc_runs c' = wc_runs c \<and> wt_stop (wc_watch c') \<and> wc_pc c' \<noteq> In_run"
  using assms by (induction rule: rtranclp_induct) (auto dest: wstep_stop)

section \<open>Progress of the main thread\<close>

text \<open>The step of the main thread when no call fails and nothing else happens; a run returns \<open>rc\<close>.
  It waits (stays) only with an empty pipe.\<close>

definition quiet_step :: "int \<Rightarrow> wconf \<Rightarrow> wconf" where
  "quiet_step rc c = (let w = wc_watch c in case wc_pc c of
     At_while \<Rightarrow> c\<lparr>wc_pc := (if wt_stop w then At_exit else At_wait)\<rparr>
   | At_wait \<Rightarrow> if 0 < wt_pipe w then c\<lparr>wc_pc := After_drain, wc_watch := watch_drain w\<rparr> else c
   | After_drain \<Rightarrow> c\<lparr>wc_pc := (if wt_stop w then At_exit else At_debounce)\<rparr>
   | At_debounce \<Rightarrow> if 0 < wt_pipe w
       then c\<lparr>wc_pc := After_debounce_drain, wc_watch := watch_drain w\<rparr>
       else c\<lparr>wc_pc := Before_run\<rparr>
   | After_debounce_drain \<Rightarrow> c\<lparr>wc_pc := (if wt_stop w then Before_run else At_debounce)\<rparr>
   | Before_run \<Rightarrow> if wt_stop w then c\<lparr>wc_pc := At_exit\<rparr> else c\<lparr>wc_pc := In_run, wc_fresh := False\<rparr>
   | In_run \<Rightarrow> c\<lparr>wc_pc := At_while, wc_runs := wc_runs c @ [rc]\<rparr>
   | At_exit \<Rightarrow> c\<lparr>wc_pc := Returned, wc_watch := watch_cleanup_runtime w\<rparr>
   | Returned \<Rightarrow> c)"

lemma quiet_step_wsteps: "wsteps cap c (quiet_step rc c)"
proof (cases "wc_pc c")
  case At_wait
  then show ?thesis
    by (cases "0 < wt_pipe (wc_watch c)")
       (auto simp: quiet_step_def intro: r_into_rtranclp wait_event)
next
  case At_debounce
  then show ?thesis
    by (cases "0 < wt_pipe (wc_watch c)")
       (auto simp: quiet_step_def intro: r_into_rtranclp debounce_event debounce_quiet)
qed (auto simp: quiet_step_def Let_def intro!: r_into_rtranclp
      intro: while_stop while_go drain_stop drain_go debounce_stop debounce_again run_stop run_go
        run_done loop_exit)

lemma quiet_steps_wsteps: "wsteps cap c ((quiet_step rc ^^ n) c)"
  by (induction n) (auto intro: rtranclp_trans quiet_step_wsteps)

text \<open>A stop request ends the loop within four steps of the main thread.\<close>

lemma stop_leads_to_return:
  assumes "winv sg c" and "wt_stop (wc_watch c)"
  shows "\<exists>n \<le> 4. wc_pc ((quiet_step rc ^^ n) c) = Returned"
proof -
  note run = quiet_step_def numeral_eq_Suc watch_drain_def
  show ?thesis
  proof (cases "wc_pc c")
    case At_while
    with assms(2) show ?thesis by (intro exI [of _ 2]) (simp add: run)
  next
    case At_wait
    with assms show ?thesis by (intro exI [of _ 3]) (simp add: run winv_def)
  next
    case After_drain
    with assms(2) show ?thesis by (intro exI [of _ 2]) (simp add: run)
  next
    case At_debounce
    with assms(2) show ?thesis
      by (intro exI [of _ "if wt_pipe (wc_watch c) = 0 then 3 else 4"]) (simp add: run)
  next
    case After_debounce_drain
    with assms(2) show ?thesis by (intro exI [of _ 3]) (simp add: run)
  next
    case Before_run
    with assms(2) show ?thesis by (intro exI [of _ 2]) (simp add: run)
  next
    case In_run
    with assms(2) show ?thesis by (intro exI [of _ 3]) (simp add: run)
  next
    case At_exit
    then show ?thesis by (intro exI [of _ 1]) (simp add: run)
  next
    case Returned
    then show ?thesis by (intro exI [of _ 0]) simp
  qed
qed

text \<open>A schedule of the main thread and the link monitor, and the number of steps of the main thread
  until the next run starts when no further event arrives. An event in between delays the run by at
  most two steps.\<close>

datatype turn = Main | Link

fun take_turn :: "nat \<Rightarrow> int \<Rightarrow> turn \<Rightarrow> wconf \<Rightarrow> wconf" where
  "take_turn cap rc Main c = quiet_step rc c"
| "take_turn cap rc Link c = c\<lparr>wc_watch := watch_nlmon_cb cap (wc_watch c), wc_fresh := True\<rparr>"

definition take_turns :: "nat \<Rightarrow> int \<Rightarrow> turn list \<Rightarrow> wconf \<Rightarrow> wconf" where
  "take_turns cap rc ts c = fold (take_turn cap rc) ts c"

definition unserved :: "wconf \<Rightarrow> bool" where
  "unserved c \<longleftrightarrow> wc_fresh c \<and> \<not> wt_stop (wc_watch c) \<and> wc_pc c \<notin> {At_exit, Returned}"

definition until_run :: "wconf \<Rightarrow> nat" where
  "until_run c = (let drained = (wt_pipe (wc_watch c) = 0) in case wc_pc c of
     At_while \<Rightarrow> 5 | At_wait \<Rightarrow> 4 | After_drain \<Rightarrow> if drained then 3 else 5
   | At_debounce \<Rightarrow> if drained then 2 else 4 | After_debounce_drain \<Rightarrow> if drained then 3 else 5
   | Before_run \<Rightarrow> 1 | In_run \<Rightarrow> 6 | _ \<Rightarrow> 0)"

lemma unserved_pending: "winv sg c \<Longrightarrow> unserved c \<Longrightarrow> wc_pc c \<in> {At_while, At_wait, In_run} \<Longrightarrow> 0 < wt_pipe (wc_watch c)"
  by (auto simp: winv_def unserved_def)

lemma main_turn:
  assumes "winv sg c" and "unserved c" and "wc_pc c \<noteq> Before_run"
  shows "unserved (quiet_step rc c)" and "until_run c = Suc (until_run (quiet_step rc c))"
  using assms(2,3) unserved_pending [OF assms(1,2)]
  by (cases "wc_pc c"; simp add: unserved_def until_run_def quiet_step_def watch_drain_def Let_def)+

lemma link_turn:
  assumes "unserved c"
  shows "unserved (take_turn cap rc Link c)" and "until_run (take_turn cap rc Link c) \<le> until_run c + 2"
  using assms
  by (auto simp: unserved_def until_run_def watch_nlmon_cb_def Let_def split: wpc.splits)

lemma take_turn_wsteps: "winv sg c \<Longrightarrow> unserved c \<Longrightarrow> wsteps cap c (take_turn cap rc t c)"
  using quiet_step_wsteps link_event [of c cap]
  by (cases t) (auto simp: winv_def unserved_def intro: r_into_rtranclp)

lemma turns_lead_to_run:
  assumes "winv sg c" and "unserved c" and "0 < cap"
    and "until_run c + 2 * count_list ts Link \<le> count_list ts Main"
  shows "\<exists>n. Suc n \<le> length ts \<and> ts ! n = Main \<and> wsteps cap c (take_turns cap rc (take (Suc n) ts) c)
    \<and> wc_pc (take_turns cap rc (take (Suc n) ts) c) = In_run \<and> \<not> wc_fresh (take_turns cap rc (take (Suc n) ts) c)"
  using assms
proof (induction ts arbitrary: c)
  case Nil
  then show ?case by (auto simp: until_run_def unserved_def Let_def split: wpc.splits if_splits)
next
  case (Cons t ts)
  let ?c = "take_turn cap rc t c"
  have st: "wsteps cap c ?c" by (rule take_turn_wsteps [OF Cons.prems(1,2)])
  show ?case
  proof (cases "t = Main \<and> wc_pc c = Before_run")
    case True
    with Cons.prems(2) st show ?thesis
      by (intro exI [of _ 0]) (simp add: take_turns_def quiet_step_def unserved_def)
  next
    case False
    have inv: "winv sg ?c" by (rule wsteps_winv [OF st Cons.prems(1,3)])
    have "unserved ?c \<and> until_run ?c + 2 * count_list ts Link \<le> count_list ts Main"
    proof (cases t)
      case Main
      with False main_turn [OF Cons.prems(1,2), of rc] Cons.prems(4) show ?thesis by simp
    next
      case Link
      with link_turn [OF Cons.prems(2), of cap rc] Cons.prems(4) show ?thesis by simp
    qed
    with Cons.IH [OF inv] Cons.prems(3) obtain n where n: "Suc n \<le> length ts" "ts ! n = Main"
      "wsteps cap ?c (take_turns cap rc (take (Suc n) ts) ?c)"
      "wc_pc (take_turns cap rc (take (Suc n) ts) ?c) = In_run"
      "\<not> wc_fresh (take_turns cap rc (take (Suc n) ts) ?c)" by blast
    with st show ?thesis
      by (intro exI [of _ "Suc n"]) (auto simp: take_turns_def intro: rtranclp_trans)
  qed
qed

lemma until_run_le: "until_run c \<le> 6"
  by (simp add: until_run_def Let_def split: wpc.split)

section \<open>Properties of the watch\<close>

text \<open>C24: no event is lost: in every configuration that a watch can reach, an event (or the initial
  wake-up) that arrived after the last run started is still visible in the pipe, or the loop is
  already on its way to the next run or to its end.\<close>

theorem watch_event_pending:
  assumes "netrec_watch sg cap a b e cfg ms c" and "0 < cap" and "wc_fresh c" and "\<not> wt_stop (wc_watch c)"
  shows "0 < wt_pipe (wc_watch c)
    \<or> wc_pc c \<in> {After_drain, At_debounce, After_debounce_drain, Before_run, At_exit, Returned}"
  using netrec_watch_winv [OF assms(1,2)] assms(3,4) by (auto simp: winv_def)

text \<open>C6: an event that has not been served is served. From every configuration that a watch can reach in
  which an event has arrived since the last run started (also one that arrived during a run that is still
  in progress), the next run starts: in every schedule of further link events and steps of the main
  thread, once the main thread has taken six steps, and two more for each further event. The schedules
  are those in which no call of the loop fails, polls return only with an event or after the debounce
  interval, a run in progress returns, and nobody asks the watch to stop. Without a bound on the events
  there is no such guarantee, since every event restarts the debounce interval.\<close>

theorem watch_event_served:
  assumes "netrec_watch sg cap a b e cfg ms c" and "0 < cap" and "wc_fresh c" and "\<not> wt_stop (wc_watch c)"
    and "wc_pc c \<notin> {At_exit, Returned}" and "6 + 2 * count_list ts Link \<le> count_list ts Main"
  shows "\<exists>n. Suc n \<le> length ts \<and> ts ! n = Main \<and> wsteps cap c (take_turns cap rc (take (Suc n) ts) c)
    \<and> wc_pc (take_turns cap rc (take (Suc n) ts) c) = In_run \<and> \<not> wc_fresh (take_turns cap rc (take (Suc n) ts) c)"
proof -
  have "unserved c" using assms(3-5) by (simp add: unserved_def)
  moreover have "until_run c + 2 * count_list ts Link \<le> count_list ts Main"
    using until_run_le [of c] assms(6) by linarith
  ultimately show ?thesis using turns_lead_to_run [OF netrec_watch_winv [OF assms(1,2)] _ assms(2)] by blast
qed

text \<open>C25: a stop request, by a signal or by \<open>netrec_watch_stop\<close>, ends the watch: the loop returns within
  four of its steps, from every configuration a watch can reach.\<close>

theorem watch_stop_returns:
  assumes "netrec_watch sg cap a b e cfg ms c" and "0 < cap" and "wt_stop (wc_watch c)"
  shows "\<exists>n \<le> 4. wsteps cap c ((quiet_step rc ^^ n) c) \<and> wc_pc ((quiet_step rc ^^ n) c) = Returned"
  using stop_leads_to_return [OF netrec_watch_winv [OF assms(1,2)] assms(3)] quiet_steps_wsteps by blast

text \<open>C27: after a stop request no new run starts: outside a run the list of completed runs is final,
  whatever happens later.\<close>

theorem watch_stop_final:
  assumes "wsteps cap c c'" and "wt_stop (wc_watch c)" and "wc_pc c \<noteq> In_run"
  shows "wc_runs c' = wc_runs c \<and> wt_stop (wc_watch c') \<and> wc_pc c' \<noteq> In_run"
  using wsteps_stop [OF assms] .

text \<open>C26: when the loop has returned, the event subscription, the monitor and the signal handlers it
  installed are gone, no handler refers to the watch any more, and \<open>SIGINT\<close> and \<open>SIGTERM\<close> have the
  dispositions that they had before the start.\<close>

theorem watch_returns_clean:
  assumes "netrec_watch sg cap a b e cfg ms c" and "0 < cap" and "wc_pc c = Returned"
  shows "\<not> wt_sub (wc_watch c) \<and> \<not> wt_nlmon_started (wc_watch c) \<and> \<not> wt_sig_installed (wc_watch c)
    \<and> \<not> wt_sig_global (wc_watch c) \<and> wt_int (wc_watch c) = fst sg \<and> wt_term (wc_watch c) = snd sg"
  using netrec_watch_winv [OF assms(1,2)] assms(3) by (auto simp: winv_def quiescent_def)

text \<open>C39: a start that fails at any point (the first or the second \<open>sigaction\<close>, the monitor, the
  subscription) leaves nothing behind: no subscription, no monitor, and \<open>SIGINT\<close> and \<open>SIGTERM\<close> have the
  dispositions that they had before, also when only one of the two handlers had been installed.\<close>

theorem watch_failed_start_clean:
  assumes "netrec_watch_open sg a b cfg oo = Some w" and "loop_start cap e w = Inl w'"
  shows "\<not> wt_sub w' \<and> \<not> wt_nlmon_started w' \<and> \<not> wt_sig_installed w' \<and> \<not> wt_sig_global w'
    \<and> wt_int w' = fst sg \<and> wt_term w' = snd sg"
  using loop_start_Inl [OF assms(2)] watch_open_facts [OF assms(1)] by (simp add: quiescent_def)

text \<open>Runs are debounced: the loop only decides to run after a poll over the whole debounce
  interval found no event.\<close>

theorem watch_debounced:
  assumes "wstep cap c c'" and "wc_pc c' = Before_run" and "wc_pc c \<noteq> Before_run"
    and "\<not> wt_stop (wc_watch c')"
  shows "wc_pc c = At_debounce \<and> wt_pipe (wc_watch c) = 0"
  using assms by cases auto

section \<open>A concrete watch\<close>

definition demo_start :: start_env where
  "demo_start = \<lparr>se_sigint = None, se_sigterm = None, se_nlmon_run = True, se_subscribe = True\<rparr>"

definition demo_run_cfg :: netrec_run_cfg where
  "demo_run_cfg = \<lparr>rc_cfg_path = None, rc_source = [], rc_uci_bin = None, rc_uci_network = None,
     rc_uci_wireless = None, rc_apply = False\<rparr>"

definition demo_sig :: "disposition \<times> disposition" where
  "demo_sig = (Other_action 0, Other_action 1)"

definition demo_watch :: watch where
  "demo_watch = the (netrec_watch_open demo_sig True True demo_run_cfg (Some (watch_opts 100)))"

text \<open>The watch after the start, and the same one after a stop request.\<close>

definition demo_conf :: wconf where
  "demo_conf = loop_init (projr (loop_start 4096 demo_start demo_watch))"

definition demo_stopped :: wconf where
  "demo_stopped = demo_conf\<lparr>wc_watch := netrec_watch_stop 4096 (wc_watch demo_conf)\<rparr>"

lemma demo_reached: "netrec_watch demo_sig 4096 True True demo_start demo_run_cfg 100 demo_conf"
proof -
  have "netrec_watch_open demo_sig True True demo_run_cfg (Some (watch_opts 100)) = Some demo_watch"
    by (simp add: demo_watch_def netrec_watch_open_def Let_def)
  moreover have "loop_start 4096 demo_start demo_watch = Inr (projr (loop_start 4096 demo_start demo_watch))"
    by (simp add: loop_start_def demo_start_def watch_install_signals_def Let_def)
  ultimately show ?thesis unfolding netrec_watch_def demo_conf_def by blast
qed

lemma demo_conf_facts:
  "wc_fresh demo_conf" "\<not> wt_stop (wc_watch demo_conf)" "wc_pc demo_conf = At_while" "wt_open (wc_watch demo_conf)"
  by (simp_all add: demo_conf_def loop_init_def loop_start_def demo_start_def watch_install_signals_def
      demo_watch_def netrec_watch_open_def watch_opts_def wake_watch_def Let_def)

lemma demo_stop_step: "wstep 4096 demo_conf demo_stopped"
  unfolding demo_stopped_def by (rule stop_call [OF demo_conf_facts(4)])

lemma demo_stopped_facts: "wt_stop (wc_watch demo_stopped)" "wc_pc demo_stopped = At_while" "wc_runs demo_stopped = []"
  using demo_conf_facts(3) by (simp_all add: demo_stopped_def netrec_watch_stop_def demo_conf_def loop_init_def)

lemma demo_stopped_reached: "netrec_watch demo_sig 4096 True True demo_start demo_run_cfg 100 demo_stopped"
  using demo_reached demo_stop_step unfolding netrec_watch_def by (blast intro: rtranclp.rtrancl_into_rtrancl)

theorem watch_event_pending_witness: "0 < wt_pipe (wc_watch demo_conf)"
  using watch_event_pending [OF demo_reached _ demo_conf_facts(1,2)] demo_conf_facts(3) by simp

theorem watch_event_served_witness:
  "\<exists>n. Suc n \<le> 9 \<and> wc_pc (take_turns 4096 0 (take (Suc n) ([Main, Main, Link] @ replicate 6 Main)) demo_conf) = In_run"
proof -
  have "6 + 2 * count_list ([Main, Main, Link] @ replicate 6 Main) Link \<le> count_list ([Main, Main, Link] @ replicate 6 Main) Main"
    by (simp add: numeral_eq_Suc)
  with watch_event_served [OF demo_reached _ demo_conf_facts(1,2), of "[Main, Main, Link] @ replicate 6 Main" 0]
    demo_conf_facts(3) show ?thesis by auto
qed

theorem watch_stop_returns_witness: "\<exists>n \<le> 4. wc_pc ((quiet_step 0 ^^ n) demo_stopped) = Returned"
  using watch_stop_returns [OF demo_stopped_reached _ demo_stopped_facts(1), of 0] by auto

theorem watch_stop_final_witness:
  "wsteps 4096 demo_stopped (quiet_step 0 demo_stopped) \<and> wc_runs (quiet_step 0 demo_stopped) = []"
  using watch_stop_final [OF quiet_step_wsteps [of 4096 demo_stopped 0] demo_stopped_facts(1)]
    demo_stopped_facts(2,3) quiet_step_wsteps by simp

theorem watch_returns_clean_witness:
  "\<exists>c. netrec_watch demo_sig 4096 True True demo_start demo_run_cfg 100 c \<and> wc_pc c = Returned \<and> \<not> wt_sub (wc_watch c)"
proof -
  let ?c = "(quiet_step 0 ^^ 2) demo_stopped"
  have r: "netrec_watch demo_sig 4096 True True demo_start demo_run_cfg 100 ?c"
    using demo_stopped_reached quiet_steps_wsteps [of 4096 demo_stopped 2 0] unfolding netrec_watch_def
    by (blast intro: rtranclp_trans)
  have p: "wc_pc ?c = Returned"
    using demo_stopped_facts(1,2) by (simp add: quiet_step_def numeral_eq_Suc)
  from watch_returns_clean [OF r _ p] r p show ?thesis by auto
qed

theorem watch_failed_start_clean_witness:
  "\<exists>w'. loop_start 4096 (demo_start\<lparr>se_sigterm := Some EINVAL\<rparr>) demo_watch = Inl w' \<and> wt_int w' = Other_action 0"
proof -
  have "netrec_watch_open demo_sig True True demo_run_cfg (Some (watch_opts 100)) = Some demo_watch"
    by (simp add: demo_watch_def netrec_watch_open_def Let_def)
  moreover obtain w' where "loop_start 4096 (demo_start\<lparr>se_sigterm := Some EINVAL\<rparr>) demo_watch = Inl w'"
    by (simp add: loop_start_def demo_start_def watch_install_signals_def demo_watch_def netrec_watch_open_def
        watch_opts_def Let_def)
  ultimately show ?thesis using watch_failed_start_clean [of demo_sig] by (auto simp: demo_sig_def)
qed

theorem watch_debounced_witness:
  "\<exists>c c'. wstep 4096 c c' \<and> wc_pc c' = Before_run \<and> wc_pc c = At_debounce \<and> wt_pipe (wc_watch c) = 0"
proof -
  let ?c = "demo_conf\<lparr>wc_pc := At_debounce, wc_watch := (wc_watch demo_conf)\<lparr>wt_pipe := 0\<rparr>\<rparr>"
  have s: "wstep 4096 ?c (?c\<lparr>wc_pc := Before_run\<rparr>)" by (rule debounce_quiet) simp_all
  from watch_debounced [OF s] s show ?thesis using demo_conf_facts(2) by (intro exI conjI) auto
qed

end
