(* ===== verification/Netlink_Codec.thy ===== *)
theory Netlink_Codec
  imports Netlink_Laws
begin

text \<open>
  An encoder for the attributes and messages of a dump, written after the layout of
  \<open>linux/netlink.h\<close> and \<open>linux/rtnetlink.h\<close>, and the proof that the reader of \<open>netlink.c\<close> recovers
  what was encoded: single integers and strings, attribute tables (also nested ones), and whole
  dumps of links, addresses and routes.
\<close>

section \<open>Integers and strings\<close>

lemma length_le [simp]: "length (le16 n) = 2" "length (le32 n) = 4"
  by (simp_all add: le16_def le32_def)

lemma le_nat_le16: "le_nat (le16 n) = n mod 65536"
  using mod_mult2_eq [of n 256 256]
  by (simp add: le_nat_def le16_def unsigned_of_nat take_bit_eq_mod)

lemma le_nat_le32: "le_nat (le32 n) = n mod 4294967296"
  using mod_mult2_eq [of n 256 16777216] mod_mult2_eq [of "n div 256" 256 65536]
    mod_mult2_eq [of "n div 65536" 256 256]
  by (simp add: le_nat_def le32_def unsigned_of_nat take_bit_eq_mod div_mult2_eq [symmetric])

lemma u_at_append:
  "u8_at (x # r) 0 = unat x" "u16_at (le16 n @ r) 0 = n mod 65536" "u32_at (le32 n @ r) 0 = n mod 4294967296"
  using le_nat_le16 [of n] le_nat_le32 [of n]
  by (simp_all add: u8_at_def u16_at_def u32_at_def le_nat_def)

text \<open>Reading behind a prefix of known length.\<close>

lemma u_at_skip:
  "length p \<le> k \<Longrightarrow> u8_at (p @ r) k = u8_at r (k - length p)"
  "length p \<le> k \<Longrightarrow> u16_at (p @ r) k = u16_at r (k - length p)"
  "length p \<le> k \<Longrightarrow> u32_at (p @ r) k = u32_at r (k - length p)"
  by (simp_all add: u8_at_def u16_at_def u32_at_def)

lemma u_at_skip_Cons:
  "0 < k \<Longrightarrow> u8_at (x # r) k = u8_at r (k - 1)"
  "0 < k \<Longrightarrow> u16_at (x # r) k = u16_at r (k - 1)"
  "0 < k \<Longrightarrow> u32_at (x # r) k = u32_at r (k - 1)"
  by (cases k; simp add: u8_at_def u16_at_def u32_at_def)+

lemmas u_at_simps = u_at_append u_at_skip u_at_skip_Cons

definition int32_ok :: "int \<Rightarrow> bool" where
  "int32_ok i \<longleftrightarrow> - 2147483648 \<le> i \<and> i < 2147483648"

definition le_int :: "int \<Rightarrow> byte list" where
  "le_int i = le32 (nat (i mod 4294967296))"

lemma length_le_int [simp]: "length (le_int i) = 4"
  by (simp add: le_int_def)

lemma u32_at_le_int: "u32_at (le_int i @ r) 0 = nat (i mod 4294967296)"
  by (simp add: le_int_def u_at_append nat_less_iff)

lemma to_int_le: "int32_ok i \<Longrightarrow> to_int (nat (i mod 4294967296)) = i"
proof (cases "0 \<le> i")
  case False
  assume "int32_ok i"
  with False have "i mod 4294967296 = i + 4294967296"
    by (intro mod_pos_pos_trivial [of "i + 4294967296" "4294967296 :: int", simplified]) (simp_all add: int32_ok_def)
  with False \<open>int32_ok i\<close> show ?thesis by (simp add: to_int_def int32_ok_def)
qed (simp add: to_int_def int32_ok_def)

definition enc_str :: "string \<Rightarrow> byte list" where
  "enc_str s = map (\<lambda>c. of_nat (of_char c)) s @ [0]"

lemma unat_char [simp]: "unat (of_nat (of_char c) :: byte) = of_char c"
  by (simp add: unsigned_of_nat take_bit_eq_mod)

lemma str_at_enc: "no_nul s \<Longrightarrow> str_at (enc_str s @ r) = s"
proof (induction s)
  case Nil
  then show ?case by (simp add: str_at_def enc_str_def)
next
  case (Cons c s)
  have "(of_nat (of_char c) :: byte) \<noteq> 0"
  proof
    assume "(of_nat (of_char c) :: byte) = 0"
    then have "of_char c = (0 :: nat)" using unat_char [of c] by simp
    also have "(0 :: nat) = of_char NUL" by simp
    finally have "c = NUL" by (simp only: of_char_eq_iff)
    with Cons.prems show False by (simp add: no_nul_def)
  qed
  with Cons show ?case by (simp add: str_at_def enc_str_def no_nul_def)
qed

section \<open>Attributes\<close>

definition pad4 :: "byte list \<Rightarrow> byte list" where
  "pad4 d = replicate (align4 (length d) - length d) 0"

definition enc_attr :: "nat \<times> byte list \<Rightarrow> byte list" where
  "enc_attr a = (case a of (t, d) \<Rightarrow> le16 (4 + length d) @ le16 t @ d @ pad4 d)"

definition enc_attrs :: "(nat \<times> byte list) list \<Rightarrow> byte list" where
  "enc_attrs as = concat (map enc_attr as)"

text \<open>The type is below \<open>NLA_F_NET_BYTEORDER\<close> and the length fits its 16 bits.\<close>

definition attr_ok :: "nat \<times> byte list \<Rightarrow> bool" where
  "attr_ok a = (case a of (t, d) \<Rightarrow> t < 16384 \<and> 4 + length d < 65536)"

lemma align4_ge: "n \<le> align4 n"
  by (simp add: align4_def)

lemma align4_add4: "align4 (4 + n) = 4 + align4 n"
  using div_add_self2 [of 4 "n + 3"] by (simp add: align4_def add.commute add.left_commute)

lemma length_enc_attr: "length (enc_attr (t, d)) = align4 (4 + length d)"
  using align4_ge [of "length d"] by (simp add: enc_attr_def pad4_def align4_add4)

lemma enc_attr_fields:
  assumes "attr_ok (t, d)"
  shows "rta_len (enc_attr (t, d) @ r) = 4 + length d" "rta_type (enc_attr (t, d) @ r) = t"
    "rta_payload (enc_attr (t, d) @ r) = int (length d)"
    "rta_data (enc_attr (t, d) @ r) = d @ pad4 d @ r"
  using assms by (simp_all add: attr_ok_def enc_attr_def rta_len_def rta_type_def rta_payload_def
      rta_data_def u_at_simps)

text \<open>The table after the loop: for each type the last attribute of that type, as a pointer to its
  encoding.\<close>

definition points :: "nat \<Rightarrow> byte list \<Rightarrow> byte list \<Rightarrow> bool" where
  "points t p d \<longleftrightarrow> (\<exists>r. p = enc_attr (t, d) @ r)"

lemma rtattr_loop_enc:
  assumes "list_all attr_ok as"
  shows "case if t \<le> mx then map_of (rev as) t else None of
      None \<Rightarrow> rtattr_loop mx tb (enc_attrs as @ r) (int (length (enc_attrs as))) t = tb t
    | Some d \<Rightarrow> \<exists>p. rtattr_loop mx tb (enc_attrs as @ r) (int (length (enc_attrs as))) t = Some p \<and> points t p d"
  using assms
proof (induction as arbitrary: tb)
  case Nil
  show ?case by (simp add: enc_attrs_def rtattr_loop.simps [of mx tb] RTA_OK_def)
next
  case (Cons a as)
  obtain ty d where a: "a = (ty, d)" by (cases a)
  have ok: "attr_ok (ty, d)" "list_all attr_ok as" using Cons.prems a by simp_all
  let ?p = "enc_attr (ty, d) @ enc_attrs as @ r"
  let ?tb = "if ty \<le> mx then tb(ty \<mapsto> ?p) else tb"
  have len: "int (length (enc_attr (ty, d) @ enc_attrs as)) = int (align4 (4 + length d)) + int (length (enc_attrs as))"
    by (simp add: length_enc_attr)
  have go: "RTA_OK ?p (int (align4 (4 + length d)) + int (length (enc_attrs as)))"
    using enc_attr_fields(1) [OF ok(1)] align4_ge [of "4 + length d"] by (simp add: RTA_OK_def)
  have "rtattr_loop mx tb ?p (int (length (enc_attr (ty, d) @ enc_attrs as))) =
      rtattr_loop mx ?tb (enc_attrs as @ r) (int (length (enc_attrs as)))"
    unfolding len
    by (subst rtattr_loop.simps) (simp add: go enc_attr_fields [OF ok(1)] length_enc_attr)
  then have step: "rtattr_loop mx tb (enc_attrs (a # as) @ r) (int (length (enc_attrs (a # as)))) =
      rtattr_loop mx ?tb (enc_attrs as @ r) (int (length (enc_attrs as)))"
    by (simp add: enc_attrs_def a)
  show ?case
    using Cons.IH [OF ok(2), of ?tb] unfolding step
    by (auto simp: a points_def map_add_def split: option.splits if_splits)
qed

lemma parse_rtattr_enc:
  assumes "list_all attr_ok as"
  shows "rel_option (points t) (parse_rtattr mx (enc_attrs as @ r) (int (length (enc_attrs as))) t)
    (if t \<le> mx then map_of (rev as) t else None)"
  using rtattr_loop_enc [OF assms, where t = t and mx = mx and tb = "\<lambda>_. None" and r = r] 
  by (auto simp: parse_rtattr_def split: option.splits)

text \<open>Reading through such a pointer.\<close>

lemma u_at_front:
  "4 \<le> length d \<Longrightarrow> u32_at (d @ r) 0 = u32_at d 0" "2 \<le> length d \<Longrightarrow> u16_at (d @ r) 0 = u16_at d 0"
  "1 \<le> length d \<Longrightarrow> u8_at (d @ r) 0 = u8_at d 0"
  by (simp_all add: u32_at_def u16_at_def u8_at_def)

lemma points_read:
  assumes "points t p d" and "attr_ok (t, d)"
  shows "rta_payload p = int (length d)" "4 \<le> length d \<Longrightarrow> u32_at (rta_data p) 0 = u32_at d 0"
    "2 \<le> length d \<Longrightarrow> u16_at (rta_data p) 0 = u16_at d 0"
    "1 \<le> length d \<Longrightarrow> u8_at (rta_data p) 0 = u8_at d 0"
    "d = enc_str s \<Longrightarrow> no_nul s \<Longrightarrow> str_at (rta_data p) = s"
    "\<exists>r. rta_data p = d @ r"
proof -
  obtain r where p: "p = enc_attr (t, d) @ r" using assms(1) by (auto simp: points_def)
  note f = enc_attr_fields(3,4) [OF assms(2), of r]
  show "rta_payload p = int (length d)" "4 \<le> length d \<Longrightarrow> u32_at (rta_data p) 0 = u32_at d 0"
    "2 \<le> length d \<Longrightarrow> u16_at (rta_data p) 0 = u16_at d 0"
    "1 \<le> length d \<Longrightarrow> u8_at (rta_data p) 0 = u8_at d 0" "\<exists>r. rta_data p = d @ r"
    using f by (simp_all add: p u_at_front)
  show "str_at (rta_data p) = s" if "d = enc_str s" "no_nul s"
    using f(2) str_at_enc [OF that(2)] by (simp only: p that(1))
qed

text \<open>A table that was read from the encoding of an attribute list.\<close>

definition table_of :: "nat \<Rightarrow> attrs \<Rightarrow> (nat \<times> byte list) list \<Rightarrow> bool" where
  "table_of mx tb as \<longleftrightarrow> list_all attr_ok as \<and>
     (\<forall>t \<le> mx. rel_option (points t) (tb t) (map_of (rev as) t))"

lemma table_of_parse:
  "list_all attr_ok as \<Longrightarrow> table_of mx (parse_rtattr mx (enc_attrs as @ r) (int (length (enc_attrs as)))) as"
  using parse_rtattr_enc [of as _ mx r] unfolding table_of_def by presburger

lemma table_of_None: "table_of mx tb as \<Longrightarrow> t \<le> mx \<Longrightarrow> map_of (rev as) t = None \<Longrightarrow> tb t = None"
  by (auto simp: table_of_def)

lemma table_of_Some:
  assumes "table_of mx tb as" and "t \<le> mx" and "map_of (rev as) t = Some d"
  obtains p where "tb t = Some p" and "points t p d" and "attr_ok (t, d)"
proof -
  have "rel_option (points t) (tb t) (Some d)" using assms by (metis table_of_def)
  then obtain p where "tb t = Some p" "points t p d" by (cases "tb t") auto
  moreover have "attr_ok (t, d)"
    using assms(1) map_of_SomeD [OF assms(3)] by (auto simp: table_of_def list_all_iff)
  ultimately show thesis by (rule that)
qed

lemma table_of_u32:
  assumes "table_of mx tb as" and "t \<le> mx"
  shows "attr_u32 tb t = (case map_of (rev as) t of None \<Rightarrow> None
    | Some d \<Rightarrow> if length d \<ge> 4 then Some (u32_at d 0) else None)"
proof (cases "map_of (rev as) t")
  case None
  then show ?thesis using table_of_None [OF assms] by (simp add: attr_u32_def)
next
  case (Some d)
  obtain p where p: "tb t = Some p" "points t p d" "attr_ok (t, d)" by (rule table_of_Some [OF assms Some])
  then show ?thesis using Some points_read(1,2) [OF p(2,3)] by (simp add: attr_u32_def)
qed

lemma table_of_nested:
  assumes "points t p (enc_attrs bs)" and "attr_ok (t, enc_attrs bs)" and "list_all attr_ok bs"
  shows "table_of mx (nested mx p) bs"
proof -
  obtain r where "rta_data p = enc_attrs bs @ r" using points_read(6) [OF assms(1,2)] by blast
  with table_of_parse [OF assms(3), of mx r] points_read(1) [OF assms(1,2)] show ?thesis
    by (simp add: nested_def)
qed

section \<open>Messages\<close>

definition enc_msg :: "nat \<Rightarrow> nat \<Rightarrow> byte list \<Rightarrow> byte list" where
  "enc_msg seq type body =
     le32 (16 + length body) @ le16 type @ le16 2 @ le32 seq @ le32 0 @ body @ pad4 body"

lemma enc_msg_fields:
  assumes "length body < 4294967280" and "type < 65536" and "seq < 4294967296"
  shows "nlmsg_len (enc_msg seq type body @ r) = 16 + length body"
    "nlmsg_type (enc_msg seq type body @ r) = type" "nlmsg_seq (enc_msg seq type body @ r) = seq"
    "nlmsg_data (enc_msg seq type body @ r) = body @ pad4 body @ r"
  using assms by (simp_all add: enc_msg_def nlmsg_len_def nlmsg_type_def nlmsg_seq_def nlmsg_data_def u_at_simps)

lemma align4_add16: "align4 (16 + n) = 16 + align4 n"
  using align4_add4 [of n] align4_add4 [of "4 + n"] align4_add4 [of "8 + n"] align4_add4 [of "12 + n"] by simp

lemma length_enc_msg: "length (enc_msg seq type body) = align4 (16 + length body)"
  using align4_ge [of "length body"] by (simp add: enc_msg_def pad4_def align4_add16)

lemma msgs_loop_enc:
  assumes "length body < 4294967280" and "ty < 65536" and "seq' < 4294967296" and "0 \<le> rem"
  shows "msgs_loop h seq type rs (enc_msg seq' ty body @ r) (int (length (enc_msg seq' ty body)) + rem) =
    (if seq' \<noteq> seq then msgs_loop h seq type rs r rem
     else if ty = NLMSG_DONE then Return (Inr rs)
     else if ty = NLMSG_ERROR then Return (nl_err (enc_msg seq' ty body @ r) rs)
     else if ty \<noteq> type then msgs_loop h seq type rs r rem
     else case parse_msg h type rs (enc_msg seq' ty body @ r) of
       Inl e \<Rightarrow> Return (Inl e) | Inr rs' \<Rightarrow> msgs_loop h seq type rs' r rem)"
proof -
  have "NLMSG_OK (enc_msg seq' ty body @ r) (int (length (enc_msg seq' ty body)) + rem)"
    using assms(4) align4_ge [of "16 + length body"]
    by (simp add: NLMSG_OK_def enc_msg_fields(1) [OF assms(1-3)] length_enc_msg)
  then show ?thesis
    by (subst msgs_loop.simps) (simp add: enc_msg_fields(1-3) [OF assms(1-3)] length_enc_msg cong: if_cong)
qed

section \<open>Dumps\<close>

text \<open>What a datagram of a dump may hold: entries of the dump, and messages left over from other
  requests, which carry another sequence number.\<close>

datatype 'a item = Entry 'a | Stale nat nat "byte list"

fun entries :: "'a item list \<Rightarrow> 'a list" where
  "entries [] = []"
| "entries (Entry a # is) = a # entries is"
| "entries (Stale s t b # is) = entries is"

fun enc_item :: "nat \<Rightarrow> ('a \<Rightarrow> byte list) \<Rightarrow> nat \<Rightarrow> 'a item \<Rightarrow> byte list" where
  "enc_item type body seq (Entry a) = enc_msg seq type (body a)"
| "enc_item type body seq (Stale s t b) = enc_msg s t b"

fun item_ok :: "('a \<Rightarrow> bool) \<Rightarrow> nat \<Rightarrow> 'a item \<Rightarrow> bool" where
  "item_ok ok seq (Entry a) = ok a"
| "item_ok ok seq (Stale s t b) = (s \<noteq> seq \<and> s < 4294967296 \<and> t < 65536 \<and> length b < 4294967280)"

definition dgram :: "nat \<Rightarrow> ('a \<Rightarrow> byte list) \<Rightarrow> nat \<Rightarrow> 'a item list \<Rightarrow> byte list" where
  "dgram type body seq is = concat (map (enc_item type body seq) is)"

definition batch_ok :: "nat \<Rightarrow> ('a \<Rightarrow> byte list) \<Rightarrow> ('a \<Rightarrow> bool) \<Rightarrow> nat \<Rightarrow> 'a item list \<Rightarrow> bool" where
  "batch_ok type body ok seq is \<longleftrightarrow> is \<noteq> [] \<and> list_all (item_ok ok seq) is
     \<and> length (dgram type body seq is) \<le> 16384"

text \<open>The replies to a request: datagrams of entries, then one that ends with \<open>NLMSG_DONE\<close>.\<close>

definition replies :: "nat \<Rightarrow> ('a \<Rightarrow> byte list) \<Rightarrow> nat \<Rightarrow> 'a item list list \<Rightarrow> recv_event list" where
  "replies type body seq bs = map (\<lambda>b. Recv (dgram type body seq b)) bs
     @ [Recv (enc_msg seq NLMSG_DONE (le32 0))]"

text \<open>Adding the entries to the snapshot in turn.\<close>

fun steps :: "(real_state \<Rightarrow> 'a \<Rightarrow> real_state result) \<Rightarrow> real_state \<Rightarrow> 'a list \<Rightarrow> real_state result" where
  "steps step rs [] = Inr rs"
| "steps step rs (a # as) = ebind (step rs a) (\<lambda>rs'. steps step rs' as)"

lemma steps_append: "steps step rs (as @ bs) = ebind (steps step rs as) (\<lambda>rs'. steps step rs' bs)"
  by (induction as arbitrary: rs) (simp_all add: ebind_assoc)

text \<open>A message format: an encoding of entries that the parser reads as one step each.\<close>

locale dump_format =
  fixes h :: nl_hdr and type :: nat and body :: "'a \<Rightarrow> byte list" and ok :: "'a \<Rightarrow> bool"
    and step :: "real_state \<Rightarrow> 'a \<Rightarrow> real_state result"
  assumes type_ok: "type < 65536" "type \<noteq> NLMSG_DONE" "type \<noteq> NLMSG_ERROR"
    and body_ok: "ok a \<Longrightarrow> length (body a) < 4294967280"
    and parse: "ok a \<Longrightarrow> seq < 4294967296 \<Longrightarrow> parse_msg h type rs (enc_msg seq type (body a) @ r) = step rs a"
begin

lemma msgs_loop_items:
  assumes "list_all (item_ok ok seq) is" and "0 \<le> rem" and "seq < 4294967296"
  shows "msgs_loop h seq type rs (dgram type body seq is @ r) (int (length (dgram type body seq is)) + rem) =
    (case steps step rs (entries is) of
       Inl e \<Rightarrow> Return (Inl e) | Inr rs' \<Rightarrow> msgs_loop h seq type rs' r rem)"
  using assms(1)
proof (induction "is" arbitrary: rs)
  case Nil
  show ?case by (simp add: dgram_def)
next
  case (Cons i "is")
  let ?rem = "int (length (dgram type body seq is)) + rem"
  have rem: "0 \<le> ?rem" using assms(2) by simp
  have d: "msgs_loop h seq type rs (dgram type body seq (i # is) @ r) (int (length (dgram type body seq (i # is))) + rem)
      = msgs_loop h seq type rs (enc_item type body seq i @ dgram type body seq is @ r)
          (int (length (enc_item type body seq i)) + ?rem)"
    by (simp add: dgram_def add.assoc)
  show ?case
  proof (cases i)
    case (Entry a)
    with Cons.prems have a: "ok a" by simp
    show ?thesis
      unfolding d using Cons msgs_loop_enc [OF body_ok [OF a] type_ok(1) assms(3) rem] type_ok(2,3)
      by (simp add: Entry parse [OF a assms(3)] split: sum.split)
  next
    case (Stale s t b)
    with Cons.prems have st: "s \<noteq> seq" "s < 4294967296" "t < 65536" "length b < 4294967280" by simp_all
    then show ?thesis
      unfolding d using Cons msgs_loop_enc [OF st(4,3,2) rem] by (simp add: Stale)
  qed
qed

text \<open>A dump delivers all its entries: enough receptions give a result, and it is the snapshot with
  the entries added in order, or the error of the first entry that finds no room.\<close>

lemma recv_dump_replies:
  assumes "list_all (batch_ok type body ok seq) bs" and "seq < 4294967296"
  shows "case steps step rs (entries (concat bs)) of
      Inr rs' \<Rightarrow> recv_dump h seq rs type (replies type body seq bs @ es) = Some (Inr rs', es)
    | Inl e \<Rightarrow> \<exists>es'. recv_dump h seq rs type (replies type body seq bs @ es) = Some (Inl e, es')"
  using assms(1)
proof (induction bs arbitrary: rs)
  case Nil
  let ?d = "enc_msg seq NLMSG_DONE (le32 0)"
  have "msgs_loop h seq type rs (?d @ []) (int (length ?d) + 0) = Return (Inr rs)"
    by (subst msgs_loop_enc) (use assms(2) in \<open>simp_all add: nl_consts\<close>)
  moreover have "length ?d = 20" by (simp add: length_enc_msg align4_def)
  ultimately show ?case by (auto simp: replies_def Let_def)
next
  case (Cons b bs)
  let ?d = "dgram type body seq b"
  have b: "b \<noteq> []" "list_all (item_ok ok seq) b" "length ?d \<le> 16384"
    using Cons.prems by (simp_all add: batch_ok_def)
  have ne: "?d \<noteq> []"
  proof -
    obtain i b' where "b = i # b'" using b(1) by (cases b) auto
    then show ?thesis by (cases i) (simp_all add: dgram_def enc_msg_def le32_def)
  qed
  have m: "msgs_loop h seq type rs ?d (int (length ?d)) = (case steps step rs (entries b) of
       Inl e \<Rightarrow> Return (Inl e) | Inr rs' \<Rightarrow> More rs' 0)"
    using msgs_loop_items [OF b(2) _ assms(2), of 0 rs "[]"]
    by (simp add: msgs_loop.simps [of _ _ _ _ "[]" 0] NLMSG_OK_def split: sum.split)
  have "entries (xs @ ys) = entries xs @ entries ys" for xs ys :: "'a item list"
    by (induction xs rule: entries.induct) auto
  then have st: "steps step rs (entries (concat (b # bs))) =
      ebind (steps step rs (entries b)) (\<lambda>rs'. steps step rs' (entries (concat bs)))"
    by (simp add: steps_append)
  have r: "replies type body seq (b # bs) @ es = Recv ?d # replies type body seq bs @ es"
    by (simp add: replies_def)
  show ?case
  proof (cases "steps step rs (entries b)")
    case (Inl e)
    then show ?thesis using st r m ne b(3) by (simp add: Let_def)
  next
    case (Inr rs1)
    then show ?thesis
      using st r m ne b(3) Cons.IH [of rs1] Cons.prems by (simp add: Let_def split: sum.splits)
  qed
qed

end

section \<open>Addresses\<close>

text \<open>An address of the kernel, with the other end of a point-to-point link if there is one.\<close>

type_synonym kaddr = "addr4 \<times> 32 word option"

definition opt_attr :: "nat \<Rightarrow> ('b \<Rightarrow> byte list) \<Rightarrow> 'b option \<Rightarrow> (nat \<times> byte list) list" where
  "opt_attr t f x = (case x of None \<Rightarrow> [] | Some v \<Rightarrow> [(t, f v)])"

lemma map_of_opt_attr [simp]:
  "map_of (opt_attr t f x) t' = (if t = t' then map_option f x else None)"
  by (simp add: opt_attr_def split: option.split)

lemma rev_opt_attr [simp]: "rev (opt_attr t f x) = opt_attr t f x"
  by (simp add: opt_attr_def split: option.split)

lemma list_all_opt_attr [simp]: "list_all P (opt_attr t f x) \<longleftrightarrow> (\<forall>v. x = Some v \<longrightarrow> P (t, f v))"
  by (simp add: opt_attr_def split: option.split)

definition le_word32 :: "32 word \<Rightarrow> byte list" where
  "le_word32 w = le32 (unat w)"

lemma length_le_word32 [simp]: "length (le_word32 w) = 4"
  by (simp add: le_word32_def)

lemma u32_at_word [simp]: "of_nat (u32_at (le_word32 w) 0) = w"
  using u_at_append(3) [of "unat w" "[]"] unsigned_less [of w, where 'a = nat] by (simp add: le_word32_def)

lemma u32_at_int [simp]: "int32_ok i \<Longrightarrow> to_int (u32_at (le_int i) 0) = i"
  using u32_at_le_int [of i "[]"] by (simp add: to_int_le)

lemma u32_at_int_append [simp]: "int32_ok i \<Longrightarrow> to_int (u32_at (le_int i @ r) 0) = i"
  using u32_at_le_int [of i r] by (simp add: to_int_le)

definition addr_attrs :: "kaddr \<Rightarrow> (nat \<times> byte list) list" where
  "addr_attrs a = opt_attr IFA_ADDRESS le_word32 (snd a) @ [(IFA_LOCAL, le_word32 (a4_addr (fst a)))]"

definition enc_addr :: "kaddr \<Rightarrow> byte list" where
  "enc_addr a = [of_nat AF_INET, word_of_int (a4_prefix (fst a)), 0, 0]
     @ le_int (a4_ifindex (fst a)) @ enc_attrs (addr_attrs a)"

definition addr_ok :: "kaddr \<Rightarrow> bool" where
  "addr_ok a \<longleftrightarrow> int32_ok (a4_ifindex (fst a)) \<and> 0 \<le> a4_prefix (fst a) \<and> a4_prefix (fst a) < 256"

definition add_addr :: "real_state \<Rightarrow> kaddr \<Rightarrow> real_state result" where
  "add_addr rs a = (if length (addr4s rs) \<ge> NR_ADDR4_MAX then Inl ENOSPC
     else Inr (rs\<lparr>addr4s := addr4s rs @ [fst a]\<rparr>))"

lemma length_opt_attrs: "(\<And>v. length (f v) = 4) \<Longrightarrow> length (enc_attrs (opt_attr t f x)) \<le> 8"
  by (simp add: enc_attrs_def opt_attr_def length_enc_attr align4_def split: option.split)

lemma enc_attrs_append: "enc_attrs (as @ bs) = enc_attrs as @ enc_attrs bs"
  by (simp add: enc_attrs_def)

lemma enc_attrs_Cons: "enc_attrs (a # as) = enc_attr a @ enc_attrs as"
  by (simp add: enc_attrs_def)

lemma uint_byte: "0 \<le> i \<Longrightarrow> i < 256 \<Longrightarrow> uint (word_of_int i :: byte) = i"
  by (simp add: unsigned_of_int take_bit_eq_mod)

lemma parse_addr_enc:
  assumes h: "hdr_ok h" and a: "addr_ok a" and seq: "seq < 4294967296"
  shows "parse_msg h RTM_NEWADDR rs (enc_msg seq RTM_NEWADDR (enc_addr a) @ r) = add_addr rs a"
proof -
  let ?as = "addr_attrs a" and ?nh = "enc_msg seq RTM_NEWADDR (enc_addr a) @ r"
  have ok: "list_all attr_ok ?as" by (simp add: addr_attrs_def attr_ok_def nl_consts)
  have la: "length (enc_attrs ?as) \<le> 16"
    using length_opt_attrs [of le_word32 IFA_ADDRESS "snd a"]
    by (simp add: addr_attrs_def enc_attrs_append enc_attrs_Cons length_enc_attr align4_def enc_attrs_def)
  have le: "length (enc_addr a) = 8 + length (enc_attrs ?as)" by (simp add: enc_addr_def)
  note f = enc_msg_fields [of "enc_addr a" RTM_NEWADDR seq r]
  have len: "nlmsg_len ?nh = 24 + length (enc_attrs ?as)" and dat: "nlmsg_data ?nh = enc_addr a @ pad4 (enc_addr a) @ r"
    using f la le seq by (simp_all add: nl_consts)
  define tb where "tb = parse_rtattr (ifa_max h) (enc_attrs ?as @ pad4 (enc_addr a) @ r) (int (length (enc_attrs ?as)))"
  have t: "table_of (ifa_max h) tb ?as" unfolding tb_def by (rule table_of_parse [OF ok])
  have mx: "IFA_LOCAL \<le> ifa_max h" using h by (simp add: hdr_ok_def)
  obtain p where p: "tb IFA_LOCAL = Some p" "points IFA_LOCAL p (le_word32 (a4_addr (fst a)))"
    "attr_ok (IFA_LOCAL, le_word32 (a4_addr (fst a)))"
    by (rule table_of_Some [OF t mx, of "le_word32 (a4_addr (fst a))"]) (simp add: addr_attrs_def)
  note rd = points_read(1,2) [OF p(2,3)]
  have tb: "parse_rtattr (ifa_max h) (drop 8 (nlmsg_data ?nh)) (int (length (enc_attrs ?as))) = tb"
    unfolding dat tb_def by (simp add: enc_addr_def)
  have fam: "u8_at (nlmsg_data ?nh) 0 = AF_INET" and idx: "to_int (u32_at (nlmsg_data ?nh) 4) = a4_ifindex (fst a)"
    and pre: "int (u8_at (nlmsg_data ?nh) (Suc 0)) = a4_prefix (fst a)"
    using a unfolding dat by (simp_all add: enc_addr_def u_at_simps addr_ok_def uint_byte nl_consts)
  have "parse_addr_msg h rs ?nh = add_addr rs a"
    using rd p(1) by (simp add: parse_addr_msg_def Let_def tb fam idx pre len add_addr_def)
  then show ?thesis by (simp add: parse_msg_def nl_consts)
qed

lemma length_enc_addr: "length (enc_addr a) \<le> 24"
  using length_opt_attrs [of le_word32 IFA_ADDRESS "snd a"]
  by (simp add: enc_addr_def addr_attrs_def enc_attrs_append enc_attrs_Cons length_enc_attr align4_def
      enc_attrs_def [of "[]"])

interpretation addr_dump: dump_format h RTM_NEWADDR enc_addr "\<lambda>a. hdr_ok h \<and> addr_ok a" add_addr for h
proof unfold_locales
  show "length (enc_addr a) < 4294967280" for a using length_enc_addr [of a] by simp
qed (simp_all add: parse_addr_enc, simp_all add: nl_consts)

section \<open>Routes\<close>

text \<open>A route of the kernel with its table and its type; the dump shows the ones of every table.\<close>

record kroute =
  kr_route :: route4
  kr_table :: nat
  kr_type :: nat

text \<open>A default route has no \<open>RTA_DST\<close>.\<close>

definition route_attrs :: "kroute \<Rightarrow> (nat \<times> byte list) list" where
  "route_attrs k = (let r = kr_route k in
     opt_attr RTA_TABLE le32 (Some (kr_table k))
     @ opt_attr RTA_DST le_word32 (if r4_prefix r = 0 then None else Some (r4_dst r))
     @ opt_attr RTA_GATEWAY le_word32 (if r4_has_gw r then Some (r4_gw r) else None)
     @ opt_attr RTA_OIF le_int (Some (r4_oif r)))"

definition enc_route :: "kroute \<Rightarrow> byte list" where
  "enc_route k = [of_nat AF_INET, word_of_int (r4_prefix (kr_route k)), 0, 0,
     of_nat (kr_table k), 0, 0, of_nat (kr_type k)] @ le32 0 @ enc_attrs (route_attrs k)"

definition route_ok :: "kroute \<Rightarrow> bool" where
  "route_ok k \<longleftrightarrow> int32_ok (r4_oif (kr_route k)) \<and> 0 \<le> r4_prefix (kr_route k) \<and> r4_prefix (kr_route k) < 256
     \<and> kr_table k < 2147483648 \<and> kr_type k < 256
     \<and> (r4_prefix (kr_route k) = 0 \<longrightarrow> r4_dst (kr_route k) = 0)
     \<and> (\<not> r4_has_gw (kr_route k) \<longrightarrow> r4_gw (kr_route k) = 0)"

text \<open>Only unicast and local routes of the main table enter the snapshot.\<close>

definition add_route :: "real_state \<Rightarrow> kroute \<Rightarrow> real_state result" where
  "add_route rs k =
     (if kr_table k \<noteq> RT_TABLE_MAIN \<or> kr_type k \<notin> {RTN_UNICAST, RTN_LOCAL} then Inr rs
      else if length (route4s rs) \<ge> NR_ROUTE4_MAX then Inl ENOSPC
      else Inr (rs\<lparr>route4s := route4s rs @ [kr_route k]\<rparr>))"

lemma route_attrs_ok: "list_all attr_ok (route_attrs k)"
  by (auto simp: route_attrs_def attr_ok_def nl_consts Let_def)

lemma length_route_attrs: "length (enc_attrs (route_attrs k)) \<le> 32"
  using length_opt_attrs [of le32 RTA_TABLE "Some (kr_table k)"]
    length_opt_attrs [of le_word32 RTA_DST "if r4_prefix (kr_route k) = 0 then None else Some (r4_dst (kr_route k))"]
    length_opt_attrs [of le_word32 RTA_GATEWAY "if r4_has_gw (kr_route k) then Some (r4_gw (kr_route k)) else None"]
    length_opt_attrs [of le_int RTA_OIF "Some (r4_oif (kr_route k))"]
  by (simp add: route_attrs_def Let_def enc_attrs_append del: if_split)

lemma map_of_route_attrs:
  "map_of (rev (route_attrs k)) RTA_TABLE = Some (le32 (kr_table k))"
  "map_of (rev (route_attrs k)) RTA_DST = (if r4_prefix (kr_route k) = 0 then None else Some (le_word32 (r4_dst (kr_route k))))"
  "map_of (rev (route_attrs k)) RTA_GATEWAY = (if r4_has_gw (kr_route k) then Some (le_word32 (r4_gw (kr_route k))) else None)"
  "map_of (rev (route_attrs k)) RTA_OIF = Some (le_int (r4_oif (kr_route k)))"
  by (simp_all add: route_attrs_def Let_def map_add_def nl_consts)

lemma parse_route_enc:
  assumes h: "hdr_ok h" and k: "route_ok k" and seq: "seq < 4294967296"
  shows "parse_msg h RTM_NEWROUTE rs (enc_msg seq RTM_NEWROUTE (enc_route k) @ r) = add_route rs k"
proof -
  let ?as = "route_attrs k" and ?nh = "enc_msg seq RTM_NEWROUTE (enc_route k) @ r"
  have le: "length (enc_route k) = 12 + length (enc_attrs ?as)" by (simp add: enc_route_def)
  note f = enc_msg_fields [of "enc_route k" RTM_NEWROUTE seq r]
  have len: "nlmsg_len ?nh = 28 + length (enc_attrs ?as)" and dat: "nlmsg_data ?nh = enc_route k @ pad4 (enc_route k) @ r"
    using f length_route_attrs [of k] le seq by (simp_all add: nl_consts)
  define tb where "tb = parse_rtattr (rta_max h) (enc_attrs ?as @ pad4 (enc_route k) @ r) (int (length (enc_attrs ?as)))"
  have t: "table_of (rta_max h) tb ?as" unfolding tb_def by (rule table_of_parse [OF route_attrs_ok])
  have mx: "RTA_TABLE \<le> rta_max h" "RTA_DST \<le> rta_max h" "RTA_GATEWAY \<le> rta_max h" "RTA_OIF \<le> rta_max h"
    using h by (simp_all add: hdr_ok_def nl_consts)
  note u32 = table_of_u32 [OF t mx(1)] table_of_u32 [OF t mx(2)] table_of_u32 [OF t mx(3)] table_of_u32 [OF t mx(4)]
  have tb: "parse_rtattr (rta_max h) (drop 12 (nlmsg_data ?nh)) (int (length (enc_attrs ?as))) = tb"
    unfolding dat tb_def by (simp add: enc_route_def)
  have fam: "u8_at (nlmsg_data ?nh) 0 = AF_INET" and pre: "int (u8_at (nlmsg_data ?nh) (Suc 0)) = r4_prefix (kr_route k)"
    and ty: "u8_at (nlmsg_data ?nh) 7 = kr_type k"
    using k unfolding dat
    by (simp_all add: enc_route_def u_at_simps route_ok_def uint_byte nl_consts unsigned_of_nat take_bit_eq_mod)
  have table: "route_table (nlmsg_data ?nh) tb = int (kr_table k)"
    using k u_at_append(3) [of "kr_table k" "[]"]
    by (simp add: route_table_def u32 map_of_route_attrs route_ok_def to_int_def)
  have "parse_route_msg h rs ?nh = add_route rs k"
    using k by (simp add: parse_route_msg_def Let_def tb fam pre ty len table u32 map_of_route_attrs
        route_ok_def add_route_def)
  then show ?thesis by (simp add: parse_msg_def nl_consts)
qed

interpretation route_dump: dump_format h RTM_NEWROUTE enc_route "\<lambda>k. hdr_ok h \<and> route_ok k" add_route for h
proof unfold_locales
  show "length (enc_route k) < 4294967280" for k
    using length_route_attrs [of k] by (simp add: enc_route_def)
qed (simp_all add: parse_route_enc, simp_all add: nl_consts)

section \<open>Links\<close>

text \<open>The kind of a link with the data of the two kinds that the snapshot keeps; each field may be
  missing from the message.\<close>

datatype kinfo = KOther string | KVxlan "32 word option" "32 word option" "int option" | KVlan "16 word option"

record klink =
  kl_name :: string
  kl_index :: int
  kl_flags :: "32 word"
  kl_carrier :: "nat option"
  kl_master :: "int option"
  kl_link :: "int option"
  kl_info :: "kinfo option"

fun kind_text :: "kinfo \<Rightarrow> string" where
  "kind_text (KOther s) = s"
| "kind_text (KVxlan v r l) = ''vxlan''"
| "kind_text (KVlan i) = ''vlan''"

fun data_attrs :: "kinfo \<Rightarrow> (nat \<times> byte list) list option" where
  "data_attrs (KOther s) = None"
| "data_attrs (KVxlan v r l) = Some (opt_attr IFLA_VXLAN_ID le_word32 v
     @ opt_attr IFLA_VXLAN_GROUP le_word32 r @ opt_attr IFLA_VXLAN_LINK le_int l)"
| "data_attrs (KVlan i) = Some (opt_attr IFLA_VLAN_ID (\<lambda>w. le16 (unat w)) i)"

definition info_attrs :: "kinfo \<Rightarrow> (nat \<times> byte list) list" where
  "info_attrs i = (IFLA_INFO_KIND, enc_str (kind_text i)) # opt_attr IFLA_INFO_DATA enc_attrs (data_attrs i)"

definition link_attrs :: "klink \<Rightarrow> (nat \<times> byte list) list" where
  "link_attrs k = (IFLA_IFNAME, enc_str (kl_name k))
     # opt_attr IFLA_LINK le_int (kl_link k) @ opt_attr IFLA_MASTER le_int (kl_master k)
     @ opt_attr IFLA_CARRIER (\<lambda>c. [of_nat c]) (kl_carrier k)
     @ opt_attr IFLA_LINKINFO (\<lambda>i. enc_attrs (info_attrs i)) (kl_info k)"

definition enc_link :: "klink \<Rightarrow> byte list" where
  "enc_link k = le16 0 @ le16 1 @ le_int (kl_index k) @ le_word32 (kl_flags k) @ le32 0
     @ enc_attrs (link_attrs k)"

fun info_ok :: "kinfo \<Rightarrow> bool" where
  "info_ok (KOther s) = (no_nul s \<and> length s < 16 \<and> s \<noteq> ''vxlan'' \<and> s \<noteq> ''vlan'')"
| "info_ok (KVxlan v r l) = pred_option int32_ok l"
| "info_ok (KVlan i) = True"

definition link_ok :: "klink \<Rightarrow> bool" where
  "link_ok k \<longleftrightarrow> no_nul (kl_name k) \<and> length (kl_name k) < IFNAMSIZ \<and> int32_ok (kl_index k)
     \<and> pred_option (\<lambda>c. c < 256) (kl_carrier k) \<and> pred_option int32_ok (kl_master k)
     \<and> pred_option int32_ok (kl_link k) \<and> pred_option info_ok (kl_info k)"

definition link_iface :: "klink \<Rightarrow> iface" where
  "link_iface k = \<lparr>if_name = kl_name k,
     if_kind = (case kl_info k of None \<Rightarrow> [] | Some i \<Rightarrow> kind_text i),
     if_ifindex = kl_index k, if_flags = kl_flags k,
     if_has_carrier = (kl_carrier k \<noteq> None), if_carrier = (case kl_carrier k of None \<Rightarrow> 0 | Some c \<Rightarrow> c),
     if_master = (case kl_master k of None \<Rightarrow> 0 | Some m \<Rightarrow> m),
     if_link = (case kl_link k of None \<Rightarrow> 0 | Some l \<Rightarrow> l), if_has_link = (kl_link k \<noteq> None)\<rparr>"

definition link_vxlan :: "klink \<Rightarrow> vxlan option" where
  "link_vxlan k = (case kl_info k of Some (KVxlan v r l) \<Rightarrow> Some \<lparr>vxl_ifname = kl_name k, vxl_ifindex = kl_index k,
     vxl_vni = (case v of None \<Rightarrow> 0 | Some n \<Rightarrow> n), vxl_has_vni = (v \<noteq> None),
     vxl_remote = (case r of None \<Rightarrow> 0 | Some n \<Rightarrow> n), vxl_has_remote = (r \<noteq> None),
     vxl_link = (case l of None \<Rightarrow> 0 | Some n \<Rightarrow> n), vxl_has_link = (l \<noteq> None)\<rparr> | _ \<Rightarrow> None)"

definition link_vlan :: "klink \<Rightarrow> vlan option" where
  "link_vlan k = (case kl_info k of Some (KVlan i) \<Rightarrow> Some \<lparr>vln_ifname = kl_name k, vln_ifindex = kl_index k,
     vln_id = (case i of None \<Rightarrow> 0 | Some n \<Rightarrow> ucast n), vln_has_id = (i \<noteq> None),
     vln_link = (case kl_link k of None \<Rightarrow> 0 | Some l \<Rightarrow> l), vln_has_link = (kl_link k \<noteq> None)\<rparr> | _ \<Rightarrow> None)"

definition add_link :: "real_state \<Rightarrow> klink \<Rightarrow> real_state result" where
  "add_link rs k =
     (if length (ifaces rs) \<ge> NR_IFACE_MAX then Inl ENOSPC
      else let rs = rs\<lparr>ifaces := ifaces rs @ [link_iface k]\<rparr> in
        case (link_vxlan k, link_vlan k) of
          (Some x, _) \<Rightarrow> if length (vxlans rs) \<ge> NR_VXLAN_MAX then Inl ENOSPC else Inr (rs\<lparr>vxlans := vxlans rs @ [x]\<rparr>)
        | (None, Some v) \<Rightarrow> if length (vlans rs) \<ge> NR_VLAN_MAX then Inl ENOSPC else Inr (rs\<lparr>vlans := vlans rs @ [v]\<rparr>)
        | (None, None) \<Rightarrow> Inr rs)"

lemma length_enc_str [simp]: "length (enc_str s) = Suc (length s)"
  by (simp add: enc_str_def)

lemma attr_ok_iff [simp]: "attr_ok (t, d) \<longleftrightarrow> t < 16384 \<and> length d < 65532"
  by (auto simp: attr_ok_def)

lemma length_enc_attr_le: "length (enc_attr (t, d)) \<le> length d + 7"
  by (simp add: length_enc_attr align4_def)

lemma length_opt_attr_le:
  "(\<And>v. x = Some v \<Longrightarrow> length (f v) \<le> n) \<Longrightarrow> length (enc_attrs (opt_attr t f x)) \<le> n + 7"
proof (cases x)
  case (Some v)
  assume "\<And>v. x = Some v \<Longrightarrow> length (f v) \<le> n"
  from this [OF Some] length_enc_attr_le [of t "f v"] have "length (enc_attr (t, f v)) \<le> n + 7" by linarith
  with Some show ?thesis by (simp add: opt_attr_def enc_attrs_def)
qed (simp add: opt_attr_def enc_attrs_def)

lemma data_attrs_ok:
  assumes "data_attrs i = Some ds"
  shows "list_all attr_ok ds" "length (enc_attrs ds) \<le> 33"
proof -
  have "length (enc_attrs ds) \<le> 33 \<and> list_all attr_ok ds"
  proof (cases i)
    case (KVxlan v r l)
    have "length (enc_attrs (opt_attr IFLA_VXLAN_ID le_word32 v)) \<le> 4 + 7"
      "length (enc_attrs (opt_attr IFLA_VXLAN_GROUP le_word32 r)) \<le> 4 + 7"
      "length (enc_attrs (opt_attr IFLA_VXLAN_LINK le_int l)) \<le> 4 + 7"
      by (rule length_opt_attr_le; simp)+
    with KVxlan assms show ?thesis by (auto simp: enc_attrs_append nl_consts)
  next
    case (KVlan w)
    have "length (enc_attrs (opt_attr IFLA_VLAN_ID (\<lambda>w. le16 (unat w)) w)) \<le> 2 + 7"
      by (rule length_opt_attr_le) simp
    with KVlan assms show ?thesis by (auto simp: nl_consts)
  qed (use assms in simp)
  then show "list_all attr_ok ds" "length (enc_attrs ds) \<le> 33" by simp_all
qed

lemma info_attrs_ok:
  assumes "info_ok i"
  shows "list_all attr_ok (info_attrs i)" "length (enc_attrs (info_attrs i)) \<le> 63"
proof -
  have k: "length (kind_text i) < 16" using assms by (cases i) simp_all
  have d: "length (enc_attrs (opt_attr IFLA_INFO_DATA enc_attrs (data_attrs i))) \<le> 33 + 7"
    by (rule length_opt_attr_le) (rule data_attrs_ok)
  show "length (enc_attrs (info_attrs i)) \<le> 63"
    using k d length_enc_attr_le [of IFLA_INFO_KIND "enc_str (kind_text i)"]
    by (simp add: info_attrs_def enc_attrs_Cons)
  show "list_all attr_ok (info_attrs i)"
    using k data_attrs_ok(2) by (force simp: info_attrs_def nl_consts)
qed

lemma link_attrs_ok:
  assumes "link_ok k"
  shows "list_all attr_ok (link_attrs k)" "length (enc_attrs (link_attrs k)) \<le> 123"
proof -
  have i: "length (enc_attrs (info_attrs i)) \<le> 63" if "kl_info k = Some i" for i
    using info_attrs_ok(2) [of i] that assms by (simp add: link_ok_def)
  have "length (enc_attrs (opt_attr IFLA_LINK le_int (kl_link k))) \<le> 4 + 7"
    "length (enc_attrs (opt_attr IFLA_MASTER le_int (kl_master k))) \<le> 4 + 7"
    "length (enc_attrs (opt_attr IFLA_CARRIER (\<lambda>c. [of_nat c]) (kl_carrier k))) \<le> 1 + 7"
    "length (enc_attrs (opt_attr IFLA_LINKINFO (\<lambda>i. enc_attrs (info_attrs i)) (kl_info k))) \<le> 63 + 7"
    by (rule length_opt_attr_le; simp add: i)+
  then show "length (enc_attrs (link_attrs k)) \<le> 123"
    using assms length_enc_attr_le [of IFLA_IFNAME "enc_str (kl_name k)"]
    by (simp add: link_attrs_def enc_attrs_Cons enc_attrs_append link_ok_def IFNAMSIZ_def)
  show "list_all attr_ok (link_attrs k)"
    using i assms by (force simp: link_attrs_def nl_consts link_ok_def IFNAMSIZ_def)
qed

lemma map_of_link_attrs:
  "map_of (rev (link_attrs k)) IFLA_IFNAME = Some (enc_str (kl_name k))"
  "map_of (rev (link_attrs k)) IFLA_LINK = map_option le_int (kl_link k)"
  "map_of (rev (link_attrs k)) IFLA_MASTER = map_option le_int (kl_master k)"
  "map_of (rev (link_attrs k)) IFLA_CARRIER = map_option (\<lambda>c. [of_nat c]) (kl_carrier k)"
  "map_of (rev (link_attrs k)) IFLA_LINKINFO = map_option (\<lambda>i. enc_attrs (info_attrs i)) (kl_info k)"
  by (simp_all add: link_attrs_def map_add_def nl_consts split: option.split)

lemma map_of_info_attrs:
  "map_of (rev (info_attrs i)) IFLA_INFO_KIND = Some (enc_str (kind_text i))"
  "map_of (rev (info_attrs i)) IFLA_INFO_DATA = map_option enc_attrs (data_attrs i)"
  by (simp_all add: info_attrs_def map_add_def nl_consts split: option.split)

text \<open>What the three readers of a link find in the table.\<close>

lemma carrier_enc:
  assumes t: "table_of mx tb (link_attrs k)" and mx: "IFLA_CARRIER \<le> mx" and k: "link_ok k"
  shows "(case tb IFLA_CARRIER of None \<Rightarrow> None
     | Some a \<Rightarrow> if rta_payload a \<ge> 1 then Some (u8_at (rta_data a) 0) else None) = kl_carrier k"
proof (cases "kl_carrier k")
  case None
  then show ?thesis using table_of_None [OF t mx] by (simp add: map_of_link_attrs)
next
  case (Some c)
  obtain p where p: "tb IFLA_CARRIER = Some p" "points IFLA_CARRIER p [of_nat c]" "attr_ok (IFLA_CARRIER, [of_nat c])"
    by (rule table_of_Some [OF t mx, of "[of_nat c]"]) (simp add: map_of_link_attrs Some)
  then show ?thesis
    using Some k points_read(1,4) [OF p(2,3)] u_at_append(1) [of "of_nat c" "[]"]
    by (simp add: link_ok_def unsigned_of_nat take_bit_eq_mod)
qed

lemma info_table:
  assumes t: "table_of mx tb (link_attrs k)" and mx: "IFLA_LINKINFO \<le> mx" and k: "link_ok k"
    and i: "kl_info k = Some i"
  obtains p where "tb IFLA_LINKINFO = Some p" and "table_of n (nested n p) (info_attrs i)"
proof -
  have ok: "list_all attr_ok (info_attrs i)" using k i info_attrs_ok(1) by (simp add: link_ok_def)
  obtain p where p: "tb IFLA_LINKINFO = Some p" "points IFLA_LINKINFO p (enc_attrs (info_attrs i))"
    "attr_ok (IFLA_LINKINFO, enc_attrs (info_attrs i))"
    by (rule table_of_Some [OF t mx, of "enc_attrs (info_attrs i)"]) (simp add: map_of_link_attrs i)
  then show thesis using that table_of_nested [OF p(2,3) ok] by simp
qed

lemma kind_in_table:
  assumes t: "table_of n li (info_attrs i)" and n: "IFLA_INFO_DATA \<le> n" and i: "info_ok i"
  obtains p where "li IFLA_INFO_KIND = Some p" and "str_at (rta_data p) = kind_text i"
proof -
  have mx: "IFLA_INFO_KIND \<le> n" using n by (simp add: nl_consts)
  obtain p where p: "li IFLA_INFO_KIND = Some p" "points IFLA_INFO_KIND p (enc_str (kind_text i))"
    "attr_ok (IFLA_INFO_KIND, enc_str (kind_text i))"
    by (rule table_of_Some [OF t mx, of "enc_str (kind_text i)"]) (simp add: map_of_info_attrs)
  moreover have "no_nul (kind_text i)" using i by (cases i) (auto simp: no_nul_def)
  ultimately show thesis using that points_read(5) [OF p(2,3) refl] by simp
qed

lemma name_in_table:
  assumes t: "table_of mx tb (link_attrs k)" and mx: "IFLA_IFNAME \<le> mx" and k: "link_ok k"
  obtains p where "tb IFLA_IFNAME = Some p" and "fit IFNAMSIZ (str_at (rta_data p)) = kl_name k"
proof -
  obtain p where p: "tb IFLA_IFNAME = Some p" "points IFLA_IFNAME p (enc_str (kl_name k))"
    "attr_ok (IFLA_IFNAME, enc_str (kl_name k))"
    by (rule table_of_Some [OF t mx, of "enc_str (kl_name k)"]) (simp add: map_of_link_attrs)
  then show thesis using that k points_read(5) [OF p(2,3) refl]
    by (simp add: link_ok_def fit_def IFNAMSIZ_def)
qed

lemma link_kind_enc:
  assumes t: "table_of (ifla_max h) tb (link_attrs k)" and h: "hdr_ok h" and k: "link_ok k"
  shows "link_kind h tb 16 = (case kl_info k of None \<Rightarrow> [] | Some i \<Rightarrow> kind_text i)"
proof (cases "kl_info k")
  case None
  have "IFLA_LINKINFO \<le> ifla_max h" using h by (simp add: hdr_ok_def nl_consts)
  from table_of_None [OF t this] None show ?thesis by (simp add: link_kind_def map_of_link_attrs)
next
  case (Some i)
  have mx: "IFLA_LINKINFO \<le> ifla_max h" "IFLA_INFO_DATA \<le> info_max h" and i: "info_ok i"
    using h k Some by (simp_all add: hdr_ok_def nl_consts link_ok_def)
  obtain p where p: "tb IFLA_LINKINFO = Some p" "table_of (info_max h) (nested (info_max h) p) (info_attrs i)"
    by (rule info_table [OF t mx(1) k Some])
  obtain q where q: "nested (info_max h) p IFLA_INFO_KIND = Some q" "str_at (rta_data q) = kind_text i"
    by (rule kind_in_table [OF p(2) mx(2) i])
  have "length (kind_text i) < 16" using i by (cases i) simp_all
  with p q Some show ?thesis by (simp add: link_kind_def fit_def)
qed

text \<open>The data of a link of the kind that is asked for.\<close>

lemma link_data_enc:
  assumes t: "table_of (ifla_max h) tb (link_attrs k)" and h: "hdr_ok h" and k: "link_ok k"
  shows "case kl_info k of
      None \<Rightarrow> link_data h tb kind = None
    | Some i \<Rightarrow> (case (if kind_text i = kind then data_attrs i else None) of
        None \<Rightarrow> link_data h tb kind = None
      | Some ds \<Rightarrow> \<exists>name d. link_data h tb kind = Some (name, d)
          \<and> fit IFNAMSIZ (str_at (rta_data name)) = kl_name k \<and> (\<forall>n. table_of n (nested n d) ds))"
proof (cases "kl_info k")
  case None
  have "IFLA_LINKINFO \<le> ifla_max h" using h by (simp add: hdr_ok_def nl_consts)
  from table_of_None [OF t this] None show ?thesis by (simp add: link_data_def map_of_link_attrs)
next
  case (Some i)
  have mx: "IFLA_LINKINFO \<le> ifla_max h" "IFLA_INFO_DATA \<le> info_max h" "IFLA_IFNAME \<le> ifla_max h" and i: "info_ok i"
    using h k Some by (simp_all add: hdr_ok_def nl_consts link_ok_def)
  obtain p where p: "tb IFLA_LINKINFO = Some p" "table_of (info_max h) (nested (info_max h) p) (info_attrs i)"
    by (rule info_table [OF t mx(1) k Some])
  obtain q where q: "nested (info_max h) p IFLA_INFO_KIND = Some q" "str_at (rta_data q) = kind_text i"
    by (rule kind_in_table [OF p(2) mx(2) i])
  obtain nm where nm: "tb IFLA_IFNAME = Some nm" "fit IFNAMSIZ (str_at (rta_data nm)) = kl_name k"
    by (rule name_in_table [OF t mx(3) k])
  show ?thesis
  proof (cases "data_attrs i")
    case None
    then have "nested (info_max h) p IFLA_INFO_DATA = None"
      using table_of_None [OF p(2) mx(2)] by (simp add: map_of_info_attrs)
    with None p q nm Some show ?thesis by (simp add: link_data_def Let_def)
  next
    case (Some ds)
    obtain d where d: "nested (info_max h) p IFLA_INFO_DATA = Some d" "points IFLA_INFO_DATA d (enc_attrs ds)"
      "attr_ok (IFLA_INFO_DATA, enc_attrs ds)"
      by (rule table_of_Some [OF p(2) mx(2), of "enc_attrs ds"]) (simp add: map_of_info_attrs Some)
    have "table_of n (nested n d) ds" for n
      by (rule table_of_nested [OF d(2,3) data_attrs_ok(1) [OF Some]])
    with d p q nm Some \<open>kl_info k = Some i\<close> show ?thesis by (simp add: link_data_def Let_def)
  qed
qed

lemma add_iface_enc:
  assumes t: "table_of (ifla_max h) tb (link_attrs k)" and h: "hdr_ok h" and k: "link_ok k"
    and ifi: "to_int (u32_at ifi 4) = kl_index k" "of_nat (u32_at ifi 8) = kl_flags k"
  shows "add_iface h rs ifi tb = (if length (ifaces rs) \<ge> NR_IFACE_MAX then Inl ENOSPC
    else Inr (rs\<lparr>ifaces := ifaces rs @ [link_iface k]\<rparr>))"
proof -
  have mx: "IFLA_CARRIER \<le> ifla_max h" "IFLA_LINK \<le> ifla_max h" "IFLA_MASTER \<le> ifla_max h" "IFLA_IFNAME \<le> ifla_max h"
    using h by (simp_all add: hdr_ok_def nl_consts)
  obtain nm where nm: "tb IFLA_IFNAME = Some nm" "fit IFNAMSIZ (str_at (rta_data nm)) = kl_name k"
    by (rule name_in_table [OF t mx(4) k])
  have int_opt: "(case map_option le_int x of None \<Rightarrow> None | Some d \<Rightarrow> if length d \<ge> 4 then Some (u32_at d 0) else None)
      = map_option (\<lambda>i. u32_at (le_int i) 0) x" for x
    by (simp split: option.split)
  note u = table_of_u32 [OF t mx(2)] table_of_u32 [OF t mx(3)]
  have ok: "\<forall>j. kl_link k = Some j \<longrightarrow> int32_ok j" "\<forall>j. kl_master k = Some j \<longrightarrow> int32_ok j"
    using k by (auto simp: link_ok_def)
  show ?thesis
    using ok nm carrier_enc [OF t mx(1) k] link_kind_enc [OF t h k]
    by (simp add: add_iface_def ifi u map_of_link_attrs int_opt link_iface_def Let_def
        split: option.split)
qed

lemma add_vxlan_enc:
  assumes t: "table_of (ifla_max h) tb (link_attrs k)" and h: "hdr_ok h" and k: "link_ok k"
    and ifi: "to_int (u32_at ifi 4) = kl_index k"
  shows "add_vxlan h rs ifi tb = (case link_vxlan k of None \<Rightarrow> Inr rs
    | Some x \<Rightarrow> if length (vxlans rs) \<ge> NR_VXLAN_MAX then Inl ENOSPC else Inr (rs\<lparr>vxlans := vxlans rs @ [x]\<rparr>))"
proof (cases "\<exists>v r l. kl_info k = Some (KVxlan v r l)")
  case True
  then obtain v r l where i: "kl_info k = Some (KVxlan v r l)" by blast
  let ?ds = "the (data_attrs (KVxlan v r l))"
  obtain name d where d: "link_data h tb ''vxlan'' = Some (name, d)"
    "fit IFNAMSIZ (str_at (rta_data name)) = kl_name k" "table_of (vxlan_max h) (nested (vxlan_max h) d) ?ds"
    using link_data_enc [OF t h k, where kind = "''vxlan''"] i by auto
  have mx: "IFLA_VXLAN_ID \<le> vxlan_max h" "IFLA_VXLAN_GROUP \<le> vxlan_max h" "IFLA_VXLAN_LINK \<le> vxlan_max h"
    using h by (simp_all add: hdr_ok_def nl_consts)
  note u = table_of_u32 [OF d(3) mx(1)] table_of_u32 [OF d(3) mx(2)] table_of_u32 [OF d(3) mx(3)]
  have m: "map_of (rev ?ds) IFLA_VXLAN_ID = map_option le_word32 v"
    "map_of (rev ?ds) IFLA_VXLAN_GROUP = map_option le_word32 r" "map_of (rev ?ds) IFLA_VXLAN_LINK = map_option le_int l"
    by (simp_all add: map_add_def nl_consts split: option.split)
  have l: "\<forall>j. l = Some j \<longrightarrow> int32_ok j" using k i by (auto simp: link_ok_def)
  show ?thesis
    using d(1,2) l i by (simp add: add_vxlan_def Let_def u m ifi link_vxlan_def del: data_attrs.simps split: option.split)
next
  case False
  then have "link_vxlan k = None" by (auto simp: link_vxlan_def split: option.splits kinfo.splits)
  moreover have "link_data h tb ''vxlan'' = None"
    using link_data_enc [OF t h k, where kind = "''vxlan''"] False k
    by (auto simp: link_ok_def split: option.splits if_splits elim!: info_ok.elims)
  ultimately show ?thesis by (simp add: add_vxlan_def)
qed

lemma add_vlan_enc:
  assumes t: "table_of (ifla_max h) tb (link_attrs k)" and h: "hdr_ok h" and k: "link_ok k"
    and ifi: "to_int (u32_at ifi 4) = kl_index k"
  shows "add_vlan h rs ifi tb = (case link_vlan k of None \<Rightarrow> Inr rs
    | Some x \<Rightarrow> if length (vlans rs) \<ge> NR_VLAN_MAX then Inl ENOSPC else Inr (rs\<lparr>vlans := vlans rs @ [x]\<rparr>))"
proof (cases "\<exists>w. kl_info k = Some (KVlan w)")
  case True
  then obtain w where i: "kl_info k = Some (KVlan w)" by blast
  let ?ds = "opt_attr IFLA_VLAN_ID (\<lambda>w. le16 (unat w)) w"
  obtain name d where d: "link_data h tb ''vlan'' = Some (name, d)"
    "fit IFNAMSIZ (str_at (rta_data name)) = kl_name k" "table_of (vlan_max h) (nested (vlan_max h) d) ?ds"
    using link_data_enc [OF t h k, where kind = "''vlan''"] i by auto
  have mx: "IFLA_LINK \<le> ifla_max h" "IFLA_VLAN_ID \<le> vlan_max h"
    using h by (simp_all add: hdr_ok_def nl_consts)
  have vid: "(case nested (vlan_max h) d IFLA_VLAN_ID of None \<Rightarrow> None
      | Some a \<Rightarrow> if rta_payload a \<ge> 2 then Some (u16_at (rta_data a) 0) else None) = map_option unat w"
  proof (cases w)
    case None
    then show ?thesis using table_of_None [OF d(3) mx(2)] by simp
  next
    case (Some x)
    obtain p where p: "nested (vlan_max h) d IFLA_VLAN_ID = Some p" "points IFLA_VLAN_ID p (le16 (unat x))"
      "attr_ok (IFLA_VLAN_ID, le16 (unat x))"
      by (rule table_of_Some [OF d(3) mx(2), of "le16 (unat x)"]) (simp add: Some)
    then show ?thesis
      using Some points_read(1,3) [OF p(2,3)] u_at_append(2) [of "unat x" "[]"] unsigned_less [of x, where 'a = nat] by simp
  qed
  have l: "\<forall>j. kl_link k = Some j \<longrightarrow> int32_ok j" using k by (auto simp: link_ok_def)
  show ?thesis
    using d(1,2) l i vid
    by (simp add: add_vlan_def Let_def table_of_u32 [OF t mx(1)] map_of_link_attrs ifi link_vlan_def split: option.split)
next
  case False
  then have "link_vlan k = None" by (auto simp: link_vlan_def split: option.splits kinfo.splits)
  moreover have "link_data h tb ''vlan'' = None"
    using link_data_enc [OF t h k, where kind = "''vlan''"] False k
    by (auto simp: link_ok_def split: option.splits if_splits elim!: info_ok.elims)
  ultimately show ?thesis by (simp add: add_vlan_def)
qed

lemma parse_link_enc:
  assumes h: "hdr_ok h" and k: "link_ok k" and seq: "seq < 4294967296"
  shows "parse_msg h RTM_NEWLINK rs (enc_msg seq RTM_NEWLINK (enc_link k) @ r) = add_link rs k"
proof -
  let ?as = "link_attrs k" and ?nh = "enc_msg seq RTM_NEWLINK (enc_link k) @ r"
  have le: "length (enc_link k) = 16 + length (enc_attrs ?as)" by (simp add: enc_link_def)
  note f = enc_msg_fields [of "enc_link k" RTM_NEWLINK seq r]
  have len: "nlmsg_len ?nh = 32 + length (enc_attrs ?as)" and dat: "nlmsg_data ?nh = enc_link k @ pad4 (enc_link k) @ r"
    using f link_attrs_ok(2) [OF k] le seq by (simp_all add: nl_consts)
  define tb where "tb = parse_rtattr (ifla_max h) (enc_attrs ?as @ pad4 (enc_link k) @ r) (int (length (enc_attrs ?as)))"
  have t: "table_of (ifla_max h) tb ?as" unfolding tb_def by (rule table_of_parse [OF link_attrs_ok(1) [OF k]])
  have tb: "parse_rtattr (ifla_max h) (drop 16 (nlmsg_data ?nh)) (int (length (enc_attrs ?as))) = tb"
    unfolding dat tb_def by (simp add: enc_link_def)
  have idx: "to_int (u32_at (nlmsg_data ?nh) 4) = kl_index k" and fl: "of_nat (u32_at (nlmsg_data ?nh) 8) = kl_flags k"
    using k unfolding dat by (simp_all add: enc_link_def u_at_simps link_ok_def u_at_front)
  have vx: "link_vxlan k \<noteq> None \<Longrightarrow> link_vlan k = None"
    by (auto simp: link_vxlan_def link_vlan_def split: option.splits kinfo.splits)
  have "parse_link_msg h rs ?nh = add_link rs k"
    using vx by (auto simp: parse_link_msg_def Let_def tb len add_iface_enc [OF t h k idx fl]
        add_vxlan_enc [OF t h k idx] add_vlan_enc [OF t h k idx] add_link_def split: option.splits)
  then show ?thesis by (simp add: parse_msg_def nl_consts)
qed

interpretation link_dump: dump_format h RTM_NEWLINK enc_link "\<lambda>k. hdr_ok h \<and> link_ok k" add_link for h
proof unfold_locales
  show "length (enc_link k) < 4294967280" if "hdr_ok h \<and> link_ok k" for k
    using that link_attrs_ok(2) [of k] by (simp add: enc_link_def)
qed (simp_all add: parse_link_enc, simp_all add: nl_consts)

section \<open>The whole snapshot\<close>

text \<open>The replies of the kernel to the three requests, in datagrams of any size the buffer can hold.\<close>

record ktables =
  kt_links :: "klink item list list"
  kt_addrs :: "kaddr item list list"
  kt_routes :: "kroute item list list"

definition ktables_ok :: "ktables \<Rightarrow> bool" where
  "ktables_ok k \<longleftrightarrow> list_all (batch_ok RTM_NEWLINK enc_link link_ok 1) (kt_links k)
     \<and> list_all (batch_ok RTM_NEWADDR enc_addr addr_ok 2) (kt_addrs k)
     \<and> list_all (batch_ok RTM_NEWROUTE enc_route route_ok 3) (kt_routes k)"

definition kernel_replies :: "ktables \<Rightarrow> recv_event list" where
  "kernel_replies k = replies RTM_NEWLINK enc_link 1 (kt_links k)
     @ replies RTM_NEWADDR enc_addr 2 (kt_addrs k) @ replies RTM_NEWROUTE enc_route 3 (kt_routes k)"

text \<open>The snapshot that these tables describe.\<close>

definition kernel_state :: "ktables \<Rightarrow> real_state result" where
  "kernel_state k =
     ebind (steps add_link rs_zero (entries (concat (kt_links k)))) (\<lambda>rs.
     ebind (steps add_addr rs (entries (concat (kt_addrs k)))) (\<lambda>rs.
     steps add_route rs (entries (concat (kt_routes k)))))"

lemma item_ok_mono: "(\<And>a. ok a \<Longrightarrow> ok' a) \<Longrightarrow> item_ok ok seq i \<Longrightarrow> item_ok ok' seq i"
  by (cases i) auto

lemma batches_ok_mono:
  "list_all (batch_ok t f ok seq) bs \<Longrightarrow> (\<And>a. ok a \<Longrightarrow> ok' a) \<Longrightarrow> list_all (batch_ok t f ok' seq) bs"
  by (auto simp: list_all_iff batch_ok_def intro: item_ok_mono)

lemma nl_send_all:
  assumes "\<And>m. send m = Inr (length m)" and "length body \<le> 236"
  shows "nl_send send type body seq = Inr ()"
proof -
  have "align4 (16 + length body) \<le> 256" using assms(2) by (simp add: align4_def)
  with assms(1) show ?thesis by (simp add: nl_send_def Let_def)
qed

lemma nl_load_state_replies:
  assumes h: "hdr_ok h" and k: "ktables_ok k" and send: "\<And>m. send m = Inr (length m)"
  shows "nl_load_state h None send (kernel_replies k @ es) = Some (kernel_state k)"
proof -
  have s: "nl_send send type body seq = Inr ()" if "length body \<le> 236" for type body seq
    using nl_send_all [OF send that] .
  have d: "dump_links h send seq rs es = recv_dump h seq rs RTM_NEWLINK es"
    "dump_addr4 h send seq rs es = recv_dump h seq rs RTM_NEWADDR es"
    "dump_route4 h send seq rs es = recv_dump h seq rs RTM_NEWROUTE es" for seq rs es
    by (simp_all add: dump_links_def dump_addr4_def dump_route4_def dump_req_def s)
  have ok: "list_all (batch_ok RTM_NEWLINK enc_link (\<lambda>a. hdr_ok h \<and> link_ok a) 1) (kt_links k)"
    "list_all (batch_ok RTM_NEWADDR enc_addr (\<lambda>a. hdr_ok h \<and> addr_ok a) 2) (kt_addrs k)"
    "list_all (batch_ok RTM_NEWROUTE enc_route (\<lambda>a. hdr_ok h \<and> route_ok a) 3) (kt_routes k)"
    using k h by (auto simp: ktables_ok_def elim!: batches_ok_mono)
  note l = link_dump.recv_dump_replies [OF ok(1), where rs = rs_zero and es =
      "replies RTM_NEWADDR enc_addr 2 (kt_addrs k) @ replies RTM_NEWROUTE enc_route 3 (kt_routes k) @ es"]
    and a = addr_dump.recv_dump_replies [OF ok(2), where es = "replies RTM_NEWROUTE enc_route 3 (kt_routes k) @ es"]
    and r = route_dump.recv_dump_replies [OF ok(3), where es = es]
  show ?thesis
  proof (cases "steps add_link rs_zero (entries (concat (kt_links k)))")
    case (Inl e)
    with l show ?thesis by (auto simp: nl_load_state_def d kernel_replies_def kernel_state_def then_dump_def)
  next
    case (Inr rs1)
    note 1 = this
    show ?thesis
    proof (cases "steps add_addr rs1 (entries (concat (kt_addrs k)))")
      case (Inl e)
      with l 1 a [where rs = rs1] show ?thesis
        by (auto simp: nl_load_state_def d kernel_replies_def kernel_state_def then_dump_def)
    next
      case (Inr rs2)
      with l 1 a [where rs = rs1] r [where rs = rs2] show ?thesis
        by (auto simp: nl_load_state_def d kernel_replies_def kernel_state_def then_dump_def split: sum.splits)
    qed
  qed
qed

text \<open>Without the limits the steps only append.\<close>

lemma map_filter_Cons [simp]:
  "List.map_filter f (x # xs) = (case f x of None \<Rightarrow> List.map_filter f xs | Some y \<Rightarrow> y # List.map_filter f xs)"
  by (simp add: map_filter_simps split: option.split)

lemma map_filter_Nil [simp]: "List.map_filter f [] = []"
  by (simp add: map_filter_simps)

lemma steps_links:
  "length (ifaces rs) + length ls \<le> NR_IFACE_MAX \<Longrightarrow>
   length (vxlans rs) + length (List.map_filter link_vxlan ls) \<le> NR_VXLAN_MAX \<Longrightarrow>
   length (vlans rs) + length (List.map_filter link_vlan ls) \<le> NR_VLAN_MAX \<Longrightarrow>
   steps add_link rs ls = Inr (rs\<lparr>ifaces := ifaces rs @ map link_iface ls,
     vxlans := vxlans rs @ List.map_filter link_vxlan ls, vlans := vlans rs @ List.map_filter link_vlan ls\<rparr>)"
proof (induction ls arbitrary: rs)
  case (Cons l ls)
  have "link_vxlan l = None \<or> link_vlan l = None"
    by (auto simp: link_vxlan_def link_vlan_def split: option.splits kinfo.splits)
  then show ?case
    using Cons by (cases "link_vxlan l"; cases "link_vlan l") (simp_all add: add_link_def Let_def)
qed simp

lemma steps_addrs:
  "length (addr4s rs) + length as \<le> NR_ADDR4_MAX \<Longrightarrow>
   steps add_addr rs as = Inr (rs\<lparr>addr4s := addr4s rs @ map fst as\<rparr>)"
  by (induction as arbitrary: rs) (simp_all add: add_addr_def)

definition main_routes :: "kroute list \<Rightarrow> route4 list" where
  "main_routes ks = map kr_route
     (filter (\<lambda>k. kr_table k = RT_TABLE_MAIN \<and> kr_type k \<in> {RTN_UNICAST, RTN_LOCAL}) ks)"

lemma steps_routes:
  "length (route4s rs) + length (main_routes ks) \<le> NR_ROUTE4_MAX \<Longrightarrow>
   steps add_route rs ks = Inr (rs\<lparr>route4s := route4s rs @ main_routes ks\<rparr>)"
  by (induction ks arbitrary: rs) (auto simp: add_route_def main_routes_def)

definition ktables_fit :: "ktables \<Rightarrow> bool" where
  "ktables_fit k \<longleftrightarrow> length (entries (concat (kt_links k))) \<le> NR_IFACE_MAX
     \<and> length (List.map_filter link_vxlan (entries (concat (kt_links k)))) \<le> NR_VXLAN_MAX
     \<and> length (List.map_filter link_vlan (entries (concat (kt_links k)))) \<le> NR_VLAN_MAX
     \<and> length (entries (concat (kt_addrs k))) \<le> NR_ADDR4_MAX
     \<and> length (main_routes (entries (concat (kt_routes k)))) \<le> NR_ROUTE4_MAX"

lemma kernel_state_fit:
  "ktables_fit k \<Longrightarrow> kernel_state k = Inr \<lparr>ifaces = map link_iface (entries (concat (kt_links k))),
     addr4s = map fst (entries (concat (kt_addrs k))), route4s = main_routes (entries (concat (kt_routes k))),
     dns4 = [], vxlans = List.map_filter link_vxlan (entries (concat (kt_links k))),
     vlans = List.map_filter link_vlan (entries (concat (kt_links k)))\<rparr>"
  by (simp add: ktables_fit_def kernel_state_def steps_links steps_addrs steps_routes)

section \<open>Properties of the reader\<close>

text \<open>C4: the snapshot is exactly what the kernel reports: whatever links, addresses and routes the
  kernel encodes in its replies, split into datagrams of up to 16384 bytes and mixed with messages
  of other requests, \<open>nl_load_state\<close> returns a snapshot with the same links, VXLAN and VLAN data,
  the local addresses and the unicast and local routes of the main table, in the order of the
  replies, when they fit its arrays.\<close>

theorem nl_load_state_exact:
  assumes "hdr_ok h" and "ktables_ok k" and "ktables_fit k" and "\<And>m. send m = Inr (length m)"
  shows "nl_load_state h None send (kernel_replies k @ es) = Some (Inr
    \<lparr>ifaces = map link_iface (entries (concat (kt_links k))),
     addr4s = map fst (entries (concat (kt_addrs k))), route4s = main_routes (entries (concat (kt_routes k))),
     dns4 = [], vxlans = List.map_filter link_vxlan (entries (concat (kt_links k))),
     vlans = List.map_filter link_vlan (entries (concat (kt_links k)))\<rparr>)"
  using nl_load_state_replies [OF assms(1,2,4)] kernel_state_fit [OF assms(3)] by simp

lemma steps_addrs_full:
  "NR_ADDR4_MAX < length (addr4s rs) + length as \<Longrightarrow> length (addr4s rs) \<le> NR_ADDR4_MAX \<Longrightarrow>
   steps add_addr rs as = Inl ENOSPC"
proof (induction as arbitrary: rs)
  case (Cons a as)
  then show ?case
    by (cases "length (addr4s rs) \<ge> NR_ADDR4_MAX") (simp_all add: add_addr_def)
qed simp

lemma steps_links_addr4s: "steps add_link rs ls = Inr rs' \<Longrightarrow> addr4s rs' = addr4s rs"
  by (induction ls arbitrary: rs)
     (auto simp: add_link_def Let_def ebind_Inr_iff split: if_splits option.splits)

lemma steps_links_error: "steps add_link rs ls = Inl e \<Longrightarrow> e = ENOSPC"
  by (induction ls arbitrary: rs)
     (auto simp: add_link_def Let_def ebind_Inl_iff split: if_splits option.splits)

text \<open>A kernel with more IPv4 addresses than the snapshot can hold makes \<open>nl_load_state\<close> fail with
  \<open>ENOSPC\<close>: the list is never cut silently.\<close>

theorem nl_load_state_full:
  assumes "hdr_ok h" and "ktables_ok k" and "\<And>m. send m = Inr (length m)"
    and "NR_ADDR4_MAX < length (entries (concat (kt_addrs k)))"
  shows "nl_load_state h None send (kernel_replies k @ es) = Some (Inl ENOSPC)"
proof -
  have "kernel_state k = Inl ENOSPC"
  proof (cases "steps add_link rs_zero (entries (concat (kt_links k)))")
    case (Inr rs)
    with steps_links_addr4s [OF Inr] assms(4) show ?thesis
      by (simp add: kernel_state_def steps_addrs_full)
  qed (simp add: kernel_state_def steps_links_error)
  with nl_load_state_replies [OF assms(1,2,3)] show ?thesis by simp
qed

text \<open>C12: whatever bytes arrive on the socket, a snapshot that \<open>nl_load_state\<close> returns stays within its
  arrays and its names fit their fields, and a failure is a nonzero return value.\<close>

theorem nl_load_state_safe:
  assumes "nl_load_state h opn send es = Some r"
    and "\<And>e. opn = Some e \<Longrightarrow> rc_of e \<noteq> 0" and "send_ok send" and "recv_ok es"
  shows "case r of Inl e \<Rightarrow> rc_of e \<noteq> 0
    | Inr rs \<Rightarrow> rs_wf rs \<and> (\<forall>i \<in> set (ifaces rs). length (if_name i) < IFNAMSIZ \<and> length (if_kind i) < 16)
        \<and> (\<forall>v \<in> set (vxlans rs). length (vxl_ifname v) < IFNAMSIZ)
        \<and> (\<forall>v \<in> set (vlans rs). length (vln_ifname v) < IFNAMSIZ)"
  using nl_load_state_ok [OF assms] by (simp add: result_ok_def snapshot_wf_def split: sum.splits)

text \<open>The attribute table holds for each type up to the limit the last attribute of that type
  in the buffer, with its data and its length, and nothing for a type that does not occur.\<close>

theorem parse_rtattr_table:
  assumes "list_all attr_ok as" and "t \<le> mx"
  shows "case map_of (rev as) t of
      None \<Rightarrow> parse_rtattr mx (enc_attrs as @ r) (int (length (enc_attrs as))) t = None
    | Some d \<Rightarrow> \<exists>p. parse_rtattr mx (enc_attrs as @ r) (int (length (enc_attrs as))) t = Some p
        \<and> rta_payload p = int (length d) \<and> (\<exists>x. rta_data p = d @ x)"
proof -
  let ?tb = "parse_rtattr mx (enc_attrs as @ r) (int (length (enc_attrs as)))"
  have t: "table_of mx ?tb as" by (rule table_of_parse [OF assms(1)])
  show ?thesis
  proof (cases "map_of (rev as) t")
    case None
    then show ?thesis using table_of_None [OF t assms(2) None] by simp
  next
    case (Some d)
    obtain p where p: "?tb t = Some p" "points t p d" "attr_ok (t, d)" by (rule table_of_Some [OF t assms(2) Some])
    then show ?thesis using Some points_read(1,6) [OF p(2,3)] by simp
  qed
qed

section \<open>A concrete kernel\<close>

text \<open>A loopback-like link, a VLAN on it and a VXLAN, an address, and routes of two tables; the
  addresses come in two datagrams, one of them with a message of an older request.\<close>

definition demo_hdr :: nl_hdr where
  "demo_hdr = \<lparr>ifla_max = 64, info_max = 5, vxlan_max = 30, vlan_max = 6, ifa_max = 11, rta_max = 30\<rparr>"

definition eth0 :: "32 word \<Rightarrow> klink" where
  "eth0 fl = \<lparr>kl_name = ''eth0'', kl_index = 2, kl_flags = fl, kl_carrier = Some 1, kl_master = None,
     kl_link = None, kl_info = None\<rparr>"

definition demo_tables :: ktables where
  "demo_tables = \<lparr>kt_links = [[Entry (eth0 1),
       Entry \<lparr>kl_name = ''eth0.7'', kl_index = 3, kl_flags = 1, kl_carrier = None, kl_master = None,
         kl_link = Some 2, kl_info = Some (KVlan (Some 7))\<rparr>]],
     kt_addrs = [[Stale 1 20 [0], Entry (\<lparr>a4_ifindex = 2, a4_addr = 16777343, a4_prefix = 8\<rparr>, None)]],
     kt_routes = [[Entry \<lparr>kr_route = \<lparr>r4_dst = 0, r4_prefix = 0, r4_gw = 1, r4_has_gw = True, r4_oif = 2\<rparr>,
         kr_table = 254, kr_type = 1\<rparr>],
       [Entry \<lparr>kr_route = \<lparr>r4_dst = 5, r4_prefix = 32, r4_gw = 0, r4_has_gw = False, r4_oif = 2\<rparr>,
         kr_table = 255, kr_type = 2\<rparr>]]\<rparr>"

lemmas demo_codec = batch_ok_def dgram_def length_enc_msg enc_link_def enc_addr_def enc_route_def
  enc_attrs_def length_enc_attr link_attrs_def addr_attrs_def route_attrs_def info_attrs_def opt_attr_def
  align4_def link_ok_def addr_ok_def route_ok_def int32_ok_def no_nul_def IFNAMSIZ_def Let_def

lemma demo_ok: "hdr_ok demo_hdr" "ktables_ok demo_tables" "ktables_fit demo_tables"
  by (simp add: demo_hdr_def hdr_ok_def nl_consts,
      simp add: demo_tables_def eth0_def ktables_ok_def demo_codec,
      simp add: demo_tables_def eth0_def ktables_fit_def main_routes_def nr_limits link_vxlan_def link_vlan_def)

theorem nl_load_state_exact_witness:
  "\<exists>rs. nl_load_state demo_hdr None (\<lambda>m. Inr (length m)) (kernel_replies demo_tables) = Some (Inr rs)
     \<and> map if_name (ifaces rs) = [''eth0'', ''eth0.7''] \<and> map vln_id (vlans rs) = [7]
     \<and> map a4_addr (addr4s rs) = [16777343] \<and> map r4_gw (route4s rs) = [1]"
  using nl_load_state_exact [OF demo_ok, of "\<lambda>m. Inr (length m)" "[]"]
  by (simp add: demo_tables_def eth0_def link_iface_def link_vlan_def link_vxlan_def main_routes_def nl_consts)

text \<open>One address too many, a datagram for each.\<close>

definition full_tables :: ktables where
  "full_tables = \<lparr>kt_links = [], kt_addrs =
     replicate (Suc NR_ADDR4_MAX) [Entry (\<lparr>a4_ifindex = 2, a4_addr = 5, a4_prefix = 8\<rparr>, None)], kt_routes = []\<rparr>"

theorem nl_load_state_full_witness:
  "nl_load_state demo_hdr None (\<lambda>m. Inr (length m)) (kernel_replies full_tables) = Some (Inl ENOSPC)"
proof -
  have "ktables_ok full_tables"
    by (simp add: full_tables_def ktables_ok_def list_all_iff demo_codec del: replicate_Suc)
  moreover have "length (entries (concat (replicate n [Entry a]))) = n" for n and a :: kaddr
    by (induction n) simp_all
  then have "NR_ADDR4_MAX < length (entries (concat (kt_addrs full_tables)))"
    by (simp add: full_tables_def del: replicate_Suc)
  ultimately show ?thesis
    using nl_load_state_full [OF demo_ok(1), of full_tables "\<lambda>m. Inr (length m)" "[]"] by simp
qed

theorem nl_load_state_safe_witness:
  "nl_load_state demo_hdr None (\<lambda>m. Inr (length m)) [Recv_intr, Recv [1, 2, 3]] = Some (Inl EIO) \<and> rc_of EIO \<noteq> 0"
proof -
  have "nl_load_state demo_hdr None (\<lambda>m. Inr (length m)) [Recv_intr, Recv [1, 2, 3]] = Some (Inl EIO)"
    by (simp add: nl_load_state_def dump_links_def dump_req_def nl_send_all then_dump_def
        msgs_loop.simps [where rem = 3] NLMSG_OK_def)
  with nl_load_state_safe [OF this] show ?thesis by (simp add: send_ok_def recv_ok_def)
qed

theorem parse_rtattr_table_witness:
  "list_all attr_ok [(IFA_LOCAL, [1, 2, 3, 4]), (200, [9])] \<and>
   (\<exists>p. parse_rtattr 11 (enc_attrs [(IFA_LOCAL, [1, 2, 3, 4]), (200, [9])])
      (int (length (enc_attrs [(IFA_LOCAL, [1, 2, 3, 4]), (200, [9])]))) IFA_LOCAL = Some p \<and> rta_payload p = 4)"
  using parse_rtattr_table [of "[(IFA_LOCAL, [1, 2, 3, 4]), (200, [9])]" IFA_LOCAL 11 "[]"]
  by (auto simp: nl_consts)

end
