(* ===== verification/Ly_Types.thy ===== *)
theory Ly_Types
  imports Prelude
begin

text \<open>
  The data types of the vendored libyaml (\<open>deps/libyaml/include/yaml.h\<close> and
  \<open>src/yaml_private.h\<close>): encodings, marks, styles, tokens, events, nodes and documents. A token or
  event type with its part of the data union is one constructor. A \<open>yaml_char_t *\<close> is a list of
  octets without its terminating NUL, with \<open>None\<close> for \<open>NULL\<close>; a string with a length is a list of that
  length; the stacks and queues of the C code are lists.
\<close>

section \<open>Basic types\<close>

type_synonym yaml_char_t = "8 word"
type_synonym ystr = "yaml_char_t list"

text \<open>The octets of a C string literal.\<close>

definition lit :: "string \<Rightarrow> ystr" where
  "lit s = map of_char s"

record yaml_version_directive_t =
  vd_major :: int
  vd_minor :: int

record yaml_tag_directive_t =
  td_handle :: ystr
  td_prefix :: ystr

datatype yaml_encoding_t =
  YAML_ANY_ENCODING | YAML_UTF8_ENCODING | YAML_UTF16LE_ENCODING | YAML_UTF16BE_ENCODING

datatype yaml_error_type_t =
    YAML_MEMORY_ERROR | YAML_READER_ERROR | YAML_SCANNER_ERROR | YAML_PARSER_ERROR
  | YAML_COMPOSER_ERROR | YAML_WRITER_ERROR | YAML_EMITTER_ERROR

record yaml_mark_t =
  mk_index :: nat
  mk_line :: nat
  mk_column :: nat

definition mark0 :: yaml_mark_t where
  "mark0 = \<lparr>mk_index = 0, mk_line = 0, mk_column = 0\<rparr>"

datatype yaml_scalar_style_t =
    YAML_ANY_SCALAR_STYLE | YAML_PLAIN_SCALAR_STYLE | YAML_SINGLE_QUOTED_SCALAR_STYLE
  | YAML_DOUBLE_QUOTED_SCALAR_STYLE | YAML_LITERAL_SCALAR_STYLE | YAML_FOLDED_SCALAR_STYLE

datatype yaml_sequence_style_t =
  YAML_ANY_SEQUENCE_STYLE | YAML_BLOCK_SEQUENCE_STYLE | YAML_FLOW_SEQUENCE_STYLE

datatype yaml_mapping_style_t =
  YAML_ANY_MAPPING_STYLE | YAML_BLOCK_MAPPING_STYLE | YAML_FLOW_MAPPING_STYLE

section \<open>Tokens\<close>

datatype yaml_token_data =
    YAML_NO_TOKEN
  | YAML_STREAM_START_TOKEN yaml_encoding_t
  | YAML_STREAM_END_TOKEN
  | YAML_VERSION_DIRECTIVE_TOKEN int int
  | YAML_TAG_DIRECTIVE_TOKEN ystr ystr
  | YAML_DOCUMENT_START_TOKEN
  | YAML_DOCUMENT_END_TOKEN
  | YAML_BLOCK_SEQUENCE_START_TOKEN
  | YAML_BLOCK_MAPPING_START_TOKEN
  | YAML_BLOCK_END_TOKEN
  | YAML_FLOW_SEQUENCE_START_TOKEN
  | YAML_FLOW_SEQUENCE_END_TOKEN
  | YAML_FLOW_MAPPING_START_TOKEN
  | YAML_FLOW_MAPPING_END_TOKEN
  | YAML_BLOCK_ENTRY_TOKEN
  | YAML_FLOW_ENTRY_TOKEN
  | YAML_KEY_TOKEN
  | YAML_VALUE_TOKEN
  | YAML_ALIAS_TOKEN ystr
  | YAML_ANCHOR_TOKEN ystr
  | YAML_TAG_TOKEN ystr ystr
  | YAML_SCALAR_TOKEN ystr yaml_scalar_style_t

record yaml_token_t =
  tk_data :: yaml_token_data
  tk_start :: yaml_mark_t
  tk_end :: yaml_mark_t

section \<open>Events\<close>

datatype yaml_event_data =
    YAML_NO_EVENT
  | YAML_STREAM_START_EVENT yaml_encoding_t
  | YAML_STREAM_END_EVENT
  | YAML_DOCUMENT_START_EVENT "yaml_version_directive_t option" "yaml_tag_directive_t list" bool
  | YAML_DOCUMENT_END_EVENT bool
  | YAML_ALIAS_EVENT ystr
  | YAML_SCALAR_EVENT "ystr option" "ystr option" ystr bool bool yaml_scalar_style_t
  | YAML_SEQUENCE_START_EVENT "ystr option" "ystr option" bool yaml_sequence_style_t
  | YAML_SEQUENCE_END_EVENT
  | YAML_MAPPING_START_EVENT "ystr option" "ystr option" bool yaml_mapping_style_t
  | YAML_MAPPING_END_EVENT

record yaml_event_t =
  ev_data :: yaml_event_data
  ev_start :: yaml_mark_t
  ev_end :: yaml_mark_t

text \<open>\<open>EVENT_INIT\<close> with the data of the event, and the erased event of \<open>memset\<close>.\<close>

definition EVENT_INIT :: "yaml_event_data \<Rightarrow> yaml_mark_t \<Rightarrow> yaml_mark_t \<Rightarrow> yaml_event_t" where
  "EVENT_INIT d start_mark end_mark = \<lparr>ev_data = d, ev_start = start_mark, ev_end = end_mark\<rparr>"

definition no_event :: yaml_event_t where
  "no_event = EVENT_INIT YAML_NO_EVENT mark0 mark0"

lemma EVENT_INIT_sel [simp]:
  "ev_data (EVENT_INIT d s e) = d" "ev_start (EVENT_INIT d s e) = s" "ev_end (EVENT_INIT d s e) = e"
  by (simp_all add: EVENT_INIT_def)

section \<open>Nodes and documents\<close>

text \<open>A node refers to others by their number in the document, from 1 on; 0 is no node.\<close>

datatype yaml_node_data =
    YAML_NO_NODE
  | YAML_SCALAR_NODE ystr yaml_scalar_style_t
  | YAML_SEQUENCE_NODE "nat list" yaml_sequence_style_t
  | YAML_MAPPING_NODE "(nat \<times> nat) list" yaml_mapping_style_t

record yaml_node_t =
  nd_tag :: ystr
  nd_data :: yaml_node_data
  nd_start :: yaml_mark_t
  nd_end :: yaml_mark_t

definition NODE_INIT :: "yaml_node_data \<Rightarrow> ystr \<Rightarrow> yaml_mark_t \<Rightarrow> yaml_mark_t \<Rightarrow> yaml_node_t" where
  "NODE_INIT d tag start_mark end_mark =
     \<lparr>nd_tag = tag, nd_data = d, nd_start = start_mark, nd_end = end_mark\<rparr>"

record yaml_document_t =
  dc_nodes :: "yaml_node_t list"
  dc_version :: "yaml_version_directive_t option"
  dc_tags :: "yaml_tag_directive_t list"
  dc_start_implicit :: bool
  dc_end_implicit :: bool
  dc_start :: yaml_mark_t
  dc_end :: yaml_mark_t

text \<open>\<open>memset(document, 0, sizeof(*document))\<close>.\<close>

definition document0 :: yaml_document_t where
  "document0 = \<lparr>dc_nodes = [], dc_version = None, dc_tags = [], dc_start_implicit = False,
     dc_end_implicit = False, dc_start = mark0, dc_end = mark0\<rparr>"

definition YAML_DEFAULT_SCALAR_TAG :: ystr where
  "YAML_DEFAULT_SCALAR_TAG = lit ''tag:yaml.org,2002:str''"

definition YAML_DEFAULT_SEQUENCE_TAG :: ystr where
  "YAML_DEFAULT_SEQUENCE_TAG = lit ''tag:yaml.org,2002:seq''"

definition YAML_DEFAULT_MAPPING_TAG :: ystr where
  "YAML_DEFAULT_MAPPING_TAG = lit ''tag:yaml.org,2002:map''"

definition INT_MAX32 :: nat where
  "INT_MAX32 = 2147483647"

section \<open>Errors\<close>

text \<open>The error fields of \<open>yaml_parser_t\<close>, filled by the \<open>set_*_error\<close> functions.\<close>

record yaml_problem =
  pb_error :: yaml_error_type_t
  pb_context :: string
  pb_context_mark :: yaml_mark_t
  pb_problem :: string
  pb_mark :: yaml_mark_t

text \<open>What a C function of the parser or loader does: return 1 (with an event or node), return 0, or run
  into undefined behaviour or a failed \<open>assert\<close> (\<open>Crash\<close>).\<close>

datatype ('a, 's) outcome = Done 'a 's | Fail 's | Crash

text \<open>\<open>if (!f(..)) return 0; g(..)\<close>, and a loop over the elements of a list that returns at the first failure.\<close>

definition then_do :: "(unit, 's) outcome \<Rightarrow> ('s \<Rightarrow> (unit, 's) outcome) \<Rightarrow> (unit, 's) outcome" where
  "then_do r k = (case r of Done _ s \<Rightarrow> k s | Fail s \<Rightarrow> Fail s | Crash \<Rightarrow> Crash)"

fun for_each :: "('i \<Rightarrow> 's \<Rightarrow> (unit, 's) outcome) \<Rightarrow> 'i list \<Rightarrow> 's \<Rightarrow> (unit, 's) outcome" where
  "for_each f [] s = Done () s"
| "for_each f (i # js) s = then_do (f i s) (for_each f js)"

lemma then_do_simps [simp]:
  "then_do (Done u s) k = k s" "then_do (Fail s) k = Fail s" "then_do Crash k = Crash"
  by (simp_all add: then_do_def)

lemma then_do_Done:
  "then_do r k = Done u s' \<longleftrightarrow> (\<exists>s. r = Done () s \<and> k s = Done u s')"
  by (cases r) simp_all

lemma then_do_assoc:
  "then_do (then_do r f) g = then_do r (\<lambda>s. then_do (f s) g)"
  by (cases r) simp_all

lemma for_each_append:
  "for_each f (xs @ ys) s = then_do (for_each f xs s) (for_each f ys)"
proof (induction xs arbitrary: s)
  case (Cons x xs)
  then show ?case by (cases "f x s") simp_all
qed simp

end
