(* ===== verification/Ly_Dumper.thy ===== *)
theory Ly_Dumper
  imports Ly_Types Clib
begin

text \<open>
  The dumper of libyaml (\<open>dumper.c\<close>): it turns a document into events for the emitter, with anchors for
  the nodes that are referenced more than once. The emitter is a parameter: \<open>emit\<close> takes its state and an
  event. The recursion over the nodes has a fuel, one more than the number of nodes, and no call runs out
  of it (\<open>Ly_Dumper_Laws\<close>); running out, an index outside the document and a failed \<open>assert\<close> are
  \<open>Crash\<close>.
\<close>

section \<open>The emitter object\<close>

record yaml_anchors_t =
  an_references :: nat
  an_anchor :: nat
  an_serialized :: bool

text \<open>The part of \<open>yaml_emitter_t\<close> that the dumper uses. \<open>em_sink\<close> is the rest, on which \<open>emit\<close> works.\<close>

record 'e yaml_emitter_t =
  em_sink :: 'e
  em_opened :: bool
  em_closed :: bool
  em_anchors :: "yaml_anchors_t list"
  em_last_anchor_id :: nat

type_synonym 'e emit_fun = "'e \<Rightarrow> yaml_event_t \<Rightarrow> (unit, 'e) outcome"
type_synonym 'e dump_outcome = "(unit, 'e yaml_emitter_t) outcome"

definition yaml_emitter_emit :: "'e emit_fun \<Rightarrow> yaml_event_data \<Rightarrow> 'e yaml_emitter_t \<Rightarrow> 'e dump_outcome" where
  "yaml_emitter_emit emit d em = (case emit (em_sink em) (EVENT_INIT d mark0 mark0) of
     Done _ s \<Rightarrow> Done () (em\<lparr>em_sink := s\<rparr>) | Fail s \<Rightarrow> Fail (em\<lparr>em_sink := s\<rparr>) | Crash \<Rightarrow> Crash)"

section \<open>Anchors\<close>

definition node_at :: "yaml_document_t \<Rightarrow> nat \<Rightarrow> yaml_node_t" where
  "node_at d index = dc_nodes d ! (index - 1)"

definition in_document :: "yaml_document_t \<Rightarrow> nat \<Rightarrow> bool" where
  "in_document d index \<longleftrightarrow> 1 \<le> index \<and> index \<le> length (dc_nodes d)"

definition anchor_at :: "'e yaml_emitter_t \<Rightarrow> nat \<Rightarrow> yaml_anchors_t" where
  "anchor_at em index = em_anchors em ! (index - 1)"

definition set_anchor :: "nat \<Rightarrow> yaml_anchors_t \<Rightarrow> 'e yaml_emitter_t \<Rightarrow> 'e yaml_emitter_t" where
  "set_anchor index a em = em\<lparr>em_anchors := (em_anchors em)[index - 1 := a]\<rparr>"

text \<open>The references of a node, in the order in which the code follows them.\<close>

fun node_refs :: "yaml_node_data \<Rightarrow> nat list" where
  "node_refs (YAML_SEQUENCE_NODE items _) = items"
| "node_refs (YAML_MAPPING_NODE pairs _) = concat (map (\<lambda>(k, v). [k, v]) pairs)"
| "node_refs _ = []"

fun yaml_emitter_anchor_node :: "nat \<Rightarrow> yaml_document_t \<Rightarrow> nat \<Rightarrow> 'e yaml_emitter_t \<Rightarrow> 'e dump_outcome" where
  "yaml_emitter_anchor_node 0 d index em = Crash"
| "yaml_emitter_anchor_node (Suc fuel) d index em =
     (if \<not> in_document d index then Crash
      else let a = anchor_at em index;
               a = a\<lparr>an_references := Suc (an_references a)\<rparr>;
               em = set_anchor index a em
           in if an_references a = 1 then
                for_each (yaml_emitter_anchor_node fuel d) (node_refs (nd_data (node_at d index))) em
              else if an_references a = 2 then
                let id = Suc (em_last_anchor_id em) in
                Done () ((set_anchor index (a\<lparr>an_anchor := id\<rparr>) em)\<lparr>em_last_anchor_id := id\<rparr>)
              else Done () em)"

text \<open>\<open>sprintf(anchor, "id%03d", anchor_id)\<close>.\<close>

definition yaml_emitter_generate_anchor :: "nat \<Rightarrow> ystr" where
  "yaml_emitter_generate_anchor anchor_id =
     (let s = fmt_u anchor_id in lit (''id'' @ replicate (3 - length s) (CHR ''0'') @ s))"

section \<open>Serialization\<close>

definition yaml_emitter_dump_alias :: "'e emit_fun \<Rightarrow> ystr option \<Rightarrow> 'e yaml_emitter_t \<Rightarrow> 'e dump_outcome" where
  "yaml_emitter_dump_alias emit anchor em = (case anchor of
     None \<Rightarrow> Crash
   | Some a \<Rightarrow> yaml_emitter_emit emit (YAML_ALIAS_EVENT a) em)"

definition yaml_emitter_dump_scalar ::
  "'e emit_fun \<Rightarrow> yaml_node_t \<Rightarrow> ystr \<Rightarrow> yaml_scalar_style_t \<Rightarrow> ystr option \<Rightarrow> 'e yaml_emitter_t \<Rightarrow> 'e dump_outcome" where
  "yaml_emitter_dump_scalar emit node v style anchor em =
     (let plain_implicit = (nd_tag node = YAML_DEFAULT_SCALAR_TAG);
          quoted_implicit = (nd_tag node = YAML_DEFAULT_SCALAR_TAG)
      in yaml_emitter_emit emit
           (YAML_SCALAR_EVENT anchor (Some (nd_tag node)) v plain_implicit quoted_implicit style) em)"

text \<open>The recursive call is the argument \<open>dump_node\<close>.\<close>

definition yaml_emitter_dump_sequence ::
  "'e emit_fun \<Rightarrow> (nat \<Rightarrow> 'e yaml_emitter_t \<Rightarrow> 'e dump_outcome) \<Rightarrow> yaml_node_t \<Rightarrow> nat list \<Rightarrow> yaml_sequence_style_t \<Rightarrow>
     ystr option \<Rightarrow> 'e yaml_emitter_t \<Rightarrow> 'e dump_outcome" where
  "yaml_emitter_dump_sequence emit dump_node node items style anchor em =
     (let implicit = (nd_tag node = YAML_DEFAULT_SEQUENCE_TAG) in
      then_do (yaml_emitter_emit emit (YAML_SEQUENCE_START_EVENT anchor (Some (nd_tag node)) implicit style) em) (\<lambda>em.
      then_do (for_each dump_node items em)
        (yaml_emitter_emit emit YAML_SEQUENCE_END_EVENT)))"

definition yaml_emitter_dump_mapping ::
  "'e emit_fun \<Rightarrow> (nat \<Rightarrow> 'e yaml_emitter_t \<Rightarrow> 'e dump_outcome) \<Rightarrow> yaml_node_t \<Rightarrow> (nat \<times> nat) list \<Rightarrow> yaml_mapping_style_t \<Rightarrow>
     ystr option \<Rightarrow> 'e yaml_emitter_t \<Rightarrow> 'e dump_outcome" where
  "yaml_emitter_dump_mapping emit dump_node node pairs style anchor em =
     (let implicit = (nd_tag node = YAML_DEFAULT_MAPPING_TAG) in
      then_do (yaml_emitter_emit emit (YAML_MAPPING_START_EVENT anchor (Some (nd_tag node)) implicit style) em) (\<lambda>em.
      then_do (for_each (\<lambda>(k, v) em. then_do (dump_node k em) (dump_node v)) pairs em)
        (yaml_emitter_emit emit YAML_MAPPING_END_EVENT)))"

fun yaml_emitter_dump_node ::
  "'e emit_fun \<Rightarrow> nat \<Rightarrow> yaml_document_t \<Rightarrow> nat \<Rightarrow> 'e yaml_emitter_t \<Rightarrow> 'e dump_outcome" where
  "yaml_emitter_dump_node emit 0 d index em = Crash"
| "yaml_emitter_dump_node emit (Suc fuel) d index em =
     (if \<not> in_document d index then Crash
      else let node = node_at d index; a = anchor_at em index;
               anchor = (if an_anchor a \<noteq> 0 then Some (yaml_emitter_generate_anchor (an_anchor a)) else None)
           in if an_serialized a then yaml_emitter_dump_alias emit anchor em
              else let em = set_anchor index (a\<lparr>an_serialized := True\<rparr>) em in
                case nd_data node of
                  YAML_SCALAR_NODE v style \<Rightarrow> yaml_emitter_dump_scalar emit node v style anchor em
                | YAML_SEQUENCE_NODE items style \<Rightarrow>
                    yaml_emitter_dump_sequence emit (yaml_emitter_dump_node emit fuel d) node items style anchor em
                | YAML_MAPPING_NODE pairs style \<Rightarrow>
                    yaml_emitter_dump_mapping emit (yaml_emitter_dump_node emit fuel d) node pairs style anchor em
                | YAML_NO_NODE \<Rightarrow> Crash)"

section \<open>The API\<close>

definition yaml_emitter_open :: "'e emit_fun \<Rightarrow> 'e yaml_emitter_t \<Rightarrow> 'e dump_outcome" where
  "yaml_emitter_open emit em =
     (if em_opened em then Crash
      else then_do (yaml_emitter_emit emit (YAML_STREAM_START_EVENT YAML_ANY_ENCODING) em)
        (\<lambda>em. Done () (em\<lparr>em_opened := True\<rparr>)))"

definition yaml_emitter_close :: "'e emit_fun \<Rightarrow> 'e yaml_emitter_t \<Rightarrow> 'e dump_outcome" where
  "yaml_emitter_close emit em =
     (if \<not> em_opened em then Crash
      else if em_closed em then Done () em
      else then_do (yaml_emitter_emit emit YAML_STREAM_END_EVENT em) (\<lambda>em. Done () (em\<lparr>em_closed := True\<rparr>)))"

definition no_anchor :: yaml_anchors_t where
  "no_anchor = \<lparr>an_references = 0, an_anchor = 0, an_serialized = False\<rparr>"

text \<open>\<open>yaml_emitter_delete_document_and_anchors\<close>, as far as the emitter goes: without anchors only the document
  is deleted.\<close>

definition yaml_emitter_delete_document_and_anchors :: "'e yaml_emitter_t \<Rightarrow> 'e yaml_emitter_t" where
  "yaml_emitter_delete_document_and_anchors em =
     (if em_anchors em = [] then em else em\<lparr>em_anchors := [], em_last_anchor_id := 0\<rparr>)"

definition clean_up :: "'e dump_outcome \<Rightarrow> 'e dump_outcome" where
  "clean_up r = (case r of
     Done _ em \<Rightarrow> Done () (yaml_emitter_delete_document_and_anchors em)
   | Fail em \<Rightarrow> Fail (yaml_emitter_delete_document_and_anchors em)
   | Crash \<Rightarrow> Crash)"

definition yaml_emitter_dump :: "'e emit_fun \<Rightarrow> yaml_document_t \<Rightarrow> 'e yaml_emitter_t \<Rightarrow> 'e dump_outcome" where
  "yaml_emitter_dump emit d em = clean_up
     (then_do (if \<not> em_opened em then yaml_emitter_open emit em else Done () em) (\<lambda>em.
      if dc_nodes d = [] then yaml_emitter_close emit em
      else let fuel = Suc (length (dc_nodes d)) in
        then_do (yaml_emitter_emit emit (YAML_DOCUMENT_START_EVENT (dc_version d) (dc_tags d) (dc_start_implicit d))
          (em\<lparr>em_anchors := replicate (length (dc_nodes d)) no_anchor\<rparr>)) (\<lambda>em.
        then_do (yaml_emitter_anchor_node fuel d 1 em) (\<lambda>em.
        then_do (yaml_emitter_dump_node emit fuel d 1 em)
          (yaml_emitter_emit emit (YAML_DOCUMENT_END_EVENT (dc_end_implicit d)))))))"

end
