(* ===== verification/Ly_Parser.thy ===== *)
theory Ly_Parser
  imports Ly_Types
begin

text \<open>
  The parser of libyaml (\<open>parser.c\<close>): a state machine with a stack of states that turns tokens into
  events. The scanner is represented by the tokens it will deliver, \<open>ps_tokens\<close>; when they are used up,
  \<open>PEEK_TOKEN\<close> gives \<open>NULL\<close> with the problem \<open>ps_scan_problem\<close> recorded, as
  \<open>yaml_parser_fetch_more_tokens\<close> does when it fails. A \<open>POP\<close> from an empty stack and the use of a
  \<open>NULL\<close> token are \<open>Crash\<close>.
\<close>

section \<open>The parser object\<close>

datatype yaml_parser_state_t =
    YAML_PARSE_STREAM_START_STATE
  | YAML_PARSE_IMPLICIT_DOCUMENT_START_STATE
  | YAML_PARSE_DOCUMENT_START_STATE
  | YAML_PARSE_DOCUMENT_CONTENT_STATE
  | YAML_PARSE_DOCUMENT_END_STATE
  | YAML_PARSE_BLOCK_NODE_STATE
  | YAML_PARSE_BLOCK_NODE_OR_INDENTLESS_SEQUENCE_STATE
  | YAML_PARSE_FLOW_NODE_STATE
  | YAML_PARSE_BLOCK_SEQUENCE_FIRST_ENTRY_STATE
  | YAML_PARSE_BLOCK_SEQUENCE_ENTRY_STATE
  | YAML_PARSE_INDENTLESS_SEQUENCE_ENTRY_STATE
  | YAML_PARSE_BLOCK_MAPPING_FIRST_KEY_STATE
  | YAML_PARSE_BLOCK_MAPPING_KEY_STATE
  | YAML_PARSE_BLOCK_MAPPING_VALUE_STATE
  | YAML_PARSE_FLOW_SEQUENCE_FIRST_ENTRY_STATE
  | YAML_PARSE_FLOW_SEQUENCE_ENTRY_STATE
  | YAML_PARSE_FLOW_SEQUENCE_ENTRY_MAPPING_KEY_STATE
  | YAML_PARSE_FLOW_SEQUENCE_ENTRY_MAPPING_VALUE_STATE
  | YAML_PARSE_FLOW_SEQUENCE_ENTRY_MAPPING_END_STATE
  | YAML_PARSE_FLOW_MAPPING_FIRST_KEY_STATE
  | YAML_PARSE_FLOW_MAPPING_KEY_STATE
  | YAML_PARSE_FLOW_MAPPING_VALUE_STATE
  | YAML_PARSE_FLOW_MAPPING_EMPTY_VALUE_STATE
  | YAML_PARSE_END_STATE

text \<open>The part of \<open>yaml_parser_t\<close> that the parser uses. Stacks have their top first; \<open>ps_tags\<close> is in the
  order from \<open>start\<close> to \<open>top\<close>.\<close>

record yaml_parser_t =
  ps_tokens :: "yaml_token_t list"
  ps_scan_problem :: yaml_problem
  ps_error :: "yaml_problem option"
  ps_stream_start_produced :: bool
  ps_stream_end_produced :: bool
  ps_states :: "yaml_parser_state_t list"
  ps_state :: yaml_parser_state_t
  ps_marks :: "yaml_mark_t list"
  ps_tags :: "yaml_tag_directive_t list"

type_synonym event_outcome = "(yaml_event_t, yaml_parser_t) outcome"

text \<open>\<open>yaml_parser_initialize\<close>, for a scanner that delivers \<open>toks\<close> and then fails with \<open>pb\<close>.\<close>

definition yaml_parser_initialize :: "yaml_token_t list \<Rightarrow> yaml_problem \<Rightarrow> yaml_parser_t" where
  "yaml_parser_initialize toks pb = \<lparr>ps_tokens = toks, ps_scan_problem = pb, ps_error = None,
     ps_stream_start_produced = False, ps_stream_end_produced = False, ps_states = [],
     ps_state = YAML_PARSE_STREAM_START_STATE, ps_marks = [], ps_tags = []\<rparr>"

section \<open>Tokens, stacks and errors\<close>

text \<open>\<open>token = PEEK_TOKEN(parser); if (!token) return 0;\<close> with the code that follows as \<open>k\<close>.\<close>

definition PEEK_TOKEN :: "yaml_parser_t \<Rightarrow> (yaml_token_t \<Rightarrow> ('a, yaml_parser_t) outcome) \<Rightarrow>
    ('a, yaml_parser_t) outcome" where
  "PEEK_TOKEN p k = (case ps_tokens p of
     [] \<Rightarrow> Fail (p\<lparr>ps_error := Some (ps_scan_problem p)\<rparr>)
   | token # _ \<Rightarrow> k token)"

text \<open>\<open>PEEK_TOKEN\<close> whose result is used without a check.\<close>

definition PEEK_UNCHECKED :: "yaml_parser_t \<Rightarrow> (yaml_token_t \<Rightarrow> ('a, yaml_parser_t) outcome) \<Rightarrow>
    ('a, yaml_parser_t) outcome" where
  "PEEK_UNCHECKED p k = (case ps_tokens p of [] \<Rightarrow> Crash | token # _ \<Rightarrow> k token)"

definition SKIP_TOKEN :: "yaml_parser_t \<Rightarrow> yaml_parser_t" where
  "SKIP_TOKEN p = p\<lparr>ps_stream_end_produced := (tk_data (hd (ps_tokens p)) = YAML_STREAM_END_TOKEN),
     ps_tokens := tl (ps_tokens p)\<rparr>"

definition set_state :: "yaml_parser_state_t \<Rightarrow> yaml_parser_t \<Rightarrow> yaml_parser_t" where
  "set_state s p = p\<lparr>ps_state := s\<rparr>"

definition PUSH_STATE :: "yaml_parser_state_t \<Rightarrow> yaml_parser_t \<Rightarrow> yaml_parser_t" where
  "PUSH_STATE s p = p\<lparr>ps_states := s # ps_states p\<rparr>"

definition PUSH_MARK :: "yaml_mark_t \<Rightarrow> yaml_parser_t \<Rightarrow> yaml_parser_t" where
  "PUSH_MARK m p = p\<lparr>ps_marks := m # ps_marks p\<rparr>"

text \<open>\<open>parser->state = POP(parser, parser->states)\<close> and \<open>POP(parser, parser->marks)\<close>.\<close>

definition POP_STATE :: "yaml_parser_t \<Rightarrow> (yaml_parser_t \<Rightarrow> ('a, yaml_parser_t) outcome) \<Rightarrow>
    ('a, yaml_parser_t) outcome" where
  "POP_STATE p k = (case ps_states p of
     [] \<Rightarrow> Crash
   | s # ss \<Rightarrow> k (p\<lparr>ps_state := s, ps_states := ss\<rparr>))"

definition POP_MARK :: "yaml_parser_t \<Rightarrow> (yaml_mark_t \<Rightarrow> yaml_parser_t \<Rightarrow> ('a, yaml_parser_t) outcome) \<Rightarrow>
    ('a, yaml_parser_t) outcome" where
  "POP_MARK p k = (case ps_marks p of [] \<Rightarrow> Crash | m # ms \<Rightarrow> k m (p\<lparr>ps_marks := ms\<rparr>))"

definition yaml_parser_set_parser_error ::
  "yaml_parser_t \<Rightarrow> string \<Rightarrow> yaml_mark_t \<Rightarrow> ('a, yaml_parser_t) outcome" where
  "yaml_parser_set_parser_error p problem problem_mark =
     Fail (p\<lparr>ps_error := Some \<lparr>pb_error = YAML_PARSER_ERROR, pb_context = [], pb_context_mark = mark0,
       pb_problem = problem, pb_mark = problem_mark\<rparr>\<rparr>)"

definition yaml_parser_set_parser_error_context ::
  "yaml_parser_t \<Rightarrow> string \<Rightarrow> yaml_mark_t \<Rightarrow> string \<Rightarrow> yaml_mark_t \<Rightarrow> ('a, yaml_parser_t) outcome" where
  "yaml_parser_set_parser_error_context p context context_mark problem problem_mark =
     Fail (p\<lparr>ps_error := Some \<lparr>pb_error = YAML_PARSER_ERROR, pb_context = context,
       pb_context_mark = context_mark, pb_problem = problem, pb_mark = problem_mark\<rparr>\<rparr>)"

definition yaml_parser_process_empty_scalar :: "yaml_parser_t \<Rightarrow> yaml_mark_t \<Rightarrow> event_outcome" where
  "yaml_parser_process_empty_scalar p mark =
     Done (EVENT_INIT (YAML_SCALAR_EVENT None None [] True False YAML_PLAIN_SCALAR_STYLE) mark mark) p"

section \<open>Directives\<close>

definition yaml_parser_append_tag_directive ::
  "yaml_parser_t \<Rightarrow> yaml_tag_directive_t \<Rightarrow> bool \<Rightarrow> yaml_mark_t \<Rightarrow> (unit, yaml_parser_t) outcome" where
  "yaml_parser_append_tag_directive p v allow_duplicates mark =
     (if \<exists>td \<in> set (ps_tags p). td_handle v = td_handle td then
        if allow_duplicates then Done () p
        else yaml_parser_set_parser_error p ''found duplicate %TAG directive'' mark
      else Done () (p\<lparr>ps_tags := ps_tags p @ [v]\<rparr>))"

text \<open>The loop over the directive tokens, with the version and tag directives found so far.\<close>

function directives_loop ::
  "yaml_parser_t \<Rightarrow> yaml_version_directive_t option \<Rightarrow> yaml_tag_directive_t list \<Rightarrow>
     (yaml_version_directive_t option \<times> yaml_tag_directive_t list, yaml_parser_t) outcome" where
  "directives_loop p version tags = (case ps_tokens p of
     [] \<Rightarrow> Fail (p\<lparr>ps_error := Some (ps_scan_problem p)\<rparr>)
   | token # _ \<Rightarrow> (case tk_data token of
       YAML_VERSION_DIRECTIVE_TOKEN major minor \<Rightarrow>
         if version \<noteq> None then
           yaml_parser_set_parser_error p ''found duplicate %YAML directive'' (tk_start token)
         else if major \<noteq> 1 \<or> (minor \<noteq> 1 \<and> minor \<noteq> 2) then
           yaml_parser_set_parser_error p ''found incompatible YAML document'' (tk_start token)
         else directives_loop (SKIP_TOKEN p) (Some \<lparr>vd_major = major, vd_minor = minor\<rparr>) tags
     | YAML_TAG_DIRECTIVE_TOKEN handle prefix \<Rightarrow>
         (let v = \<lparr>td_handle = handle, td_prefix = prefix\<rparr> in
          case yaml_parser_append_tag_directive p v False (tk_start token) of
            Done _ p' \<Rightarrow> directives_loop (SKIP_TOKEN p') version (tags @ [v])
          | Fail p' \<Rightarrow> Fail p'
          | Crash \<Rightarrow> Crash)
     | _ \<Rightarrow> Done (version, tags) p))"
  by pat_completeness auto

lemma append_tag_directive_tokens:
  "yaml_parser_append_tag_directive p v dup m = Done x p' \<Longrightarrow> ps_tokens p' = ps_tokens p"
  by (auto simp: yaml_parser_append_tag_directive_def yaml_parser_set_parser_error_def split: if_splits)

termination directives_loop
  by (relation "measure (\<lambda>(p, _, _). length (ps_tokens p))")
     (auto simp: SKIP_TOKEN_def dest!: append_tag_directive_tokens)

declare directives_loop.simps [simp del]

definition default_tag_directives :: "yaml_tag_directive_t list" where
  "default_tag_directives = [\<lparr>td_handle = lit ''!'', td_prefix = lit ''!''\<rparr>,
     \<lparr>td_handle = lit ''!!'', td_prefix = lit ''tag:yaml.org,2002:''\<rparr>]"

fun append_defaults :: "yaml_parser_t \<Rightarrow> yaml_tag_directive_t list \<Rightarrow> yaml_mark_t \<Rightarrow>
    (unit, yaml_parser_t) outcome" where
  "append_defaults p [] mark = Done () p"
| "append_defaults p (v # vs) mark = (case yaml_parser_append_tag_directive p v True mark of
     Done _ p' \<Rightarrow> append_defaults p' vs mark | Fail p' \<Rightarrow> Fail p' | Crash \<Rightarrow> Crash)"

definition yaml_parser_process_directives :: "yaml_parser_t \<Rightarrow>
    (yaml_version_directive_t option \<times> yaml_tag_directive_t list, yaml_parser_t) outcome" where
  "yaml_parser_process_directives p = (case directives_loop p None [] of
     Done d p' \<Rightarrow> PEEK_TOKEN p' (\<lambda>token.
       case append_defaults p' default_tag_directives (tk_start token) of
         Done _ p'' \<Rightarrow> Done d p'' | Fail p'' \<Rightarrow> Fail p'' | Crash \<Rightarrow> Crash)
   | Fail p' \<Rightarrow> Fail p'
   | Crash \<Rightarrow> Crash)"

section \<open>Streams and documents\<close>

definition yaml_parser_parse_stream_start :: "yaml_parser_t \<Rightarrow> event_outcome" where
  "yaml_parser_parse_stream_start p = PEEK_TOKEN p (\<lambda>token.
     let p = p\<lparr>ps_stream_start_produced := True\<rparr> in
     case tk_data token of
       YAML_STREAM_START_TOKEN enc \<Rightarrow>
         Done (EVENT_INIT (YAML_STREAM_START_EVENT enc) (tk_start token) (tk_start token))
           (SKIP_TOKEN (set_state YAML_PARSE_IMPLICIT_DOCUMENT_START_STATE p))
     | _ \<Rightarrow> yaml_parser_set_parser_error p ''did not find expected <stream-start>'' (tk_start token))"

text \<open>\<open>while (token->type == YAML_DOCUMENT_END_TOKEN)\<close> of \<open>yaml_parser_parse_document_start\<close>.\<close>

function skip_document_ends :: "yaml_parser_t \<Rightarrow> yaml_parser_t" where
  "skip_document_ends p = (case ps_tokens p of
     [] \<Rightarrow> p
   | token # _ \<Rightarrow>
       if tk_data token = YAML_DOCUMENT_END_TOKEN then skip_document_ends (SKIP_TOKEN p) else p)"
  by pat_completeness auto

termination skip_document_ends
  by (relation "measure (\<lambda>p. length (ps_tokens p))") (auto simp: SKIP_TOKEN_def)

declare skip_document_ends.simps [simp del]

fun is_directive_token :: "yaml_token_data \<Rightarrow> bool" where
  "is_directive_token (YAML_VERSION_DIRECTIVE_TOKEN _ _) = True"
| "is_directive_token (YAML_TAG_DIRECTIVE_TOKEN _ _) = True"
| "is_directive_token _ = False"

text \<open>The three branches of \<open>yaml_parser_parse_document_start\<close> after the extra document ends.\<close>

definition implicit_document :: "yaml_parser_t \<Rightarrow> yaml_token_t \<Rightarrow> event_outcome" where
  "implicit_document p token = (case yaml_parser_process_directives p of
     Done _ p' \<Rightarrow> Done (EVENT_INIT (YAML_DOCUMENT_START_EVENT None [] True) (tk_start token) (tk_start token))
       (set_state YAML_PARSE_BLOCK_NODE_STATE (PUSH_STATE YAML_PARSE_DOCUMENT_END_STATE p'))
   | Fail p' \<Rightarrow> Fail p'
   | Crash \<Rightarrow> Crash)"

definition explicit_document :: "yaml_parser_t \<Rightarrow> yaml_token_t \<Rightarrow> event_outcome" where
  "explicit_document p token0 = (case yaml_parser_process_directives p of
     Done (version, tags) p' \<Rightarrow> PEEK_TOKEN p' (\<lambda>token.
       if tk_data token \<noteq> YAML_DOCUMENT_START_TOKEN then
         yaml_parser_set_parser_error p' ''did not find expected <document start>'' (tk_start token)
       else Done (EVENT_INIT (YAML_DOCUMENT_START_EVENT version tags False) (tk_start token0) (tk_end token))
         (SKIP_TOKEN (set_state YAML_PARSE_DOCUMENT_CONTENT_STATE
            (PUSH_STATE YAML_PARSE_DOCUMENT_END_STATE p'))))
   | Fail p' \<Rightarrow> Fail p'
   | Crash \<Rightarrow> Crash)"

definition stream_end :: "yaml_parser_t \<Rightarrow> yaml_token_t \<Rightarrow> event_outcome" where
  "stream_end p token = Done (EVENT_INIT YAML_STREAM_END_EVENT (tk_start token) (tk_end token))
     (SKIP_TOKEN (set_state YAML_PARSE_END_STATE p))"

definition yaml_parser_parse_document_start :: "yaml_parser_t \<Rightarrow> bool \<Rightarrow> event_outcome" where
  "yaml_parser_parse_document_start p0 implicit =
     PEEK_TOKEN p0 (\<lambda>_.
     let p = (if \<not> implicit then skip_document_ends p0 else p0) in
     PEEK_TOKEN p (\<lambda>token.
     if implicit \<and> \<not> is_directive_token (tk_data token) \<and> tk_data token \<noteq> YAML_DOCUMENT_START_TOKEN
        \<and> tk_data token \<noteq> YAML_STREAM_END_TOKEN then implicit_document p token
     else if tk_data token \<noteq> YAML_STREAM_END_TOKEN then explicit_document p token
     else stream_end p token))"

definition yaml_parser_parse_document_end :: "yaml_parser_t \<Rightarrow> event_outcome" where
  "yaml_parser_parse_document_end p = PEEK_TOKEN p (\<lambda>token.
     let implicit = (tk_data token \<noteq> YAML_DOCUMENT_END_TOKEN);
         end_mark = (if implicit then tk_start token else tk_end token);
         p = (if implicit then p else SKIP_TOKEN p)
     in Done (EVENT_INIT (YAML_DOCUMENT_END_EVENT implicit) (tk_start token) end_mark)
          (set_state YAML_PARSE_DOCUMENT_START_STATE (p\<lparr>ps_tags := []\<rparr>)))"

section \<open>Nodes\<close>

text \<open>What \<open>yaml_parser_parse_node\<close> has read before the content: anchor, tag as handle and suffix,
  start, end and tag marks.\<close>

record node_props =
  np_anchor :: "ystr option"
  np_tag :: "(ystr \<times> ystr) option"
  np_start :: yaml_mark_t
  np_end :: yaml_mark_t
  np_tag_mark :: yaml_mark_t

definition node_properties :: "yaml_parser_t \<Rightarrow> yaml_token_t \<Rightarrow> (node_props, yaml_parser_t) outcome" where
  "node_properties p token =
     (let np = \<lparr>np_anchor = None, np_tag = None, np_start = tk_start token, np_end = tk_start token,
                np_tag_mark = tk_start token\<rparr> in
      case tk_data token of
        YAML_ANCHOR_TOKEN anchor \<Rightarrow>
          let np = np\<lparr>np_anchor := Some anchor, np_end := tk_end token\<rparr>; p = SKIP_TOKEN p in
          PEEK_TOKEN p (\<lambda>token. case tk_data token of
            YAML_TAG_TOKEN handle suffix \<Rightarrow>
              let p = SKIP_TOKEN p in PEEK_TOKEN p (\<lambda>_.
                Done (np\<lparr>np_tag := Some (handle, suffix), np_tag_mark := tk_start token,
                         np_end := tk_end token\<rparr>) p)
          | _ \<Rightarrow> Done np p)
      | YAML_TAG_TOKEN handle suffix \<Rightarrow>
          let np = np\<lparr>np_tag := Some (handle, suffix), np_end := tk_end token\<rparr>; p = SKIP_TOKEN p in
          PEEK_TOKEN p (\<lambda>token. case tk_data token of
            YAML_ANCHOR_TOKEN anchor \<Rightarrow>
              let p = SKIP_TOKEN p in PEEK_TOKEN p (\<lambda>_.
                Done (np\<lparr>np_anchor := Some anchor, np_end := tk_end token\<rparr>) p)
          | _ \<Rightarrow> Done np p)
      | _ \<Rightarrow> Done np p)"

text \<open>The tag with its handle replaced by the prefix of the directive.\<close>

definition resolve_tag :: "yaml_parser_t \<Rightarrow> node_props \<Rightarrow> (ystr option, yaml_parser_t) outcome" where
  "resolve_tag p np = (case np_tag np of
     None \<Rightarrow> Done None p
   | Some (handle, suffix) \<Rightarrow>
       if handle = [] then Done (Some suffix) p
       else (case List.find (\<lambda>td. td_handle td = handle) (ps_tags p) of
           Some td \<Rightarrow> Done (Some (td_prefix td @ suffix)) p
         | None \<Rightarrow> yaml_parser_set_parser_error_context p ''while parsing a node'' (np_start np)
             ''found undefined tag handle'' (np_tag_mark np)))"

text \<open>The content of a node, after its properties.\<close>

definition node_content ::
  "yaml_parser_t \<Rightarrow> bool \<Rightarrow> bool \<Rightarrow> node_props \<Rightarrow> ystr option \<Rightarrow> yaml_token_t \<Rightarrow> event_outcome" where
  "node_content p block indentless_sequence np tag token =
     (let implicit = (tag = None \<or> tag = Some []); anchor = np_anchor np; start_mark = np_start np in
      if indentless_sequence \<and> tk_data token = YAML_BLOCK_ENTRY_TOKEN then
        Done (EVENT_INIT (YAML_SEQUENCE_START_EVENT anchor tag implicit YAML_BLOCK_SEQUENCE_STYLE)
            start_mark (tk_end token)) (set_state YAML_PARSE_INDENTLESS_SEQUENCE_ENTRY_STATE p)
      else case tk_data token of
        YAML_SCALAR_TOKEN v style \<Rightarrow>
          let plain_implicit = (style = YAML_PLAIN_SCALAR_STYLE \<and> tag = None \<or> tag = Some (lit ''!''));
              quoted_implicit = (\<not> plain_implicit \<and> tag = None)
          in POP_STATE p (\<lambda>p.
            Done (EVENT_INIT (YAML_SCALAR_EVENT anchor tag v plain_implicit quoted_implicit style)
              start_mark (tk_end token)) (SKIP_TOKEN p))
      | YAML_FLOW_SEQUENCE_START_TOKEN \<Rightarrow>
          Done (EVENT_INIT (YAML_SEQUENCE_START_EVENT anchor tag implicit YAML_FLOW_SEQUENCE_STYLE)
            start_mark (tk_end token)) (set_state YAML_PARSE_FLOW_SEQUENCE_FIRST_ENTRY_STATE p)
      | YAML_FLOW_MAPPING_START_TOKEN \<Rightarrow>
          Done (EVENT_INIT (YAML_MAPPING_START_EVENT anchor tag implicit YAML_FLOW_MAPPING_STYLE)
            start_mark (tk_end token)) (set_state YAML_PARSE_FLOW_MAPPING_FIRST_KEY_STATE p)
      | _ \<Rightarrow>
          if block \<and> tk_data token = YAML_BLOCK_SEQUENCE_START_TOKEN then
            Done (EVENT_INIT (YAML_SEQUENCE_START_EVENT anchor tag implicit YAML_BLOCK_SEQUENCE_STYLE)
              start_mark (tk_end token)) (set_state YAML_PARSE_BLOCK_SEQUENCE_FIRST_ENTRY_STATE p)
          else if block \<and> tk_data token = YAML_BLOCK_MAPPING_START_TOKEN then
            Done (EVENT_INIT (YAML_MAPPING_START_EVENT anchor tag implicit YAML_BLOCK_MAPPING_STYLE)
              start_mark (tk_end token)) (set_state YAML_PARSE_BLOCK_MAPPING_FIRST_KEY_STATE p)
          else if anchor \<noteq> None \<or> tag \<noteq> None then
            POP_STATE p (\<lambda>p.
              Done (EVENT_INIT (YAML_SCALAR_EVENT anchor tag [] implicit False YAML_PLAIN_SCALAR_STYLE)
                start_mark (np_end np)) p)
          else yaml_parser_set_parser_error_context p
            (if block then ''while parsing a block node'' else ''while parsing a flow node'') start_mark
            ''did not find expected node content'' (tk_start token))"

definition yaml_parser_parse_node :: "yaml_parser_t \<Rightarrow> bool \<Rightarrow> bool \<Rightarrow> event_outcome" where
  "yaml_parser_parse_node p block indentless_sequence = PEEK_TOKEN p (\<lambda>token.
     case tk_data token of
       YAML_ALIAS_TOKEN anchor \<Rightarrow> POP_STATE p (\<lambda>p.
         Done (EVENT_INIT (YAML_ALIAS_EVENT anchor) (tk_start token) (tk_end token)) (SKIP_TOKEN p))
     | _ \<Rightarrow> (case node_properties p token of
         Done np p \<Rightarrow> (case resolve_tag p np of
             Done tag p \<Rightarrow> PEEK_TOKEN p (node_content p block indentless_sequence np tag)
           | Fail p \<Rightarrow> Fail p
           | Crash \<Rightarrow> Crash)
       | Fail p \<Rightarrow> Fail p
       | Crash \<Rightarrow> Crash))"

definition yaml_parser_parse_document_content :: "yaml_parser_t \<Rightarrow> event_outcome" where
  "yaml_parser_parse_document_content p = PEEK_TOKEN p (\<lambda>token.
     if is_directive_token (tk_data token) \<or> tk_data token = YAML_DOCUMENT_START_TOKEN
        \<or> tk_data token = YAML_DOCUMENT_END_TOKEN \<or> tk_data token = YAML_STREAM_END_TOKEN
     then POP_STATE p (\<lambda>p. yaml_parser_process_empty_scalar p (tk_start token))
     else yaml_parser_parse_node p True False)"

section \<open>Block collections\<close>

text \<open>\<open>if (first) { token = PEEK_TOKEN(parser); PUSH(.., parser->marks, ..); SKIP_TOKEN(parser); }\<close>\<close>

definition open_collection :: "yaml_parser_t \<Rightarrow> bool \<Rightarrow> (yaml_parser_t \<Rightarrow> event_outcome) \<Rightarrow> event_outcome" where
  "open_collection p first k =
     (if first then PEEK_UNCHECKED p (\<lambda>token. k (SKIP_TOKEN (PUSH_MARK (tk_start token) p))) else k p)"

definition yaml_parser_parse_block_sequence_entry :: "yaml_parser_t \<Rightarrow> bool \<Rightarrow> event_outcome" where
  "yaml_parser_parse_block_sequence_entry p first = open_collection p first (\<lambda>p. PEEK_TOKEN p (\<lambda>token.
     if tk_data token = YAML_BLOCK_ENTRY_TOKEN then
       let mark = tk_end token; p = SKIP_TOKEN p in PEEK_TOKEN p (\<lambda>token.
       if tk_data token \<noteq> YAML_BLOCK_ENTRY_TOKEN \<and> tk_data token \<noteq> YAML_BLOCK_END_TOKEN
       then yaml_parser_parse_node (PUSH_STATE YAML_PARSE_BLOCK_SEQUENCE_ENTRY_STATE p) True False
       else yaml_parser_process_empty_scalar (set_state YAML_PARSE_BLOCK_SEQUENCE_ENTRY_STATE p) mark)
     else if tk_data token = YAML_BLOCK_END_TOKEN then
       POP_STATE p (\<lambda>p. POP_MARK p (\<lambda>_ p.
         Done (EVENT_INIT YAML_SEQUENCE_END_EVENT (tk_start token) (tk_end token)) (SKIP_TOKEN p)))
     else POP_MARK p (\<lambda>m p. yaml_parser_set_parser_error_context p ''while parsing a block collection'' m
       ''did not find expected '-' indicator'' (tk_start token))))"

definition yaml_parser_parse_indentless_sequence_entry :: "yaml_parser_t \<Rightarrow> event_outcome" where
  "yaml_parser_parse_indentless_sequence_entry p = PEEK_TOKEN p (\<lambda>token.
     if tk_data token = YAML_BLOCK_ENTRY_TOKEN then
       let mark = tk_end token; p = SKIP_TOKEN p in PEEK_TOKEN p (\<lambda>token.
       if tk_data token \<noteq> YAML_BLOCK_ENTRY_TOKEN \<and> tk_data token \<noteq> YAML_KEY_TOKEN
          \<and> tk_data token \<noteq> YAML_VALUE_TOKEN \<and> tk_data token \<noteq> YAML_BLOCK_END_TOKEN
       then yaml_parser_parse_node (PUSH_STATE YAML_PARSE_INDENTLESS_SEQUENCE_ENTRY_STATE p) True False
       else yaml_parser_process_empty_scalar (set_state YAML_PARSE_INDENTLESS_SEQUENCE_ENTRY_STATE p) mark)
     else POP_STATE p (\<lambda>p.
       Done (EVENT_INIT YAML_SEQUENCE_END_EVENT (tk_start token) (tk_start token)) p))"

definition yaml_parser_parse_block_mapping_key :: "yaml_parser_t \<Rightarrow> bool \<Rightarrow> event_outcome" where
  "yaml_parser_parse_block_mapping_key p first = open_collection p first (\<lambda>p. PEEK_TOKEN p (\<lambda>token.
     if tk_data token = YAML_KEY_TOKEN then
       let mark = tk_end token; p = SKIP_TOKEN p in PEEK_TOKEN p (\<lambda>token.
       if tk_data token \<noteq> YAML_KEY_TOKEN \<and> tk_data token \<noteq> YAML_VALUE_TOKEN
          \<and> tk_data token \<noteq> YAML_BLOCK_END_TOKEN
       then yaml_parser_parse_node (PUSH_STATE YAML_PARSE_BLOCK_MAPPING_VALUE_STATE p) True True
       else yaml_parser_process_empty_scalar (set_state YAML_PARSE_BLOCK_MAPPING_VALUE_STATE p) mark)
     else if tk_data token = YAML_BLOCK_END_TOKEN then
       POP_STATE p (\<lambda>p. POP_MARK p (\<lambda>_ p.
         Done (EVENT_INIT YAML_MAPPING_END_EVENT (tk_start token) (tk_end token)) (SKIP_TOKEN p)))
     else POP_MARK p (\<lambda>m p. yaml_parser_set_parser_error_context p ''while parsing a block mapping'' m
       ''did not find expected key'' (tk_start token))))"

definition yaml_parser_parse_block_mapping_value :: "yaml_parser_t \<Rightarrow> event_outcome" where
  "yaml_parser_parse_block_mapping_value p = PEEK_TOKEN p (\<lambda>token.
     if tk_data token = YAML_VALUE_TOKEN then
       let mark = tk_end token; p = SKIP_TOKEN p in PEEK_TOKEN p (\<lambda>token.
       if tk_data token \<noteq> YAML_KEY_TOKEN \<and> tk_data token \<noteq> YAML_VALUE_TOKEN
          \<and> tk_data token \<noteq> YAML_BLOCK_END_TOKEN
       then yaml_parser_parse_node (PUSH_STATE YAML_PARSE_BLOCK_MAPPING_KEY_STATE p) True True
       else yaml_parser_process_empty_scalar (set_state YAML_PARSE_BLOCK_MAPPING_KEY_STATE p) mark)
     else yaml_parser_process_empty_scalar (set_state YAML_PARSE_BLOCK_MAPPING_KEY_STATE p) (tk_start token))"

section \<open>Flow collections\<close>

text \<open>The end of a flow sequence or mapping.\<close>

definition close_flow :: "yaml_event_data \<Rightarrow> yaml_parser_t \<Rightarrow> yaml_token_t \<Rightarrow> event_outcome" where
  "close_flow d p token = POP_STATE p (\<lambda>p. POP_MARK p (\<lambda>_ p.
     Done (EVENT_INIT d (tk_start token) (tk_end token)) (SKIP_TOKEN p)))"

text \<open>\<open>if (!first) { .. }\<close>: the comma between two entries.\<close>

definition flow_separator ::
  "string \<Rightarrow> string \<Rightarrow> bool \<Rightarrow> yaml_parser_t \<Rightarrow> (yaml_parser_t \<Rightarrow> yaml_token_t \<Rightarrow> event_outcome) \<Rightarrow>
     yaml_token_t \<Rightarrow> event_outcome" where
  "flow_separator context problem first p k token =
     (if first then k p token
      else if tk_data token = YAML_FLOW_ENTRY_TOKEN then let p = SKIP_TOKEN p in PEEK_TOKEN p (k p)
      else POP_MARK p (\<lambda>m p. yaml_parser_set_parser_error_context p context m problem (tk_start token)))"

text \<open>The entry of a flow sequence, and of a flow mapping, after the comma.\<close>

definition flow_sequence_item :: "yaml_parser_t \<Rightarrow> yaml_token_t \<Rightarrow> event_outcome" where
  "flow_sequence_item p token =
     (if tk_data token = YAML_KEY_TOKEN then
        Done (EVENT_INIT (YAML_MAPPING_START_EVENT None None True YAML_FLOW_MAPPING_STYLE)
            (tk_start token) (tk_end token))
          (SKIP_TOKEN (set_state YAML_PARSE_FLOW_SEQUENCE_ENTRY_MAPPING_KEY_STATE p))
      else if tk_data token \<noteq> YAML_FLOW_SEQUENCE_END_TOKEN then
        yaml_parser_parse_node (PUSH_STATE YAML_PARSE_FLOW_SEQUENCE_ENTRY_STATE p) False False
      else close_flow YAML_SEQUENCE_END_EVENT p token)"

definition flow_mapping_item :: "yaml_parser_t \<Rightarrow> yaml_token_t \<Rightarrow> event_outcome" where
  "flow_mapping_item p token =
     (if tk_data token = YAML_KEY_TOKEN then
        let p = SKIP_TOKEN p in PEEK_TOKEN p (\<lambda>token.
        if tk_data token \<noteq> YAML_VALUE_TOKEN \<and> tk_data token \<noteq> YAML_FLOW_ENTRY_TOKEN
           \<and> tk_data token \<noteq> YAML_FLOW_MAPPING_END_TOKEN
        then yaml_parser_parse_node (PUSH_STATE YAML_PARSE_FLOW_MAPPING_VALUE_STATE p) False False
        else yaml_parser_process_empty_scalar
          (set_state YAML_PARSE_FLOW_MAPPING_VALUE_STATE p) (tk_start token))
      else if tk_data token \<noteq> YAML_FLOW_MAPPING_END_TOKEN then
        yaml_parser_parse_node (PUSH_STATE YAML_PARSE_FLOW_MAPPING_EMPTY_VALUE_STATE p) False False
      else close_flow YAML_MAPPING_END_EVENT p token)"

definition yaml_parser_parse_flow_sequence_entry :: "yaml_parser_t \<Rightarrow> bool \<Rightarrow> event_outcome" where
  "yaml_parser_parse_flow_sequence_entry p first = open_collection p first (\<lambda>p. PEEK_TOKEN p (\<lambda>token.
     if tk_data token \<noteq> YAML_FLOW_SEQUENCE_END_TOKEN then
       flow_separator ''while parsing a flow sequence''
         (''did not find expected ',' or ']'' @ [CHR 0x27]) first p flow_sequence_item token
     else close_flow YAML_SEQUENCE_END_EVENT p token))"

definition yaml_parser_parse_flow_sequence_entry_mapping_key :: "yaml_parser_t \<Rightarrow> event_outcome" where
  "yaml_parser_parse_flow_sequence_entry_mapping_key p = PEEK_TOKEN p (\<lambda>token.
     if tk_data token \<noteq> YAML_VALUE_TOKEN \<and> tk_data token \<noteq> YAML_FLOW_ENTRY_TOKEN
        \<and> tk_data token \<noteq> YAML_FLOW_SEQUENCE_END_TOKEN
     then yaml_parser_parse_node (PUSH_STATE YAML_PARSE_FLOW_SEQUENCE_ENTRY_MAPPING_VALUE_STATE p) False False
     else if tk_data token = YAML_FLOW_SEQUENCE_END_TOKEN
     then yaml_parser_process_empty_scalar
       (set_state YAML_PARSE_FLOW_SEQUENCE_ENTRY_MAPPING_VALUE_STATE p) (tk_start token)
     else yaml_parser_process_empty_scalar
       (set_state YAML_PARSE_FLOW_SEQUENCE_ENTRY_MAPPING_VALUE_STATE (SKIP_TOKEN p)) (tk_end token))"

definition yaml_parser_parse_flow_sequence_entry_mapping_value :: "yaml_parser_t \<Rightarrow> event_outcome" where
  "yaml_parser_parse_flow_sequence_entry_mapping_value p = PEEK_TOKEN p (\<lambda>token.
     if tk_data token = YAML_VALUE_TOKEN then
       let p = SKIP_TOKEN p in PEEK_TOKEN p (\<lambda>token.
       if tk_data token \<noteq> YAML_FLOW_ENTRY_TOKEN \<and> tk_data token \<noteq> YAML_FLOW_SEQUENCE_END_TOKEN
       then yaml_parser_parse_node (PUSH_STATE YAML_PARSE_FLOW_SEQUENCE_ENTRY_MAPPING_END_STATE p) False False
       else yaml_parser_process_empty_scalar
         (set_state YAML_PARSE_FLOW_SEQUENCE_ENTRY_MAPPING_END_STATE p) (tk_start token))
     else yaml_parser_process_empty_scalar
       (set_state YAML_PARSE_FLOW_SEQUENCE_ENTRY_MAPPING_END_STATE p) (tk_start token))"

definition yaml_parser_parse_flow_sequence_entry_mapping_end :: "yaml_parser_t \<Rightarrow> event_outcome" where
  "yaml_parser_parse_flow_sequence_entry_mapping_end p = PEEK_TOKEN p (\<lambda>token.
     Done (EVENT_INIT YAML_MAPPING_END_EVENT (tk_start token) (tk_start token))
       (set_state YAML_PARSE_FLOW_SEQUENCE_ENTRY_STATE p))"

definition yaml_parser_parse_flow_mapping_key :: "yaml_parser_t \<Rightarrow> bool \<Rightarrow> event_outcome" where
  "yaml_parser_parse_flow_mapping_key p first = open_collection p first (\<lambda>p. PEEK_TOKEN p (\<lambda>token.
     if tk_data token \<noteq> YAML_FLOW_MAPPING_END_TOKEN then
       flow_separator ''while parsing a flow mapping''
         (''did not find expected ',' or '}'' @ [CHR 0x27]) first p flow_mapping_item token
     else close_flow YAML_MAPPING_END_EVENT p token))"

definition yaml_parser_parse_flow_mapping_value :: "yaml_parser_t \<Rightarrow> bool \<Rightarrow> event_outcome" where
  "yaml_parser_parse_flow_mapping_value p empty_value = PEEK_TOKEN p (\<lambda>token.
     if empty_value then
       yaml_parser_process_empty_scalar (set_state YAML_PARSE_FLOW_MAPPING_KEY_STATE p) (tk_start token)
     else if tk_data token = YAML_VALUE_TOKEN then
       let p = SKIP_TOKEN p in PEEK_TOKEN p (\<lambda>token.
       if tk_data token \<noteq> YAML_FLOW_ENTRY_TOKEN \<and> tk_data token \<noteq> YAML_FLOW_MAPPING_END_TOKEN
       then yaml_parser_parse_node (PUSH_STATE YAML_PARSE_FLOW_MAPPING_KEY_STATE p) False False
       else yaml_parser_process_empty_scalar (set_state YAML_PARSE_FLOW_MAPPING_KEY_STATE p) (tk_start token))
     else yaml_parser_process_empty_scalar (set_state YAML_PARSE_FLOW_MAPPING_KEY_STATE p) (tk_start token))"

section \<open>The state machine\<close>

definition yaml_parser_state_machine :: "yaml_parser_t \<Rightarrow> event_outcome" where
  "yaml_parser_state_machine p = (case ps_state p of
     YAML_PARSE_STREAM_START_STATE \<Rightarrow> yaml_parser_parse_stream_start p
   | YAML_PARSE_IMPLICIT_DOCUMENT_START_STATE \<Rightarrow> yaml_parser_parse_document_start p True
   | YAML_PARSE_DOCUMENT_START_STATE \<Rightarrow> yaml_parser_parse_document_start p False
   | YAML_PARSE_DOCUMENT_CONTENT_STATE \<Rightarrow> yaml_parser_parse_document_content p
   | YAML_PARSE_DOCUMENT_END_STATE \<Rightarrow> yaml_parser_parse_document_end p
   | YAML_PARSE_BLOCK_NODE_STATE \<Rightarrow> yaml_parser_parse_node p True False
   | YAML_PARSE_BLOCK_NODE_OR_INDENTLESS_SEQUENCE_STATE \<Rightarrow> yaml_parser_parse_node p True True
   | YAML_PARSE_FLOW_NODE_STATE \<Rightarrow> yaml_parser_parse_node p False False
   | YAML_PARSE_BLOCK_SEQUENCE_FIRST_ENTRY_STATE \<Rightarrow> yaml_parser_parse_block_sequence_entry p True
   | YAML_PARSE_BLOCK_SEQUENCE_ENTRY_STATE \<Rightarrow> yaml_parser_parse_block_sequence_entry p False
   | YAML_PARSE_INDENTLESS_SEQUENCE_ENTRY_STATE \<Rightarrow> yaml_parser_parse_indentless_sequence_entry p
   | YAML_PARSE_BLOCK_MAPPING_FIRST_KEY_STATE \<Rightarrow> yaml_parser_parse_block_mapping_key p True
   | YAML_PARSE_BLOCK_MAPPING_KEY_STATE \<Rightarrow> yaml_parser_parse_block_mapping_key p False
   | YAML_PARSE_BLOCK_MAPPING_VALUE_STATE \<Rightarrow> yaml_parser_parse_block_mapping_value p
   | YAML_PARSE_FLOW_SEQUENCE_FIRST_ENTRY_STATE \<Rightarrow> yaml_parser_parse_flow_sequence_entry p True
   | YAML_PARSE_FLOW_SEQUENCE_ENTRY_STATE \<Rightarrow> yaml_parser_parse_flow_sequence_entry p False
   | YAML_PARSE_FLOW_SEQUENCE_ENTRY_MAPPING_KEY_STATE \<Rightarrow> yaml_parser_parse_flow_sequence_entry_mapping_key p
   | YAML_PARSE_FLOW_SEQUENCE_ENTRY_MAPPING_VALUE_STATE \<Rightarrow>
       yaml_parser_parse_flow_sequence_entry_mapping_value p
   | YAML_PARSE_FLOW_SEQUENCE_ENTRY_MAPPING_END_STATE \<Rightarrow> yaml_parser_parse_flow_sequence_entry_mapping_end p
   | YAML_PARSE_FLOW_MAPPING_FIRST_KEY_STATE \<Rightarrow> yaml_parser_parse_flow_mapping_key p True
   | YAML_PARSE_FLOW_MAPPING_KEY_STATE \<Rightarrow> yaml_parser_parse_flow_mapping_key p False
   | YAML_PARSE_FLOW_MAPPING_VALUE_STATE \<Rightarrow> yaml_parser_parse_flow_mapping_value p False
   | YAML_PARSE_FLOW_MAPPING_EMPTY_VALUE_STATE \<Rightarrow> yaml_parser_parse_flow_mapping_value p True
   | YAML_PARSE_END_STATE \<Rightarrow> Fail p)"

text \<open>No more events come after the end of the stream or an error.\<close>

definition parser_finished :: "yaml_parser_t \<Rightarrow> bool" where
  "parser_finished p \<longleftrightarrow> ps_stream_end_produced p \<or> ps_error p \<noteq> None \<or> ps_state p = YAML_PARSE_END_STATE"

definition yaml_parser_parse :: "yaml_parser_t \<Rightarrow> event_outcome" where
  "yaml_parser_parse p = (if parser_finished p then Done no_event p else yaml_parser_state_machine p)"

section \<open>Reading a whole stream\<close>

text \<open>The loop of \<open>tests/run-parser.c\<close>: events until the end of the stream or an error, with the events so
  far in \<open>es\<close> (the program counts them). The result is \<open>error\<close> and the events; \<open>None\<close> would be a loop that does
  not end.\<close>

partial_function (option) run_parser ::
  "yaml_parser_t \<Rightarrow> yaml_event_t list \<Rightarrow> (bool \<times> yaml_event_t list, yaml_parser_t) outcome option" where
  "run_parser p es = (case yaml_parser_parse p of
     Done e q \<Rightarrow> if ev_data e = YAML_STREAM_END_EVENT then Some (Done (False, es @ [e]) q) else run_parser q (es @ [e])
   | Fail q \<Rightarrow> Some (Done (True, es) q)
   | Crash \<Rightarrow> Some Crash)"

end
