(* ===== verification/Ly_Loader.thy ===== *)
theory Ly_Loader
  imports Ly_Parser
begin

text \<open>
  The loader of libyaml (\<open>loader.c\<close>): it composes the events of one document into a list of nodes that
  refer to each other by number. A failed \<open>assert\<close>, or an index outside the list of nodes, is \<open>Crash\<close>.
  Memory allocation succeeds; the limits that the code itself checks (\<open>STACK_LIMIT\<close>) are modelled.
\<close>

section \<open>The loader's state\<close>

record yaml_alias_data_t =
  al_anchor :: ystr
  al_index :: nat
  al_mark :: yaml_mark_t

text \<open>The parser with its fields \<open>aliases\<close> and \<open>document\<close>, and the local \<open>ctx\<close> of
  \<open>yaml_parser_load_document\<close>, the stack of the open collections (top first).\<close>

record loader_t =
  ld_parser :: yaml_parser_t
  ld_aliases :: "yaml_alias_data_t list"
  ld_document :: yaml_document_t
  ld_ctx :: "nat list"

type_synonym load_outcome = "(unit, loader_t) outcome"

definition ld_nodes :: "loader_t \<Rightarrow> yaml_node_t list" where
  "ld_nodes l = dc_nodes (ld_document l)"

definition set_nodes :: "yaml_node_t list \<Rightarrow> loader_t \<Rightarrow> loader_t" where
  "set_nodes ns l = l\<lparr>ld_document := (ld_document l)\<lparr>dc_nodes := ns\<rparr>\<rparr>"

section \<open>Errors\<close>

definition set_error :: "yaml_problem \<Rightarrow> loader_t \<Rightarrow> load_outcome" where
  "set_error pb l = Fail (l\<lparr>ld_parser := (ld_parser l)\<lparr>ps_error := Some pb\<rparr>\<rparr>)"

definition yaml_parser_set_composer_error :: "loader_t \<Rightarrow> string \<Rightarrow> yaml_mark_t \<Rightarrow> load_outcome" where
  "yaml_parser_set_composer_error l problem problem_mark =
     set_error \<lparr>pb_error = YAML_COMPOSER_ERROR, pb_context = [], pb_context_mark = mark0,
       pb_problem = problem, pb_mark = problem_mark\<rparr> l"

definition yaml_parser_set_composer_error_context ::
  "loader_t \<Rightarrow> string \<Rightarrow> yaml_mark_t \<Rightarrow> string \<Rightarrow> yaml_mark_t \<Rightarrow> load_outcome" where
  "yaml_parser_set_composer_error_context l context context_mark problem problem_mark =
     set_error \<lparr>pb_error = YAML_COMPOSER_ERROR, pb_context = context, pb_context_mark = context_mark,
       pb_problem = problem, pb_mark = problem_mark\<rparr> l"

definition memory_error :: "loader_t \<Rightarrow> load_outcome" where
  "memory_error = set_error \<lparr>pb_error = YAML_MEMORY_ERROR, pb_context = [], pb_context_mark = mark0,
     pb_problem = [], pb_mark = mark0\<rparr>"

text \<open>\<open>if (!STACK_LIMIT(parser, stack, INT_MAX-1)) return 0;\<close> for a stack of \<open>n\<close> elements.\<close>

definition STACK_LIMIT :: "nat \<Rightarrow> loader_t \<Rightarrow> load_outcome \<Rightarrow> load_outcome" where
  "STACK_LIMIT n l k = (if n < INT_MAX32 - 1 then k else memory_error l)"

section \<open>Anchors and parents\<close>

text \<open>\<open>&document->nodes.start[index-1]\<close>.\<close>

definition node_ref :: "loader_t \<Rightarrow> nat \<Rightarrow> (yaml_node_t \<Rightarrow> load_outcome) \<Rightarrow> load_outcome" where
  "node_ref l index k =
     (if 1 \<le> index \<and> index \<le> length (ld_nodes l) then k (ld_nodes l ! (index - 1)) else Crash)"

definition update_node :: "nat \<Rightarrow> yaml_node_t \<Rightarrow> loader_t \<Rightarrow> loader_t" where
  "update_node index n l = set_nodes ((ld_nodes l)[index - 1 := n]) l"

definition find_alias :: "loader_t \<Rightarrow> ystr \<Rightarrow> yaml_alias_data_t option" where
  "find_alias l anchor = List.find (\<lambda>a. al_anchor a = anchor) (ld_aliases l)"

definition yaml_parser_register_anchor :: "loader_t \<Rightarrow> nat \<Rightarrow> ystr option \<Rightarrow> load_outcome" where
  "yaml_parser_register_anchor l index anchor = (case anchor of
     None \<Rightarrow> Done () l
   | Some a \<Rightarrow> node_ref l index (\<lambda>n.
       case find_alias l a of
         Some alias_data \<Rightarrow> yaml_parser_set_composer_error_context l
           ''found duplicate anchor; first occurrence'' (al_mark alias_data) ''second occurrence'' (nd_start n)
       | None \<Rightarrow> Done () (l\<lparr>ld_aliases := ld_aliases l @
           [\<lparr>al_anchor = a, al_index = index, al_mark = nd_start n\<rparr>]\<rparr>)))"

text \<open>The pairs of a mapping with one more node: the value of the last pair, or a new key.\<close>

definition add_to_pairs :: "(nat \<times> nat) list \<Rightarrow> nat \<Rightarrow> (nat \<times> nat) list option" where
  "add_to_pairs pairs index =
     (if pairs \<noteq> [] \<and> fst (last pairs) \<noteq> 0 \<and> snd (last pairs) = 0
      then Some (butlast pairs @ [(fst (last pairs), index)]) else None)"

definition yaml_parser_load_node_add :: "loader_t \<Rightarrow> nat \<Rightarrow> load_outcome" where
  "yaml_parser_load_node_add l index = (case ld_ctx l of
     [] \<Rightarrow> Done () l
   | parent_index # _ \<Rightarrow> node_ref l parent_index (\<lambda>parent.
       case nd_data parent of
         YAML_SEQUENCE_NODE items style \<Rightarrow> STACK_LIMIT (length items) l
           (Done () (update_node parent_index (parent\<lparr>nd_data := YAML_SEQUENCE_NODE (items @ [index]) style\<rparr>) l))
       | YAML_MAPPING_NODE pairs style \<Rightarrow> (case add_to_pairs pairs index of
           Some pairs' \<Rightarrow> Done () (update_node parent_index (parent\<lparr>nd_data := YAML_MAPPING_NODE pairs' style\<rparr>) l)
         | None \<Rightarrow> STACK_LIMIT (length pairs) l
             (Done () (update_node parent_index
               (parent\<lparr>nd_data := YAML_MAPPING_NODE (pairs @ [(index, 0)]) style\<rparr>) l)))
       | _ \<Rightarrow> Crash))"

section \<open>Events\<close>

definition yaml_parser_load_alias :: "loader_t \<Rightarrow> ystr \<Rightarrow> yaml_mark_t \<Rightarrow> load_outcome" where
  "yaml_parser_load_alias l anchor start_mark = (case find_alias l anchor of
     Some alias_data \<Rightarrow> yaml_parser_load_node_add l (al_index alias_data)
   | None \<Rightarrow> yaml_parser_set_composer_error l ''found undefined alias'' start_mark)"

definition default_tag :: "ystr \<Rightarrow> ystr option \<Rightarrow> ystr" where
  "default_tag d tag = (case tag of None \<Rightarrow> d | Some t \<Rightarrow> if t = lit ''!'' then d else t)"

text \<open>The common part of a scalar, a sequence and a mapping: push the node, register its anchor and
  hang it below its parent.\<close>

definition push_node :: "loader_t \<Rightarrow> yaml_node_t \<Rightarrow> ystr option \<Rightarrow> (loader_t \<Rightarrow> nat \<Rightarrow> load_outcome) \<Rightarrow> load_outcome" where
  "push_node l node anchor k = STACK_LIMIT (length (ld_nodes l)) l
     (let l = set_nodes (ld_nodes l @ [node]) l; index = length (ld_nodes l) in
      then_do (yaml_parser_register_anchor l index anchor) (\<lambda>l.
      then_do (yaml_parser_load_node_add l index) (\<lambda>l. k l index)))"

definition push_ctx :: "loader_t \<Rightarrow> nat \<Rightarrow> load_outcome" where
  "push_ctx l index = STACK_LIMIT (length (ld_ctx l)) l (Done () (l\<lparr>ld_ctx := index # ld_ctx l\<rparr>))"

definition yaml_parser_load_scalar :: "loader_t \<Rightarrow> ystr option \<Rightarrow> ystr option \<Rightarrow> ystr \<Rightarrow> yaml_scalar_style_t \<Rightarrow>
    yaml_mark_t \<Rightarrow> yaml_mark_t \<Rightarrow> load_outcome" where
  "yaml_parser_load_scalar l anchor tag v style start_mark end_mark =
     push_node l (NODE_INIT (YAML_SCALAR_NODE v style) (default_tag YAML_DEFAULT_SCALAR_TAG tag) start_mark end_mark)
       anchor (\<lambda>l _. Done () l)"

definition yaml_parser_load_sequence :: "loader_t \<Rightarrow> ystr option \<Rightarrow> ystr option \<Rightarrow> yaml_sequence_style_t \<Rightarrow>
    yaml_mark_t \<Rightarrow> yaml_mark_t \<Rightarrow> load_outcome" where
  "yaml_parser_load_sequence l anchor tag style start_mark end_mark =
     push_node l (NODE_INIT (YAML_SEQUENCE_NODE [] style) (default_tag YAML_DEFAULT_SEQUENCE_TAG tag)
       start_mark end_mark) anchor push_ctx"

definition yaml_parser_load_mapping :: "loader_t \<Rightarrow> ystr option \<Rightarrow> ystr option \<Rightarrow> yaml_mapping_style_t \<Rightarrow>
    yaml_mark_t \<Rightarrow> yaml_mark_t \<Rightarrow> load_outcome" where
  "yaml_parser_load_mapping l anchor tag style start_mark end_mark =
     push_node l (NODE_INIT (YAML_MAPPING_NODE [] style) (default_tag YAML_DEFAULT_MAPPING_TAG tag)
       start_mark end_mark) anchor push_ctx"

fun is_sequence :: "yaml_node_data \<Rightarrow> bool" where
  "is_sequence (YAML_SEQUENCE_NODE _ _) = True" | "is_sequence _ = False"

fun is_mapping :: "yaml_node_data \<Rightarrow> bool" where
  "is_mapping (YAML_MAPPING_NODE _ _) = True" | "is_mapping _ = False"

definition close_collection :: "(yaml_node_data \<Rightarrow> bool) \<Rightarrow> loader_t \<Rightarrow> yaml_mark_t \<Rightarrow> load_outcome" where
  "close_collection is_type l end_mark = (case ld_ctx l of
     [] \<Rightarrow> Crash
   | index # rest \<Rightarrow> node_ref l index (\<lambda>n.
       if is_type (nd_data n) then Done () ((update_node index (n\<lparr>nd_end := end_mark\<rparr>) l)\<lparr>ld_ctx := rest\<rparr>)
       else Crash))"

definition yaml_parser_load_sequence_end :: "loader_t \<Rightarrow> yaml_mark_t \<Rightarrow> load_outcome" where
  "yaml_parser_load_sequence_end = close_collection is_sequence"

definition yaml_parser_load_mapping_end :: "loader_t \<Rightarrow> yaml_mark_t \<Rightarrow> load_outcome" where
  "yaml_parser_load_mapping_end = close_collection is_mapping"

text \<open>The \<open>switch\<close> of \<open>yaml_parser_load_nodes\<close>.\<close>

definition load_event :: "loader_t \<Rightarrow> yaml_event_t \<Rightarrow> load_outcome" where
  "load_event l e = (case ev_data e of
     YAML_ALIAS_EVENT anchor \<Rightarrow> yaml_parser_load_alias l anchor (ev_start e)
   | YAML_SCALAR_EVENT anchor tag v _ _ style \<Rightarrow> yaml_parser_load_scalar l anchor tag v style (ev_start e) (ev_end e)
   | YAML_SEQUENCE_START_EVENT anchor tag _ style \<Rightarrow>
       yaml_parser_load_sequence l anchor tag style (ev_start e) (ev_end e)
   | YAML_SEQUENCE_END_EVENT \<Rightarrow> yaml_parser_load_sequence_end l (ev_end e)
   | YAML_MAPPING_START_EVENT anchor tag _ style \<Rightarrow>
       yaml_parser_load_mapping l anchor tag style (ev_start e) (ev_end e)
   | YAML_MAPPING_END_EVENT \<Rightarrow> yaml_parser_load_mapping_end l (ev_end e)
   | YAML_DOCUMENT_END_EVENT _ \<Rightarrow> Done () l
   | _ \<Rightarrow> Crash)"

text \<open>After the loop: \<open>end_implicit\<close> and \<open>end_mark\<close> of the document.\<close>

definition finish_document :: "loader_t \<Rightarrow> bool \<Rightarrow> yaml_mark_t \<Rightarrow> loader_t" where
  "finish_document l implicit end_mark =
     l\<lparr>ld_document := (ld_document l)\<lparr>dc_end_implicit := implicit, dc_end := end_mark\<rparr>\<rparr>"

partial_function (option) yaml_parser_load_nodes :: "loader_t \<Rightarrow> load_outcome option" where
  "yaml_parser_load_nodes l = (case yaml_parser_parse (ld_parser l) of
     Done e q \<Rightarrow> (case load_event (l\<lparr>ld_parser := q\<rparr>) e of
         Done _ l' \<Rightarrow> (case ev_data e of
             YAML_DOCUMENT_END_EVENT implicit \<Rightarrow> Some (Done () (finish_document l' implicit (ev_end e)))
           | _ \<Rightarrow> yaml_parser_load_nodes l')
       | Fail l' \<Rightarrow> Some (Fail l')
       | Crash \<Rightarrow> Some Crash)
   | Fail q \<Rightarrow> Some (Fail (l\<lparr>ld_parser := q\<rparr>))
   | Crash \<Rightarrow> Some Crash)"

section \<open>Documents\<close>

text \<open>The fresh loader of a document that starts with event \<open>e\<close>.\<close>

definition open_document :: "yaml_parser_t \<Rightarrow> yaml_event_t \<Rightarrow> yaml_version_directive_t option \<Rightarrow>
    yaml_tag_directive_t list \<Rightarrow> bool \<Rightarrow> loader_t" where
  "open_document p e version tags implicit = \<lparr>ld_parser = p, ld_aliases = [],
     ld_document = document0\<lparr>dc_version := version, dc_tags := tags, dc_start_implicit := implicit,
       dc_start := ev_start e\<rparr>, ld_ctx = []\<rparr>"

definition yaml_parser_load_document :: "yaml_parser_t \<Rightarrow> yaml_event_t \<Rightarrow> load_outcome option" where
  "yaml_parser_load_document p e = (case ev_data e of
     YAML_DOCUMENT_START_EVENT version tags implicit \<Rightarrow>
       yaml_parser_load_nodes (open_document p e version tags implicit)
   | _ \<Rightarrow> Some Crash)"

text \<open>The part of \<open>yaml_parser_load\<close> after the start of the stream. The document is the result; on an
  error it is deleted.\<close>

definition load_next :: "yaml_parser_t \<Rightarrow> (yaml_document_t, yaml_parser_t) outcome option" where
  "load_next p =
     (if ps_stream_end_produced p then Some (Done document0 p)
      else case yaml_parser_parse p of
        Done e q \<Rightarrow>
          if ev_data e = YAML_STREAM_END_EVENT then Some (Done document0 q)
          else (case yaml_parser_load_document q e of
              None \<Rightarrow> None
            | Some (Done _ l) \<Rightarrow> Some (Done (ld_document l) (ld_parser l))
            | Some (Fail l) \<Rightarrow> Some (Fail (ld_parser l))
            | Some Crash \<Rightarrow> Some Crash)
      | Fail q \<Rightarrow> Some (Fail q)
      | Crash \<Rightarrow> Some Crash)"

fun is_stream_start :: "yaml_event_data \<Rightarrow> bool" where
  "is_stream_start (YAML_STREAM_START_EVENT _) = True" | "is_stream_start _ = False"

definition yaml_parser_load :: "yaml_parser_t \<Rightarrow> (yaml_document_t, yaml_parser_t) outcome option" where
  "yaml_parser_load p =
     (if \<not> ps_stream_start_produced p then
        (case yaml_parser_parse p of
          Done e q \<Rightarrow> if is_stream_start (ev_data e) then load_next q else Some Crash
        | Fail q \<Rightarrow> Some (Fail q)
        | Crash \<Rightarrow> Some Crash)
      else load_next p)"

text \<open>The loop of \<open>tests/run-loader.c\<close>: documents until one without a root node.\<close>

partial_function (option) run_loader ::
  "yaml_parser_t \<Rightarrow> yaml_document_t list \<Rightarrow> (bool \<times> yaml_document_t list, yaml_parser_t) outcome option" where
  "run_loader p ds = Option.bind (yaml_parser_load p) (\<lambda>r. case r of
     Done d q \<Rightarrow> if dc_nodes d = [] then Some (Done (False, ds) q) else run_loader q (ds @ [d])
   | Fail q \<Rightarrow> Some (Done (True, ds) q)
   | Crash \<Rightarrow> Some Crash)"

end
