(* ===== verification/Ly_Grammar.thy ===== *)
theory Ly_Grammar
  imports Ly_Types
begin

text \<open>
  The contract between the parser of libyaml and the consumers of its events: the grammar of event
  sequences, and an automaton with a stack of frames that accepts it. The parser is shown to follow the
  automaton (\<open>Ly_Parser_Laws\<close>), the loader and the dumper rely on the grammar.
\<close>

section \<open>The grammar\<close>

text \<open>
  \<^item> stream \<open>::=\<close> \<open>STREAM-START\<close> document* \<open>STREAM-END\<close>
  \<^item> document \<open>::=\<close> \<open>DOCUMENT-START\<close> node \<open>DOCUMENT-END\<close>
  \<^item> node \<open>::=\<close> \<open>ALIAS\<close> | \<open>SCALAR\<close> | \<open>SEQUENCE-START\<close> node* \<open>SEQUENCE-END\<close>
    | \<open>MAPPING-START\<close> (node node)* \<open>MAPPING-END\<close>
\<close>

fun leaf_event :: "yaml_event_data \<Rightarrow> bool" where
  "leaf_event (YAML_ALIAS_EVENT _) = True"
| "leaf_event (YAML_SCALAR_EVENT _ _ _ _ _ _) = True"
| "leaf_event _ = False"

inductive node_events :: "yaml_event_data list \<Rightarrow> bool"
  and item_events :: "yaml_event_data list \<Rightarrow> bool"
  and pair_events :: "yaml_event_data list \<Rightarrow> bool" where
  leaf_node: "leaf_event e \<Longrightarrow> node_events [e]"
| sequence_node: "item_events es \<Longrightarrow>
    node_events (YAML_SEQUENCE_START_EVENT a t i s # es @ [YAML_SEQUENCE_END_EVENT])"
| mapping_node: "pair_events es \<Longrightarrow>
    node_events (YAML_MAPPING_START_EVENT a t i m # es @ [YAML_MAPPING_END_EVENT])"
| no_items: "item_events []"
| more_items: "node_events n \<Longrightarrow> item_events es \<Longrightarrow> item_events (n @ es)"
| no_pairs: "pair_events []"
| more_pairs: "node_events k \<Longrightarrow> node_events v \<Longrightarrow> pair_events es \<Longrightarrow> pair_events (k @ v @ es)"

inductive document_events :: "yaml_event_data list \<Rightarrow> bool" where
  no_documents: "document_events []"
| more_documents: "node_events n \<Longrightarrow> document_events ds \<Longrightarrow>
    document_events (YAML_DOCUMENT_START_EVENT v t i # n @ YAML_DOCUMENT_END_EVENT j # ds)"

definition stream_events :: "yaml_event_data list \<Rightarrow> bool" where
  "stream_events es \<longleftrightarrow>
     (\<exists>enc ds. document_events ds \<and> es = YAML_STREAM_START_EVENT enc # ds @ [YAML_STREAM_END_EVENT])"

section \<open>The automaton\<close>

text \<open>What is still to come at each level: the whole stream, more documents, the node of a document, its
  end, more items, a key, a value.\<close>

datatype frame = FStart | FStream | FDocNode | FDocEnd | FSeq | FKey | FValue

fun accepts_node :: "frame \<Rightarrow> bool" where
  "accepts_node FDocNode = True"
| "accepts_node FSeq = True"
| "accepts_node FKey = True"
| "accepts_node FValue = True"
| "accepts_node _ = False"

text \<open>The frame after its next node.\<close>

fun filled :: "frame \<Rightarrow> frame" where
  "filled FDocNode = FDocEnd"
| "filled FKey = FValue"
| "filled FValue = FKey"
| "filled f = f"

definition node_step :: "frame list \<Rightarrow> frame list \<Rightarrow> frame list option" where
  "node_step new fs = (case fs of
     f # r \<Rightarrow> if accepts_node f then Some (new @ filled f # r) else None
   | [] \<Rightarrow> None)"

definition pop_frame :: "frame \<Rightarrow> frame list \<Rightarrow> frame list option" where
  "pop_frame f fs = (case fs of g # r \<Rightarrow> if g = f then Some r else None | [] \<Rightarrow> None)"

fun event_step :: "frame list \<Rightarrow> yaml_event_data \<Rightarrow> frame list option" where
  "event_step fs (YAML_STREAM_START_EVENT _) = (if fs = [FStart] then Some [FStream] else None)"
| "event_step fs YAML_STREAM_END_EVENT = (if fs = [FStream] then Some [] else None)"
| "event_step fs (YAML_DOCUMENT_START_EVENT _ _ _) =
     (if fs = [FStream] then Some [FDocNode, FStream] else None)"
| "event_step fs (YAML_DOCUMENT_END_EVENT _) = pop_frame FDocEnd fs"
| "event_step fs (YAML_ALIAS_EVENT _) = node_step [] fs"
| "event_step fs (YAML_SCALAR_EVENT _ _ _ _ _ _) = node_step [] fs"
| "event_step fs (YAML_SEQUENCE_START_EVENT _ _ _ _) = node_step [FSeq] fs"
| "event_step fs YAML_SEQUENCE_END_EVENT = pop_frame FSeq fs"
| "event_step fs (YAML_MAPPING_START_EVENT _ _ _ _) = node_step [FKey] fs"
| "event_step fs YAML_MAPPING_END_EVENT = pop_frame FKey fs"
| "event_step fs YAML_NO_EVENT = None"

fun event_run :: "frame list \<Rightarrow> yaml_event_data list \<Rightarrow> frame list option" where
  "event_run fs [] = Some fs"
| "event_run fs (e # es) = (case event_step fs e of None \<Rightarrow> None | Some fs' \<Rightarrow> event_run fs' es)"

lemma event_run_append:
  "event_run fs (xs @ ys) = (case event_run fs xs of None \<Rightarrow> None | Some fs' \<Rightarrow> event_run fs' ys)"
  by (induction xs arbitrary: fs) (auto split: option.splits)

section \<open>The automaton accepts the grammar\<close>

lemma event_run_node:
  "node_events n \<Longrightarrow> accepts_node f \<Longrightarrow> event_run (f # fs) n = Some (filled f # fs)"
  "item_events es \<Longrightarrow> event_run (FSeq # fs) es = Some (FSeq # fs)"
  "pair_events es \<Longrightarrow> event_run (FKey # fs) es = Some (FKey # fs)"
proof (induction arbitrary: f fs and fs and fs rule: node_events_item_events_pair_events.inducts)
  case (leaf_node e)
  then show ?case by (cases e) (simp_all add: node_step_def)
qed (simp_all add: event_run_append node_step_def pop_frame_def)

lemma event_run_documents:
  "document_events ds \<Longrightarrow> event_run [FStream] ds = Some [FStream]"
  by (induction rule: document_events.induct) (simp_all add: event_run_append event_run_node pop_frame_def)

text \<open>The event sequences that complete a frame.\<close>

fun completes :: "frame \<Rightarrow> yaml_event_data list \<Rightarrow> bool" where
  "completes FStart es = stream_events es"
| "completes FStream es = (\<exists>ds. document_events ds \<and> es = ds @ [YAML_STREAM_END_EVENT])"
| "completes FDocNode es = (\<exists>n j. node_events n \<and> es = n @ [YAML_DOCUMENT_END_EVENT j])"
| "completes FDocEnd es = (\<exists>j. es = [YAML_DOCUMENT_END_EVENT j])"
| "completes FSeq es = (\<exists>xs. item_events xs \<and> es = xs @ [YAML_SEQUENCE_END_EVENT])"
| "completes FKey es = (\<exists>xs. pair_events xs \<and> es = xs @ [YAML_MAPPING_END_EVENT])"
| "completes FValue es = (\<exists>v xs. node_events v \<and> pair_events xs \<and> es = v @ xs @ [YAML_MAPPING_END_EVENT])"

fun completes_all :: "frame list \<Rightarrow> yaml_event_data list \<Rightarrow> bool" where
  "completes_all [] es = (es = [])"
| "completes_all (f # fs) es = (\<exists>xs ys. es = xs @ ys \<and> completes f xs \<and> completes_all fs ys)"

lemma completes_fill:
  assumes "accepts_node f" "node_events n" "completes (filled f) es"
  shows "completes f (n @ es)"
proof (cases f)
  case FSeq
  then show ?thesis using assms by (auto simp flip: append_assoc intro: more_items)
next
  case FKey
  then obtain v xs where "node_events v" "pair_events xs" "es = v @ xs @ [YAML_MAPPING_END_EVENT]"
    using assms by auto
  then show ?thesis using FKey assms(2) more_pairs [of n v xs] by (auto intro: exI [of _ "n @ v @ xs"])
next
  case FValue
  then show ?thesis using assms by auto
qed (use assms in auto)

lemma completes_allI:
  "completes f xs \<Longrightarrow> completes_all fs ys \<Longrightarrow> completes_all (f # fs) (xs @ ys)"
  by auto

lemma completes_all_fill:
  assumes "accepts_node f" "node_events n" "completes_all (filled f # fs) es"
  shows "completes_all (f # fs) (n @ es)"
  using assms completes_fill by (simp, metis append_assoc)

lemma node_step_SomeE:
  assumes "node_step new fs = Some fs'"
  obtains f r where "fs = f # r" "accepts_node f" "fs' = new @ filled f # r"
  using assms by (auto simp: node_step_def split: list.splits if_splits)

lemma pop_frame_SomeE:
  assumes "pop_frame f fs = Some fs'"
  obtains "fs = f # fs'"
  using assms by (auto simp: pop_frame_def split: list.splits if_splits)

lemma event_step_node:
  assumes "node_step new fs = Some fs'" "completes_all fs' es"
    and "\<And>r. completes_all (new @ r) es \<Longrightarrow> \<exists>n es'. e # es = n @ es' \<and> node_events n \<and> completes_all r es'"
  shows "completes_all fs (e # es)"
  using assms(1)
proof (rule node_step_SomeE)
  fix f r assume *: "fs = f # r" "accepts_node f" "fs' = new @ filled f # r"
  obtain n es' where "e # es = n @ es'" "node_events n" "completes_all (filled f # r) es'"
    using assms(2,3) * by blast
  then show ?thesis using completes_all_fill * by metis
qed

lemma event_step_leaf:
  assumes "node_step [] fs = Some fs'" "completes_all fs' es" "leaf_event e"
  shows "completes_all fs (e # es)"
  using assms(1,2)
proof (rule event_step_node)
  fix r assume "completes_all ([] @ r) es"
  then show "\<exists>n es'. e # es = n @ es' \<and> node_events n \<and> completes_all r es'"
    using leaf_node [OF assms(3)] by (intro exI [of _ "[e]"] exI [of _ es]) simp
qed

lemma event_step_open:
  assumes "node_step [g] fs = Some fs'" "completes_all fs' es" "\<And>xs. completes g xs \<Longrightarrow> node_events (e # xs)"
  shows "completes_all fs (e # es)"
  using assms(1,2)
proof (rule event_step_node)
  fix r assume "completes_all ([g] @ r) es"
  then obtain xs ys where "es = xs @ ys" "completes g xs" "completes_all r ys" by auto
  then show "\<exists>n es'. e # es = n @ es' \<and> node_events n \<and> completes_all r es'"
    using assms(3) by (intro exI [of _ "e # xs"] exI [of _ ys]) simp
qed

lemma event_step_pop:
  assumes "pop_frame f fs = Some fs'" "completes_all fs' es" "completes f [e]"
  shows "completes_all fs (e # es)"
  using assms completes_allI [of f "[e]" fs' es]
  by (auto elim!: pop_frame_SomeE simp del: completes_all.simps)

lemma event_step_completes:
  assumes "event_step fs e = Some fs'" "completes_all fs' es"
  shows "completes_all fs (e # es)"
proof (cases e)
  case (YAML_STREAM_START_EVENT enc)
  then show ?thesis using assms by (auto simp: stream_events_def split: if_splits)
next
  case YAML_STREAM_END_EVENT
  then show ?thesis using assms by (auto intro!: no_documents split: if_splits)
next
  case (YAML_DOCUMENT_START_EVENT v t i)
  then obtain n j ds where "fs = [FStream]" "node_events n" "document_events ds"
    "es = n @ YAML_DOCUMENT_END_EVENT j # ds @ [YAML_STREAM_END_EVENT]"
    using assms by (auto split: if_splits)
  then show ?thesis using YAML_DOCUMENT_START_EVENT more_documents [of n ds v t i j]
    by (auto intro: exI [of _ "e # n @ YAML_DOCUMENT_END_EVENT j # ds"])
next
  case (YAML_DOCUMENT_END_EVENT j)
  then show ?thesis using assms event_step_pop [of FDocEnd fs fs' es e] by simp
next
  case (YAML_ALIAS_EVENT a)
  then show ?thesis using assms event_step_leaf [of fs fs' es e] by simp
next
  case (YAML_SCALAR_EVENT a t v p q s)
  then show ?thesis using assms event_step_leaf [of fs fs' es e] by simp
next
  case (YAML_SEQUENCE_START_EVENT a t i s)
  then show ?thesis using assms(1,2)
    by (intro event_step_open [of FSeq fs fs' es e]) (auto intro: sequence_node)
next
  case (YAML_MAPPING_START_EVENT a t i s)
  then show ?thesis using assms(1,2)
    by (intro event_step_open [of FKey fs fs' es e]) (auto intro: mapping_node)
next
  case YAML_SEQUENCE_END_EVENT
  then show ?thesis using assms event_step_pop [of FSeq fs fs' es e] no_items by simp
next
  case YAML_MAPPING_END_EVENT
  then show ?thesis using assms event_step_pop [of FKey fs fs' es e] no_pairs by simp
qed (use assms in simp)

lemma event_run_completes:
  "event_run fs es = Some [] \<Longrightarrow> completes_all fs es"
  by (induction es arbitrary: fs) (auto simp del: completes_all.simps(2) intro: event_step_completes split: option.splits)

lemma event_run_stream:
  "event_run [FStart] es = Some [] \<longleftrightarrow> stream_events es"
proof
  assume "event_run [FStart] es = Some []"
  then show "stream_events es" using event_run_completes [of "[FStart]" es] by auto
next
  assume "stream_events es"
  then show "event_run [FStart] es = Some []"
    by (auto simp: stream_events_def event_run_append event_run_documents)
qed

end
