(* ===== verification/Ly_Parser_Laws.thy ===== *)
theory Ly_Parser_Laws
  imports Ly_Parser Ly_Grammar
begin

text \<open>
  The laws of the parser of libyaml, for every list of tokens: the stacks never underflow and no \<open>NULL\<close>
  token is used, the events follow the grammar of \<open>Ly_Grammar\<close>, and every call that delivers an event
  makes a measure smaller, so that a consumer that reads until the end of the stream always returns.
\<close>

section \<open>What the stacks mean\<close>

text \<open>The frames that a state on the stack stands for, from the top.\<close>

fun frames_of :: "yaml_parser_state_t \<Rightarrow> frame list" where
  "frames_of YAML_PARSE_STREAM_START_STATE = [FStart]"
| "frames_of YAML_PARSE_IMPLICIT_DOCUMENT_START_STATE = [FStream]"
| "frames_of YAML_PARSE_DOCUMENT_START_STATE = [FStream]"
| "frames_of YAML_PARSE_DOCUMENT_CONTENT_STATE = [FDocNode, FStream]"
| "frames_of YAML_PARSE_BLOCK_NODE_STATE = [FDocNode, FStream]"
| "frames_of YAML_PARSE_DOCUMENT_END_STATE = [FDocEnd, FStream]"
| "frames_of YAML_PARSE_BLOCK_NODE_OR_INDENTLESS_SEQUENCE_STATE = []"
| "frames_of YAML_PARSE_FLOW_NODE_STATE = []"
| "frames_of YAML_PARSE_BLOCK_SEQUENCE_FIRST_ENTRY_STATE = [FSeq]"
| "frames_of YAML_PARSE_BLOCK_SEQUENCE_ENTRY_STATE = [FSeq]"
| "frames_of YAML_PARSE_INDENTLESS_SEQUENCE_ENTRY_STATE = [FSeq]"
| "frames_of YAML_PARSE_BLOCK_MAPPING_FIRST_KEY_STATE = [FKey]"
| "frames_of YAML_PARSE_BLOCK_MAPPING_KEY_STATE = [FKey]"
| "frames_of YAML_PARSE_BLOCK_MAPPING_VALUE_STATE = [FValue]"
| "frames_of YAML_PARSE_FLOW_SEQUENCE_FIRST_ENTRY_STATE = [FSeq]"
| "frames_of YAML_PARSE_FLOW_SEQUENCE_ENTRY_STATE = [FSeq]"
| "frames_of YAML_PARSE_FLOW_SEQUENCE_ENTRY_MAPPING_KEY_STATE = [FKey, FSeq]"
| "frames_of YAML_PARSE_FLOW_SEQUENCE_ENTRY_MAPPING_VALUE_STATE = [FValue, FSeq]"
| "frames_of YAML_PARSE_FLOW_SEQUENCE_ENTRY_MAPPING_END_STATE = [FKey, FSeq]"
| "frames_of YAML_PARSE_FLOW_MAPPING_FIRST_KEY_STATE = [FKey]"
| "frames_of YAML_PARSE_FLOW_MAPPING_KEY_STATE = [FKey]"
| "frames_of YAML_PARSE_FLOW_MAPPING_VALUE_STATE = [FValue]"
| "frames_of YAML_PARSE_FLOW_MAPPING_EMPTY_VALUE_STATE = [FValue]"
| "frames_of YAML_PARSE_END_STATE = []"

definition frames_all :: "yaml_parser_state_t list \<Rightarrow> frame list" where
  "frames_all ss = concat (map frames_of ss)"

lemma frames_all_simps [simp]:
  "frames_all [] = []" "frames_all (s # ss) = frames_of s @ frames_all ss"
  by (simp_all add: frames_all_def)

text \<open>The states inside a collection, to which a node returns.\<close>

definition collection_states :: "yaml_parser_state_t list" where
  "collection_states = [YAML_PARSE_BLOCK_SEQUENCE_ENTRY_STATE, YAML_PARSE_INDENTLESS_SEQUENCE_ENTRY_STATE,
     YAML_PARSE_BLOCK_MAPPING_KEY_STATE, YAML_PARSE_BLOCK_MAPPING_VALUE_STATE,
     YAML_PARSE_FLOW_SEQUENCE_ENTRY_STATE, YAML_PARSE_FLOW_SEQUENCE_ENTRY_MAPPING_VALUE_STATE,
     YAML_PARSE_FLOW_SEQUENCE_ENTRY_MAPPING_KEY_STATE, YAML_PARSE_FLOW_SEQUENCE_ENTRY_MAPPING_END_STATE,
     YAML_PARSE_FLOW_MAPPING_KEY_STATE, YAML_PARSE_FLOW_MAPPING_VALUE_STATE,
     YAML_PARSE_FLOW_MAPPING_EMPTY_VALUE_STATE]"

definition first_states :: "yaml_parser_state_t list" where
  "first_states = [YAML_PARSE_BLOCK_SEQUENCE_FIRST_ENTRY_STATE, YAML_PARSE_BLOCK_MAPPING_FIRST_KEY_STATE,
     YAML_PARSE_FLOW_SEQUENCE_FIRST_ENTRY_STATE, YAML_PARSE_FLOW_MAPPING_FIRST_KEY_STATE]"

text \<open>The number of marks that a state on the stack owns.\<close>

definition mark_of :: "yaml_parser_state_t \<Rightarrow> nat" where
  "mark_of s = (if s \<in> set collection_states \<and> s \<noteq> YAML_PARSE_INDENTLESS_SEQUENCE_ENTRY_STATE then 1 else 0)"

definition marks_all :: "yaml_parser_state_t list \<Rightarrow> nat" where
  "marks_all ss = sum_list (map mark_of ss)"

text \<open>The stack of states inside a document: collections down to the end of the document.\<close>

fun stack_ok :: "yaml_parser_state_t list \<Rightarrow> bool" where
  "stack_ok [] = False"
| "stack_ok (s # ss) = (if ss = [] then s = YAML_PARSE_DOCUMENT_END_STATE
     else s \<in> set collection_states \<and> stack_ok ss)"

definition document_state :: "yaml_parser_state_t \<Rightarrow> bool" where
  "document_state s \<longleftrightarrow> s \<in> {YAML_PARSE_STREAM_START_STATE, YAML_PARSE_IMPLICIT_DOCUMENT_START_STATE,
     YAML_PARSE_DOCUMENT_START_STATE, YAML_PARSE_DOCUMENT_END_STATE, YAML_PARSE_END_STATE}"

definition content_state :: "yaml_parser_state_t \<Rightarrow> bool" where
  "content_state s \<longleftrightarrow> s \<in> {YAML_PARSE_BLOCK_NODE_STATE, YAML_PARSE_DOCUMENT_CONTENT_STATE}"

text \<open>The token that opened the collection is still there when its first entry is parsed.\<close>

definition opening_token :: "yaml_token_t list \<Rightarrow> bool" where
  "opening_token ts \<longleftrightarrow> ts \<noteq> [] \<and> tk_data (hd ts) \<noteq> YAML_STREAM_END_TOKEN"

text \<open>A parser between the start and the end of the stream.\<close>

definition running :: "yaml_parser_t \<Rightarrow> bool" where
  [simp]: "running p \<longleftrightarrow> \<not> ps_stream_end_produced p \<and> ps_stream_start_produced p \<and> ps_error p = None"

definition parser_inv :: "yaml_parser_t \<Rightarrow> bool" where
  "parser_inv p \<longleftrightarrow>
     (if document_state (ps_state p) then ps_states p = []
      else if content_state (ps_state p) then ps_states p = [YAML_PARSE_DOCUMENT_END_STATE]
      else if ps_state p \<in> set first_states then stack_ok (ps_states p) \<and> opening_token (ps_tokens p)
      else ps_state p \<in> set collection_states \<and> stack_ok (ps_states p)) \<and>
     length (ps_marks p) = marks_all (ps_state p # ps_states p) \<and>
     (ps_stream_start_produced p \<longleftrightarrow> ps_state p \<noteq> YAML_PARSE_STREAM_START_STATE) \<and>
     (ps_stream_end_produced p \<longleftrightarrow> ps_state p = YAML_PARSE_END_STATE) \<and> ps_error p = None"

definition parser_frames :: "yaml_parser_t \<Rightarrow> frame list" where
  "parser_frames p = (if content_state (ps_state p) then frames_of (ps_state p)
     else frames_all (ps_state p # ps_states p))"

section \<open>The measure\<close>

text \<open>The number of events that a state can deliver without a further token.\<close>

fun weight :: "yaml_parser_state_t \<Rightarrow> nat" where
  "weight YAML_PARSE_IMPLICIT_DOCUMENT_START_STATE = 6"
| "weight YAML_PARSE_DOCUMENT_CONTENT_STATE = 3"
| "weight YAML_PARSE_BLOCK_NODE_STATE = 3"
| "weight YAML_PARSE_DOCUMENT_END_STATE = 2"
| "weight YAML_PARSE_INDENTLESS_SEQUENCE_ENTRY_STATE = 2"
| "weight YAML_PARSE_BLOCK_MAPPING_VALUE_STATE = 2"
| "weight YAML_PARSE_FLOW_MAPPING_VALUE_STATE = 2"
| "weight YAML_PARSE_FLOW_MAPPING_EMPTY_VALUE_STATE = 2"
| "weight YAML_PARSE_FLOW_SEQUENCE_ENTRY_MAPPING_KEY_STATE = 5"
| "weight YAML_PARSE_FLOW_SEQUENCE_ENTRY_MAPPING_VALUE_STATE = 3"
| "weight YAML_PARSE_FLOW_SEQUENCE_ENTRY_MAPPING_END_STATE = 2"
| "weight YAML_PARSE_STREAM_START_STATE = 0"
| "weight YAML_PARSE_END_STATE = 0"
| "weight _ = 1"

definition weights :: "yaml_parser_state_t list \<Rightarrow> nat" where
  "weights ss = sum_list (map weight ss)"

definition parser_measure :: "yaml_parser_t \<Rightarrow> nat" where
  "parser_measure p = 7 * length (ps_tokens p) + weights (ps_state p # ps_states p)"

lemma stack_sums [simp]:
  "marks_all [] = 0" "marks_all (s # ss) = mark_of s + marks_all ss"
  "weights [] = 0" "weights (s # ss) = weight s + weights ss"
  by (simp_all add: marks_all_def weights_def)

text \<open>What one call must do, from the frames \<open>fs\<close> and with a measure below \<open>n\<close>.\<close>

definition step_ok :: "frame list \<Rightarrow> nat \<Rightarrow> event_outcome \<Rightarrow> bool" where
  "step_ok fs n r = (case r of
     Done e p \<Rightarrow> parser_inv p \<and> event_step fs (ev_data e) = Some (parser_frames p) \<and> parser_measure p < n
   | Fail p \<Rightarrow> ps_error p \<noteq> None
   | Crash \<Rightarrow> False)"

lemma step_ok_simps:
  "step_ok fs n (Done e p) \<longleftrightarrow>
     parser_inv p \<and> event_step fs (ev_data e) = Some (parser_frames p) \<and> parser_measure p < n"
  "step_ok fs n (Fail p) \<longleftrightarrow> ps_error p \<noteq> None"
  "\<not> step_ok fs n Crash"
  by (simp_all add: step_ok_def)

lemma step_ok_PEEK_TOKEN:
  "(\<And>token ts. ps_tokens p = token # ts \<Longrightarrow> step_ok fs n (k token)) \<Longrightarrow> step_ok fs n (PEEK_TOKEN p k)"
  by (auto simp: PEEK_TOKEN_def step_ok_simps split: list.splits)

lemma step_ok_error:
  "step_ok fs n (yaml_parser_set_parser_error p pr m)"
  "step_ok fs n (yaml_parser_set_parser_error_context p c cm pr m)"
  by (simp_all add: yaml_parser_set_parser_error_def yaml_parser_set_parser_error_context_def step_ok_simps)

section \<open>Nodes\<close>

lemma collection_not_document:
  "s \<in> set collection_states \<Longrightarrow> \<not> document_state s \<and> \<not> content_state s \<and> s \<notin> set first_states
     \<and> s \<noteq> YAML_PARSE_END_STATE \<and> s \<noteq> YAML_PARSE_STREAM_START_STATE"
  by (auto simp: collection_states_def document_state_def content_state_def first_states_def)

lemma first_not_document:
  "s \<in> set first_states \<Longrightarrow> \<not> document_state s \<and> \<not> content_state s \<and> s \<notin> set collection_states
     \<and> s \<noteq> YAML_PARSE_END_STATE \<and> s \<noteq> YAML_PARSE_STREAM_START_STATE \<and> mark_of s = 0 \<and> weight s = 1"
  by (auto simp: collection_states_def document_state_def content_state_def first_states_def mark_of_def)

text \<open>A parser that is about to return to the state on top of its stack.\<close>

lemma parser_inv_stack:
  assumes "stack_ok (ps_state p # ps_states p)" "length (ps_marks p) = marks_all (ps_state p # ps_states p)"
    "running p"
  shows "parser_inv p" "parser_frames p = frames_all (ps_state p # ps_states p)"
  using assms collection_not_document
  by (auto simp: parser_inv_def parser_frames_def document_state_def content_state_def split: if_splits)

lemma parser_inv_collection:
  assumes "ps_state p \<in> set collection_states" "stack_ok (ps_states p)"
    "length (ps_marks p) = marks_all (ps_state p # ps_states p)" "running p"
  shows "parser_inv p" "parser_frames p = frames_all (ps_state p # ps_states p)"
  using assms collection_not_document [of "ps_state p"] by (auto simp: parser_inv_def parser_frames_def)

lemma parser_inv_first:
  assumes "ps_state p \<in> set first_states" "stack_ok (ps_states p)" "opening_token (ps_tokens p)"
    "length (ps_marks p) = marks_all (ps_states p)" "running p"
  shows "parser_inv p" "parser_frames p = frames_all (ps_state p # ps_states p)"
  using assms first_not_document [of "ps_state p"] by (auto simp: parser_inv_def parser_frames_def)

text \<open>A parser in front of a node, whose return state is on the stack.\<close>

definition node_ready :: "frame list \<Rightarrow> yaml_parser_t \<Rightarrow> bool" where
  "node_ready fs p \<longleftrightarrow> stack_ok (ps_states p) \<and> length (ps_marks p) = marks_all (ps_states p) \<and>
     running p \<and>
     (\<exists>f r. fs = f # r \<and> accepts_node f \<and> frames_all (ps_states p) = filled f # r)"

lemma step_ok_leaf:
  assumes "node_ready fs p" "ps_states p = s # ss" "leaf_event (ev_data e)"
    "ps_state q = s" "ps_states q = ss" "ps_marks q = ps_marks p" "running q"
    "7 * length (ps_tokens q) + weights (ps_states p) < n"
  shows "step_ok fs n (Done e q)"
proof -
  have "event_step fs (ev_data e) = Some (frames_all (ps_states p))"
    using assms(1,3) by (cases "ev_data e") (auto simp: node_ready_def node_step_def)
  then show ?thesis
    using assms parser_inv_stack [of q] by (simp add: step_ok_simps node_ready_def parser_measure_def)
qed

lemma step_ok_open:
  assumes "node_ready fs p" "event_step fs (ev_data e) = node_step (frames_of (ps_state q)) fs"
    "ps_states q = ps_states p" "ps_marks q = ps_marks p" "running q"
    "ps_state q \<in> set first_states \<and> opening_token (ps_tokens q)
       \<or> ps_state q = YAML_PARSE_INDENTLESS_SEQUENCE_ENTRY_STATE"
    "7 * length (ps_tokens q) + weights (ps_states p) + weight (ps_state q) < n"
  shows "step_ok fs n (Done e q)"
proof -
  have step: "node_step (frames_of (ps_state q)) fs = Some (frames_of (ps_state q) @ frames_all (ps_states p))"
    using assms(1) by (auto simp: node_ready_def node_step_def)
  have "stack_ok (ps_states p)" "length (ps_marks p) = marks_all (ps_states p)"
    using assms(1) by (simp_all add: node_ready_def)
  moreover from this(1) have "ps_states p \<noteq> []" by auto
  ultimately have "parser_inv q \<and> parser_frames q = frames_all (ps_state q # ps_states q)"
    using assms(3-6) parser_inv_first [of q] parser_inv_stack [of q]
    by (auto simp: mark_of_def collection_states_def)
  then show ?thesis using assms step by (simp add: step_ok_simps parser_measure_def)
qed

lemma node_properties_ok:
  assumes "ps_tokens p = token # ts" "running p"
  shows "case node_properties p token of
      Done np q \<Rightarrow> ps_states q = ps_states p \<and> ps_marks q = ps_marks p \<and> running q
        \<and> ps_tags q = ps_tags p \<and> length (ps_tokens q) \<le> length (ps_tokens p)
        \<and> (np_anchor np \<noteq> None \<or> np_tag np \<noteq> None \<longrightarrow> length (ps_tokens q) < length (ps_tokens p))
    | Fail q \<Rightarrow> ps_error q \<noteq> None
    | Crash \<Rightarrow> False"
  using assms
  by (auto simp: node_properties_def Let_def PEEK_TOKEN_def SKIP_TOKEN_def
      split: yaml_token_data.splits list.splits)

lemma resolve_tag_ok:
  "case resolve_tag p np of
      Done tag q \<Rightarrow> q = p \<and> (tag \<noteq> None \<longrightarrow> np_tag np \<noteq> None)
    | Fail q \<Rightarrow> ps_error q \<noteq> None
    | Crash \<Rightarrow> False"
  by (auto simp: resolve_tag_def yaml_parser_set_parser_error_context_def split: option.splits)

lemma node_content_ok:
  assumes "node_ready fs p" "ps_tokens p = token # ts"
    "7 * m + weights (ps_states p) + (if i then 2 else 1) < n" "length (ps_tokens p) \<le> m"
    "np_anchor np \<noteq> None \<or> tag \<noteq> None \<longrightarrow> length (ps_tokens p) < m"
  shows "step_ok fs n (node_content p b i np tag token)"
proof -
  obtain s ss where st: "ps_states p = s # ss" "running p"
    using assms(1) by (cases "ps_states p") (auto simp: node_ready_def)
  have leaf: "step_ok fs n (POP_STATE p (\<lambda>p. Done e (SKIP_TOKEN p)))"
    if "leaf_event (ev_data e)" "tk_data token \<noteq> YAML_STREAM_END_TOKEN" for e
    using that assms(2-4) st
    by (auto simp: POP_STATE_def SKIP_TOKEN_def intro!: step_ok_leaf [OF assms(1) st(1)] split: if_splits)
  have none: "step_ok fs n (POP_STATE p (Done e))"
    if "leaf_event (ev_data e)" "np_anchor np \<noteq> None \<or> tag \<noteq> None" for e
    using that assms(2-5) st
    by (auto simp: POP_STATE_def intro!: step_ok_leaf [OF assms(1) st(1)] split: if_splits)
  have start: "step_ok fs n (Done e (set_state s p))"
    if "event_step fs (ev_data e) = node_step (frames_of s) fs"
      "s \<in> set first_states \<and> tk_data token \<noteq> YAML_STREAM_END_TOKEN
         \<or> i \<and> s = YAML_PARSE_INDENTLESS_SEQUENCE_ENTRY_STATE" for e s
    using that assms(2-4) st first_not_document [of s]
    by (auto simp: set_state_def opening_token_def intro!: step_ok_open [OF assms(1)] split: if_splits)
  show ?thesis
    unfolding node_content_def Let_def
    by (cases "tk_data token") (simp_all add: leaf none start first_states_def step_ok_error)
qed

lemma properties_content_ok:
  assumes "node_ready fs p" "7 * length (ps_tokens p) + weights (ps_states p) + (if i then 2 else 1) < n"
    "ps_tokens p = token # ts"
  shows "step_ok fs n (case node_properties p token of
         Done np p \<Rightarrow> (case resolve_tag p np of
             Done tag p \<Rightarrow> PEEK_TOKEN p (node_content p b i np tag)
           | Fail p \<Rightarrow> Fail p
           | Crash \<Rightarrow> Crash)
       | Fail p \<Rightarrow> Fail p
       | Crash \<Rightarrow> Crash)"
proof -
  have "running p" using assms(1) by (simp add: node_ready_def)
  note props = node_properties_ok [OF assms(3) this]
  show ?thesis
  proof (cases "node_properties p token")
    case (Done np q)
    have q: "ps_states q = ps_states p" "ps_marks q = ps_marks p" "running q"
      "length (ps_tokens q) \<le> length (ps_tokens p)"
      "np_anchor np \<noteq> None \<or> np_tag np \<noteq> None \<longrightarrow> length (ps_tokens q) < length (ps_tokens p)"
      using props Done by auto
    have "node_ready fs q" using assms(1) q by (simp add: node_ready_def)
    then show ?thesis
      using Done resolve_tag_ok [of q np] assms(2) q node_content_ok [of fs q _ _ "length (ps_tokens p)" i n np _ b]
      by (cases "resolve_tag q np") (auto simp: step_ok_simps intro!: step_ok_PEEK_TOKEN)
  qed (use props in \<open>auto simp: step_ok_simps\<close>)
qed

lemma parse_node_ok:
  assumes "node_ready fs p" "7 * length (ps_tokens p) + weights (ps_states p) + (if i then 2 else 1) < n"
  shows "step_ok fs n (yaml_parser_parse_node p b i)"
  unfolding yaml_parser_parse_node_def
proof (rule step_ok_PEEK_TOKEN)
  fix token ts assume tok: "ps_tokens p = token # ts"
  obtain s ss where st: "ps_states p = s # ss" "running p"
    using assms(1) by (cases "ps_states p") (auto simp: node_ready_def)
  have "step_ok fs n (POP_STATE p (\<lambda>p. Done (EVENT_INIT (YAML_ALIAS_EVENT a) m m') (SKIP_TOKEN p)))"
    if "tk_data token = YAML_ALIAS_TOKEN a" for a m m'
    using that assms(2) tok st
    by (auto simp: POP_STATE_def SKIP_TOKEN_def intro!: step_ok_leaf [OF assms(1) st(1)] split: if_splits)
  then show "step_ok fs n (case tk_data token of
       YAML_ALIAS_TOKEN anchor \<Rightarrow> POP_STATE p (\<lambda>p.
         Done (EVENT_INIT (YAML_ALIAS_EVENT anchor) (tk_start token) (tk_end token)) (SKIP_TOKEN p))
     | _ \<Rightarrow> (case node_properties p token of
         Done np p \<Rightarrow> (case resolve_tag p np of
             Done tag p \<Rightarrow> PEEK_TOKEN p (node_content p b i np tag)
           | Fail p \<Rightarrow> Fail p
           | Crash \<Rightarrow> Crash)
       | Fail p \<Rightarrow> Fail p
       | Crash \<Rightarrow> Crash))"
    using properties_content_ok [OF assms tok] by (cases "tk_data token") simp_all
qed

section \<open>Collections\<close>

text \<open>A parser inside a collection in state \<open>s\<close>, with \<open>w\<close> units of the measure \<open>n\<close> left.\<close>

definition inside :: "yaml_parser_state_t \<Rightarrow> frame list \<Rightarrow> nat \<Rightarrow> nat \<Rightarrow> yaml_parser_t \<Rightarrow> bool" where
  "inside s fs n w p \<longleftrightarrow> stack_ok (ps_states p) \<and> length (ps_marks p) = mark_of s + marks_all (ps_states p) \<and>
     running p \<and> fs = frames_of s @ frames_all (ps_states p) \<and>
     7 * length (ps_tokens p) + weights (ps_states p) + w \<le> n"

lemma inside_collection:
  assumes "parser_inv p" "ps_state p \<in> set collection_states"
  shows "inside (ps_state p) (parser_frames p) (parser_measure p) (weight (ps_state p)) p"
  using assms collection_not_document [of "ps_state p"]
  by (auto simp: inside_def parser_inv_def parser_frames_def parser_measure_def)

lemma inside_collection_of:
  assumes "parser_inv p" "ps_state p = s" "s \<in> set collection_states"
  shows "inside s (parser_frames p) (parser_measure p) (weight s) p"
  using inside_collection assms by blast

lemma inside_skip:
  assumes "inside s fs n w p" "ps_tokens p = token # ts" "tk_data token \<noteq> YAML_STREAM_END_TOKEN"
  shows "inside s fs n (w + 7) (SKIP_TOKEN p)"
  using assms by (auto simp: inside_def SKIP_TOKEN_def)

lemma stack_ok_push:
  "s \<in> set collection_states \<Longrightarrow> stack_ok ss \<Longrightarrow> stack_ok (s # ss)"
  by auto

text \<open>The next state \<open>s'\<close> after one more node in state \<open>s\<close>.\<close>

definition node_succ :: "yaml_parser_state_t \<Rightarrow> yaml_parser_state_t \<Rightarrow> bool" where
  "node_succ s s' \<longleftrightarrow> accepts_node (hd (frames_of s)) \<and> frames_of s \<noteq> [] \<and>
     frames_of s' = filled (hd (frames_of s)) # tl (frames_of s) \<and> s' \<in> set collection_states \<and>
     mark_of s' = mark_of s"

lemma inside_node:
  assumes "inside s fs n w p" "node_succ s s'" "weight s' + (if i then 2 else 1) < w"
  shows "step_ok fs n (yaml_parser_parse_node (PUSH_STATE s' p) b i)"
proof (rule parse_node_ok)
  have "frames_of s = hd (frames_of s) # tl (frames_of s)"
    using assms(2) by (simp add: node_succ_def)
  then have "fs = hd (frames_of s) # tl (frames_of s) @ frames_all (ps_states p)"
    using assms(1) by (simp add: inside_def)
  then show "node_ready fs (PUSH_STATE s' p)"
    using assms by (auto simp: node_ready_def inside_def node_succ_def PUSH_STATE_def)
  show "7 * length (ps_tokens (PUSH_STATE s' p)) + weights (ps_states (PUSH_STATE s' p)) + (if i then 2 else 1) < n"
    using assms(1,3) by (auto simp: inside_def PUSH_STATE_def)
qed

lemma inside_empty:
  assumes "inside s fs n w p" "node_succ s s'" "weight s' < w"
  shows "step_ok fs n (yaml_parser_process_empty_scalar (set_state s' p) m)"
proof -
  have "frames_of s = hd (frames_of s) # tl (frames_of s)"
    using assms(2) by (simp add: node_succ_def)
  then have "fs = hd (frames_of s) # tl (frames_of s) @ frames_all (ps_states p)"
    using assms(1) by (simp add: inside_def)
  then show ?thesis
    using assms parser_inv_stack [of "set_state s' p"] stack_ok_push [of s' "ps_states p"]
    by (auto simp: yaml_parser_process_empty_scalar_def step_ok_simps set_state_def inside_def node_succ_def
        node_step_def parser_measure_def simp del: stack_ok.simps)
qed

lemma inside_close:
  assumes "inside s fs n w p" "ps_tokens p = token # ts" "tk_data token \<noteq> YAML_STREAM_END_TOKEN"
    "frames_of s = [f]" "mark_of s = 1" "event_step fs d = pop_frame f fs"
  shows "step_ok fs n (POP_STATE p (\<lambda>p. POP_MARK p (\<lambda>_ p. Done (EVENT_INIT d a b) (SKIP_TOKEN p))))"
proof -
  obtain s' ss m ms where st: "ps_states p = s' # ss" "ps_marks p = m # ms"
    using assms(1,5) by (cases "ps_states p"; cases "ps_marks p") (auto simp: inside_def)
  show ?thesis
    using assms st parser_inv_stack [of "SKIP_TOKEN (p\<lparr>ps_state := s', ps_states := ss, ps_marks := ms\<rparr>)"]
    by (auto simp: POP_STATE_def POP_MARK_def step_ok_simps inside_def SKIP_TOKEN_def pop_frame_def parser_measure_def
        simp del: stack_ok.simps)
qed

lemma inside_error:
  assumes "inside s fs n w p" "mark_of s = 1"
  shows "step_ok fs n (POP_MARK p (\<lambda>m p. yaml_parser_set_parser_error_context p c m pr pm))"
  using assms by (cases "ps_marks p") (auto simp: inside_def POP_MARK_def step_ok_error)

lemma inside_open:
  assumes "parser_inv p" "if first then ps_state p \<in> set first_states \<and> frames_of (ps_state p) = frames_of s
      else ps_state p = s" "s \<in> set collection_states" "mark_of s = 1"
    and k: "\<And>q. inside s (parser_frames p) (parser_measure p) (if first then 8 else weight s) q \<Longrightarrow>
      step_ok (parser_frames p) (parser_measure p) (k q)"
  shows "step_ok (parser_frames p) (parser_measure p) (open_collection p first k)"
proof (cases first)
  case True
  then have fst: "ps_state p \<in> set first_states" "frames_of (ps_state p) = frames_of s" using assms(2) by auto
  then obtain token ts where "ps_tokens p = token # ts" "tk_data token \<noteq> YAML_STREAM_END_TOKEN"
    using assms(1) first_not_document [of "ps_state p"]
    by (cases "ps_tokens p") (auto simp: parser_inv_def opening_token_def)
  moreover from this have "inside s (parser_frames p) (parser_measure p) 8 (SKIP_TOKEN (PUSH_MARK m p))" for m
    using assms(1,4) fst first_not_document [of "ps_state p"]
    by (auto simp: inside_def parser_inv_def parser_frames_def parser_measure_def SKIP_TOKEN_def PUSH_MARK_def)
  ultimately show ?thesis using True k by (simp add: open_collection_def PEEK_UNCHECKED_def)
next
  case False
  then show ?thesis using assms inside_collection [of p] by (simp add: open_collection_def)
qed

lemmas state_table = node_succ_def mark_of_def collection_states_def first_states_def

lemma node_succ_block:
  "node_succ YAML_PARSE_BLOCK_SEQUENCE_ENTRY_STATE YAML_PARSE_BLOCK_SEQUENCE_ENTRY_STATE"
  "node_succ YAML_PARSE_INDENTLESS_SEQUENCE_ENTRY_STATE YAML_PARSE_INDENTLESS_SEQUENCE_ENTRY_STATE"
  "node_succ YAML_PARSE_BLOCK_MAPPING_KEY_STATE YAML_PARSE_BLOCK_MAPPING_VALUE_STATE"
  "node_succ YAML_PARSE_BLOCK_MAPPING_VALUE_STATE YAML_PARSE_BLOCK_MAPPING_KEY_STATE"
  by (simp_all add: state_table)

lemma node_succ_flow:
  "node_succ YAML_PARSE_FLOW_SEQUENCE_ENTRY_STATE YAML_PARSE_FLOW_SEQUENCE_ENTRY_STATE"
  "node_succ YAML_PARSE_FLOW_SEQUENCE_ENTRY_MAPPING_KEY_STATE YAML_PARSE_FLOW_SEQUENCE_ENTRY_MAPPING_VALUE_STATE"
  "node_succ YAML_PARSE_FLOW_SEQUENCE_ENTRY_MAPPING_VALUE_STATE YAML_PARSE_FLOW_SEQUENCE_ENTRY_MAPPING_END_STATE"
  "node_succ YAML_PARSE_FLOW_MAPPING_KEY_STATE YAML_PARSE_FLOW_MAPPING_VALUE_STATE"
  "node_succ YAML_PARSE_FLOW_MAPPING_KEY_STATE YAML_PARSE_FLOW_MAPPING_EMPTY_VALUE_STATE"
  "node_succ YAML_PARSE_FLOW_MAPPING_VALUE_STATE YAML_PARSE_FLOW_MAPPING_KEY_STATE"
  "node_succ YAML_PARSE_FLOW_MAPPING_EMPTY_VALUE_STATE YAML_PARSE_FLOW_MAPPING_KEY_STATE"
  by (simp_all add: state_table)

lemma step_ok_if:
  "(c \<Longrightarrow> step_ok fs n x) \<Longrightarrow> (\<not> c \<Longrightarrow> step_ok fs n y) \<Longrightarrow> step_ok fs n (if c then x else y)"
  by simp

lemmas inside_skip_node = inside_skip [THEN inside_node]
lemmas inside_skip_empty = inside_skip [THEN inside_empty]
lemmas inside_rules = inside_node inside_empty inside_skip_node inside_skip_empty inside_close inside_error
lemmas step_rules = step_ok_PEEK_TOKEN step_ok_if

section \<open>Block collections\<close>

lemma block_sequence_entry_ok:
  assumes "parser_inv p" "ps_state p = (if first then YAML_PARSE_BLOCK_SEQUENCE_FIRST_ENTRY_STATE
      else YAML_PARSE_BLOCK_SEQUENCE_ENTRY_STATE)"
  shows "step_ok (parser_frames p) (parser_measure p) (yaml_parser_parse_block_sequence_entry p first)"
  unfolding yaml_parser_parse_block_sequence_entry_def Let_def
proof (rule inside_open [OF assms(1), where s = YAML_PARSE_BLOCK_SEQUENCE_ENTRY_STATE], goal_cases)
  case (4 q)
  then show ?case
    by - (intro step_rules; (erule inside_rules, (assumption | simp add: node_succ_block mark_of_def collection_states_def)+))
qed (use assms in \<open>auto simp: state_table\<close>)

lemma block_mapping_key_ok:
  assumes "parser_inv p" "ps_state p = (if first then YAML_PARSE_BLOCK_MAPPING_FIRST_KEY_STATE
      else YAML_PARSE_BLOCK_MAPPING_KEY_STATE)"
  shows "step_ok (parser_frames p) (parser_measure p) (yaml_parser_parse_block_mapping_key p first)"
  unfolding yaml_parser_parse_block_mapping_key_def Let_def
proof (rule inside_open [OF assms(1), where s = YAML_PARSE_BLOCK_MAPPING_KEY_STATE], goal_cases)
  case (4 q)
  then show ?case
    by - (intro step_rules; (erule inside_rules, (assumption | simp add: node_succ_block mark_of_def collection_states_def)+))
qed (use assms in \<open>auto simp: state_table\<close>)

lemma block_mapping_value_ok:
  assumes "parser_inv p" "ps_state p = YAML_PARSE_BLOCK_MAPPING_VALUE_STATE"
  shows "step_ok (parser_frames p) (parser_measure p) (yaml_parser_parse_block_mapping_value p)"
  using inside_collection_of [OF assms, simplified collection_states_def, simplified]
  unfolding yaml_parser_parse_block_mapping_value_def Let_def
  by - (intro step_rules; (erule inside_rules, (assumption | simp add: node_succ_block)+))

lemma inside_leave:
  assumes "inside s fs n w p" "frames_of s = [f]" "mark_of s = 0" "event_step fs d = pop_frame f fs" "0 < w"
  shows "step_ok fs n (POP_STATE p (Done (EVENT_INIT d a b)))"
proof -
  obtain s' ss where st: "ps_states p = s' # ss"
    using assms(1) by (cases "ps_states p") (auto simp: inside_def)
  show ?thesis
    using assms st parser_inv_stack [of "p\<lparr>ps_state := s', ps_states := ss\<rparr>"]
    by (auto simp: POP_STATE_def step_ok_simps inside_def pop_frame_def parser_measure_def simp del: stack_ok.simps)
qed

lemma indentless_sequence_entry_ok:
  assumes "parser_inv p" "ps_state p = YAML_PARSE_INDENTLESS_SEQUENCE_ENTRY_STATE"
  shows "step_ok (parser_frames p) (parser_measure p) (yaml_parser_parse_indentless_sequence_entry p)"
proof -
  have st: "inside YAML_PARSE_INDENTLESS_SEQUENCE_ENTRY_STATE (parser_frames p) (parser_measure p) 2 p"
    using inside_collection [OF assms(1)] assms(2) by (simp add: collection_states_def)
  then have "step_ok (parser_frames p) (parser_measure p)
      (POP_STATE p (Done (EVENT_INIT YAML_SEQUENCE_END_EVENT a b)))" for a b
    by (rule inside_leave [where f = FSeq]) (simp_all add: mark_of_def)
  with st show ?thesis
    unfolding yaml_parser_parse_indentless_sequence_entry_def Let_def
    by - (intro step_rules; (erule inside_rules, (assumption | simp add: node_succ_block)+ | blast))
qed

section \<open>Flow collections\<close>

lemma inside_mono:
  "inside s fs n w p \<Longrightarrow> w' \<le> w \<Longrightarrow> inside s fs n w' p"
  by (auto simp: inside_def)

lemma flow_separator_ok:
  assumes "inside s fs n (if first then 8 else weight s) p" "ps_tokens p = token # ts" "mark_of s = 1" "0 < weight s"
    and k: "\<And>q token ts. inside s fs n 8 q \<Longrightarrow> ps_tokens q = token # ts \<Longrightarrow> step_ok fs n (k q token)"
  shows "step_ok fs n (flow_separator c pr first p k token)"
proof -
  have "inside s fs n 8 (SKIP_TOKEN p)" if "\<not> first" "tk_data token = YAML_FLOW_ENTRY_TOKEN"
    using inside_skip [OF assms(1,2)] that assms(4) by (auto elim: inside_mono)
  then show ?thesis
    unfolding flow_separator_def Let_def
    using assms by (auto intro!: step_ok_PEEK_TOKEN inside_error [of s fs n "weight s"])
qed

lemma close_flow_ok:
  assumes "inside s fs n w p" "ps_tokens p = token # ts" "tk_data token \<noteq> YAML_STREAM_END_TOKEN"
    "frames_of s = [f]" "mark_of s = 1" "event_step fs d = pop_frame f fs"
  shows "step_ok fs n (close_flow d p token)"
  unfolding close_flow_def by (rule inside_close [OF assms])

lemma flow_sequence_item_ok:
  assumes "inside YAML_PARSE_FLOW_SEQUENCE_ENTRY_STATE fs n 8 p" "ps_tokens p = token # ts"
  shows "step_ok fs n (flow_sequence_item p token)"
  unfolding flow_sequence_item_def
proof (intro step_ok_if, goal_cases)
  case 1
  then show ?case
    using assms inside_skip [OF assms]
      parser_inv_collection [of "SKIP_TOKEN (set_state YAML_PARSE_FLOW_SEQUENCE_ENTRY_MAPPING_KEY_STATE p)"]
    by (auto simp: step_ok_simps inside_def SKIP_TOKEN_def set_state_def node_step_def parser_measure_def state_table)
next
  case 2
  then show ?case using inside_node [OF assms(1)] by (simp add: node_succ_flow)
next
  case 3
  then show ?case using close_flow_ok [OF assms] by (simp add: mark_of_def collection_states_def)
qed

lemma flow_mapping_item_ok:
  assumes "inside YAML_PARSE_FLOW_MAPPING_KEY_STATE fs n 8 p" "ps_tokens p = token # ts"
  shows "step_ok fs n (flow_mapping_item p token)"
  using assms unfolding flow_mapping_item_def Let_def
  by - (intro step_rules; (erule inside_rules close_flow_ok,
      (assumption | simp add: node_succ_flow mark_of_def collection_states_def)+))

lemma flow_sequence_entry_ok:
  assumes "parser_inv p" "ps_state p = (if first then YAML_PARSE_FLOW_SEQUENCE_FIRST_ENTRY_STATE
      else YAML_PARSE_FLOW_SEQUENCE_ENTRY_STATE)"
  shows "step_ok (parser_frames p) (parser_measure p) (yaml_parser_parse_flow_sequence_entry p first)"
  unfolding yaml_parser_parse_flow_sequence_entry_def
proof (rule inside_open [OF assms(1), where s = YAML_PARSE_FLOW_SEQUENCE_ENTRY_STATE], goal_cases)
  case (4 q)
  then show ?case
    by - (intro step_rules; ((erule flow_separator_ok close_flow_ok,
      (assumption | simp add: mark_of_def collection_states_def flow_sequence_item_ok)+)))
qed (use assms in \<open>auto simp: state_table\<close>)

lemma flow_mapping_key_ok:
  assumes "parser_inv p" "ps_state p = (if first then YAML_PARSE_FLOW_MAPPING_FIRST_KEY_STATE
      else YAML_PARSE_FLOW_MAPPING_KEY_STATE)"
  shows "step_ok (parser_frames p) (parser_measure p) (yaml_parser_parse_flow_mapping_key p first)"
  unfolding yaml_parser_parse_flow_mapping_key_def
proof (rule inside_open [OF assms(1), where s = YAML_PARSE_FLOW_MAPPING_KEY_STATE], goal_cases)
  case (4 q)
  then show ?case
    by - (intro step_rules; ((erule flow_separator_ok close_flow_ok,
      (assumption | simp add: mark_of_def collection_states_def flow_mapping_item_ok)+)))
qed (use assms in \<open>auto simp: state_table\<close>)

lemma flow_mapping_value_ok:
  assumes "parser_inv p" "ps_state p = (if e then YAML_PARSE_FLOW_MAPPING_EMPTY_VALUE_STATE
      else YAML_PARSE_FLOW_MAPPING_VALUE_STATE)"
  shows "step_ok (parser_frames p) (parser_measure p) (yaml_parser_parse_flow_mapping_value p e)"
proof -
  have "inside YAML_PARSE_FLOW_MAPPING_VALUE_STATE (parser_frames p) (parser_measure p) 2 p"
    using inside_collection [OF assms(1)] assms(2)
    by (auto simp: collection_states_def inside_def mark_of_def split: if_splits)
  then show ?thesis
    unfolding yaml_parser_parse_flow_mapping_value_def Let_def
    by - (intro step_rules; (erule inside_rules, (assumption | simp add: node_succ_flow)+))
qed

lemma flow_sequence_entry_mapping_ok:
  assumes "parser_inv p"
  shows "ps_state p = YAML_PARSE_FLOW_SEQUENCE_ENTRY_MAPPING_KEY_STATE \<Longrightarrow>
      step_ok (parser_frames p) (parser_measure p) (yaml_parser_parse_flow_sequence_entry_mapping_key p)"
    and "ps_state p = YAML_PARSE_FLOW_SEQUENCE_ENTRY_MAPPING_VALUE_STATE \<Longrightarrow>
      step_ok (parser_frames p) (parser_measure p) (yaml_parser_parse_flow_sequence_entry_mapping_value p)"
    and "ps_state p = YAML_PARSE_FLOW_SEQUENCE_ENTRY_MAPPING_END_STATE \<Longrightarrow>
      step_ok (parser_frames p) (parser_measure p) (yaml_parser_parse_flow_sequence_entry_mapping_end p)"
proof -
  assume "ps_state p = YAML_PARSE_FLOW_SEQUENCE_ENTRY_MAPPING_KEY_STATE"
  then have "inside YAML_PARSE_FLOW_SEQUENCE_ENTRY_MAPPING_KEY_STATE (parser_frames p) (parser_measure p) 5 p"
    using inside_collection [OF assms] by (simp add: collection_states_def)
  then show "step_ok (parser_frames p) (parser_measure p) (yaml_parser_parse_flow_sequence_entry_mapping_key p)"
    unfolding yaml_parser_parse_flow_sequence_entry_mapping_key_def
    by - (intro step_rules; (erule inside_rules, (assumption | force simp add: node_succ_flow)+))
next
  assume "ps_state p = YAML_PARSE_FLOW_SEQUENCE_ENTRY_MAPPING_VALUE_STATE"
  then have "inside YAML_PARSE_FLOW_SEQUENCE_ENTRY_MAPPING_VALUE_STATE (parser_frames p) (parser_measure p) 3 p"
    using inside_collection [OF assms] by (simp add: collection_states_def)
  then show "step_ok (parser_frames p) (parser_measure p) (yaml_parser_parse_flow_sequence_entry_mapping_value p)"
    unfolding yaml_parser_parse_flow_sequence_entry_mapping_value_def Let_def
    by - (intro step_rules; (erule inside_rules, (assumption | simp add: node_succ_flow)+))
next
  assume "ps_state p = YAML_PARSE_FLOW_SEQUENCE_ENTRY_MAPPING_END_STATE"
  then have "inside YAML_PARSE_FLOW_SEQUENCE_ENTRY_MAPPING_END_STATE (parser_frames p) (parser_measure p) 2 p"
    using inside_collection [OF assms] by (simp add: collection_states_def)
  then show "step_ok (parser_frames p) (parser_measure p) (yaml_parser_parse_flow_sequence_entry_mapping_end p)"
    unfolding yaml_parser_parse_flow_sequence_entry_mapping_end_def
    using parser_inv_collection [of "set_state YAML_PARSE_FLOW_SEQUENCE_ENTRY_STATE p"]
    by (intro step_rules)
      (auto simp: step_ok_simps inside_def set_state_def pop_frame_def parser_measure_def state_table)
qed

section \<open>Documents\<close>

text \<open>What the code before a document keeps: it only skips tokens and adds tag directives.\<close>

definition keeps_stacks :: "yaml_parser_t \<Rightarrow> yaml_parser_t \<Rightarrow> bool" where
  "keeps_stacks p q \<longleftrightarrow> ps_states q = ps_states p \<and> ps_marks q = ps_marks p \<and> running q
     \<and> length (ps_tokens q) \<le> length (ps_tokens p)"

definition keeps_outcome :: "yaml_parser_t \<Rightarrow> ('a, yaml_parser_t) outcome \<Rightarrow> bool" where
  "keeps_outcome p r = (case r of Done _ q \<Rightarrow> keeps_stacks p q | Fail q \<Rightarrow> ps_error q \<noteq> None | Crash \<Rightarrow> False)"

lemma keeps_trans:
  "keeps_stacks p q \<Longrightarrow> keeps_outcome q r \<Longrightarrow> keeps_outcome p r"
  by (auto simp: keeps_outcome_def keeps_stacks_def split: outcome.splits)

lemma keeps_skip:
  "ps_tokens p = token # ts \<Longrightarrow> tk_data token \<noteq> YAML_STREAM_END_TOKEN \<Longrightarrow> running p \<Longrightarrow>
     keeps_stacks p (SKIP_TOKEN p)"
  by (simp add: keeps_stacks_def SKIP_TOKEN_def)

lemma append_tag_directive_keeps:
  "running p \<Longrightarrow> keeps_outcome p (yaml_parser_append_tag_directive p v d m)"
  by (simp add: keeps_outcome_def keeps_stacks_def yaml_parser_append_tag_directive_def
      yaml_parser_set_parser_error_def)

lemma append_defaults_keeps:
  "running p \<Longrightarrow> keeps_outcome p (append_defaults p vs m)"
proof (induction p vs m rule: append_defaults.induct)
  case (2 p v vs m)
  show ?case
    using append_tag_directive_keeps [OF 2(2), of v True m] 2
    by (cases "yaml_parser_append_tag_directive p v True m")
      (auto simp: keeps_outcome_def keeps_stacks_def split: outcome.splits)
qed (simp add: keeps_outcome_def keeps_stacks_def)

lemma keeps_error:
  "keeps_outcome p (yaml_parser_set_parser_error q pr m)"
  by (simp add: keeps_outcome_def yaml_parser_set_parser_error_def)

lemma keeps_after_skip:
  assumes "keeps_stacks p q" "ps_tokens q = token # ts" "tk_data token \<noteq> YAML_STREAM_END_TOKEN"
    "running (SKIP_TOKEN q) \<Longrightarrow> keeps_outcome (SKIP_TOKEN q) r"
  shows "keeps_outcome p r"
proof -
  have "keeps_stacks q (SKIP_TOKEN q)" using keeps_skip assms(1-3) by (auto simp: keeps_stacks_def)
  then have "keeps_outcome q r" using keeps_trans assms(4) by (auto simp: keeps_stacks_def)
  then show ?thesis using keeps_trans assms(1) by blast
qed

lemma directives_loop_keeps:
  "running p \<Longrightarrow> keeps_outcome p (directives_loop p v tags)"
proof (induction p v tags rule: directives_loop.induct)
  case (1 p v tags)
  show ?case
  proof (cases "ps_tokens p")
    case Nil
    then show ?thesis by (simp add: directives_loop.simps [of p] keeps_outcome_def)
  next
    case (Cons token ts)
    have self: "keeps_stacks p p" using 1(3) by (simp add: keeps_stacks_def)
    show ?thesis
    proof (cases "tk_data token")
      case (YAML_VERSION_DIRECTIVE_TOKEN a b)
      then show ?thesis
        using Cons keeps_after_skip [OF self Cons] 1(1) [OF Cons YAML_VERSION_DIRECTIVE_TOKEN]
        by (auto simp: directives_loop.simps [of p] keeps_error)
    next
      case (YAML_TAG_DIRECTIVE_TOKEN h x)
      let ?v = "\<lparr>td_handle = h, td_prefix = x\<rparr>"
      have keep: "keeps_outcome p (yaml_parser_append_tag_directive p ?v False (tk_start token))"
        by (rule append_tag_directive_keeps [OF 1(3)])
      show ?thesis
      proof (cases "yaml_parser_append_tag_directive p ?v False (tk_start token)")
        case (Done y q)
        have "keeps_stacks p q" "ps_tokens q = token # ts"
          using keep append_tag_directive_tokens [OF Done] Cons Done by (simp_all add: keeps_outcome_def)
        then show ?thesis
          using keeps_after_skip [of p q token ts] 1(2) [OF Cons YAML_TAG_DIRECTIVE_TOKEN refl Done] Cons YAML_TAG_DIRECTIVE_TOKEN Done
          by (auto simp: directives_loop.simps [of p])
      qed (use keep Cons YAML_TAG_DIRECTIVE_TOKEN in \<open>simp_all add: directives_loop.simps [of p] keeps_outcome_def\<close>)
    qed (use Cons self in \<open>simp_all add: directives_loop.simps [of p] keeps_outcome_def\<close>)
  qed
qed

lemma process_directives_keeps:
  assumes "running p"
  shows "keeps_outcome p (yaml_parser_process_directives p)"
proof (cases "directives_loop p None []")
  case (Done d q)
  then have q: "keeps_stacks p q" using directives_loop_keeps [OF assms, of None "[]"] by (simp add: keeps_outcome_def)
  have "keeps_outcome q (append_defaults q default_tag_directives m)" for m
    using append_defaults_keeps q by (simp add: keeps_stacks_def)
  then have "keeps_outcome p (append_defaults q default_tag_directives m)" for m
    using keeps_trans q by blast
  then show ?thesis using Done
    by (force simp: yaml_parser_process_directives_def PEEK_TOKEN_def keeps_outcome_def split: list.split outcome.splits)
qed (use directives_loop_keeps [OF assms, of None "[]"] in
    \<open>simp_all add: yaml_parser_process_directives_def keeps_outcome_def\<close>)

lemma skip_document_ends_keeps:
  "running p \<Longrightarrow> keeps_stacks p (skip_document_ends p)"
proof (induction p rule: skip_document_ends.induct)
  case (1 p)
  show ?case
  proof (cases "\<exists>token ts. ps_tokens p = token # ts \<and> tk_data token = YAML_DOCUMENT_END_TOKEN")
    case True
    then obtain token ts where t: "ps_tokens p = token # ts" "tk_data token = YAML_DOCUMENT_END_TOKEN" by blast
    have "keeps_stacks p (SKIP_TOKEN p)" using keeps_skip [OF t(1)] t(2) 1(2) by simp
    moreover from this have "keeps_stacks (SKIP_TOKEN p) (skip_document_ends (SKIP_TOKEN p))"
      using 1(1) [OF t] by (simp add: keeps_stacks_def)
    ultimately show ?thesis using t by (simp add: skip_document_ends.simps [of p] keeps_stacks_def)
  next
    case False
    then show ?thesis using 1(2)
      by (auto simp: skip_document_ends.simps [of p] keeps_stacks_def split: list.splits)
  qed
qed

lemma document_start_ok:
  assumes "parser_inv p" "ps_state p = (if implicit then YAML_PARSE_IMPLICIT_DOCUMENT_START_STATE
      else YAML_PARSE_DOCUMENT_START_STATE)"
  shows "step_ok (parser_frames p) (parser_measure p) (yaml_parser_parse_document_start p implicit)"
proof -
  have inv: "ps_states p = []" "ps_marks p = []" "running p" "parser_frames p = [FStream]"
    "parser_measure p = 7 * length (ps_tokens p) + (if implicit then 6 else 1)"
    using assms by (auto simp: parser_inv_def document_state_def content_state_def parser_frames_def
        parser_measure_def mark_of_def collection_states_def split: if_splits)
  define q where "q = (if \<not> implicit then skip_document_ends p else p)"
  have q: "keeps_stacks p q"
    using skip_document_ends_keeps [OF inv(3)] inv(3) by (simp add: q_def keeps_stacks_def)
  then have dirs: "keeps_outcome p (yaml_parser_process_directives q)"
    using process_directives_keeps [of q] keeps_trans by (auto simp: keeps_stacks_def)
  have impl: "step_ok [FStream] (parser_measure p) (implicit_document q token)" if "implicit" for token
    using dirs inv that unfolding implicit_document_def
    by (auto simp: keeps_outcome_def keeps_stacks_def step_ok_simps PUSH_STATE_def set_state_def parser_inv_def
        document_state_def content_state_def parser_frames_def parser_measure_def state_table
        split: outcome.splits)
  have expl: "step_ok [FStream] (parser_measure p) (explicit_document q token)" for token
    using dirs inv unfolding explicit_document_def
    by (auto simp: keeps_outcome_def keeps_stacks_def step_ok_simps PUSH_STATE_def set_state_def parser_inv_def
        document_state_def content_state_def parser_frames_def parser_measure_def state_table SKIP_TOKEN_def
        step_ok_error intro!: step_ok_PEEK_TOKEN split: outcome.splits)
  have "step_ok [FStream] (parser_measure p) (stream_end q token)"
    if "ps_tokens q = token # ts" "tk_data token = YAML_STREAM_END_TOKEN" for token ts
    using q inv that unfolding stream_end_def
    by (auto simp: keeps_stacks_def step_ok_simps set_state_def parser_inv_def document_state_def SKIP_TOKEN_def
        parser_frames_def parser_measure_def state_table content_state_def)
  with impl expl show ?thesis
    unfolding yaml_parser_parse_document_start_def q_def [symmetric] inv(4) Let_def
    by (intro step_ok_PEEK_TOKEN) auto
qed

lemma document_end_ok:
  assumes "parser_inv p" "ps_state p = YAML_PARSE_DOCUMENT_END_STATE"
  shows "step_ok (parser_frames p) (parser_measure p) (yaml_parser_parse_document_end p)"
  using assms unfolding yaml_parser_parse_document_end_def Let_def
  by (intro step_ok_PEEK_TOKEN) (auto simp: step_ok_simps set_state_def parser_inv_def document_state_def
      SKIP_TOKEN_def parser_frames_def parser_measure_def mark_of_def collection_states_def content_state_def pop_frame_def)

lemma stream_start_ok:
  assumes "parser_inv p" "ps_state p = YAML_PARSE_STREAM_START_STATE"
  shows "step_ok (parser_frames p) (parser_measure p) (yaml_parser_parse_stream_start p)"
  using assms unfolding yaml_parser_parse_stream_start_def Let_def
  by (intro step_ok_PEEK_TOKEN) (auto simp: step_ok_simps set_state_def parser_inv_def document_state_def
      SKIP_TOKEN_def parser_frames_def parser_measure_def mark_of_def collection_states_def content_state_def
      step_ok_error split: yaml_token_data.split)

lemma content_ready:
  assumes "parser_inv p" "content_state (ps_state p)"
  shows "node_ready (parser_frames p) p" "parser_measure p = 7 * length (ps_tokens p) + weights (ps_states p) + 3"
  using assms
  by (auto simp: node_ready_def parser_inv_def parser_frames_def document_state_def content_state_def mark_of_def
      collection_states_def parser_measure_def)

lemma document_content_ok:
  assumes "parser_inv p" "ps_state p = YAML_PARSE_DOCUMENT_CONTENT_STATE"
  shows "step_ok (parser_frames p) (parser_measure p) (yaml_parser_parse_document_content p)"
proof -
  have c: "node_ready (parser_frames p) p" "parser_measure p = 7 * length (ps_tokens p) + weights (ps_states p) + 3"
    using content_ready [OF assms(1)] assms(2) by (simp_all add: content_state_def)
  obtain s ss where st: "ps_states p = s # ss" "running p"
    using c(1) by (cases "ps_states p") (auto simp: node_ready_def)
  have "step_ok (parser_frames p) (parser_measure p) (POP_STATE p (\<lambda>p. yaml_parser_process_empty_scalar p m))" for m
    using st c(2) by (auto simp: POP_STATE_def yaml_parser_process_empty_scalar_def intro!: step_ok_leaf [OF c(1)])
  then show ?thesis
    unfolding yaml_parser_parse_document_content_def
    using parse_node_ok [OF c(1), of False] c(2) by (intro step_rules) auto
qed

section \<open>Every call\<close>

lemma state_machine_ok:
  assumes "parser_inv p" "\<not> parser_finished p"
  shows "step_ok (parser_frames p) (parser_measure p) (yaml_parser_state_machine p)"
proof (cases "ps_state p")
  case YAML_PARSE_BLOCK_NODE_STATE
  then show ?thesis
    using content_ready [OF assms(1)] parse_node_ok [of "parser_frames p" p False]
    by (simp add: yaml_parser_state_machine_def content_state_def)
next
  case YAML_PARSE_BLOCK_NODE_OR_INDENTLESS_SEQUENCE_STATE
  then show ?thesis using assms(1) by (simp add: parser_inv_def document_state_def content_state_def state_table)
next
  case YAML_PARSE_FLOW_NODE_STATE
  then show ?thesis using assms(1) by (simp add: parser_inv_def document_state_def content_state_def state_table)
next
  case YAML_PARSE_END_STATE
  then show ?thesis using assms(2) by (simp add: parser_finished_def)
qed (use assms(1) in \<open>simp_all add: yaml_parser_state_machine_def stream_start_ok document_start_ok
    document_end_ok document_content_ok block_sequence_entry_ok indentless_sequence_entry_ok block_mapping_key_ok
    block_mapping_value_ok flow_sequence_entry_ok flow_sequence_entry_mapping_ok flow_mapping_key_ok
    flow_mapping_value_ok\<close>)

lemma parser_inv_initialize:
  "parser_inv (yaml_parser_initialize toks pb)"
  "parser_frames (yaml_parser_initialize toks pb) = [FStart]"
  "parser_measure (yaml_parser_initialize toks pb) = 7 * length toks"
  by (simp_all add: yaml_parser_initialize_def parser_inv_def parser_frames_def parser_measure_def
      document_state_def content_state_def state_table)

text \<open>A parser is finished exactly when it has reached the end of the stream.\<close>

lemma parser_finished_inv:
  "parser_inv p \<Longrightarrow> parser_finished p \<longleftrightarrow> ps_state p = YAML_PARSE_END_STATE"
  by (auto simp: parser_finished_def parser_inv_def)

lemma parse_ok:
  "parser_inv p \<Longrightarrow> ps_state p \<noteq> YAML_PARSE_END_STATE \<Longrightarrow>
     step_ok (parser_frames p) (parser_measure p) (yaml_parser_parse p)"
  by (simp add: yaml_parser_parse_def parser_finished_inv state_machine_ok)

lemma stack_frames_last:
  "stack_ok ss \<Longrightarrow> frames_all ss \<noteq> [] \<and> last (frames_all ss) = FStream"
  by (induction ss) (auto split: if_splits)

lemma parser_frames_last:
  assumes "parser_inv p" "ps_state p \<noteq> YAML_PARSE_END_STATE"
  shows "parser_frames p \<noteq> [] \<and> last (parser_frames p) \<in> {FStart, FStream}"
  using assms stack_frames_last [of "ps_states p"]
  by (auto simp: parser_inv_def parser_frames_def document_state_def content_state_def split: if_splits)

lemma event_step_end:
  assumes "event_step fs e = Some fs'" "fs \<noteq> []" "last fs \<in> {FStart, FStream}"
  shows "e = YAML_STREAM_END_EVENT \<longleftrightarrow> fs' = []"
  using assms by (cases e) (auto simp: pop_frame_def node_step_def split: if_splits list.splits)

lemma parse_Done:
  assumes "parser_inv p" "ps_state p \<noteq> YAML_PARSE_END_STATE" "yaml_parser_parse p = Done e q"
  shows "parser_inv q" "event_step (parser_frames p) (ev_data e) = Some (parser_frames q)"
    "parser_measure q < parser_measure p"
    "ev_data e = YAML_STREAM_END_EVENT \<longleftrightarrow> ps_state q = YAML_PARSE_END_STATE"
proof -
  show q: "parser_inv q" "event_step (parser_frames p) (ev_data e) = Some (parser_frames q)"
    "parser_measure q < parser_measure p"
    using parse_ok [OF assms(1,2)] assms(3) by (simp_all add: step_ok_simps)
  have "ev_data e = YAML_STREAM_END_EVENT \<longleftrightarrow> parser_frames q = []"
    using event_step_end [OF q(2)] parser_frames_last [OF assms(1,2)] by simp
  moreover have "parser_frames q = [] \<longleftrightarrow> ps_state q = YAML_PARSE_END_STATE"
    using parser_frames_last [OF q(1)] q(1)
    by (auto simp: parser_frames_def parser_inv_def content_state_def document_state_def)
  ultimately show "ev_data e = YAML_STREAM_END_EVENT \<longleftrightarrow> ps_state q = YAML_PARSE_END_STATE" by simp
qed

lemma parse_no_crash:
  "parser_inv p \<Longrightarrow> yaml_parser_parse p \<noteq> Crash"
  using parse_ok [of p]
  by (cases "ps_state p = YAML_PARSE_END_STATE")
    (auto simp: step_ok_simps yaml_parser_parse_def parser_finished_def)

lemma parse_Fail:
  "parser_inv p \<Longrightarrow> yaml_parser_parse p = Fail q \<Longrightarrow> ps_error q \<noteq> None"
  using parse_ok [of p]
  by (cases "ps_state p = YAML_PARSE_END_STATE")
    (auto simp: step_ok_simps yaml_parser_parse_def parser_finished_def)

text \<open>The loop of \<open>run-parser.c\<close>, from any point of a stream.\<close>

definition run_result :: "yaml_event_t list \<Rightarrow> yaml_parser_t \<Rightarrow>
    (bool \<times> yaml_event_t list, yaml_parser_t) outcome option \<Rightarrow> bool" where
  "run_result es p r \<longleftrightarrow> (\<exists>err es' q. r = Some (Done (err, es @ es') q) \<and> length es' \<le> parser_measure p \<and>
     (if err then ps_error q \<noteq> None \<and> event_run [FStart] (map ev_data (es @ es')) \<noteq> None
      else ps_error q = None \<and> event_run [FStart] (map ev_data (es @ es')) = Some []))"

lemma run_parser_ok:
  assumes "parser_inv p" "ps_state p \<noteq> YAML_PARSE_END_STATE"
    "event_run [FStart] (map ev_data es) = Some (parser_frames p)"
  shows "run_result es p (run_parser p es)"
  using assms
proof (induction "parser_measure p" arbitrary: p es rule: less_induct)
  case less
  show ?case
  proof (cases "yaml_parser_parse p")
    case (Done e q)
    note step = parse_Done [OF less(2,3) Done]
    have run: "event_run [FStart] (map ev_data (es @ [e])) = Some (parser_frames q)"
      using less(4) step(2) by (simp add: event_run_append)
    show ?thesis
    proof (cases "ev_data e = YAML_STREAM_END_EVENT")
      case True
      then have "parser_frames q = []" "ps_error q = None"
        using step(1,4) by (simp_all add: parser_frames_def parser_inv_def content_state_def document_state_def)
      then show ?thesis using True Done run step(3)
        by (auto simp: run_result_def run_parser.simps [of p] intro!: exI [of _ "[e]"])
    next
      case False
      then have "run_result (es @ [e]) q (run_parser q (es @ [e]))"
        using less(1) [OF step(3,1) _ run] step(4) by simp
      then obtain err es' r where "run_parser q (es @ [e]) = Some (Done (err, (es @ [e]) @ es') r)"
        "length es' \<le> parser_measure q" "if err then ps_error r \<noteq> None \<and>
           event_run [FStart] (map ev_data ((es @ [e]) @ es')) \<noteq> None
         else ps_error r = None \<and> event_run [FStart] (map ev_data ((es @ [e]) @ es')) = Some []"
        unfolding run_result_def by blast
      then show ?thesis using False Done step(3)
        unfolding run_result_def run_parser.simps [of p] by (intro exI [of _ err] exI [of _ "e # es'"] exI [of _ r])
          (auto split: if_splits)
    qed
  next
    case (Fail q)
    then show ?thesis using parse_Fail [OF less(2)] less(4)
      by (auto simp: run_result_def run_parser.simps [of p])
  qed (use parse_no_crash [OF less(2)] in simp)
qed

text \<open>C13: For every sequence of tokens that the scanner can deliver, the loop of \<open>run-parser.c\<close> returns: the
  parser never pops an empty stack or uses a missing token, and it delivers at most seven events per
  token.\<close>

theorem run_parser_returns:
  "\<exists>err es q. run_parser (yaml_parser_initialize toks pb) [] = Some (Done (err, es) q) \<and>
     length es \<le> 7 * length toks \<and> (err \<longleftrightarrow> ps_error q \<noteq> None)"
  using run_parser_ok [OF parser_inv_initialize(1), of toks pb "[]"] parser_inv_initialize(2,3) [of toks pb]
  by (auto simp: run_result_def yaml_parser_initialize_def split: if_splits)

text \<open>C14: When it reports success, the events it has read are a complete stream of the event grammar: balanced
  collections, keys with values, every document with exactly one root node.\<close>

theorem run_parser_grammar:
  assumes "run_parser (yaml_parser_initialize toks pb) [] = Some (Done (False, es) q)"
  shows "stream_events (map ev_data es)"
  using run_parser_ok [OF parser_inv_initialize(1), of toks pb "[]"] parser_inv_initialize(2) [of toks pb] assms
  by (auto simp: run_result_def yaml_parser_initialize_def event_run_stream split: if_splits)

text \<open>The tokens of the document \<open>[a, *b]\<close>.\<close>

definition flow_tokens :: "yaml_token_t list" where
  "flow_tokens = map (\<lambda>d. \<lparr>tk_data = d, tk_start = mark0, tk_end = mark0\<rparr>)
     [YAML_STREAM_START_TOKEN YAML_UTF8_ENCODING, YAML_FLOW_SEQUENCE_START_TOKEN,
      YAML_SCALAR_TOKEN [97] YAML_PLAIN_SCALAR_STYLE, YAML_FLOW_ENTRY_TOKEN, YAML_ALIAS_TOKEN [98],
      YAML_FLOW_SEQUENCE_END_TOKEN, YAML_STREAM_END_TOKEN]"

definition scan_end :: yaml_problem where
  "scan_end = \<lparr>pb_error = YAML_SCANNER_ERROR, pb_context = [], pb_context_mark = mark0, pb_problem = [], pb_mark = mark0\<rparr>"

lemmas parser_run = run_parser.simps yaml_parser_parse_def parser_finished_def yaml_parser_state_machine_def
  yaml_parser_parse_stream_start_def yaml_parser_parse_document_start_def yaml_parser_parse_document_end_def
  implicit_document_def explicit_document_def stream_end_def yaml_parser_process_directives_def directives_loop.simps
  default_tag_directives_def yaml_parser_append_tag_directive_def skip_document_ends.simps
  yaml_parser_parse_document_content_def yaml_parser_parse_node_def node_properties_def resolve_tag_def node_content_def
  yaml_parser_parse_flow_sequence_entry_def flow_separator_def flow_sequence_item_def close_flow_def open_collection_def
  PEEK_TOKEN_def PEEK_UNCHECKED_def SKIP_TOKEN_def set_state_def PUSH_STATE_def PUSH_MARK_def POP_STATE_def POP_MARK_def
  yaml_parser_process_empty_scalar_def

theorem run_parser_grammar_witness:
  "\<exists>es q. run_parser (yaml_parser_initialize flow_tokens scan_end) [] = Some (Done (False, es) q) \<and>
     length es = 8 \<and> stream_events (map ev_data es)"
proof -
  obtain es q where run: "run_parser (yaml_parser_initialize flow_tokens scan_end) [] = Some (Done (False, es) q)"
    "length es = 8"
    by (simp add: yaml_parser_initialize_def flow_tokens_def parser_run)
  then show ?thesis using run_parser_grammar [OF run(1)] by blast
qed

end
