(* ===== verification/Ly_Loader_Laws.thy ===== *)
theory Ly_Loader_Laws
  imports Ly_Loader Ly_Parser_Laws
begin

text \<open>
  The laws of the loader: on events that follow the grammar no \<open>assert\<close> fails, and the document it
  composes is well formed. With the laws of the parser, \<open>yaml_parser_load\<close> returns for every sequence of
  tokens, with an error or a well-formed document.
\<close>

section \<open>Well-formed documents\<close>

text \<open>A node of a document with \<open>n\<close> nodes: its references are in range, and, unless the node is still open,
  all its pairs have a value.\<close>

fun node_ok :: "nat \<Rightarrow> bool \<Rightarrow> yaml_node_data \<Rightarrow> bool" where
  "node_ok n op YAML_NO_NODE = False"
| "node_ok n op (YAML_SCALAR_NODE _ _) = True"
| "node_ok n op (YAML_SEQUENCE_NODE items _) = (\<forall>i \<in> set items. 1 \<le> i \<and> i \<le> n)"
| "node_ok n op (YAML_MAPPING_NODE pairs _) =
     ((\<forall>(k, v) \<in> set pairs. 1 \<le> k \<and> k \<le> n \<and> v \<le> n) \<and> (\<forall>(k, v) \<in> set (butlast pairs). v \<noteq> 0) \<and>
      (op \<or> (\<forall>(k, v) \<in> set pairs. v \<noteq> 0)))"

definition nodes_ok :: "yaml_node_t list \<Rightarrow> nat set \<Rightarrow> bool" where
  "nodes_ok ns open_nodes \<longleftrightarrow>
     (\<forall>i < length ns. node_ok (length ns) (Suc i \<in> open_nodes) (nd_data (ns ! i)))"

definition document_wf :: "yaml_document_t \<Rightarrow> bool" where
  "document_wf d \<longleftrightarrow> nodes_ok (dc_nodes d) {}"

section \<open>The invariant of the loader\<close>

text \<open>The frame that an open collection stands for.\<close>

fun node_frame :: "yaml_node_data \<Rightarrow> frame" where
  "node_frame (YAML_MAPPING_NODE pairs _) = (if pairs \<noteq> [] \<and> snd (last pairs) = 0 then FValue else FKey)"
| "node_frame _ = FSeq"

definition ctx_frames :: "loader_t \<Rightarrow> frame list" where
  "ctx_frames l = map (\<lambda>i. node_frame (nd_data (ld_nodes l ! (i - 1)))) (ld_ctx l)"

definition loader_frames :: "loader_t \<Rightarrow> frame list" where
  "loader_frames l = ctx_frames l @ [if ld_nodes l = [] then FDocNode else FDocEnd, FStream]"

definition ctx_ok :: "yaml_node_t list \<Rightarrow> nat list \<Rightarrow> bool" where
  "ctx_ok ns ctx \<longleftrightarrow> sorted_wrt (>) ctx \<and> (\<forall>i \<in> set ctx. 1 \<le> i \<and> i \<le> length ns \<and>
     (is_sequence (nd_data (ns ! (i - 1))) \<or> is_mapping (nd_data (ns ! (i - 1)))))"

definition loader_inv :: "loader_t \<Rightarrow> bool" where
  "loader_inv l \<longleftrightarrow> nodes_ok (ld_nodes l) (set (ld_ctx l)) \<and> ctx_ok (ld_nodes l) (ld_ctx l) \<and>
     (\<forall>a \<in> set (ld_aliases l). 1 \<le> al_index a \<and> al_index a \<le> length (ld_nodes l))"

definition fill_top :: "frame list \<Rightarrow> frame list" where
  "fill_top fs = (case fs of [] \<Rightarrow> [] | f # r \<Rightarrow> filled f # r)"

text \<open>What an operation may do: keep the parser and the invariant, with the frames \<open>fs\<close> afterwards, or fail
  with an error.\<close>

definition load_ok :: "loader_t \<Rightarrow> (loader_t \<Rightarrow> bool) \<Rightarrow> load_outcome \<Rightarrow> bool" where
  "load_ok l P r = (case r of
     Done _ l' \<Rightarrow> loader_inv l' \<and> ld_parser l' = ld_parser l \<and> P l'
   | Fail l' \<Rightarrow> ps_error (ld_parser l') \<noteq> None
   | Crash \<Rightarrow> False)"

lemma load_ok_simps [simp]:
  "load_ok l P (Done x l') \<longleftrightarrow> loader_inv l' \<and> ld_parser l' = ld_parser l \<and> P l'"
  "load_ok l P (Fail l') \<longleftrightarrow> ps_error (ld_parser l') \<noteq> None"
  "\<not> load_ok l P Crash"
  by (simp_all add: load_ok_def)

lemma load_ok_error [simp]:
  "load_ok l P (set_error pb l')" "load_ok l P (memory_error l')"
  "load_ok l P (yaml_parser_set_composer_error l' pr m)"
  "load_ok l P (yaml_parser_set_composer_error_context l' c cm pr m)"
  by (simp_all add: set_error_def memory_error_def yaml_parser_set_composer_error_def
      yaml_parser_set_composer_error_context_def)

lemma load_ok_limit [simp]:
  "load_ok l P (STACK_LIMIT n l' k) \<longleftrightarrow> n \<ge> INT_MAX32 - 1 \<or> load_ok l P k"
  by (auto simp: STACK_LIMIT_def)

lemma load_ok_parser:
  "ld_parser l = ld_parser l' \<Longrightarrow> load_ok l P r = load_ok l' P r"
  by (cases r) simp_all

lemma load_ok_then:
  "load_ok l P r \<Longrightarrow> (\<And>l'. loader_inv l' \<Longrightarrow> ld_parser l' = ld_parser l \<Longrightarrow> P l' \<Longrightarrow> load_ok l Q (k l')) \<Longrightarrow>
     load_ok l Q (then_do r k)"
  by (cases r) simp_all

lemma ld_nodes_simps [simp]:
  "ld_nodes (set_nodes ns l) = ns" "ld_ctx (set_nodes ns l) = ld_ctx l"
  "ld_aliases (set_nodes ns l) = ld_aliases l" "ld_parser (set_nodes ns l) = ld_parser l"
  "ld_nodes (l\<lparr>ld_aliases := as\<rparr>) = ld_nodes l" "ld_nodes (l\<lparr>ld_ctx := c\<rparr>) = ld_nodes l"
  "ld_nodes (l\<lparr>ld_parser := q\<rparr>) = ld_nodes l"
  by (simp_all add: ld_nodes_def set_nodes_def)

section \<open>Changing a node\<close>

lemma node_ok_mono:
  "node_ok n op d \<Longrightarrow> n \<le> m \<Longrightarrow> (op \<Longrightarrow> op') \<Longrightarrow> node_ok m op' d"
  by (cases d) force+

lemma nodes_ok_append:
  assumes "nodes_ok ns ctx" "node_ok (Suc (length ns)) (Suc (length ns) \<in> ctx) (nd_data n)"
  shows "nodes_ok (ns @ [n]) ctx"
  using assms by (auto simp: nodes_ok_def nth_append less_Suc_eq intro: node_ok_mono)

lemma nodes_ok_update:
  assumes "nodes_ok ns ctx" "1 \<le> c" "c \<le> length ns" "node_ok (length ns) (c \<in> ctx) (nd_data n)"
  shows "nodes_ok (ns[c - 1 := n]) ctx"
  using assms by (auto simp: nodes_ok_def nth_list_update)

lemma nodes_ok_close:
  assumes "nodes_ok ns (insert c S)" "1 \<le> c" "c \<le> length ns" "node_ok (length ns) False (nd_data n)"
  shows "nodes_ok (ns[c - 1 := n]) S"
  unfolding nodes_ok_def
proof (intro allI impI)
  fix i assume i: "i < length (ns[c - 1 := n])"
  show "node_ok (length (ns[c - 1 := n])) (Suc i \<in> S) (nd_data (ns[c - 1 := n] ! i))"
  proof (cases "Suc i = c")
    case True
    then show ?thesis using assms(4) i by (auto intro: node_ok_mono)
  next
    case False
    then have "c - 1 \<noteq> i" using assms(2) by auto
    moreover have "node_ok (length ns) (Suc i \<in> insert c S) (nd_data (ns ! i))"
      using assms(1) i by (simp add: nodes_ok_def)
    ultimately show ?thesis using False by simp
  qed
qed

lemma ctx_ok_append: "ctx_ok ns ctx \<Longrightarrow> ctx_ok (ns @ [n]) ctx"
  by (auto simp: ctx_ok_def nth_append)

lemma ctx_ok_update:
  assumes "ctx_ok ns ctx" "1 \<le> c" "c \<le> length ns" "is_sequence (nd_data n) \<or> is_mapping (nd_data n)"
  shows "ctx_ok (ns[c - 1 := n]) ctx"
  using assms by (auto simp: ctx_ok_def nth_list_update)

lemma ctx_frames_append:
  "loader_inv l \<Longrightarrow> ctx_frames (set_nodes (ld_nodes l @ [n]) l) = ctx_frames l"
  by (auto simp: ctx_frames_def loader_inv_def ctx_ok_def nth_append)

lemma loader_inv_update:
  assumes "loader_inv l" "ld_ctx l = c # r" "node_ok (length (ld_nodes l)) True (nd_data n)"
    "is_sequence (nd_data n) \<or> is_mapping (nd_data n)"
  shows "loader_inv (update_node c n l)" "ctx_frames (update_node c n l) = node_frame (nd_data n) # tl (ctx_frames l)"
proof -
  have c: "1 \<le> c" "c \<le> length (ld_nodes l)" "\<forall>i \<in> set r. 1 \<le> i \<and> i < c"
    using assms(1,2) by (auto simp: loader_inv_def ctx_ok_def)
  then show "loader_inv (update_node c n l)"
    using assms nodes_ok_update [of "ld_nodes l" "set (ld_ctx l)" c n] ctx_ok_update [of "ld_nodes l" "ld_ctx l" c n]
    by (simp add: loader_inv_def update_node_def)
  show "ctx_frames (update_node c n l) = node_frame (nd_data n) # tl (ctx_frames l)"
    using assms(2) c by (auto simp: ctx_frames_def update_node_def nth_list_update)
qed

lemma node_frame_pairs:
  "node_ok n True (YAML_MAPPING_NODE pairs st) \<Longrightarrow> 1 \<le> i \<Longrightarrow> i \<le> n \<Longrightarrow>
     (case add_to_pairs pairs i of
        Some ps \<Rightarrow> node_ok n True (YAML_MAPPING_NODE ps st) \<and>
          node_frame (YAML_MAPPING_NODE pairs st) = FValue \<and> node_frame (YAML_MAPPING_NODE ps st) = FKey
      | None \<Rightarrow> node_ok n True (YAML_MAPPING_NODE (pairs @ [(i, 0)]) st) \<and>
          node_frame (YAML_MAPPING_NODE pairs st) = FKey)"
  by (cases pairs rule: rev_cases) (auto simp: add_to_pairs_def butlast_append split: if_splits)

text \<open>The effect of hanging one more node below the top of the context.\<close>

definition node_added :: "loader_t \<Rightarrow> loader_t \<Rightarrow> bool" where
  "node_added l l' \<longleftrightarrow> ld_ctx l' = ld_ctx l \<and> length (ld_nodes l') = length (ld_nodes l) \<and>
     ctx_frames l' = fill_top (ctx_frames l) \<and>
     (\<forall>i. Suc i \<notin> set (ld_ctx l) \<longrightarrow> ld_nodes l' ! i = ld_nodes l ! i)"

lemma load_node_add_ok:
  assumes "loader_inv l" "1 \<le> index" "index \<le> length (ld_nodes l)"
  shows "load_ok l (node_added l) (yaml_parser_load_node_add l index)"
proof (cases "ld_ctx l")
  case Nil
  then show ?thesis using assms(1)
    by (simp add: yaml_parser_load_node_add_def ctx_frames_def fill_top_def node_added_def)
next
  case (Cons c r)
  let ?n = "ld_nodes l ! (c - 1)"
  have c: "1 \<le> c" "c \<le> length (ld_nodes l)" "is_sequence (nd_data ?n) \<or> is_mapping (nd_data ?n)"
    using assms(1) Cons by (auto simp: loader_inv_def ctx_ok_def)
  have ok: "node_ok (length (ld_nodes l)) True (nd_data ?n)"
    using assms(1) Cons c by (auto simp: loader_inv_def nodes_ok_def elim!: allE [of _ "c - 1"])
  have fill: "fill_top (ctx_frames l) = filled (node_frame (nd_data ?n)) # tl (ctx_frames l)"
    using Cons by (simp add: ctx_frames_def fill_top_def)
  have upd: "loader_inv (update_node c n l) \<and> ld_parser (update_node c n l) = ld_parser l \<and>
      node_added l (update_node c n l)"
    if "node_ok (length (ld_nodes l)) True (nd_data n)" "is_sequence (nd_data n) \<or> is_mapping (nd_data n)"
      "node_frame (nd_data n) = filled (node_frame (nd_data ?n))" for n
    using loader_inv_update [OF assms(1) Cons that(1,2)] that(3) fill c(1) Cons
    by (auto simp: update_node_def nth_list_update node_added_def)
  show ?thesis
  proof (cases "nd_data ?n")
    case (YAML_SEQUENCE_NODE items st)
    then show ?thesis using Cons c ok assms(2,3) upd [of "?n\<lparr>nd_data := YAML_SEQUENCE_NODE (items @ [index]) st\<rparr>"]
      by (simp add: yaml_parser_load_node_add_def node_ref_def)
  next
    case (YAML_MAPPING_NODE pairs st)
    then show ?thesis using Cons c ok assms(2,3) node_frame_pairs [of "length (ld_nodes l)" pairs st index]
        upd [of "?n\<lparr>nd_data := YAML_MAPPING_NODE ps st\<rparr>" for ps]
      by (auto simp: yaml_parser_load_node_add_def node_ref_def split: option.splits)
  qed (use c in auto)
qed

lemma find_alias_ok:
  "loader_inv l \<Longrightarrow> find_alias l a = Some al \<Longrightarrow> 1 \<le> al_index al \<and> al_index al \<le> length (ld_nodes l)"
  by (auto simp: find_alias_def find_Some_iff loader_inv_def)

lemma register_anchor_ok:
  assumes "loader_inv l" "1 \<le> index" "index \<le> length (ld_nodes l)"
  shows "load_ok l (\<lambda>l'. ld_ctx l' = ld_ctx l \<and> ld_nodes l' = ld_nodes l) (yaml_parser_register_anchor l index anchor)"
  using assms
  by (auto simp: yaml_parser_register_anchor_def node_ref_def loader_inv_def split: option.split)

text \<open>A new node: the frame of its parent is filled.\<close>

lemma push_node_ok:
  assumes "loader_inv l" "node_ok (Suc (length (ld_nodes l))) False (nd_data node)"
    and k: "\<And>l'. loader_inv l' \<Longrightarrow> ld_parser l' = ld_parser l \<Longrightarrow> ld_ctx l' = ld_ctx l \<Longrightarrow>
      length (ld_nodes l') = Suc (length (ld_nodes l)) \<Longrightarrow> ctx_frames l' = fill_top (ctx_frames l) \<Longrightarrow>
      nd_data (ld_nodes l' ! length (ld_nodes l)) = nd_data node \<Longrightarrow>
      load_ok l Q (k l' (Suc (length (ld_nodes l))))"
  shows "load_ok l Q (push_node l node anchor k)"
proof -
  let ?l = "set_nodes (ld_nodes l @ [node]) l"
  have inv: "loader_inv ?l"
    using assms(1,2) nodes_ok_append [of "ld_nodes l" "set (ld_ctx l)" node] ctx_ok_append
    by (auto simp: loader_inv_def intro: node_ok_mono)
  have fr: "ctx_frames ?l = ctx_frames l" by (rule ctx_frames_append [OF assms(1)])
  have len: "Suc (length (ld_nodes l)) \<notin> set (ld_ctx l)"
    using assms(1) by (auto simp: loader_inv_def ctx_ok_def)
  have "load_ok ?l Q (then_do (yaml_parser_register_anchor ?l (length (ld_nodes ?l)) anchor) (\<lambda>l'.
      then_do (yaml_parser_load_node_add l' (length (ld_nodes ?l))) (\<lambda>l'. k l' (length (ld_nodes ?l)))))"
  proof (rule load_ok_then [OF register_anchor_ok [OF inv]], goal_cases)
    case (3 l1)
    have ctx: "ctx_frames l1 = ctx_frames ?l" using 3(3) by (simp add: ctx_frames_def)
    have "load_ok l1 Q (then_do (yaml_parser_load_node_add l1 (length (ld_nodes ?l))) (\<lambda>l'. k l' (length (ld_nodes ?l))))"
    proof (rule load_ok_then [OF load_node_add_ok [OF 3(1)]], goal_cases)
      case (3 l2)
      then have "load_ok l Q (k l2 (Suc (length (ld_nodes l))))"
        using \<open>ld_parser l1 = ld_parser ?l\<close> \<open>ld_ctx l1 = ld_ctx ?l \<and> ld_nodes l1 = ld_nodes ?l\<close> len fr ctx
        by (intro k) (simp_all add: node_added_def)
      then show ?case using \<open>ld_parser l1 = ld_parser ?l\<close> load_ok_parser [of l l1] by simp
    qed (use 3 in simp_all)
    then show ?case using 3(2) load_ok_parser [of l1 ?l] by simp
  qed simp_all
  then show ?thesis using load_ok_parser [of ?l l] by (simp add: push_node_def Let_def)
qed

section \<open>Events\<close>

lemma push_ctx_ok:
  assumes "loader_inv l" "ld_nodes l \<noteq> []" "length (ld_nodes l) \<notin> set (ld_ctx l)"
    "is_sequence (nd_data (last (ld_nodes l))) \<or> is_mapping (nd_data (last (ld_nodes l)))"
  shows "load_ok l (\<lambda>l'. ld_nodes l' = ld_nodes l \<and>
      ctx_frames l' = node_frame (nd_data (last (ld_nodes l))) # ctx_frames l) (push_ctx l (length (ld_nodes l)))"
proof -
  have "nodes_ok (ld_nodes l) (insert (length (ld_nodes l)) (set (ld_ctx l)))"
    using assms(1) by (auto simp: loader_inv_def nodes_ok_def intro: node_ok_mono)
  moreover have "\<forall>i \<in> set (ld_ctx l). i < length (ld_nodes l)"
    using assms(1,3) by (metis loader_inv_def ctx_ok_def le_neq_implies_less)
  then have "ctx_ok (ld_nodes l) (length (ld_nodes l) # ld_ctx l)"
    using assms by (auto simp: loader_inv_def ctx_ok_def last_conv_nth Suc_le_eq)
  ultimately show ?thesis
    using assms by (auto simp: push_ctx_def loader_inv_def ctx_frames_def last_conv_nth)
qed

text \<open>The frames after a new node.\<close>

lemma loader_frames_fill:
  assumes "node_step new (loader_frames l) = Some fs" "ctx_frames l' = new @ fill_top (ctx_frames l)"
    "ld_nodes l' \<noteq> []" "loader_inv l"
  shows "loader_frames l' = fs"
proof -
  have "ctx_frames l \<noteq> [] \<Longrightarrow> ld_nodes l \<noteq> []"
    using assms(4) by (cases "ld_ctx l") (auto simp: ctx_frames_def loader_inv_def ctx_ok_def)
  then show ?thesis using assms(1-3)
    by (cases "ctx_frames l") (auto simp: loader_frames_def node_step_def fill_top_def split: if_splits)
qed

text \<open>Every event of a node, in a context where the grammar allows it.\<close>

lemma load_leaf_ok:
  assumes "loader_inv l" "node_step [] (loader_frames l) = Some fs"
  shows "load_ok l (\<lambda>l'. loader_frames l' = fs) (yaml_parser_load_scalar l a t v st m m')"
    and "load_ok l (\<lambda>l'. loader_frames l' = fs) (yaml_parser_load_alias l an m)"
proof -
  show "load_ok l (\<lambda>l'. loader_frames l' = fs) (yaml_parser_load_scalar l a t v st m m')"
    unfolding yaml_parser_load_scalar_def
    by (rule push_node_ok [OF assms(1)]) (use assms in \<open>auto simp: NODE_INIT_def intro: loader_frames_fill [OF assms(2)]\<close>)
  show "load_ok l (\<lambda>l'. loader_frames l' = fs) (yaml_parser_load_alias l an m)"
  proof (cases "find_alias l an")
    case (Some al)
    note al = find_alias_ok [OF assms(1) Some]
    have "loader_frames l' = fs" if "node_added l l'" for l'
    proof (rule loader_frames_fill [OF assms(2) _ _ assms(1)])
      show "ctx_frames l' = [] @ fill_top (ctx_frames l)" using that by (simp add: node_added_def)
      have "length (ld_nodes l') = length (ld_nodes l)" using that by (simp add: node_added_def)
      then show "ld_nodes l' \<noteq> []" using al by force
    qed
    then show ?thesis using load_node_add_ok [OF assms(1), of "al_index al"] al Some
      by (cases "yaml_parser_load_node_add l (al_index al)") (simp_all add: yaml_parser_load_alias_def)
  qed (simp add: yaml_parser_load_alias_def)
qed

lemma load_collection_ok:
  assumes "loader_inv l" "node_step [node_frame d] (loader_frames l) = Some fs"
    "d = YAML_SEQUENCE_NODE [] st \<or> d = YAML_MAPPING_NODE [] st'"
  shows "load_ok l (\<lambda>l'. loader_frames l' = fs) (push_node l (NODE_INIT d t m m') a push_ctx)"
proof (rule push_node_ok [OF assms(1)], goal_cases)
  case 1
  then show ?case using assms(3) by (auto simp: NODE_INIT_def)
next
  case (2 l')
  have new: "last (ld_nodes l') = ld_nodes l' ! length (ld_nodes l)" "ld_nodes l' \<noteq> []"
    using 2(4) by (metis last_conv_nth diff_Suc_1 length_0_conv nat.distinct(1)) (use 2(4) in auto)
  have "length (ld_nodes l') \<notin> set (ld_ctx l')"
    using assms(1) 2(3,4) by (auto simp: loader_inv_def ctx_ok_def)
  then have "load_ok l' (\<lambda>l''. ld_nodes l'' = ld_nodes l' \<and> ctx_frames l'' = node_frame d # ctx_frames l')
      (push_ctx l' (Suc (length (ld_nodes l))))"
    using push_ctx_ok [OF 2(1) new(2)] new 2(4,6) assms(3) by (auto simp: NODE_INIT_def)
  then show ?case
    using new 2(2,5) assms(1) loader_frames_fill [OF assms(2)]
    by (cases "push_ctx l' (Suc (length (ld_nodes l)))") auto
qed

lemma closed_node_ok:
  "node_ok n True d \<Longrightarrow> is_sequence d \<or> is_mapping d \<and> node_frame d = FKey \<Longrightarrow> node_ok n False d"
proof (cases d)
  case (YAML_MAPPING_NODE pairs st)
  assume "node_ok n True d" "is_sequence d \<or> is_mapping d \<and> node_frame d = FKey"
  then show ?thesis using YAML_MAPPING_NODE by (cases pairs rule: rev_cases) (auto split: if_splits)
qed auto

lemma close_collection_ok:
  assumes "loader_inv l" "pop_frame f (loader_frames l) = Some fs"
    "f = FSeq \<and> is_type = is_sequence \<or> f = FKey \<and> is_type = is_mapping"
  shows "load_ok l (\<lambda>l'. loader_frames l' = fs) (close_collection is_type l m)"
proof (cases "ld_ctx l")
  case Nil
  then show ?thesis using assms(2,3) by (auto simp: loader_frames_def ctx_frames_def pop_frame_def split: if_splits)
next
  case (Cons c r)
  let ?n = "ld_nodes l ! (c - 1)"
  have c: "1 \<le> c" "c \<le> length (ld_nodes l)" "is_sequence (nd_data ?n) \<or> is_mapping (nd_data ?n)"
    "\<forall>i \<in> set r. 1 \<le> i \<and> i < c" "ctx_ok (ld_nodes l) r"
    using assms(1) Cons by (auto simp: loader_inv_def ctx_ok_def)
  have f: "node_frame (nd_data ?n) = f" and fs: "fs = tl (loader_frames l)"
    using assms(2) Cons by (auto simp: loader_frames_def ctx_frames_def pop_frame_def split: if_splits)
  then have type: "is_type (nd_data ?n)"
    using assms(3) c(3) by (cases "nd_data ?n") (auto split: if_splits)
  have "node_ok (length (ld_nodes l)) True (nd_data ?n)"
    using assms(1) Cons c by (auto simp: loader_inv_def nodes_ok_def elim!: allE [of _ "c - 1"])
  then have closed: "node_ok (length (ld_nodes l)) False (nd_data ?n)"
    using closed_node_ok type f assms(3) by blast
  have nodes: "nodes_ok ((ld_nodes l)[c - 1 := ?n\<lparr>nd_end := m\<rparr>]) (set r)"
    using nodes_ok_close [of "ld_nodes l" c "set r" "?n\<lparr>nd_end := m\<rparr>"] assms(1) Cons c closed
    by (simp add: loader_inv_def)
  have "ctx_ok ((ld_nodes l)[c - 1 := ?n\<lparr>nd_end := m\<rparr>]) r"
    using ctx_ok_update [OF c(5), of c "?n\<lparr>nd_end := m\<rparr>"] c by simp
  moreover have "map (\<lambda>i. node_frame (nd_data ((ld_nodes l)[c - 1 := ?n\<lparr>nd_end := m\<rparr>] ! (i - 1)))) r = tl (ctx_frames l)"
    using Cons c(4) by (auto simp: ctx_frames_def nth_list_update)
  ultimately show ?thesis
    using Cons c type nodes fs assms(1)
    by (auto simp: close_collection_def node_ref_def loader_inv_def update_node_def loader_frames_def ctx_frames_def)
qed

lemma load_event_ok:
  assumes "loader_inv l" "event_step (loader_frames l) (ev_data e) = Some fs"
    "\<forall>i. ev_data e \<noteq> YAML_DOCUMENT_END_EVENT i"
  shows "load_ok l (\<lambda>l'. loader_frames l' = fs) (load_event l e)"
proof -
  have frames: "loader_frames l \<noteq> [FStart]" "loader_frames l \<noteq> [FStream]"
    by (simp_all add: loader_frames_def append_eq_Cons_conv)
  show ?thesis
    using assms frames load_leaf_ok [OF assms(1), of fs]
      load_collection_ok [OF assms(1), of "YAML_SEQUENCE_NODE [] st" fs for st]
      load_collection_ok [OF assms(1), of "YAML_MAPPING_NODE [] st" fs for st]
      close_collection_ok [OF assms(1), of FSeq fs is_sequence]
      close_collection_ok [OF assms(1), of FKey fs is_mapping]
    by (cases "ev_data e") (auto simp: load_event_def yaml_parser_load_sequence_def yaml_parser_load_mapping_def
        yaml_parser_load_sequence_end_def yaml_parser_load_mapping_end_def)
qed

lemma load_document_end:
  assumes "loader_inv l" "event_step (loader_frames l) (YAML_DOCUMENT_END_EVENT i) = Some fs"
  shows "ld_ctx l = []" "ld_nodes l \<noteq> []" "fs = [FStream]"
proof -
  have "node_frame d \<noteq> FDocEnd" for d by (cases d) auto
  then show "ld_ctx l = []" "ld_nodes l \<noteq> []" "fs = [FStream]"
    using assms(2) by (cases "ld_ctx l"; auto simp: loader_frames_def ctx_frames_def pop_frame_def split: if_splits)+
qed

section \<open>Loading a document\<close>

lemma parser_frames_start:
  assumes "parser_inv p" "parser_frames p = [FStart]"
  shows "ps_state p = YAML_PARSE_STREAM_START_STATE"
proof -
  have "last (parser_frames p) = FStream" if "stack_ok (ps_states p)" "\<not> content_state (ps_state p)"
    using stack_frames_last [OF that(1)] that(2) by (simp add: parser_frames_def)
  then show ?thesis
    using assms by (auto simp: parser_inv_def parser_frames_def document_state_def content_state_def split: if_splits)
qed

definition loaded :: "nat \<Rightarrow> load_outcome option \<Rightarrow> bool" where
  "loaded n r = (case r of
     Some (Done _ l) \<Rightarrow> parser_inv (ld_parser l) \<and> parser_frames (ld_parser l) = [FStream] \<and>
       parser_measure (ld_parser l) < n \<and> document_wf (ld_document l) \<and> dc_nodes (ld_document l) \<noteq> []
   | Some (Fail l) \<Rightarrow> ps_error (ld_parser l) \<noteq> None
   | _ \<Rightarrow> False)"

lemma loaded_mono: "loaded n r \<Longrightarrow> n \<le> m \<Longrightarrow> loaded m r"
  by (auto simp: loaded_def split: option.splits outcome.splits)

lemma load_nodes_ok:
  assumes "parser_inv (ld_parser l)" "loader_inv l" "loader_frames l = parser_frames (ld_parser l)"
  shows "loaded (parser_measure (ld_parser l)) (yaml_parser_load_nodes l)"
  using assms
proof (induction "parser_measure (ld_parser l)" arbitrary: l rule: less_induct)
  case less
  have state: "ps_state (ld_parser l) \<noteq> YAML_PARSE_END_STATE"
    using less(2,4) by (auto simp: loader_frames_def parser_frames_def parser_inv_def content_state_def document_state_def)
  show ?case
  proof (cases "yaml_parser_parse (ld_parser l)")
    case (Done e q)
    note step = parse_Done [OF less(2) state Done]
    let ?l = "l\<lparr>ld_parser := q\<rparr>"
    have inv: "loader_inv ?l" "loader_frames ?l = loader_frames l"
      using less(3) by (simp_all add: loader_inv_def loader_frames_def ctx_frames_def)
    show ?thesis
    proof (cases "\<exists>i. ev_data e = YAML_DOCUMENT_END_EVENT i")
      case True
      then obtain i where e: "ev_data e = YAML_DOCUMENT_END_EVENT i" by blast
      have "event_step (loader_frames ?l) (YAML_DOCUMENT_END_EVENT i) = Some (parser_frames q)"
        using step(2) less(4) inv(2) e by simp
      from load_document_end [OF inv(1) this] show ?thesis
        using Done e step(1,3) inv(1)
        by (simp add: yaml_parser_load_nodes.simps [of l] load_event_def loaded_def finish_document_def
            document_wf_def loader_inv_def ld_nodes_def)
    next
      case False
      have "load_ok ?l (\<lambda>l'. loader_frames l' = parser_frames q) (load_event ?l e)"
        using load_event_ok [OF inv(1), of e] step(2) less(4) inv(2) False by simp
      then show ?thesis
      proof (cases "load_event ?l e")
        case ev: (Done x l')
        have "loaded (parser_measure q) (yaml_parser_load_nodes l')"
          using less(1) [of l'] step(1,3) ev \<open>load_ok ?l _ _\<close> by simp
        then have "loaded (parser_measure (ld_parser l)) (yaml_parser_load_nodes l')"
          using step(3) loaded_mono by simp
        then show ?thesis using Done ev False
          by (cases "ev_data e") (simp_all add: yaml_parser_load_nodes.simps [of l])
      qed (use Done in \<open>simp_all add: yaml_parser_load_nodes.simps [of l] loaded_def\<close>)
    qed
  next
    case (Fail q)
    then show ?thesis using parse_Fail [OF less(2) Fail]
      by (simp add: yaml_parser_load_nodes.simps [of l] loaded_def)
  qed (use parse_no_crash [OF less(2)] in simp)
qed

text \<open>A parser between two documents, before the first or after the last.\<close>

definition at_boundary :: "yaml_parser_t \<Rightarrow> bool" where
  "at_boundary p \<longleftrightarrow> parser_inv p \<and> parser_frames p \<in> {[FStart], [FStream], []}"

definition document_ok :: "yaml_document_t \<Rightarrow> bool" where
  "document_ok d \<longleftrightarrow> document_wf d \<and> dc_nodes d \<noteq> []"

text \<open>What \<open>yaml_parser_load\<close> must give: a document with the parser after it, the empty document at the end of
  the stream, or an error.\<close>

definition load_result :: "nat \<Rightarrow> (yaml_document_t, yaml_parser_t) outcome option \<Rightarrow> bool" where
  "load_result n r = (case r of
     Some (Done d q) \<Rightarrow> at_boundary q \<and> (d = document0 \<or> document_ok d \<and> parser_measure q < n)
   | Some (Fail q) \<Rightarrow> ps_error q \<noteq> None
   | _ \<Rightarrow> False)"

lemma load_result_mono: "load_result n r \<Longrightarrow> n \<le> m \<Longrightarrow> load_result m r"
  by (auto simp: load_result_def split: option.splits outcome.splits)

lemma load_next_ok:
  assumes "parser_inv p" "parser_frames p \<in> {[FStream], []}"
  shows "load_result (parser_measure p) (load_next p)"
proof (cases "ps_stream_end_produced p")
  case True
  then show ?thesis using assms by (auto simp: load_next_def load_result_def at_boundary_def)
next
  case False
  then have state: "ps_state p \<noteq> YAML_PARSE_END_STATE" and fr: "parser_frames p = [FStream]"
    using assms parser_frames_last [OF assms(1)] by (auto simp: parser_inv_def)
  show ?thesis
  proof (cases "yaml_parser_parse p")
    case (Done e q)
    note step = parse_Done [OF assms(1) state Done]
    from step(2) fr consider "ev_data e = YAML_STREAM_END_EVENT" "parser_frames q = []"
      | v t i where "ev_data e = YAML_DOCUMENT_START_EVENT v t i" "parser_frames q = [FDocNode, FStream]"
      by (cases "ev_data e") (auto simp: node_step_def pop_frame_def split: if_splits)
    then show ?thesis
    proof cases
      case 1
      then show ?thesis using Done False step(1) by (simp add: load_next_def load_result_def at_boundary_def)
    next
      case (2 v t i)
      let ?l = "open_document q e v t i"
      have "loaded (parser_measure q) (yaml_parser_load_nodes ?l)"
        using load_nodes_ok [of ?l] step(1) 2(2)
        by (simp add: open_document_def loader_inv_def ld_nodes_def document0_def nodes_ok_def ctx_ok_def
            loader_frames_def ctx_frames_def)
      then show ?thesis using Done False 2(1) step(3)
        by (auto simp: load_next_def load_result_def yaml_parser_load_document_def loaded_def at_boundary_def document_ok_def
            split: option.splits outcome.splits)
    qed
  next
    case (Fail q)
    then show ?thesis using parse_Fail [OF assms(1) Fail] False by (simp add: load_next_def load_result_def)
  qed (use parse_no_crash [OF assms(1)] in simp)
qed

lemma yaml_parser_load_ok:
  assumes "at_boundary p"
  shows "load_result (parser_measure p) (yaml_parser_load p)"
proof (cases "ps_stream_start_produced p")
  case True
  have inv: "parser_inv p" using assms by (simp add: at_boundary_def)
  then have "ps_state p \<noteq> YAML_PARSE_STREAM_START_STATE" using True by (simp add: parser_inv_def)
  then have "parser_frames p \<in> {[FStream], []}"
    using assms parser_frames_start [OF inv] by (auto simp: at_boundary_def)
  then show ?thesis using load_next_ok assms True by (simp add: yaml_parser_load_def at_boundary_def)
next
  case False
  have inv: "parser_inv p" using assms by (simp add: at_boundary_def)
  then have state: "ps_state p = YAML_PARSE_STREAM_START_STATE" using False by (simp add: parser_inv_def)
  then have fr: "parser_frames p = [FStart]"
    using inv by (simp add: parser_inv_def parser_frames_def content_state_def document_state_def)
  show ?thesis
  proof (cases "yaml_parser_parse p")
    case (Done e q)
    have "ps_state p \<noteq> YAML_PARSE_END_STATE" using state by simp
    note step = parse_Done [OF inv this Done]
    have "is_stream_start (ev_data e) \<and> parser_frames q = [FStream]"
      using step(2) unfolding fr by (cases "ev_data e") (simp_all add: node_step_def pop_frame_def)
    then have "load_result (parser_measure q) (load_next q)" using load_next_ok [of q] step(1) by simp
    then have "load_result (parser_measure p) (load_next q)"
      using load_result_mono step(3) by (metis less_imp_le)
    then show ?thesis using \<open>is_stream_start (ev_data e) \<and> _\<close> Done False by (simp add: yaml_parser_load_def)
  next
    case (Fail q)
    then show ?thesis using parse_Fail [OF inv Fail] False by (simp add: yaml_parser_load_def load_result_def)
  qed (use parse_no_crash [OF inv] in simp)
qed

section \<open>Loading a stream\<close>

definition run_loader_result :: "yaml_document_t list \<Rightarrow> nat \<Rightarrow>
    (bool \<times> yaml_document_t list, yaml_parser_t) outcome option \<Rightarrow> bool" where
  "run_loader_result ds n r \<longleftrightarrow> (\<exists>err ds' q. r = Some (Done (err, ds @ ds') q) \<and> length ds' \<le> n \<and>
     list_all document_ok ds' \<and> (err \<longleftrightarrow> ps_error q \<noteq> None))"

lemma run_loader_ok:
  assumes "at_boundary p"
  shows "run_loader_result ds (parser_measure p) (run_loader p ds)"
  using assms
proof (induction "parser_measure p" arbitrary: p ds rule: less_induct)
  case less
  from yaml_parser_load_ok [OF less(2)] consider
      (none) q where "yaml_parser_load p = Some (Done document0 q)" "at_boundary q"
    | (doc) d q where "yaml_parser_load p = Some (Done d q)" "at_boundary q" "document_ok d" "parser_measure q < parser_measure p"
    | (error) q where "yaml_parser_load p = Some (Fail q)" "ps_error q \<noteq> None"
    by (auto simp: load_result_def split: option.splits outcome.splits)
  then show ?case
  proof cases
    case none
    then have "ps_error q = None" by (simp add: at_boundary_def parser_inv_def)
    then show ?thesis using none by (auto simp: run_loader.simps [of p] run_loader_result_def document0_def)
  next
    case doc
    obtain err ds' r where "run_loader q (ds @ [d]) = Some (Done (err, (ds @ [d]) @ ds') r)" "length ds' \<le> parser_measure q"
      "list_all document_ok ds'" "err \<longleftrightarrow> ps_error r \<noteq> None"
      using less(1) [OF doc(4,2), of "ds @ [d]"] unfolding run_loader_result_def by blast
    then show ?thesis using doc unfolding run_loader_result_def run_loader.simps [of p]
      by (intro exI [of _ err] exI [of _ "d # ds'"] exI [of _ r]) (simp add: document_ok_def)
  next
    case error
    then show ?thesis by (auto simp: run_loader.simps [of p] run_loader_result_def)
  qed
qed

text \<open>C15: For every sequence of tokens, the loop of \<open>run-loader.c\<close> returns: no \<open>assert\<close> of the loader fails, every
  document it gives has a root node and is well formed (all references are in range and every key has a value),
  and an error is reported exactly when the parser holds one.\<close>

theorem run_loader_returns:
  "\<exists>err ds q. run_loader (yaml_parser_initialize toks pb) [] = Some (Done (err, ds) q) \<and>
     list_all document_ok ds \<and> length ds \<le> 7 * length toks \<and> (err \<longleftrightarrow> ps_error q \<noteq> None)"
proof -
  have "at_boundary (yaml_parser_initialize toks pb)"
    by (simp add: at_boundary_def parser_inv_initialize)
  from run_loader_ok [OF this, of "[]"] show ?thesis
    unfolding run_loader_result_def parser_inv_initialize(3) by auto
qed

end
