(* ===== verification/Ly_Dumper_Laws.thy ===== *)
theory Ly_Dumper_Laws
  imports Ly_Dumper Ly_Loader_Laws
begin

text \<open>
  The laws of the dumper. The nodes of a document, followed from the root, unfold into a tree in which a
  second visit of a node is a reference: the counting of references and the serialization both walk over
  this tree. It gives the termination of the two recursions, the grammar of the dumped events and, with the
  loader, the round trip.
\<close>

section \<open>Unfolding a document\<close>

datatype utree = URef nat | UNode nat "utree list"

fun map_state :: "('i \<Rightarrow> 's \<Rightarrow> ('a \<times> 's) option) \<Rightarrow> 'i list \<Rightarrow> 's \<Rightarrow> ('a list \<times> 's) option" where
  "map_state f [] s = Some ([], s)"
| "map_state f (i # js) s = (case f i s of None \<Rightarrow> None | Some (x, s') \<Rightarrow>
     (case map_state f js s' of None \<Rightarrow> None | Some (xs, s'') \<Rightarrow> Some (x # xs, s'')))"

fun unfold_node :: "nat \<Rightarrow> yaml_document_t \<Rightarrow> nat \<Rightarrow> nat set \<Rightarrow> (utree \<times> nat set) option" where
  "unfold_node 0 d i S = None"
| "unfold_node (Suc fuel) d i S =
     (if \<not> in_document d i then None
      else if i \<in> S then Some (URef i, S)
      else case map_state (unfold_node fuel d) (node_refs (nd_data (node_at d i))) (insert i S) of
        None \<Rightarrow> None | Some (ts, S') \<Rightarrow> Some (UNode i ts, S'))"

fun root :: "utree \<Rightarrow> nat" where
  "root (URef i) = i" | "root (UNode i ts) = i"

text \<open>All visits, and the first visits, in order.\<close>

fun visits :: "utree \<Rightarrow> nat list" where
  "visits (URef i) = [i]"
| "visits (UNode i ts) = i # concat (map visits ts)"

fun firsts :: "utree \<Rightarrow> nat list" where
  "firsts (URef i) = []"
| "firsts (UNode i ts) = i # concat (map firsts ts)"

fun refs :: "utree \<Rightarrow> nat set" where
  "refs (URef i) = {i}"
| "refs (UNode i ts) = \<Union> (refs ` set ts)"

text \<open>A tree whose inner nodes have the references of the document.\<close>

fun tree_of :: "yaml_document_t \<Rightarrow> utree \<Rightarrow> bool" where
  "tree_of d (URef i) = in_document d i"
| "tree_of d (UNode i ts) = (in_document d i \<and> map root ts = node_refs (nd_data (node_at d i)) \<and> (\<forall>t \<in> set ts. tree_of d t))"

section \<open>The unfolding exists\<close>

lemma refs_in_document:
  assumes "document_wf d" "in_document d i" "j \<in> set (node_refs (nd_data (node_at d i)))"
  shows "in_document d j"
proof -
  have "node_ok (length (dc_nodes d)) False (nd_data (node_at d i))"
    using assms(1,2) by (auto simp: document_wf_def nodes_ok_def in_document_def node_at_def elim!: allE [of _ "i - 1"])
  then show ?thesis using assms(3) by (cases "nd_data (node_at d i)") (auto simp: in_document_def)
qed

definition unseen :: "yaml_document_t \<Rightarrow> nat set \<Rightarrow> nat set" where
  "unseen d S = {i. in_document d i} - S"

lemma finite_unseen [simp]: "finite (unseen d S)"
proof -
  have "unseen d S \<subseteq> {..length (dc_nodes d)}" by (auto simp: unseen_def in_document_def)
  then show ?thesis by (rule finite_subset) simp
qed

lemma unfold_list_total:
  assumes "\<And>i S. in_document d i \<Longrightarrow> card (unseen d S) < fuel \<Longrightarrow> \<exists>t S'. unfold_node fuel d i S = Some (t, S') \<and> S \<subseteq> S'"
    and "\<forall>i \<in> set ks. in_document d i" "card (unseen d S) < fuel"
  shows "\<exists>ts S'. map_state (unfold_node fuel d) ks S = Some (ts, S') \<and> S \<subseteq> S'"
  using assms(2,3)
proof (induction ks arbitrary: S)
  case (Cons i js)
  obtain t S1 where t: "unfold_node fuel d i S = Some (t, S1)" "S \<subseteq> S1"
    using assms(1) [of i S] Cons(2,3) by auto
  have "card (unseen d S1) \<le> card (unseen d S)" using t(2) by (intro card_mono finite_unseen) (auto simp: unseen_def)
  then obtain ts S2 where "map_state (unfold_node fuel d) js S1 = Some (ts, S2)" "S1 \<subseteq> S2"
    using Cons(1) [of S1] Cons(2,3) by auto
  then show ?case using t by auto
qed simp

lemma unfold_total:
  assumes "document_wf d"
  shows "in_document d i \<Longrightarrow> card (unseen d S) < fuel \<Longrightarrow> \<exists>t S'. unfold_node fuel d i S = Some (t, S') \<and> S \<subseteq> S'"
proof (induction fuel arbitrary: i S)
  case (Suc fuel)
  show ?case
  proof (cases "i \<in> S")
    case False
    have "unseen d (insert i S) \<subset> unseen d S" using False Suc(2) by (auto simp: unseen_def)
    from psubset_card_mono [OF finite_unseen this] have "card (unseen d (insert i S)) < fuel" using Suc(3) by simp
    moreover have "\<forall>j \<in> set (node_refs (nd_data (node_at d i))). in_document d j"
      using refs_in_document [OF assms Suc(2)] by blast
    ultimately obtain ts S' where
      "map_state (unfold_node fuel d) (node_refs (nd_data (node_at d i))) (insert i S) = Some (ts, S')" "insert i S \<subseteq> S'"
      using unfold_list_total [OF Suc(1)] by (metis (no_types))
    then show ?thesis using False Suc(2) by simp
  qed (use Suc(2) in simp)
qed simp

lemma unseen_card: "card (unseen d S) \<le> length (dc_nodes d)"
proof -
  have "unseen d S \<subseteq> {1..length (dc_nodes d)}" by (auto simp: unseen_def in_document_def)
  from card_mono [OF _ this] show ?thesis by simp
qed

section \<open>What the unfolding visits\<close>

lemma firsts_visits: "set (firsts t) \<subseteq> set (visits t)"
  by (induction t) auto

lemma refs_visits: "refs t \<subseteq> set (visits t)"
  by (induction t) auto

lemma count_list_pos: "x \<in> set xs \<Longrightarrow> 1 \<le> count_list xs x"
  by (induction xs) auto

text \<open>From the visited nodes \<open>S\<close>, the trees \<open>ts\<close> visit new nodes once, and refer only to nodes of \<open>S\<close> or to nodes
  they visit twice.\<close>

definition unfolds :: "nat set \<Rightarrow> utree list \<Rightarrow> nat set \<Rightarrow> bool" where
  "unfolds S ts S' \<longleftrightarrow> S' = S \<union> set (concat (map firsts ts)) \<and> S \<inter> set (concat (map firsts ts)) = {} \<and>
     distinct (concat (map firsts ts)) \<and>
     (\<forall>j \<in> \<Union> (refs ` set ts). j \<in> S \<or> 2 \<le> count_list (concat (map visits ts)) j)"

lemma unfoldsD:
  assumes "unfolds S ts S'"
  shows "S' = S \<union> set (concat (map firsts ts))" "S \<inter> set (concat (map firsts ts)) = {}"
    "distinct (concat (map firsts ts))"
    "\<And>t j. t \<in> set ts \<Longrightarrow> j \<in> refs t \<Longrightarrow> j \<in> S \<or> 2 \<le> count_list (concat (map visits ts)) j"
  using assms unfolding unfolds_def by blast+

lemma unfolds_Cons:
  assumes "unfolds S [t] S1" "unfolds S1 ts S2"
  shows "unfolds S (t # ts) S2"
proof -
  note a = unfoldsD [OF assms(1)] and b = unfoldsD [OF assms(2)]
  have "j \<in> S \<or> 2 \<le> count_list (visits t @ concat (map visits ts)) j"
    if u: "u = t \<or> u \<in> set ts" "j \<in> refs u" for u j
  proof (cases "u = t")
    case True
    then show ?thesis using a(4) [of t j] u(2) by auto
  next
    case False
    then have us: "u \<in> set ts" using u by auto
    then have "j \<in> set (concat (map visits ts))" using u(2) refs_visits by auto
    from count_list_pos [OF this] b(4) [OF us u(2)] have "1 \<le> count_list (concat (map visits ts)) j"
      "j \<in> S1 \<or> 2 \<le> count_list (concat (map visits ts)) j" by auto
    moreover have "j \<in> S \<or> 1 \<le> count_list (visits t) j" if "j \<in> S1"
    proof (cases "j \<in> S")
      case False
      then have "j \<in> set (visits t)" using a(1) that firsts_visits [of t] by auto
      from count_list_pos [OF this] show ?thesis by simp
    qed simp
    ultimately show ?thesis by auto
  qed
  moreover have "S2 = S \<union> set (concat (map firsts (t # ts)))" "S \<inter> set (concat (map firsts (t # ts))) = {}"
    "distinct (concat (map firsts (t # ts)))"
    using a(1-3) b(1-3) by auto
  ultimately show ?thesis unfolding unfolds_def by auto
qed

lemma map_state_unfolds:
  assumes "\<And>i S t S'. f i S = Some (t, S') \<Longrightarrow> tree_of d t \<and> root t = i \<and> unfolds S [t] S'"
    and "map_state f ks S = Some (ts, S')"
  shows "(\<forall>t \<in> set ts. tree_of d t) \<and> map root ts = ks \<and> unfolds S ts S'"
  using assms(2)
proof (induction ks arbitrary: S ts)
  case Nil
  then show ?case by (simp add: unfolds_def)
next
  case (Cons i ks)
  then obtain t S1 us where "f i S = Some (t, S1)" "map_state f ks S1 = Some (us, S')" "ts = t # us"
    by (auto split: option.splits prod.splits)
  then show ?case using assms(1) [of i S t S1] Cons(1) [of S1 us] unfolds_Cons by auto
qed

lemma unfold_node_unfolds:
  "unfold_node fuel d i S = Some (t, S') \<Longrightarrow> tree_of d t \<and> root t = i \<and> unfolds S [t] S'"
proof (induction fuel arbitrary: i S t S')
  case (Suc fuel)
  show ?case
  proof (cases "i \<in> S")
    case True
    then show ?thesis using Suc(2) by (auto simp: unfolds_def split: if_splits)
  next
    case False
    then obtain ts where ts: "map_state (unfold_node fuel d) (node_refs (nd_data (node_at d i))) (insert i S) = Some (ts, S')"
      "t = UNode i ts" "in_document d i"
      using Suc(2) by (auto split: if_splits option.splits)
    then have sub: "\<forall>t \<in> set ts. tree_of d t" "map root ts = node_refs (nd_data (node_at d i))" "unfolds (insert i S) ts S'"
      using map_state_unfolds [of "unfold_node fuel d" d] Suc(1) by blast+
    have "j \<in> S \<or> 2 \<le> count_list (i # concat (map visits ts)) j" if "j \<in> \<Union> (refs ` set ts)" for j
    proof -
      have "j \<in> set (concat (map visits ts))" using that refs_visits by auto
      then have "1 \<le> count_list (concat (map visits ts)) j" by (rule count_list_pos)
      then show ?thesis using sub(3) that by (auto simp: unfolds_def)
    qed
    then show ?thesis using sub ts False by (auto simp: unfolds_def)
  qed
qed simp

section \<open>Counting references\<close>

text \<open>One visit of \<open>yaml_emitter_anchor_node\<close>.\<close>

definition note_ref :: "nat \<Rightarrow> 'e yaml_emitter_t \<Rightarrow> 'e yaml_emitter_t" where
  "note_ref i em = (let a = (anchor_at em i)\<lparr>an_references := Suc (an_references (anchor_at em i))\<rparr>;
     id = Suc (em_last_anchor_id em) in
     if an_references a = 2 then (set_anchor i (a\<lparr>an_anchor := id\<rparr>) em)\<lparr>em_last_anchor_id := id\<rparr>
     else set_anchor i a em)"

lemma set_anchor_simps [simp]:
  "length (em_anchors (set_anchor i a em)) = length (em_anchors em)"
  "em_sink (set_anchor i a em) = em_sink em" "em_opened (set_anchor i a em) = em_opened em"
  "em_closed (set_anchor i a em) = em_closed em" "em_last_anchor_id (set_anchor i a em) = em_last_anchor_id em"
  "set_anchor i b (set_anchor i a em) = set_anchor i b em"
  "anchor_at (em\<lparr>em_last_anchor_id := n\<rparr>) j = anchor_at em j" "anchor_at (em\<lparr>em_sink := x\<rparr>) j = anchor_at em j"
  by (simp_all add: set_anchor_def anchor_at_def)

lemma anchor_at_set:
  "1 \<le> i \<Longrightarrow> i \<le> length (em_anchors em) \<Longrightarrow> 1 \<le> j \<Longrightarrow> anchor_at (set_anchor i a em) j = (if j = i then a else anchor_at em j)"
  by (auto simp: set_anchor_def anchor_at_def nth_list_update)

definition counted :: "yaml_document_t \<Rightarrow> nat set \<Rightarrow> 'e yaml_emitter_t \<Rightarrow> bool" where
  "counted d S em \<longleftrightarrow> length (em_anchors em) = length (dc_nodes d) \<and>
     (\<forall>j. in_document d j \<longrightarrow> (0 < an_references (anchor_at em j) \<longleftrightarrow> j \<in> S))"

lemma counted_note_ref:
  "counted d S em \<Longrightarrow> in_document d i \<Longrightarrow> counted d (insert i S) (note_ref i em)"
  by (auto simp: counted_def note_ref_def Let_def in_document_def anchor_at_set)

lemma anchor_list_visits:
  fixes em :: "'e yaml_emitter_t"
  assumes "\<And>i S t S' (em :: 'e yaml_emitter_t). unfold_node fuel d i S = Some (t, S') \<Longrightarrow> counted d S em \<Longrightarrow>
      yaml_emitter_anchor_node fuel d i em = Done () (fold note_ref (visits t) em) \<and>
      counted d S' (fold note_ref (visits t) em)"
    and "map_state (unfold_node fuel d) ks S = Some (ts, S')" "counted d S em"
  shows "for_each (yaml_emitter_anchor_node fuel d) ks em = Done () (fold note_ref (concat (map visits ts)) em) \<and>
    counted d S' (fold note_ref (concat (map visits ts)) em)"
  using assms(2,3)
proof (induction ks arbitrary: S ts em)
  case (Cons i ks)
  then obtain t S1 us where "unfold_node fuel d i S = Some (t, S1)" "map_state (unfold_node fuel d) ks S1 = Some (us, S')"
    "ts = t # us"
    by (auto split: option.splits prod.splits)
  then show ?case using assms(1) [of i S t S1 em] Cons(1) [of S1 us "fold note_ref (visits t) em"] Cons(3) by simp
qed simp

lemma anchor_node_visits:
  "unfold_node fuel d i S = Some (t, S') \<Longrightarrow> counted d S em \<Longrightarrow>
     yaml_emitter_anchor_node fuel d i em = Done () (fold note_ref (visits t) em) \<and>
     counted d S' (fold note_ref (visits t) em)"
proof (induction fuel arbitrary: i S t S' em)
  case (Suc fuel)
  have i: "in_document d i" using Suc(2) by (auto split: if_splits)
  have counted: "counted d (insert i S) (note_ref i em)" by (rule counted_note_ref [OF Suc(3) i])
  show ?case
  proof (cases "i \<in> S")
    case True
    then have "0 < an_references (anchor_at em i)" using Suc(3) i by (auto simp: counted_def)
    then show ?thesis using Suc(2) True i counted
      by (auto simp: Let_def note_ref_def insert_absorb split: if_splits)
  next
    case False
    then have "an_references (anchor_at em i) = 0" using Suc(3) i by (auto simp: counted_def)
    then have step: "yaml_emitter_anchor_node (Suc fuel) d i em =
        for_each (yaml_emitter_anchor_node fuel d) (node_refs (nd_data (node_at d i))) (note_ref i em)"
      using i by (simp add: Let_def note_ref_def)
    obtain ts where ts: "map_state (unfold_node fuel d) (node_refs (nd_data (node_at d i))) (insert i S) = Some (ts, S')"
      "t = UNode i ts"
      using Suc(2) False by (auto split: if_splits option.splits)
    show ?thesis
      unfolding step using anchor_list_visits [OF Suc(1) ts(1) counted] ts(2) by simp
  qed
qed simp

text \<open>After the visits \<open>vs\<close>: the number of references of every node, and distinct anchors for those with two or more.\<close>

definition anchors_inv :: "yaml_document_t \<Rightarrow> nat list \<Rightarrow> 'e yaml_emitter_t \<Rightarrow> bool" where
  "anchors_inv d vs em \<longleftrightarrow> length (em_anchors em) = length (dc_nodes d) \<and>
     (\<forall>j. in_document d j \<longrightarrow> an_references (anchor_at em j) = count_list vs j \<and>
        (an_anchor (anchor_at em j) = 0 \<longleftrightarrow> count_list vs j < 2) \<and>
        an_anchor (anchor_at em j) \<le> em_last_anchor_id em \<and> \<not> an_serialized (anchor_at em j)) \<and>
     (\<forall>j k. in_document d j \<longrightarrow> in_document d k \<longrightarrow> an_anchor (anchor_at em j) = an_anchor (anchor_at em k) \<longrightarrow>
        an_anchor (anchor_at em j) \<noteq> 0 \<longrightarrow> j = k)"

lemma anchors_inv_note_ref:
  assumes "anchors_inv d vs em" "in_document d i"
  shows "anchors_inv d (vs @ [i]) (note_ref i em)"
proof -
  have at: "anchor_at (note_ref i em) j = (if j = i then (anchor_at em i)
      \<lparr>an_references := Suc (an_references (anchor_at em i)),
       an_anchor := (if an_references (anchor_at em i) = 1 then Suc (em_last_anchor_id em) else an_anchor (anchor_at em i))\<rparr>
      else anchor_at em j)" if "in_document d j" for j
    using that assms by (auto simp: note_ref_def Let_def anchors_inv_def in_document_def anchor_at_set)
  have last: "em_last_anchor_id (note_ref i em) =
      (if an_references (anchor_at em i) = 1 then Suc (em_last_anchor_id em) else em_last_anchor_id em)"
    by (simp add: note_ref_def Let_def)
  have inv: "an_references (anchor_at em j) = count_list vs j" "an_anchor (anchor_at em j) = 0 \<longleftrightarrow> count_list vs j < 2"
    "an_anchor (anchor_at em j) \<le> em_last_anchor_id em" "\<not> an_serialized (anchor_at em j)" if "in_document d j" for j
    using assms(1) that by (auto simp: anchors_inv_def)
  have inj: "j = k" if "in_document d j" "in_document d k" "an_anchor (anchor_at em j) = an_anchor (anchor_at em k)"
    "an_anchor (anchor_at em j) \<noteq> 0" for j k
    using assms(1) that unfolding anchors_inv_def by blast
  have inj': "j = k" if "in_document d j" "in_document d k"
    "an_anchor (anchor_at (note_ref i em) j) = an_anchor (anchor_at (note_ref i em) k)"
    "an_anchor (anchor_at (note_ref i em) j) \<noteq> 0" for j k
    using that at [OF that(1)] at [OF that(2)] inj [of j k] inv(3) [of j] inv(3) [of k]
    by (auto split: if_splits)
  have "length (em_anchors (note_ref i em)) = length (dc_nodes d)"
    using assms(1) by (simp add: anchors_inv_def note_ref_def Let_def)
  moreover have "an_references (anchor_at (note_ref i em) j) = count_list (vs @ [i]) j \<and>
      (an_anchor (anchor_at (note_ref i em) j) = 0 \<longleftrightarrow> count_list (vs @ [i]) j < 2) \<and>
      an_anchor (anchor_at (note_ref i em) j) \<le> em_last_anchor_id (note_ref i em) \<and>
      \<not> an_serialized (anchor_at (note_ref i em) j)" if "in_document d j" for j
    using at [OF that] inv [OF that] last by auto
  ultimately show ?thesis unfolding anchors_inv_def using inj' by blast
qed

lemma anchors_inv_fold:
  "anchors_inv d vs em \<Longrightarrow> (\<forall>i \<in> set ws. in_document d i) \<Longrightarrow> anchors_inv d (vs @ ws) (fold note_ref ws em)"
proof (induction ws arbitrary: vs em)
  case (Cons w ws)
  then show ?case using anchors_inv_note_ref [of d vs em w] Cons(1) [of "vs @ [w]"] by simp
qed simp

lemma note_ref_sink [simp]:
  "em_sink (note_ref i em) = em_sink em" "em_opened (note_ref i em) = em_opened em" "em_closed (note_ref i em) = em_closed em"
  by (simp_all add: note_ref_def Let_def)

lemma fold_note_ref_sink [simp]:
  "em_sink (fold note_ref vs em) = em_sink em" "em_opened (fold note_ref vs em) = em_opened em"
  "em_closed (fold note_ref vs em) = em_closed em"
  by (induction vs arbitrary: em) simp_all

lemma fold_note_ref_upd:
  "fold note_ref vs (em\<lparr>em_sink := x, em_closed := cl\<rparr>) = (fold note_ref vs em)\<lparr>em_sink := x, em_closed := cl\<rparr>"
proof (induction vs arbitrary: em)
  case (Cons v vs)
  have "note_ref v (em\<lparr>em_sink := x, em_closed := cl\<rparr>) = (note_ref v em)\<lparr>em_sink := x, em_closed := cl\<rparr>"
    by (simp add: note_ref_def Let_def set_anchor_def anchor_at_def)
  then show ?case using Cons by simp
qed simp

section \<open>The dumped events\<close>

definition anchor_name :: "'e yaml_emitter_t \<Rightarrow> nat \<Rightarrow> ystr option" where
  "anchor_name em i = (let a = an_anchor (anchor_at em i) in
     if a \<noteq> 0 then Some (yaml_emitter_generate_anchor a) else None)"

text \<open>The events of an unfolded document, with the names \<open>nm\<close> of the anchors.\<close>

fun tree_events :: "yaml_document_t \<Rightarrow> (nat \<Rightarrow> ystr option) \<Rightarrow> utree \<Rightarrow> yaml_event_data list" where
  "tree_events d nm (URef i) = [YAML_ALIAS_EVENT (the (nm i))]"
| "tree_events d nm (UNode i ts) = (let n = node_at d i in case nd_data n of
     YAML_SCALAR_NODE v style \<Rightarrow> [YAML_SCALAR_EVENT (nm i) (Some (nd_tag n)) v (nd_tag n = YAML_DEFAULT_SCALAR_TAG)
       (nd_tag n = YAML_DEFAULT_SCALAR_TAG) style]
   | YAML_SEQUENCE_NODE _ style \<Rightarrow>
       YAML_SEQUENCE_START_EVENT (nm i) (Some (nd_tag n)) (nd_tag n = YAML_DEFAULT_SEQUENCE_TAG) style
         # concat (map (tree_events d nm) ts) @ [YAML_SEQUENCE_END_EVENT]
   | YAML_MAPPING_NODE _ style \<Rightarrow>
       YAML_MAPPING_START_EVENT (nm i) (Some (nd_tag n)) (nd_tag n = YAML_DEFAULT_MAPPING_TAG) style
         # concat (map (tree_events d nm) ts) @ [YAML_MAPPING_END_EVENT]
   | YAML_NO_NODE \<Rightarrow> [])"

definition emit_all :: "'e emit_fun \<Rightarrow> yaml_event_data list \<Rightarrow> 'e \<Rightarrow> (unit, 'e) outcome" where
  "emit_all emit = for_each (\<lambda>e s. emit s (EVENT_INIT e mark0 mark0))"

lemma emit_all_simps [simp]:
  "emit_all emit [] s = Done () s"
  "emit_all emit (e # es) s = then_do (emit s (EVENT_INIT e mark0 mark0)) (emit_all emit es)"
  by (simp_all add: emit_all_def)

lemma emit_all_append:
  "emit_all emit (xs @ ys) s = then_do (emit_all emit xs s) (emit_all emit ys)"
  by (simp add: emit_all_def for_each_append)

lemma yaml_emitter_emit_Done:
  "emit (em_sink em) (EVENT_INIT e mark0 mark0) = Done u s \<Longrightarrow> yaml_emitter_emit emit e em = Done () (em\<lparr>em_sink := s\<rparr>)"
  by (simp add: yaml_emitter_emit_def)

lemma for_each_pairs:
  "for_each (\<lambda>(k, v) em. then_do (f k em) (f v)) pairs em = for_each f (node_refs (YAML_MAPPING_NODE pairs style)) em"
proof (induction pairs arbitrary: em)
  case (Cons p ps)
  obtain k v where p: "p = (k, v)" by (cases p)
  show ?case
  proof (cases "then_do (f k em) (f v)")
    case (Done u s)
    then show ?thesis using Cons p by (cases "f k em") simp_all
  qed (use p in \<open>cases "f k em"; simp\<close>)+
qed simp

text \<open>An emitter in which the nodes of \<open>S\<close> are serialized and the anchors have the names \<open>nm\<close>.\<close>

definition serialized :: "yaml_document_t \<Rightarrow> (nat \<Rightarrow> ystr option) \<Rightarrow> bool \<Rightarrow> bool \<Rightarrow> nat set \<Rightarrow> 'e yaml_emitter_t \<Rightarrow> bool" where
  "serialized d nm op cl S em \<longleftrightarrow> length (em_anchors em) = length (dc_nodes d) \<and> em_opened em = op \<and> em_closed em = cl \<and>
     (\<forall>j. in_document d j \<longrightarrow> (an_serialized (anchor_at em j) \<longleftrightarrow> j \<in> S) \<and> anchor_name em j = nm j)"

lemma serialized_sink [simp]:
  "serialized d nm op cl S (em\<lparr>em_sink := s\<rparr>) = serialized d nm op cl S em"
  by (simp add: serialized_def anchor_name_def)

lemma serialize_node:
  assumes "serialized d nm op cl S em" "in_document d i"
  shows "serialized d nm op cl (insert i S) (set_anchor i ((anchor_at em i)\<lparr>an_serialized := True\<rparr>) em)"
  using assms by (auto simp: serialized_def anchor_name_def in_document_def anchor_at_set Let_def)

text \<open>\<open>f\<close> dumps the trees \<open>ts\<close>, after the nodes \<open>S\<close>, whenever the emitter takes their events.\<close>

definition dumps :: "'e emit_fun \<Rightarrow> yaml_document_t \<Rightarrow> (nat \<Rightarrow> ystr option) \<Rightarrow> ('e yaml_emitter_t \<Rightarrow> 'e dump_outcome) \<Rightarrow>
    nat set \<Rightarrow> utree list \<Rightarrow> nat set \<Rightarrow> bool" where
  "dumps emit d nm f S ts S' \<longleftrightarrow> (\<forall>op cl em s. serialized d nm op cl S em \<longrightarrow>
     emit_all emit (concat (map (tree_events d nm) ts)) (em_sink em) = Done () s \<longrightarrow>
     (\<exists>em'. f em = Done () em' \<and> em_sink em' = s \<and> serialized d nm op cl S' em'))"

lemma dumpsE:
  assumes "dumps emit d nm f S ts S'" "serialized d nm op cl S em"
    "emit_all emit (concat (map (tree_events d nm) ts)) (em_sink em) = Done () s"
  obtains em' where "f em = Done () em'" "em_sink em' = s" "serialized d nm op cl S' em'"
  using assms unfolding dumps_def by blast

lemma dumps_Cons:
  assumes "dumps emit d nm f S [t] S1" "dumps emit d nm g S1 ts S2"
  shows "dumps emit d nm (\<lambda>em. then_do (f em) g) S (t # ts) S2"
  unfolding dumps_def
proof (intro allI impI)
  fix op cl em s
  assume ser: "serialized d nm op cl S em"
    and emit: "emit_all emit (concat (map (tree_events d nm) (t # ts))) (em_sink em) = Done () s"
  obtain s1 where s1: "emit_all emit (concat (map (tree_events d nm) [t])) (em_sink em) = Done () s1"
    "emit_all emit (concat (map (tree_events d nm) ts)) s1 = Done () s"
    using emit by (auto simp: emit_all_append then_do_Done)
  obtain em1 where em1: "f em = Done () em1" "em_sink em1 = s1" "serialized d nm op cl S1 em1"
    using dumpsE [OF assms(1) ser s1(1)] .
  obtain em2 where "g em1 = Done () em2" "em_sink em2 = s" "serialized d nm op cl S2 em2"
    using dumpsE [OF assms(2) em1(3)] s1(2) em1(2) by blast
  then show "\<exists>em'. then_do (f em) g = Done () em' \<and> em_sink em' = s \<and> serialized d nm op cl S2 em'"
    using em1(1) by simp
qed

lemma dumps_list:
  assumes step: "\<And>i S t S'. unfold_node fuel d i S = Some (t, S') \<Longrightarrow> refs t \<subseteq> R \<Longrightarrow>
      dumps emit d nm (yaml_emitter_dump_node emit fuel d i) S [t] S'"
    and "map_state (unfold_node fuel d) ks S = Some (ts, S')" "\<Union> (refs ` set ts) \<subseteq> R"
  shows "dumps emit d nm (for_each (yaml_emitter_dump_node emit fuel d) ks) S ts S'"
  using assms(2,3)
proof (induction ks arbitrary: S ts)
  case Nil
  then show ?case by (simp add: dumps_def)
next
  case (Cons i ks)
  then obtain t S1 us where t: "unfold_node fuel d i S = Some (t, S1)"
    and us: "map_state (unfold_node fuel d) ks S1 = Some (us, S')" "ts = t # us"
    by (auto split: option.splits prod.splits)
  have "dumps emit d nm (\<lambda>em. then_do (yaml_emitter_dump_node emit fuel d i em) (for_each (yaml_emitter_dump_node emit fuel d) ks))
      S (t # us) S'"
    using step [OF t] Cons(1) [OF us(1)] Cons(3) us(2) by (intro dumps_Cons) auto
  then show ?case using us(2) by (simp add: dumps_def)
qed

text \<open>The start event of a collection, its items, and the end event.\<close>

lemma dumps_collection:
  assumes "dumps emit d nm g (insert i S) ts S'" "in_document d i" "i \<notin> S" "serialized d nm op cl S em"
    "emit_all emit (start # concat (map (tree_events d nm) ts) @ [stop]) (em_sink em) = Done () s"
  obtains em' where "then_do (yaml_emitter_emit emit start (set_anchor i ((anchor_at em i)\<lparr>an_serialized := True\<rparr>) em))
      (\<lambda>em. then_do (g em) (yaml_emitter_emit emit stop)) = Done () em'" "em_sink em' = s" "serialized d nm op cl S' em'"
proof -
  obtain s1 s2 where emit: "emit (em_sink em) (EVENT_INIT start mark0 mark0) = Done () s1"
    "emit_all emit (concat (map (tree_events d nm) ts)) s1 = Done () s2" "emit s2 (EVENT_INIT stop mark0 mark0) = Done () s"
    using assms(5) by (auto simp: emit_all_append then_do_Done)
  let ?em = "(set_anchor i ((anchor_at em i)\<lparr>an_serialized := True\<rparr>) em)\<lparr>em_sink := s1\<rparr>"
  have "serialized d nm op cl (insert i S) ?em" using serialize_node [OF assms(4,2)] by simp
  from dumpsE [OF assms(1) this] emit(2) obtain em2 where em2: "g ?em = Done () em2" "em_sink em2 = s2" "serialized d nm op cl S' em2"
    by auto
  have "yaml_emitter_emit emit start (set_anchor i ((anchor_at em i)\<lparr>an_serialized := True\<rparr>) em) = Done () ?em"
    using emit(1) by (simp add: yaml_emitter_emit_Done)
  moreover have "yaml_emitter_emit emit stop em2 = Done () (em2\<lparr>em_sink := s\<rparr>)"
    using emit(3) em2(2) by (simp add: yaml_emitter_emit_Done)
  ultimately show thesis using em2 that [of "em2\<lparr>em_sink := s\<rparr>"] by simp
qed

lemma dumps_alias:
  assumes "in_document d i" "i \<in> S" "nm i \<noteq> None" "serialized d nm op cl S em"
    "emit_all emit (tree_events d nm (URef i)) (em_sink em) = Done () s"
  obtains em' where "yaml_emitter_dump_node emit (Suc fuel) d i em = Done () em'" "em_sink em' = s" "serialized d nm op cl S em'"
proof -
  have "anchor_name em i = nm i" "an_serialized (anchor_at em i)" using assms(1,2,4) by (auto simp: serialized_def)
  then have "yaml_emitter_dump_node emit (Suc fuel) d i em = Done () (em\<lparr>em_sink := s\<rparr>)"
    using assms(1,3,5) yaml_emitter_emit_Done [of emit em "YAML_ALIAS_EVENT (the (nm i))" "()" s]
    by (auto simp: Let_def anchor_name_def yaml_emitter_dump_alias_def then_do_Done split: if_splits)
  then show thesis using that [of "em\<lparr>em_sink := s\<rparr>"] assms(4) by simp
qed

lemma dump_node_first:
  assumes "document_wf d" "in_document d i" "i \<notin> S" "serialized d nm op cl S em"
    "dumps emit d nm (for_each (yaml_emitter_dump_node emit fuel d) (node_refs (nd_data (node_at d i)))) (insert i S) ts S'"
    "node_refs (nd_data (node_at d i)) = [] \<Longrightarrow> S' = insert i S"
    "emit_all emit (tree_events d nm (UNode i ts)) (em_sink em) = Done () s"
  shows "\<exists>em'. yaml_emitter_dump_node emit (Suc fuel) d i em = Done () em' \<and> em_sink em' = s \<and> serialized d nm op cl S' em'"
proof -
  let ?n = "node_at d i" and ?em = "set_anchor i ((anchor_at em i)\<lparr>an_serialized := True\<rparr>) em"
  have name: "anchor_name em i = nm i" "\<not> an_serialized (anchor_at em i)" using assms(2-4) by (auto simp: serialized_def)
  have step: "yaml_emitter_dump_node emit (Suc fuel) d i em = (case nd_data ?n of
      YAML_SCALAR_NODE v style \<Rightarrow> yaml_emitter_dump_scalar emit ?n v style (nm i) ?em
    | YAML_SEQUENCE_NODE items style \<Rightarrow>
        yaml_emitter_dump_sequence emit (yaml_emitter_dump_node emit fuel d) ?n items style (nm i) ?em
    | YAML_MAPPING_NODE pairs style \<Rightarrow>
        yaml_emitter_dump_mapping emit (yaml_emitter_dump_node emit fuel d) ?n pairs style (nm i) ?em
    | YAML_NO_NODE \<Rightarrow> Crash)"
    unfolding name(1) [symmetric] using assms(2) name(2)
    by (cases "nd_data ?n") (simp_all add: Let_def anchor_name_def)
  have "node_ok (length (dc_nodes d)) False (nd_data ?n)"
    using assms(1,2) by (auto simp: document_wf_def nodes_ok_def in_document_def node_at_def elim!: allE [of _ "i - 1"])
  note coll = dumps_collection [OF assms(5,2,3,4)]
  show ?thesis
  proof (cases "nd_data ?n")
    case (YAML_SCALAR_NODE v style)
    then have "yaml_emitter_dump_node emit (Suc fuel) d i em = Done () (?em\<lparr>em_sink := s\<rparr>)"
      unfolding step using assms(7) by (auto simp: yaml_emitter_dump_scalar_def then_do_Done Let_def intro!: yaml_emitter_emit_Done)
    then show ?thesis using serialize_node [OF assms(4,2)] assms(6) YAML_SCALAR_NODE by simp
  next
    case (YAML_SEQUENCE_NODE items style)
    show ?thesis
      using assms(7) YAML_SEQUENCE_NODE unfolding step
      by (auto simp: yaml_emitter_dump_sequence_def Let_def simp del: emit_all_simps elim!: coll)
  next
    case (YAML_MAPPING_NODE pairs style)
    show ?thesis
      using assms(7) YAML_MAPPING_NODE unfolding step
      by (auto simp: yaml_emitter_dump_mapping_def Let_def for_each_pairs [of _ pairs _ style]
          simp del: emit_all_simps elim!: coll)
  qed (use \<open>node_ok _ _ _\<close> in simp)
qed

lemma dump_node_dumps:
  assumes "document_wf d"
  shows "unfold_node fuel d i S = Some (t, S') \<Longrightarrow> refs t \<subseteq> {j. nm j \<noteq> None} \<Longrightarrow>
    dumps emit d nm (yaml_emitter_dump_node emit fuel d i) S [t] S'"
proof (induction fuel arbitrary: i S t S')
  case (Suc fuel)
  have i: "in_document d i" using Suc(2) by (auto split: if_splits)
  show ?case
    unfolding dumps_def
  proof (intro allI impI)
    fix op cl em s
    assume ser: "serialized d nm op cl S em"
      and emit: "emit_all emit (concat (map (tree_events d nm) [t])) (em_sink em) = Done () s"
    show "\<exists>em'. yaml_emitter_dump_node emit (Suc fuel) d i em = Done () em' \<and> em_sink em' = s \<and> serialized d nm op cl S' em'"
    proof (cases "i \<in> S")
      case True
      then have "t = URef i" "S' = S" using Suc(2) i by auto
      moreover from this Suc(3) have "nm i \<noteq> None" by simp
      moreover have "emit_all emit (tree_events d nm (URef i)) (em_sink em) = Done () s" using emit calculation(1) by simp
      ultimately show ?thesis using dumps_alias [OF i True _ ser] by metis
    next
      case False
      then obtain ts where ts: "map_state (unfold_node fuel d) (node_refs (nd_data (node_at d i))) (insert i S) = Some (ts, S')"
        "t = UNode i ts"
        using Suc(2) i by (auto split: option.splits)
      have "dumps emit d nm (for_each (yaml_emitter_dump_node emit fuel d) (node_refs (nd_data (node_at d i)))) (insert i S) ts S'"
        using dumps_list [OF Suc(1) ts(1)] Suc(3) ts(2) by simp
      moreover have "emit_all emit (tree_events d nm (UNode i ts)) (em_sink em) = Done () s" using emit ts(2) by simp
      moreover have "S' = insert i S" if "node_refs (nd_data (node_at d i)) = []" using ts(1) that by simp
      ultimately show ?thesis using dump_node_first [OF assms i False ser] by blast
    qed
  qed
qed simp

section \<open>Names of anchors\<close>

lemma lit_inj: "lit s = lit t \<longleftrightarrow> s = t"
proof -
  have "inj (of_char :: char \<Rightarrow> 8 word)"
  proof (rule injI)
    fix c e assume "(of_char c :: 8 word) = of_char e"
    then have "(of_nat (of_char c) :: 8 word) = of_nat (of_char e)" by (simp only: of_nat_of_char)
    then have "(of_char c :: nat) mod 256 = of_char e mod 256"
      by (simp add: word_of_nat_eq_iff take_bit_eq_mod)
    then show "c = e" by (simp add: of_char_mod_256)
  qed
  then show ?thesis by (simp add: lit_def inj_map_eq_map)
qed

lemma val_of_zeros: "val_of 10 (replicate n (CHR ''0'') @ s) = val_of 10 s"
  by (induction n) (simp_all add: val_of_def digit_val_def)

lemma generate_anchor_inj:
  "yaml_emitter_generate_anchor a = yaml_emitter_generate_anchor b \<longleftrightarrow> a = b"
proof
  assume "yaml_emitter_generate_anchor a = yaml_emitter_generate_anchor b"
  then have "replicate (3 - length (fmt_u a)) (CHR ''0'') @ fmt_u a = replicate (3 - length (fmt_u b)) (CHR ''0'') @ fmt_u b"
    by (simp add: yaml_emitter_generate_anchor_def Let_def lit_inj)
  then have "val_of 10 (fmt_u a) = val_of 10 (fmt_u b)" using val_of_zeros by metis
  then show "a = b" by (simp add: val_of_fmt_u)
qed simp

section \<open>Dumping a document\<close>

text \<open>The names of the anchors of a document, after the visits \<open>vs\<close>: distinct, and for the nodes that are visited twice.\<close>

definition names_ok :: "yaml_document_t \<Rightarrow> nat list \<Rightarrow> (nat \<Rightarrow> ystr option) \<Rightarrow> bool" where
  "names_ok d vs nm \<longleftrightarrow> (\<forall>j. in_document d j \<longrightarrow> (nm j = None \<longleftrightarrow> count_list vs j < 2)) \<and>
     (\<forall>j k. in_document d j \<longrightarrow> in_document d k \<longrightarrow> nm j = nm k \<longrightarrow> nm j \<noteq> None \<longrightarrow> j = k)"

lemma names_ok_anchors:
  assumes "anchors_inv d vs em"
  shows "names_ok d vs (anchor_name em)"
proof -
  have zero: "an_anchor (anchor_at em j) = 0 \<longleftrightarrow> count_list vs j < 2" if "in_document d j" for j
    using assms that unfolding anchors_inv_def by blast
  have inj: "j = k" if "in_document d j" "in_document d k" "an_anchor (anchor_at em j) = an_anchor (anchor_at em k)"
    "an_anchor (anchor_at em j) \<noteq> 0" for j k
    using assms that unfolding anchors_inv_def by blast
  have "j = k" if "in_document d j" "in_document d k" "anchor_name em j = anchor_name em k" "anchor_name em j \<noteq> None" for j k
    using that inj [of j k] by (auto simp: anchor_name_def Let_def generate_anchor_inj split: if_splits)
  moreover have "anchor_name em j = None \<longleftrightarrow> count_list vs j < 2" if "in_document d j" for j
    using zero [OF that] by (auto simp: anchor_name_def Let_def)
  ultimately show ?thesis unfolding names_ok_def by blast
qed

lemma visits_in_document: "tree_of d t \<Longrightarrow> i \<in> set (visits t) \<Longrightarrow> in_document d i"
  by (induction t) auto

definition document_event :: "yaml_document_t \<Rightarrow> yaml_event_data" where
  "document_event d = YAML_DOCUMENT_START_EVENT (dc_version d) (dc_tags d) (dc_start_implicit d)"

definition fresh_emitter :: "'e yaml_emitter_t \<Rightarrow> bool" where
  "fresh_emitter em \<longleftrightarrow> em_anchors em = [] \<and> em_last_anchor_id em = 0"

lemma unfold_document:
  assumes "document_wf d" "dc_nodes d \<noteq> []"
  obtains t S where "unfold_node (Suc (length (dc_nodes d))) d 1 {} = Some (t, S)" "tree_of d t" "root t = 1" "unfolds {} [t] S"
proof -
  have "in_document d 1" using assms(2) by (cases "dc_nodes d") (auto simp: in_document_def)
  then obtain t S where t: "unfold_node (Suc (length (dc_nodes d))) d 1 {} = Some (t, S)"
    using unfold_total [OF assms(1), of 1 "{}" "Suc (length (dc_nodes d))"] unseen_card [of d "{}"] by auto
  then have u: "tree_of d t" "root t = 1" "unfolds {} [t] S" using unfold_node_unfolds by blast+
  then show thesis using t that by blast
qed

lemma refs_named:
  assumes "tree_of d t" "unfolds {} [t] S" "names_ok d (visits t) nm"
  shows "refs t \<subseteq> {j. nm j \<noteq> None}"
proof
  fix j assume j: "j \<in> refs t"
  then have "2 \<le> count_list (visits t) j" using unfoldsD(4) [OF assms(2), of t j] by simp
  moreover have "in_document d j" using j refs_visits visits_in_document [OF assms(1)] by blast
  ultimately show "j \<in> {j. nm j \<noteq> None}" using assms(3) by (auto simp: names_ok_def)
qed

lemma dump_document:
  assumes "document_wf d" "dc_nodes d \<noteq> []" "unfold_node (Suc (length (dc_nodes d))) d 1 {} = Some (t, S)"
  obtains nm where "names_ok d (visits t) nm"
    "\<And>emit (em :: 'e yaml_emitter_t) s. em_opened em \<Longrightarrow> fresh_emitter em \<Longrightarrow>
      emit_all emit (document_event d # tree_events d nm t @ [YAML_DOCUMENT_END_EVENT (dc_end_implicit d)]) (em_sink em) = Done () s \<Longrightarrow>
      yaml_emitter_dump emit d em = Done () (em\<lparr>em_sink := s\<rparr>)"
proof -
  define start :: "'e \<Rightarrow> bool \<Rightarrow> 'e yaml_emitter_t" where
    "start x cl = \<lparr>em_sink = x, em_opened = True, em_closed = cl,
       em_anchors = replicate (length (dc_nodes d)) no_anchor, em_last_anchor_id = 0\<rparr>" for x cl
  have tree: "tree_of d t" "unfolds {} [t] S" using unfold_node_unfolds [OF assms(3)] by auto
  have at: "anchor_at (start x cl) j = no_anchor" if "in_document d j" for x cl j
    using that by (auto simp: start_def anchor_at_def in_document_def)
  have "anchors_inv d [] (start x cl)" for x cl
    using at by (auto simp: anchors_inv_def no_anchor_def) (simp add: start_def)
  then have inv: "anchors_inv d (visits t) (fold note_ref (visits t) (start x cl))" for x cl
    using anchors_inv_fold [of d "[]" "start x cl" "visits t"] visits_in_document [OF tree(1)] by simp
  have counted: "counted d {} (start x cl)" for x cl
    using at by (auto simp: counted_def no_anchor_def) (simp add: start_def)
  define nm where "nm = anchor_name (fold note_ref (visits t) (start undefined False))"
  have nm: "anchor_name (fold note_ref (visits t) (start x cl)) = nm" for x cl
  proof -
    have "start x cl = (start undefined False)\<lparr>em_sink := x, em_closed := cl\<rparr>" by (simp add: start_def)
    then show ?thesis by (simp add: nm_def fold_note_ref_upd anchor_name_def anchor_at_def fun_eq_iff)
  qed
  show thesis
  proof (rule that [of nm])
    show "names_ok d (visits t) nm" unfolding nm_def by (rule names_ok_anchors [OF inv])
    fix emit and em :: "'e yaml_emitter_t" and s
    assume em: "em_opened em" "fresh_emitter em" and emit: "emit_all emit (document_event d # tree_events d nm t @
      [YAML_DOCUMENT_END_EVENT (dc_end_implicit d)]) (em_sink em) = Done () s"
    obtain s1 s2 where s1: "emit (em_sink em) (EVENT_INIT (document_event d) mark0 mark0) = Done () s1"
      and s2: "emit_all emit (concat (map (tree_events d nm) [t])) s1 = Done () s2"
      and s3: "emit s2 (EVENT_INIT (YAML_DOCUMENT_END_EVENT (dc_end_implicit d)) mark0 mark0) = Done () s"
      using emit by (auto simp: emit_all_append then_do_Done)
    let ?em1 = "start s1 (em_closed em)" and ?em2 = "fold note_ref (visits t) (start s1 (em_closed em))"
    have e1: "yaml_emitter_emit emit (document_event d) (em\<lparr>em_anchors := replicate (length (dc_nodes d)) no_anchor\<rparr>) = Done () ?em1"
      using s1 em by (simp add: yaml_emitter_emit_def start_def fresh_emitter_def)
    have e2: "yaml_emitter_anchor_node (Suc (length (dc_nodes d))) d 1 ?em1 = Done () ?em2"
      using anchor_node_visits [OF assms(3) counted] by blast
    have "serialized d nm True (em_closed em) {} ?em2"
      using inv [of s1 "em_closed em"] nm [of s1 "em_closed em"]
      by (auto simp: serialized_def anchors_inv_def start_def)
    moreover have "refs t \<subseteq> {j. nm j \<noteq> None}"
      using refs_named [OF tree] \<open>names_ok d (visits t) nm\<close> by blast
    ultimately obtain em3 where e3: "yaml_emitter_dump_node emit (Suc (length (dc_nodes d))) d 1 ?em2 = Done () em3"
      "em_sink em3 = s2" "serialized d nm True (em_closed em) S em3"
      using dumpsE [OF dump_node_dumps [OF assms(1,3)]] s2 by (metis fold_note_ref_sink(1) yaml_emitter_t.select_convs(1) start_def)
    have "yaml_emitter_emit emit (YAML_DOCUMENT_END_EVENT (dc_end_implicit d)) em3 = Done () (em3\<lparr>em_sink := s\<rparr>)"
      using s3 e3(2) by (simp add: yaml_emitter_emit_Done)
    moreover have "em_anchors em3 \<noteq> []" using e3(3) assms(2) by (auto simp: serialized_def)
    ultimately have "yaml_emitter_dump emit d em = Done () (em3\<lparr>em_sink := s, em_anchors := [], em_last_anchor_id := 0\<rparr>)"
      using em(1) assms(2) e1 e2 e3(1)
      by (simp add: yaml_emitter_dump_def Let_def clean_up_def document_event_def yaml_emitter_delete_document_and_anchors_def)
    then show "yaml_emitter_dump emit d em = Done () (em\<lparr>em_sink := s\<rparr>)"
      using em e3(3) by (cases em; cases em3) (simp add: serialized_def fresh_emitter_def)
  qed
qed

section \<open>The grammar of dumped events\<close>

lemma item_events_concat: "(\<And>x. x \<in> set xs \<Longrightarrow> node_events x) \<Longrightarrow> item_events (concat xs)"
  by (induction xs) (auto intro: no_items more_items)

lemma pair_events_concat:
  "(\<And>x. x \<in> set xs \<Longrightarrow> node_events x) \<Longrightarrow> length xs = 2 * n \<Longrightarrow> pair_events (concat xs)"
proof (induction n arbitrary: xs)
  case (Suc n)
  then obtain k v ys where "xs = k # v # ys" by (cases xs; cases "tl xs") auto
  then show ?case using Suc more_pairs [of k v "concat ys"] by simp
qed (simp add: no_pairs)

lemma length_pair_refs: "length (node_refs (YAML_MAPPING_NODE pairs st)) = 2 * length pairs"
  by (induction pairs) auto

lemma tree_events_node:
  assumes "document_wf d"
  shows "tree_of d t \<Longrightarrow> node_events (tree_events d nm t)"
proof (induction t)
  case (URef i)
  then show ?case by (simp add: leaf_node)
next
  case (UNode i ts)
  have sub: "node_events x" if "x \<in> set (map (tree_events d nm) ts)" for x using UNode that by auto
  have ok: "node_ok (length (dc_nodes d)) False (nd_data (node_at d i))"
    using assms UNode(2) by (auto simp: document_wf_def nodes_ok_def in_document_def node_at_def elim!: allE [of _ "i - 1"])
  show ?case
  proof (cases "nd_data (node_at d i)")
    case (YAML_SEQUENCE_NODE items st)
    moreover have "item_events (concat (map (tree_events d nm) ts))" by (rule item_events_concat) (rule sub)
    ultimately show ?thesis by (simp add: Let_def sequence_node)
  next
    case (YAML_MAPPING_NODE pairs st)
    have "length (map root ts) = 2 * length pairs"
      using UNode(2) YAML_MAPPING_NODE length_pair_refs [of pairs st] by simp
    then have "pair_events (concat (map (tree_events d nm) ts))"
      by (intro pair_events_concat [of _ "length pairs"]) (simp_all add: sub)
    then show ?thesis using YAML_MAPPING_NODE by (simp add: Let_def mapping_node)
  qed (use ok in \<open>simp_all add: Let_def leaf_node\<close>)
qed

text \<open>The emitter that records the events it is given.\<close>

definition record_event :: "yaml_event_t list emit_fun" where
  "record_event es e = Done () (es @ [e])"

lemma emit_all_record:
  "emit_all record_event ds es = Done () (es @ map (\<lambda>d. EVENT_INIT d mark0 mark0) ds)"
  by (induction ds arbitrary: es) (simp_all add: record_event_def)

definition emitter0 :: "yaml_event_t list yaml_emitter_t" where
  "emitter0 = \<lparr>em_sink = [], em_opened = False, em_closed = False, em_anchors = [], em_last_anchor_id = 0\<rparr>"

text \<open>The program \<open>tests/run-dumper.c\<close> dumps every document of a stream and closes the emitter.\<close>

definition dump_stream :: "'e emit_fun \<Rightarrow> yaml_document_t list \<Rightarrow> 'e yaml_emitter_t \<Rightarrow> 'e dump_outcome" where
  "dump_stream emit ds em = then_do (yaml_emitter_open emit em) (\<lambda>em.
     then_do (for_each (yaml_emitter_dump emit) ds em) (yaml_emitter_close emit))"

lemma dump_documents_events:
  assumes "list_all document_ok ds" "em_opened em" "fresh_emitter em"
  obtains es where "document_events es"
    "for_each (yaml_emitter_dump record_event) ds em =
       Done () (em\<lparr>em_sink := em_sink em @ map (\<lambda>d. EVENT_INIT d mark0 mark0) es\<rparr>)"
  using assms
proof (induction ds arbitrary: em thesis)
  case Nil
  then show ?case using no_documents by simp
next
  case (Cons d ds)
  have d: "document_wf d" "dc_nodes d \<noteq> []" using Cons(3) by (simp_all add: document_ok_def)
  obtain t S where t: "unfold_node (Suc (length (dc_nodes d))) d 1 {} = Some (t, S)" "tree_of d t"
    using unfold_document [OF d] by metis
  obtain nm where dump: "\<And>emit (em :: yaml_event_t list yaml_emitter_t) s. em_opened em \<Longrightarrow> fresh_emitter em \<Longrightarrow>
      emit_all emit (document_event d # tree_events d nm t @ [YAML_DOCUMENT_END_EVENT (dc_end_implicit d)]) (em_sink em) = Done () s \<Longrightarrow>
      yaml_emitter_dump emit d em = Done () (em\<lparr>em_sink := s\<rparr>)"
    using dump_document [OF d t(1)] by metis
  let ?doc = "document_event d # tree_events d nm t @ [YAML_DOCUMENT_END_EVENT (dc_end_implicit d)]"
  let ?em = "em\<lparr>em_sink := em_sink em @ map (\<lambda>d. EVENT_INIT d mark0 mark0) ?doc\<rparr>"
  have first: "yaml_emitter_dump record_event d em = Done () ?em"
    by (rule dump) (use Cons(4,5) in \<open>simp_all add: emit_all_record del: emit_all_simps\<close>)
  obtain es where es: "document_events es" "for_each (yaml_emitter_dump record_event) ds ?em =
      Done () (?em\<lparr>em_sink := em_sink ?em @ map (\<lambda>d. EVENT_INIT d mark0 mark0) es\<rparr>)"
    using Cons(1) [of ?em] Cons(3-5) by (auto simp: fresh_emitter_def)
  have "document_events (?doc @ es)"
    using more_documents [OF tree_events_node [OF d(1) t(2)] es(1)] by (simp add: document_event_def)
  then show ?case using Cons(2) [of "?doc @ es"] first es(2) by simp
qed

text \<open>C16: Dumping well-formed documents always succeeds when the emitter takes the events: the recursion over the
  nodes ends even on cyclic documents, and the events form a complete stream of the event grammar.\<close>

theorem dump_stream_grammar:
  assumes "list_all document_ok ds"
  shows "\<exists>es em. dump_stream record_event ds emitter0 = Done () em \<and> em_sink em = es \<and> stream_events (map ev_data es)"
proof -
  let ?ev = "\<lambda>d. EVENT_INIT d mark0 mark0"
  let ?em = "emitter0\<lparr>em_sink := [?ev (YAML_STREAM_START_EVENT YAML_ANY_ENCODING)], em_opened := True\<rparr>"
  obtain es where es: "document_events es" "for_each (yaml_emitter_dump record_event) ds ?em =
      Done () (?em\<lparr>em_sink := em_sink ?em @ map ?ev es\<rparr>)"
    using dump_documents_events [OF assms, of ?em] by (auto simp: fresh_emitter_def emitter0_def)
  then have "\<exists>em. dump_stream record_event ds emitter0 = Done () em \<and>
      em_sink em = map ?ev (YAML_STREAM_START_EVENT YAML_ANY_ENCODING # es @ [YAML_STREAM_END_EVENT])"
    by (simp add: dump_stream_def yaml_emitter_open_def yaml_emitter_close_def yaml_emitter_emit_def record_event_def emitter0_def)
  moreover have "stream_events (YAML_STREAM_START_EVENT YAML_ANY_ENCODING # es @ [YAML_STREAM_END_EVENT])"
    using es(1) by (auto simp: stream_events_def)
  ultimately show ?thesis by (auto simp: comp_def)
qed

text \<open>A document whose root sequence contains itself and, twice, a scalar.\<close>

definition cyclic_document :: yaml_document_t where
  "cyclic_document = document0\<lparr>dc_nodes :=
     [NODE_INIT (YAML_SEQUENCE_NODE [1, 2, 2] YAML_FLOW_SEQUENCE_STYLE) YAML_DEFAULT_SEQUENCE_TAG mark0 mark0,
      NODE_INIT (YAML_SCALAR_NODE [97] YAML_PLAIN_SCALAR_STYLE) YAML_DEFAULT_SCALAR_TAG mark0 mark0]\<rparr>"

theorem dump_stream_grammar_witness:
  "\<exists>es em. dump_stream record_event [cyclic_document] emitter0 = Done () em \<and> em_sink em = es \<and> stream_events (map ev_data es)"
proof (rule dump_stream_grammar)
  show "list_all document_ok [cyclic_document]"
    by (simp add: cyclic_document_def document_ok_def document_wf_def nodes_ok_def document0_def NODE_INIT_def
        less_Suc_eq numeral_2_eq_2)
qed

end
