(* ===== verification/Ly_Utf.thy ===== *)
theory Ly_Utf
  imports Ly_Types
begin

unbundle bit_operations_syntax

text \<open>
  The character encodings that the reader, the writer and the API of libyaml share: UTF-8 and UTF-16 as
  the C code computes them, with shifts and masks on \<open>unsigned int\<close> values (which stay below
  \<open>2 ^ 21\<close>, so they are integers here), and the laws that make them encodings.
\<close>

section \<open>Encoding and decoding\<close>

text \<open>The assignment of an integer to an \<open>unsigned char\<close>.\<close>

definition byte :: "int \<Rightarrow> yaml_char_t" where
  "byte v = word_of_int v"

text \<open>The octets that the reader puts into its buffer for a character.\<close>

definition utf8_bytes :: "int \<Rightarrow> ystr" where
  "utf8_bytes v =
     (if v \<le> 0x7F then [byte v]
      else if v \<le> 0x7FF then [byte (0xC0 + drop_bit 6 v), byte (0x80 + (v AND 0x3F))]
      else if v \<le> 0xFFFF then
        [byte (0xE0 + drop_bit 12 v), byte (0x80 + (drop_bit 6 v AND 0x3F)), byte (0x80 + (v AND 0x3F))]
      else [byte (0xF0 + drop_bit 18 v), byte (0x80 + (drop_bit 12 v AND 0x3F)),
            byte (0x80 + (drop_bit 6 v AND 0x3F)), byte (0x80 + (v AND 0x3F))])"

text \<open>The number of octets and the bits of a leading octet.\<close>

definition utf8_width :: "yaml_char_t \<Rightarrow> nat" where
  "utf8_width octet =
     (if uint octet AND 0x80 = 0 then 1 else if uint octet AND 0xE0 = 0xC0 then 2
      else if uint octet AND 0xF0 = 0xE0 then 3 else if uint octet AND 0xF8 = 0xF0 then 4 else 0)"

definition utf8_lead :: "yaml_char_t \<Rightarrow> int" where
  "utf8_lead octet =
     (if uint octet AND 0x80 = 0 then uint octet AND 0x7F
      else if uint octet AND 0xE0 = 0xC0 then uint octet AND 0x1F
      else if uint octet AND 0xF0 = 0xE0 then uint octet AND 0x0F
      else if uint octet AND 0xF8 = 0xF0 then uint octet AND 0x07 else 0)"

definition utf8_add :: "int \<Rightarrow> yaml_char_t \<Rightarrow> int" where
  "utf8_add v octet = push_bit 6 v + (uint octet AND 0x3F)"

definition trail_ok :: "yaml_char_t \<Rightarrow> bool" where
  "trail_ok octet \<longleftrightarrow> uint octet AND 0xC0 = 0x80"

text \<open>The value against the length of its sequence.\<close>

definition length_ok :: "nat \<Rightarrow> int \<Rightarrow> bool" where
  "length_ok width v \<longleftrightarrow> width = 1 \<or> width = 2 \<and> v \<ge> 0x80 \<or> width = 3 \<and> v \<ge> 0x800 \<or> width = 4 \<and> v \<ge> 0x10000"

definition surrogate :: "int \<Rightarrow> bool" where
  "surrogate v \<longleftrightarrow> 0xD800 \<le> v \<and> v \<le> 0xDFFF"

text \<open>The characters that the reader accepts.\<close>

definition allowed_char :: "int \<Rightarrow> bool" where
  "allowed_char v \<longleftrightarrow> v = 0x09 \<or> v = 0x0A \<or> v = 0x0D \<or> 0x20 \<le> v \<and> v \<le> 0x7E \<or> v = 0x85
     \<or> 0xA0 \<le> v \<and> v \<le> 0xD7FF \<or> 0xE000 \<le> v \<and> v \<le> 0xFFFD \<or> 0x10000 \<le> v \<and> v \<le> 0x10FFFF"

text \<open>UTF-16 as RFC 2781 defines it, the reference for the reader and the writer; \<open>le\<close> is little endian.\<close>

definition utf16_unit :: "bool \<Rightarrow> int \<Rightarrow> ystr" where
  "utf16_unit le u = (if le then [byte u, byte (u div 256)] else [byte (u div 256), byte u])"

definition utf16_bytes :: "bool \<Rightarrow> int \<Rightarrow> ystr" where
  "utf16_bytes le v =
     (if v < 0x10000 then utf16_unit le v
      else utf16_unit le (0xD800 + (v - 0x10000) div 1024) @ utf16_unit le (0xDC00 + (v - 0x10000) mod 1024))"

definition encode_char :: "yaml_encoding_t \<Rightarrow> int \<Rightarrow> ystr" where
  "encode_char enc = (case enc of
     YAML_UTF16LE_ENCODING \<Rightarrow> utf16_bytes True | YAML_UTF16BE_ENCODING \<Rightarrow> utf16_bytes False | _ \<Rightarrow> utf8_bytes)"

section \<open>Masks and shifts\<close>

lemma mask_simps:
  "(v :: int) AND 0x3F = v mod 64" "v AND 0x7F = v mod 128" "v AND 0x1F = v mod 32" "v AND 0x0F = v mod 16"
  "v AND 0x07 = v mod 8" "v AND 0x3FF = v mod 1024" "v AND 0xFF = v mod 256"
  using take_bit_eq_mask [of 6 v] take_bit_eq_mask [of 7 v] take_bit_eq_mask [of 5 v] take_bit_eq_mask [of 4 v]
    take_bit_eq_mask [of 3 v] take_bit_eq_mask [of 10 v] take_bit_eq_mask [of 8 v]
  by (simp_all add: take_bit_eq_mod mask_numeral)

lemma shift_simps:
  "drop_bit 6 (v :: int) = v div 64" "drop_bit 12 v = v div 4096" "drop_bit 18 v = v div 262144"
  "drop_bit 10 v = v div 1024" "drop_bit 8 v = v div 256"
  "push_bit 6 v = v * 64" "push_bit 8 v = v * 256" "push_bit 10 v = v * 1024"
  by (simp_all add: drop_bit_eq_div push_bit_eq_mult)

lemma octet_range: "0 \<le> uint (b :: 8 word) \<and> uint b < 256"
  using uint_lt2p [of b] by simp

lemma byte_all:
  assumes "list_all P [0..255]"
  shows "P (uint (b :: 8 word))"
  using assms octet_range [of b] by (simp add: list_all_iff)

lemma octet_class:
  "uint (b :: 8 word) AND 0x80 = 0 \<longleftrightarrow> uint b < 128"
  "uint b AND 0xE0 = 0xC0 \<longleftrightarrow> 192 \<le> uint b \<and> uint b < 224"
  "uint b AND 0xF0 = 0xE0 \<longleftrightarrow> 224 \<le> uint b \<and> uint b < 240"
  "uint b AND 0xF8 = 0xF0 \<longleftrightarrow> 240 \<le> uint b \<and> uint b < 248"
  "uint b AND 0xC0 = 0x80 \<longleftrightarrow> 128 \<le> uint b \<and> uint b < 192"
  by (rule byte_all, code_simp)+

lemma uint_byte_mod: "uint (byte v) = v mod 256"
  by (simp add: byte_def uint_word_of_int)

lemma uint_byte_small: "0 \<le> v \<Longrightarrow> v < 256 \<Longrightarrow> uint (byte v) = v"
  by (simp add: uint_byte_mod)

lemma byte_eq: "uint (b :: 8 word) = v mod 256 \<Longrightarrow> b = byte v"
  by (rule unsigned_word_eqI [where ?'a = int]) (simp add: uint_byte_mod)

lemmas utf_simps = mask_simps shift_simps octet_class

section \<open>UTF-8\<close>

lemma utf8_width_simps:
  "utf8_width b = (if uint b < 128 then 1 else if uint b < 192 then 0 else if uint b < 224 then 2
     else if uint b < 240 then 3 else if uint b < 248 then 4 else 0)"
  using octet_range [of b] by (simp add: utf8_width_def octet_class)

lemma utf8_lead_simps:
  "utf8_lead b = (if uint b < 128 then uint b else if uint b < 192 then 0 else if uint b < 224 then uint b - 192
     else if uint b < 240 then uint b - 224 else if uint b < 248 then uint b - 240 else 0)"
proof -
  have "x mod 32 = x - 192" if "192 \<le> x" "x < 224" for x :: int using that by presburger
  moreover have "x mod 16 = x - 224" if "224 \<le> x" "x < 240" for x :: int using that by presburger
  moreover have "x mod 8 = x - 240" if "240 \<le> x" "x < 248" for x :: int using that by presburger
  ultimately show ?thesis using octet_range [of b] by (simp add: utf8_lead_def octet_class mask_simps)
qed

lemma trail_ok_simps: "trail_ok b \<longleftrightarrow> 128 \<le> uint b \<and> uint b < 192"
  by (simp add: trail_ok_def octet_class)

lemma utf8_add_simps: "trail_ok b \<Longrightarrow> utf8_add v b = v * 64 + (uint b - 128)"
proof -
  have "x mod 64 = x - 128" if "128 \<le> x" "x < 192" for x :: int using that by presburger
  then show "trail_ok b \<Longrightarrow> ?thesis" by (simp add: utf8_add_def mask_simps shift_simps trail_ok_simps)
qed

text \<open>The octets of a character, as numbers.\<close>

lemma utf8_bytes_uint:
  assumes "0 \<le> v" "v < 0x200000"
  shows "map uint (utf8_bytes v) =
    (if v \<le> 0x7F then [v] else if v \<le> 0x7FF then [192 + v div 64, 128 + v mod 64]
     else if v \<le> 0xFFFF then [224 + v div 4096, 128 + v div 64 mod 64, 128 + v mod 64]
     else [240 + v div 262144, 128 + v div 4096 mod 64, 128 + v div 64 mod 64, 128 + v mod 64])"
proof -
  have "64 * (v div 64) \<le> v" "4096 * (v div 4096) \<le> v" "262144 * (v div 262144) \<le> v"
    "0 \<le> v div 64" "0 \<le> v div 4096" "0 \<le> v div 262144"
    using assms(1) by (simp_all add: pos_imp_zdiv_nonneg_iff)
  then have "v \<le> 0x7FF \<Longrightarrow> v div 64 < 64" "v \<le> 0xFFFF \<Longrightarrow> v div 4096 < 16" "v div 262144 < 8" "0 \<le> v div 64"
    "0 \<le> v div 4096" "0 \<le> v div 262144"
    using assms(2) by linarith+
  moreover have "x mod 64 < 64" "0 \<le> x mod 64" for x :: int by simp_all
  ultimately show ?thesis
    using assms by (simp add: utf8_bytes_def mask_simps shift_simps uint_byte_small less_imp_le add_strict_mono)
qed

end
