(* ===== verification/Ly_Writer.thy ===== *)
theory Ly_Writer
  imports Ly_Utf
begin

unbundle bit_operations_syntax

text \<open>
  The writer of libyaml (\<open>writer.c\<close>), with the macros of \<open>emitter.c\<close> that put octets into its buffer and the
  output to a string of \<open>api.c\<close>. The write handler is a parameter that takes its data and octets and says
  whether it has written them. Writing behind the end of a buffer is \<open>Crash\<close>. The state can be extended
  by the fields of the emitter.
\<close>

section \<open>The writer's part of the emitter object\<close>

datatype yaml_break_t = YAML_ANY_BREAK | YAML_CR_BREAK | YAML_LN_BREAK | YAML_CRLN_BREAK

definition OUTPUT_BUFFER_SIZE :: nat where
  "OUTPUT_BUFFER_SIZE = 16384"

definition OUTPUT_RAW_BUFFER_SIZE :: nat where
  "OUTPUT_RAW_BUFFER_SIZE = OUTPUT_BUFFER_SIZE * 2 + 2"

text \<open>Of \<open>buffer\<close> the octets from \<open>start\<close> to \<open>pointer\<close>, of \<open>raw_buffer\<close> those from \<open>start\<close> to \<open>last\<close>.\<close>

record 'd yaml_writer_t =
  wr_data :: 'd
  wr_encoding :: yaml_encoding_t
  wr_buf :: ystr
  wr_raw :: ystr
  wr_break :: yaml_break_t
  wr_column :: int
  wr_line :: int
  wr_error :: "(yaml_error_type_t \<times> string) option"

type_synonym 'd write_handler = "'d \<Rightarrow> ystr \<Rightarrow> bool \<times> 'd"
type_synonym ('d, 'x) write_outcome = "(unit, ('d, 'x) yaml_writer_t_scheme) outcome"

definition yaml_emitter_set_writer_error :: "('d, 'x) yaml_writer_t_scheme \<Rightarrow> string \<Rightarrow> ('d, 'x) write_outcome" where
  "yaml_emitter_set_writer_error w problem = Fail (w\<lparr>wr_error := Some (YAML_WRITER_ERROR, problem)\<rparr>)"

section \<open>Recoding and flushing\<close>

text \<open>The two or four octets that the loop stores for a value.\<close>

definition put_unit :: "bool \<Rightarrow> int \<Rightarrow> int \<Rightarrow> ystr" where
  "put_unit le high low = (if le then [byte low, byte high] else [byte high, byte low])"

definition utf16_put :: "bool \<Rightarrow> int \<Rightarrow> ystr" where
  "utf16_put le v =
     (if v < 0x10000 then put_unit le (drop_bit 8 v) (v AND 0xFF)
      else let v = v - 0x10000 in
        put_unit le (0xD8 + drop_bit 18 v) (drop_bit 10 v AND 0xFF) @
        put_unit le (0xDC + (drop_bit 8 v AND 0xFF)) (v AND 0xFF))"

text \<open>\<open>while (emitter->buffer.pointer != emitter->buffer.last)\<close>: the octets from \<open>pointer\<close> to \<open>last\<close> and the raw buffer;
  \<open>None\<close> when the loop leaves one of the buffers. An octet that begins no character does not move the
  pointer, and the loop fills the raw buffer to its end.\<close>

function recode_loop :: "bool \<Rightarrow> ystr \<Rightarrow> ystr \<Rightarrow> ystr option" where
  "recode_loop le bs raw =
     (if bs = [] then Some raw
      else let octet = hd bs; width = utf8_width octet in
        if width > length bs then None
        else let v = foldl utf8_add (utf8_lead octet) (take (width - 1) (tl bs)) in
          if length raw + length (utf16_put le v) > OUTPUT_RAW_BUFFER_SIZE then None
          else recode_loop le (drop width bs) (raw @ utf16_put le v))"
  by pat_completeness auto

lemma utf16_put_length: "length (utf16_put le v) = (if v < 0x10000 then 2 else 4)"
  by (simp add: utf16_put_def put_unit_def Let_def)

termination recode_loop
  by (relation "measure (\<lambda>(_, _, raw). OUTPUT_RAW_BUFFER_SIZE - length raw)")
     (auto simp: utf16_put_length split: if_splits)

declare recode_loop.simps [simp del]

definition yaml_emitter_flush :: "'d write_handler \<Rightarrow> ('d, 'x) yaml_writer_t_scheme \<Rightarrow> ('d, 'x) write_outcome" where
  "yaml_emitter_flush wh w =
     (if wr_encoding w = YAML_ANY_ENCODING then Crash
      else if wr_buf w = [] then Done () w
      else if wr_encoding w = YAML_UTF8_ENCODING then
        case wh (wr_data w) (wr_buf w) of
          (True, d) \<Rightarrow> Done () (w\<lparr>wr_data := d, wr_buf := []\<rparr>)
        | (False, d) \<Rightarrow> yaml_emitter_set_writer_error (w\<lparr>wr_data := d, wr_buf := []\<rparr>) ''write error''
      else case recode_loop (wr_encoding w = YAML_UTF16LE_ENCODING) (wr_buf w) (wr_raw w) of
        None \<Rightarrow> Crash
      | Some raw \<Rightarrow>
          (case wh (wr_data w) raw of
             (True, d) \<Rightarrow> Done () (w\<lparr>wr_data := d, wr_buf := [], wr_raw := []\<rparr>)
           | (False, d) \<Rightarrow> yaml_emitter_set_writer_error (w\<lparr>wr_data := d, wr_raw := raw\<rparr>) ''write error''))"

section \<open>Putting octets into the buffer\<close>

definition FLUSH :: "'d write_handler \<Rightarrow> ('d, 'x) yaml_writer_t_scheme \<Rightarrow> ('d, 'x) write_outcome" where
  "FLUSH wh w = (if length (wr_buf w) + 5 < OUTPUT_BUFFER_SIZE then Done () w else yaml_emitter_flush wh w)"

definition store_octets :: "ystr \<Rightarrow> ('d, 'x) yaml_writer_t_scheme \<Rightarrow> ('d, 'x) write_outcome" where
  "store_octets bs w =
     (if length (wr_buf w) + length bs > OUTPUT_BUFFER_SIZE then Crash else Done () (w\<lparr>wr_buf := wr_buf w @ bs\<rparr>))"

definition PUT :: "'d write_handler \<Rightarrow> int \<Rightarrow> ('d, 'x) yaml_writer_t_scheme \<Rightarrow> ('d, 'x) write_outcome" where
  "PUT wh v w = then_do (FLUSH wh w) (\<lambda>w. then_do (store_octets [byte v] w) (\<lambda>w. Done () (w\<lparr>wr_column := wr_column w + 1\<rparr>)))"

text \<open>\<open>COPY\<close> with its string: the number of octets that the first one announces. The string goes on behind them.\<close>

definition COPY :: "ystr \<Rightarrow> ('d, 'x) yaml_writer_t_scheme \<Rightarrow> ('d, 'x) write_outcome" where
  "COPY s w = (if s = [] \<or> utf8_width (hd s) > length s then Crash else store_octets (take (utf8_width (hd s)) s) w)"

definition MOVE :: "ystr \<Rightarrow> ystr" where
  "MOVE s = drop (utf8_width (hd s)) s"

definition WRITE :: "'d write_handler \<Rightarrow> ystr \<Rightarrow> ('d, 'x) yaml_writer_t_scheme \<Rightarrow> ('d, 'x) write_outcome" where
  "WRITE wh s w = then_do (FLUSH wh w) (\<lambda>w. then_do (COPY s w) (\<lambda>w. Done () (w\<lparr>wr_column := wr_column w + 1\<rparr>)))"

definition break_octets :: "yaml_break_t \<Rightarrow> ystr" where
  "break_octets b = (case b of YAML_CR_BREAK \<Rightarrow> [13] | YAML_LN_BREAK \<Rightarrow> [10] | YAML_CRLN_BREAK \<Rightarrow> [13, 10] | YAML_ANY_BREAK \<Rightarrow> [])"

definition yaml_emitter_put_break :: "'d write_handler \<Rightarrow> ('d, 'x) yaml_writer_t_scheme \<Rightarrow> ('d, 'x) write_outcome" where
  "yaml_emitter_put_break wh w = then_do (FLUSH wh w) (\<lambda>w.
     then_do (store_octets (break_octets (wr_break w)) w) (\<lambda>w. Done () (w\<lparr>wr_column := 0, wr_line := wr_line w + 1\<rparr>)))"

text \<open>The result of \<open>PUT_BREAK\<close> is not looked at here.\<close>

definition WRITE_BREAK :: "'d write_handler \<Rightarrow> ystr \<Rightarrow> ('d, 'x) yaml_writer_t_scheme \<Rightarrow> ('d, 'x) write_outcome" where
  "WRITE_BREAK wh s w = then_do (FLUSH wh w) (\<lambda>w.
     if s \<noteq> [] \<and> hd s = 10 then (case yaml_emitter_put_break wh w of Fail w' \<Rightarrow> Done () w' | out \<Rightarrow> out)
     else then_do (COPY s w) (\<lambda>w. Done () (w\<lparr>wr_column := 0, wr_line := wr_line w + 1\<rparr>)))"

definition yaml_emitter_write_bom :: "'d write_handler \<Rightarrow> ('d, 'x) yaml_writer_t_scheme \<Rightarrow> ('d, 'x) write_outcome" where
  "yaml_emitter_write_bom wh w = then_do (FLUSH wh w) (store_octets [0xEF, 0xBB, 0xBF])"

section \<open>Output to a string\<close>

record string_output =
  so_size :: nat
  so_written :: ystr

definition yaml_string_write_handler :: "string_output write_handler" where
  "yaml_string_write_handler s bs =
     (if so_size s - length (so_written s) < length bs
      then (False, s\<lparr>so_written := so_written s @ take (so_size s - length (so_written s)) bs\<rparr>)
      else (True, s\<lparr>so_written := so_written s @ bs\<rparr>))"

text \<open>The writer after \<open>yaml_emitter_initialize\<close> and \<open>yaml_emitter_set_output_string\<close>.\<close>

definition yaml_emitter_set_output_string :: "nat \<Rightarrow> string_output yaml_writer_t" where
  "yaml_emitter_set_output_string sz = \<lparr>wr_data = \<lparr>so_size = sz, so_written = []\<rparr>, wr_encoding = YAML_ANY_ENCODING, wr_buf = [],
     wr_raw = [], wr_break = YAML_ANY_BREAK, wr_column = 0, wr_line = 0, wr_error = None\<rparr>"

definition yaml_emitter_set_encoding :: "yaml_encoding_t \<Rightarrow> ('d, 'x) yaml_writer_t_scheme \<Rightarrow> ('d, 'x) write_outcome" where
  "yaml_emitter_set_encoding enc w = (if wr_encoding w \<noteq> YAML_ANY_ENCODING then Crash else Done () (w\<lparr>wr_encoding := enc\<rparr>))"

definition yaml_emitter_set_break :: "yaml_break_t \<Rightarrow> ('d, 'x) yaml_writer_t_scheme \<Rightarrow> ('d, 'x) yaml_writer_t_scheme" where
  "yaml_emitter_set_break b w = w\<lparr>wr_break := b\<rparr>"

end
