(* ===== verification/Ly_Reader.thy ===== *)
theory Ly_Reader
  imports Ly_Utf
begin

unbundle bit_operations_syntax

text \<open>
  The reader of libyaml (\<open>reader.c\<close>): it detects the encoding of its input and recodes it, piece by piece,
  into a UTF-8 buffer for the scanner. The read handler is a parameter that takes its data and a size and
  gives octets or fails; \<open>yaml_string_read_handler\<close> of \<open>api.c\<close> is one. Writing behind the end of a buffer is
  \<open>Crash\<close>.
\<close>

section \<open>The reader's part of the parser object\<close>

definition INPUT_RAW_BUFFER_SIZE :: nat where
  "INPUT_RAW_BUFFER_SIZE = 16384"

definition INPUT_BUFFER_SIZE :: nat where
  "INPUT_BUFFER_SIZE = INPUT_RAW_BUFFER_SIZE * 3"

text \<open>\<open>~(size_t)0 / 2\<close> for a 64-bit \<open>size_t\<close>.\<close>

definition MAX_FILE_SIZE :: nat where
  "MAX_FILE_SIZE = (2 ^ 64 - 1) div 2"

record reader_problem =
  rp_problem :: string
  rp_offset :: nat
  rp_value :: int

text \<open>Of \<open>raw_buffer\<close> and \<open>buffer\<close> the octets from \<open>pointer\<close> to \<open>last\<close> (\<open>rd_raw\<close>, \<open>rd_buf\<close>) and the distance from
  \<open>start\<close> to \<open>pointer\<close> (\<open>rd_raw_pos\<close>, \<open>rd_pos\<close>).\<close>

record 'd yaml_reader_t =
  rd_data :: 'd
  rd_raw :: ystr
  rd_raw_pos :: nat
  rd_eof :: bool
  rd_encoding :: yaml_encoding_t
  rd_offset :: nat
  rd_buf :: ystr
  rd_pos :: nat
  rd_unread :: nat
  rd_mark :: yaml_mark_t
  rd_error :: "reader_problem option"

type_synonym 'd read_handler = "'d \<Rightarrow> nat \<Rightarrow> (ystr \<times> 'd) option"
type_synonym 'd read_outcome = "(unit, 'd yaml_reader_t) outcome"

definition yaml_parser_set_reader_error :: "'d yaml_reader_t \<Rightarrow> string \<Rightarrow> nat \<Rightarrow> int \<Rightarrow> 'd read_outcome" where
  "yaml_parser_set_reader_error r problem offset v =
     Fail (r\<lparr>rd_error := Some \<lparr>rp_problem = problem, rp_offset = offset, rp_value = v\<rparr>\<rparr>)"

section \<open>The raw buffer\<close>

definition yaml_parser_update_raw_buffer :: "'d read_handler \<Rightarrow> 'd yaml_reader_t \<Rightarrow> 'd read_outcome" where
  "yaml_parser_update_raw_buffer rh r =
     (if rd_raw_pos r = 0 \<and> length (rd_raw r) = INPUT_RAW_BUFFER_SIZE then Done () r
      else if rd_eof r then Done () r
      else let r = r\<lparr>rd_raw_pos := 0\<rparr>; size = INPUT_RAW_BUFFER_SIZE - length (rd_raw r) in
        case rh (rd_data r) size of
          None \<Rightarrow> yaml_parser_set_reader_error r ''input error'' (rd_offset r) (-1)
        | Some (bs, d) \<Rightarrow>
            if length bs > size then Crash
            else Done () (r\<lparr>rd_data := d, rd_raw := rd_raw r @ bs, rd_eof := rd_eof r \<or> bs = []\<rparr>))"

text \<open>\<open>raw_buffer.pointer += n; offset += n\<close>.\<close>

definition skip_raw :: "nat \<Rightarrow> 'd yaml_reader_t \<Rightarrow> 'd yaml_reader_t" where
  "skip_raw n r = r\<lparr>rd_raw := drop n (rd_raw r), rd_raw_pos := rd_raw_pos r + n, rd_offset := rd_offset r + n\<rparr>"

definition BOM_UTF8 :: ystr where
  "BOM_UTF8 = [0xEF, 0xBB, 0xBF]"

definition BOM_UTF16LE :: ystr where
  "BOM_UTF16LE = [0xFF, 0xFE]"

definition BOM_UTF16BE :: ystr where
  "BOM_UTF16BE = [0xFE, 0xFF]"

text \<open>\<open>while (!parser->eof && .. < 3)\<close>.\<close>

function ensure_raw :: "'d read_handler \<Rightarrow> 'd yaml_reader_t \<Rightarrow> 'd read_outcome" where
  "ensure_raw rh r =
     (if \<not> rd_eof r \<and> length (rd_raw r) < 3 then
        case yaml_parser_update_raw_buffer rh r of
          Done _ r' \<Rightarrow> ensure_raw rh r' | Fail r' \<Rightarrow> Fail r' | Crash \<Rightarrow> Crash
      else Done () r)"
  by pat_completeness auto

lemma update_raw_grows:
  "yaml_parser_update_raw_buffer rh r = Done u r' \<Longrightarrow> \<not> rd_eof r \<Longrightarrow> length (rd_raw r) < 3 \<Longrightarrow>
     rd_eof r' \<or> length (rd_raw r) < length (rd_raw r')"
  by (auto simp: yaml_parser_update_raw_buffer_def Let_def INPUT_RAW_BUFFER_SIZE_def
      yaml_parser_set_reader_error_def split: if_splits option.splits)

termination ensure_raw
  by (relation "measure (\<lambda>(_, r). if rd_eof r then 0 else 4 - length (rd_raw r))")
     (auto dest!: update_raw_grows)

declare ensure_raw.simps [simp del]

definition has_prefix :: "ystr \<Rightarrow> ystr \<Rightarrow> bool" where
  "has_prefix p xs \<longleftrightarrow> length p \<le> length xs \<and> take (length p) xs = p"

definition set_encoding :: "yaml_encoding_t \<Rightarrow> ystr \<Rightarrow> 'd yaml_reader_t \<Rightarrow> 'd yaml_reader_t" where
  "set_encoding enc bom r = skip_raw (length bom) (r\<lparr>rd_encoding := enc\<rparr>)"

definition yaml_parser_determine_encoding :: "'d read_handler \<Rightarrow> 'd yaml_reader_t \<Rightarrow> 'd read_outcome" where
  "yaml_parser_determine_encoding rh r = then_do (ensure_raw rh r) (\<lambda>r.
     if has_prefix BOM_UTF16LE (rd_raw r) then Done () (set_encoding YAML_UTF16LE_ENCODING BOM_UTF16LE r)
     else if has_prefix BOM_UTF16BE (rd_raw r) then Done () (set_encoding YAML_UTF16BE_ENCODING BOM_UTF16BE r)
     else if has_prefix BOM_UTF8 (rd_raw r) then Done () (set_encoding YAML_UTF8_ENCODING BOM_UTF8 r)
     else Done () (r\<lparr>rd_encoding := YAML_UTF8_ENCODING\<rparr>))"

section \<open>One character\<close>

text \<open>A character with its width, too few octets, or a problem with the distance of its offset and its
  value.\<close>

datatype decoded = Char int nat | Incomplete | Bad string nat int

fun trail_loop :: "nat \<Rightarrow> ystr \<Rightarrow> int \<Rightarrow> nat \<times> yaml_char_t + int" where
  "trail_loop k [] v = Inr v"
| "trail_loop k (octet # bs) v =
     (if \<not> trail_ok octet then Inl (k, octet) else trail_loop (Suc k) bs (utf8_add v octet))"

definition utf8_decode :: "bool \<Rightarrow> ystr \<Rightarrow> decoded" where
  "utf8_decode eof raw =
     (let octet = hd raw; width = utf8_width octet in
      if width = 0 then Bad ''invalid leading UTF-8 octet'' 0 (uint octet)
      else if width > length raw then
        (if eof then Bad ''incomplete UTF-8 octet sequence'' 0 (-1) else Incomplete)
      else case trail_loop 1 (take (width - 1) (tl raw)) (utf8_lead octet) of
        Inl (k, octet) \<Rightarrow> Bad ''invalid trailing UTF-8 octet'' k (uint octet)
      | Inr v \<Rightarrow>
          if \<not> length_ok width v then Bad ''invalid length of a UTF-8 sequence'' 0 (-1)
          else if surrogate v \<or> v > 0x10FFFF then Bad ''invalid Unicode character'' 0 v
          else Char v width)"

text \<open>\<open>pointer[low+i] + (pointer[high+i] << 8)\<close>.\<close>

definition unit_at :: "bool \<Rightarrow> ystr \<Rightarrow> nat \<Rightarrow> int" where
  "unit_at le raw i = (let low = (if le then 0 else 1); high = (if le then 1 else 0) in
     uint (raw ! (low + i)) + push_bit 8 (uint (raw ! (high + i))))"

definition utf16_decode :: "bool \<Rightarrow> bool \<Rightarrow> ystr \<Rightarrow> decoded" where
  "utf16_decode le eof raw =
     (if length raw < 2 then (if eof then Bad ''incomplete UTF-16 character'' 0 (-1) else Incomplete)
      else let v = unit_at le raw 0 in
        if v AND 0xFC00 = 0xDC00 then Bad ''unexpected low surrogate area'' 0 v
        else if v AND 0xFC00 = 0xD800 then
          (if length raw < 4 then (if eof then Bad ''incomplete UTF-16 surrogate pair'' 0 (-1) else Incomplete)
           else let v2 = unit_at le raw 2 in
             if v2 AND 0xFC00 \<noteq> 0xDC00 then Bad ''expected low surrogate area'' 2 v2
             else Char (0x10000 + push_bit 10 (v AND 0x3FF) + (v2 AND 0x3FF)) 4)
        else Char v 2)"

definition decode_char :: "yaml_encoding_t \<Rightarrow> bool \<Rightarrow> ystr \<Rightarrow> decoded" where
  "decode_char enc eof raw = (case enc of
     YAML_UTF8_ENCODING \<Rightarrow> utf8_decode eof raw
   | YAML_UTF16LE_ENCODING \<Rightarrow> utf16_decode True eof raw
   | YAML_UTF16BE_ENCODING \<Rightarrow> utf16_decode False eof raw
   | YAML_ANY_ENCODING \<Rightarrow> Char 0 0)"

section \<open>The buffer\<close>

definition put_octets :: "ystr \<Rightarrow> 'd yaml_reader_t \<Rightarrow> 'd read_outcome" where
  "put_octets bs r =
     (if rd_pos r + length (rd_buf r) + length bs > INPUT_BUFFER_SIZE then Crash
      else Done () (r\<lparr>rd_buf := rd_buf r @ bs, rd_unread := Suc (rd_unread r)\<rparr>))"

text \<open>\<open>while (parser->raw_buffer.pointer != parser->raw_buffer.last)\<close>.\<close>

function decode_loop :: "'d yaml_reader_t \<Rightarrow> 'd read_outcome" where
  "decode_loop r =
     (if rd_raw r = [] then Done () r
      else case decode_char (rd_encoding r) (rd_eof r) (rd_raw r) of
        Incomplete \<Rightarrow> Done () r
      | Bad problem k v \<Rightarrow> yaml_parser_set_reader_error r problem (rd_offset r + k) v
      | Char v width \<Rightarrow>
          if \<not> allowed_char v then
            yaml_parser_set_reader_error r ''control characters are not allowed'' (rd_offset r) v
          else case put_octets (utf8_bytes v) (skip_raw width r) of
            Done _ r' \<Rightarrow> decode_loop r' | Fail r' \<Rightarrow> Fail r' | Crash \<Rightarrow> Crash)"
  by pat_completeness auto

lemma utf8_width_pos: "utf8_decode eof raw = Char v w \<Longrightarrow> 0 < w"
  by (auto simp: utf8_decode_def Let_def split: if_splits sum.splits prod.splits)

lemma decode_char_pos: "decode_char enc eof raw = Char v w \<Longrightarrow> allowed_char v \<Longrightarrow> 0 < w"
  by (cases enc) (auto simp: decode_char_def utf16_decode_def Let_def allowed_char_def dest: utf8_width_pos
      split: if_splits)

termination decode_loop
  by (relation "measure (\<lambda>r. length (rd_raw r))")
     (auto simp: put_octets_def skip_raw_def dest!: decode_char_pos split: if_splits)

declare decode_loop.simps [simp del]

text \<open>\<open>while (parser->unread < length)\<close>, and the check of the length of the input after it.\<close>

partial_function (option) fill_loop ::
  "'d read_handler \<Rightarrow> nat \<Rightarrow> bool \<Rightarrow> 'd yaml_reader_t \<Rightarrow> 'd read_outcome option" where
  "fill_loop rh n first r =
     (if rd_unread r \<ge> n then
        Some (if rd_offset r \<ge> MAX_FILE_SIZE then
                yaml_parser_set_reader_error r ''input is too long'' (rd_offset r) (-1)
              else Done () r)
      else case then_do (if \<not> first \<or> rd_raw r = [] then yaml_parser_update_raw_buffer rh r else Done () r) decode_loop of
        Done _ r' \<Rightarrow> if rd_eof r' then Some (put_octets [0] r') else fill_loop rh n False r'
      | Fail r' \<Rightarrow> Some (Fail r')
      | Crash \<Rightarrow> Some Crash)"

text \<open>The unread characters moved to the beginning of the buffer.\<close>

definition move_unread :: "'d yaml_reader_t \<Rightarrow> 'd yaml_reader_t" where
  "move_unread r =
     (if 0 < rd_pos r \<and> rd_buf r \<noteq> [] then r\<lparr>rd_pos := 0\<rparr>
      else if rd_buf r = [] then r\<lparr>rd_pos := 0\<rparr> else r)"

definition yaml_parser_update_buffer ::
  "'d read_handler \<Rightarrow> nat \<Rightarrow> 'd yaml_reader_t \<Rightarrow> 'd read_outcome option" where
  "yaml_parser_update_buffer rh n r =
     (if rd_eof r \<and> rd_raw r = [] then Some (Done () r)
      else if rd_unread r \<ge> n then Some (Done () r)
      else case (if rd_encoding r = YAML_ANY_ENCODING then yaml_parser_determine_encoding rh r else Done () r) of
        Done _ r' \<Rightarrow> fill_loop rh n True (move_unread r')
      | Fail r' \<Rightarrow> Some (Fail r')
      | Crash \<Rightarrow> Some Crash)"

section \<open>What the scanner takes\<close>

text \<open>\<open>CACHE\<close> ensures a number of characters in the buffer; \<open>SKIP\<close> goes over one character, whose width is in
  its first octet. Without a character in the buffer the counter and the pointer leave their ranges.\<close>

definition CACHE :: "'d read_handler \<Rightarrow> nat \<Rightarrow> 'd yaml_reader_t \<Rightarrow> 'd read_outcome option" where
  "CACHE rh n r = (if rd_unread r \<ge> n then Some (Done () r) else yaml_parser_update_buffer rh n r)"

definition SKIP :: "'d yaml_reader_t \<Rightarrow> 'd read_outcome" where
  "SKIP r =
     (if rd_buf r = [] \<or> rd_unread r = 0 then Crash
      else let w = utf8_width (hd (rd_buf r)) in
        Done () (r\<lparr>rd_mark := (rd_mark r)\<lparr>mk_index := Suc (mk_index (rd_mark r)), mk_column := Suc (mk_column (rd_mark r))\<rparr>,
          rd_unread := rd_unread r - 1, rd_buf := drop w (rd_buf r), rd_pos := rd_pos r + w\<rparr>))"

section \<open>Input from a string\<close>

text \<open>\<open>yaml_string_read_handler\<close>: the data is the rest of the string, from \<open>current\<close> to \<open>end\<close>.\<close>

definition yaml_string_read_handler :: "ystr read_handler" where
  "yaml_string_read_handler input sz =
     (if input = [] then Some ([], input)
      else let sz = (if sz > length input then length input else sz)
           in Some (take sz input, drop sz input))"

text \<open>The reader after \<open>yaml_parser_initialize\<close> and \<open>yaml_parser_set_input_string\<close>.\<close>

definition yaml_parser_set_input_string :: "ystr \<Rightarrow> ystr yaml_reader_t" where
  "yaml_parser_set_input_string input = \<lparr>rd_data = input, rd_raw = [], rd_raw_pos = 0, rd_eof = False,
     rd_encoding = YAML_ANY_ENCODING, rd_offset = 0, rd_buf = [], rd_pos = 0, rd_unread = 0, rd_mark = mark0,
     rd_error = None\<rparr>"

text \<open>\<open>yaml_parser_set_encoding\<close>, which asserts that no encoding is set yet.\<close>

definition yaml_parser_set_encoding :: "yaml_encoding_t \<Rightarrow> 'd yaml_reader_t \<Rightarrow> 'd read_outcome" where
  "yaml_parser_set_encoding enc r =
     (if rd_encoding r \<noteq> YAML_ANY_ENCODING then Crash else Done () (r\<lparr>rd_encoding := enc\<rparr>))"

end
