(* ===== verification/Ly_Reader_Laws.thy ===== *)
theory Ly_Reader_Laws
  imports Ly_Reader
begin

unbundle bit_operations_syntax

text \<open>
  The laws of the reader: the decoder of one character accepts exactly the encodings of characters, and
  the buffered reading, whatever the pieces in which the handler delivers the input, recodes exactly the
  characters of the input without ever writing behind a buffer.
\<close>

section \<open>One character of UTF-8\<close>

lemma uint_map_inj: "map uint (xs :: 8 word list) = map uint ys \<Longrightarrow> xs = ys"
  by (rule map_injective) (auto simp: inj_def intro: unsigned_word_eqI)

lemma utf8_add_split:
  assumes "trail_ok b"
  shows "utf8_add x b div 64 = x" "utf8_add x b mod 64 = uint b - 128" "0 \<le> x \<Longrightarrow> 0 \<le> utf8_add x b"
    "x \<le> n \<Longrightarrow> utf8_add x b \<le> n * 64 + 63"
proof -
  obtain y where y: "uint b = 128 + y" "0 \<le> y" "y < 64" using assms by (auto simp: trail_ok_simps intro: that [of "uint b - 128"])
  have "utf8_add x b = x * 64 + y" using utf8_add_simps [OF assms] y(1) by simp
  then show "utf8_add x b div 64 = x" "utf8_add x b mod 64 = uint b - 128" "0 \<le> x \<Longrightarrow> 0 \<le> utf8_add x b"
    "x \<le> n \<Longrightarrow> utf8_add x b \<le> n * 64 + 63"
    using y by simp_all
qed

lemma div_4096: "(v :: int) div 4096 = v div 64 div 64" "v div 262144 = v div 64 div 64 div 64"
  by (simp_all add: zdiv_zmult2_eq [symmetric])

lemma utf8_width_wide:
  assumes "0 \<le> v" "v < 0x200000"
  shows "utf8_width (hd (utf8_bytes v)) = length (utf8_bytes v)" "utf8_bytes v \<noteq> []" "length (utf8_bytes v) \<le> 4"
proof -
  show ne: "utf8_bytes v \<noteq> []" "length (utf8_bytes v) \<le> 4" by (simp_all add: utf8_bytes_def)
  have bounds: "0 \<le> v div 64" "0 \<le> v div 4096" "0 \<le> v div 262144" "v \<le> 0x7FF \<Longrightarrow> v div 64 < 32" "v \<le> 0xFFFF \<Longrightarrow> v div 4096 < 16"
    "v div 262144 < 8"
    using assms by (simp_all add: pos_imp_zdiv_nonneg_iff)
  obtain b bs where bs: "utf8_bytes v = b # bs" using ne by (cases "utf8_bytes v") auto
  have "uint b # map uint bs = (if v \<le> 0x7F then [v] else if v \<le> 0x7FF then [192 + v div 64, 128 + v mod 64]
     else if v \<le> 0xFFFF then [224 + v div 4096, 128 + v div 64 mod 64, 128 + v mod 64]
     else [240 + v div 262144, 128 + v div 4096 mod 64, 128 + v div 64 mod 64, 128 + v mod 64])"
    using utf8_bytes_uint [OF assms] bs by simp
  then have "utf8_width b = Suc (length bs)"
    using assms(1) bounds by (auto simp: utf8_width_simps split: if_splits)
  then show "utf8_width (hd (utf8_bytes v)) = length (utf8_bytes v)" using bs by simp
qed

lemma utf8_width_hd:
  assumes "0 \<le> v" "v \<le> 0x10FFFF"
  shows "utf8_width (hd (utf8_bytes v)) = length (utf8_bytes v)" "utf8_bytes v \<noteq> []" "length (utf8_bytes v) \<le> 4"
  using utf8_width_wide [of v] assms by simp_all

lemma trail_loop_Inr:
  "trail_loop k bs v = Inr v' \<longleftrightarrow> (\<forall>b \<in> set bs. trail_ok b) \<and> v' = foldl utf8_add v bs"
  by (induction bs arbitrary: k v) auto

text \<open>A leading octet with its trailing octets, of the right length, are the octets of their value.\<close>

lemma utf8_sequence:
  assumes w: "w = utf8_width b0" "0 < w" "w - 1 \<le> length bs" and ok: "\<forall>b \<in> set (take (w - 1) bs). trail_ok b"
    and v: "v = foldl utf8_add (utf8_lead b0) (take (w - 1) bs)" and len: "length_ok w v"
  shows "take w (b0 # bs) = utf8_bytes v \<and> 0 \<le> v \<and> v < 0x200000"
proof -
  let ?l = "utf8_lead b0"
  consider "w = 1" "uint b0 < 128" | "w = 2" "192 \<le> uint b0" "uint b0 < 224" | "w = 3" "224 \<le> uint b0" "uint b0 < 240"
    | "w = 4" "240 \<le> uint b0" "uint b0 < 248"
    using w(1,2) octet_range [of b0] by (auto simp: utf8_width_simps split: if_splits)
  then have "map uint (take w (b0 # bs)) = map uint (utf8_bytes v) \<and> 0 \<le> v \<and> v < 0x200000"
  proof cases
    case 1
    then show ?thesis using v octet_range [of b0] by (simp add: utf8_lead_simps utf8_bytes_uint)
  next
    case 2
    then obtain b1 r where bs: "bs = b1 # r" using w(3) by (cases bs) auto
    then have b1: "trail_ok b1" and v1: "v = utf8_add ?l b1" using ok v 2 by simp_all
    have l: "?l = uint b0 - 192" using 2 by (simp add: utf8_lead_simps)
    have "0 \<le> v" "v \<le> 0x7FF" using utf8_add_split(3) [OF b1, of ?l] utf8_add_split(4) [OF b1, of ?l 31] v1 l 2 by simp_all
    then show ?thesis using bs 2 len utf8_add_split(1,2) [OF b1] v1 l
      by (simp add: utf8_bytes_uint length_ok_def)
  next
    case 3
    then obtain b1 b2 r where bs: "bs = b1 # b2 # r" using w(3) by (cases bs; cases "tl bs") auto
    then have b: "trail_ok b1" "trail_ok b2" and v1: "v = utf8_add (utf8_add ?l b1) b2"
      using ok v 3 by (simp_all add: numeral_2_eq_2)
    have l: "?l = uint b0 - 224" using 3 by (simp add: utf8_lead_simps)
    have "0 \<le> v" "v \<le> 0xFFFF"
      using utf8_add_split(3) [OF b(2), of "utf8_add ?l b1"] utf8_add_split(4) [OF b(2), of "utf8_add ?l b1" 1023]
        utf8_add_split(3) [OF b(1), of ?l] utf8_add_split(4) [OF b(1), of ?l 15] v1 l 3 by simp_all
    then show ?thesis using bs 3 len utf8_add_split(1,2) [OF b(1)] utf8_add_split(1,2) [OF b(2)] v1 l
      by (simp add: utf8_bytes_uint length_ok_def div_4096)
  next
    case 4
    then obtain b1 b2 b3 r where bs: "bs = b1 # b2 # b3 # r" using w(3) by (cases bs; cases "tl bs"; cases "tl (tl bs)") auto
    then have b: "trail_ok b1" "trail_ok b2" "trail_ok b3" and v1: "v = utf8_add (utf8_add (utf8_add ?l b1) b2) b3"
      using ok v 4 by (simp_all add: numeral_3_eq_3)
    have l: "?l = uint b0 - 240" using 4 by (simp add: utf8_lead_simps)
    have "0 \<le> v" using utf8_add_split(3) [OF b(3)] utf8_add_split(3) [OF b(2)] utf8_add_split(3) [OF b(1)] v1 l 4 by simp
    moreover have "v \<le> 0x1FFFFF"
      using utf8_add_split(4) [OF b(3), of "utf8_add (utf8_add ?l b1) b2" 32767] utf8_add_split(4) [OF b(2), of "utf8_add ?l b1" 511]
        utf8_add_split(4) [OF b(1), of ?l 7] v1 l 4 by simp
    ultimately show ?thesis
      using bs 4 len utf8_add_split(1,2) [OF b(1)] utf8_add_split(1,2) [OF b(2)] utf8_add_split(1,2) [OF b(3)] v1 l
      by (simp add: utf8_bytes_uint length_ok_def div_4096)
  qed
  then show ?thesis using uint_map_inj by blast
qed

text \<open>What a successful decoding has read.\<close>

lemma utf8_decode_Char:
  assumes "utf8_decode eof raw = Char v w" "raw \<noteq> []"
  shows "w = utf8_width (hd raw)" "w \<le> length raw" "0 < w" "\<forall>b \<in> set (take (w - 1) (tl raw)). trail_ok b"
    "v = foldl utf8_add (utf8_lead (hd raw)) (take (w - 1) (tl raw))" "length_ok w v" "\<not> surrogate v" "v \<le> 0x10FFFF"
  using assms by (auto simp: utf8_decode_def Let_def trail_loop_Inr split: if_splits sum.splits prod.splits)

lemma utf8_decode_sound:
  assumes "utf8_decode eof raw = Char v w" "raw \<noteq> []"
  shows "take w raw = utf8_bytes v \<and> 0 \<le> v \<and> v \<le> 0x10FFFF"
proof -
  note d = utf8_decode_Char [OF assms]
  obtain b0 bs where raw: "raw = b0 # bs" using assms(2) by (cases raw) auto
  have "take w (b0 # bs) = utf8_bytes v \<and> 0 \<le> v \<and> v < 0x200000" by (rule utf8_sequence) (use d raw in auto)
  then show ?thesis using d(8) raw by simp
qed

text \<open>The octets of a character are decoded to the character.\<close>

lemma utf8_bytes_wide:
  assumes "0 \<le> v" "v < 0x200000" "utf8_bytes v = b # bs"
  shows "(\<forall>x \<in> set bs. trail_ok x) \<and> foldl utf8_add (utf8_lead b) bs = v \<and> length_ok (Suc (length bs)) v"
proof -
  have bounds: "0 \<le> v div 64" "0 \<le> v div 4096" "0 \<le> v div 262144" "v \<le> 0x7FF \<Longrightarrow> v div 64 < 32" "v \<le> 0xFFFF \<Longrightarrow> v div 4096 < 16"
    "v div 262144 < 8"
    using assms(1,2) by (simp_all add: pos_imp_zdiv_nonneg_iff)
  have eq: "uint b # map uint bs = (if v \<le> 0x7F then [v] else if v \<le> 0x7FF then [192 + v div 64, 128 + v mod 64]
     else if v \<le> 0xFFFF then [224 + v div 4096, 128 + v div 64 mod 64, 128 + v mod 64]
     else [240 + v div 262144, 128 + v div 4096 mod 64, 128 + v div 64 mod 64, 128 + v mod 64])"
    using utf8_bytes_uint [OF assms(1,2)] assms(3) by simp
  have trail: "0 \<le> x mod 64" "x mod 64 < 64" and join: "x div 64 * 64 + x mod 64 = x" for x :: int by simp_all
  have add: "trail_ok c \<and> utf8_add y c = y * 64 + x mod 64" if "uint c = 128 + x mod 64" for c y and x :: int
    using that trail [of x] by (auto simp: trail_ok_simps utf8_add_simps)
  consider "v \<le> 0x7F" | "0x7F < v" "v \<le> 0x7FF" | "0x7FF < v" "v \<le> 0xFFFF" | "0xFFFF < v" by linarith
  then show ?thesis
  proof cases
    case 1
    then show ?thesis using eq assms(1) by (simp add: utf8_lead_simps length_ok_def)
  next
    case 2
    then obtain c where c: "bs = [c]" "uint c = 128 + v mod 64" "uint b = 192 + v div 64" using eq by auto
    have l: "utf8_lead b = v div 64" using c(3) bounds 2 by (simp add: utf8_lead_simps)
    show ?thesis using 2 c(1) l add [OF c(2)] by (simp add: length_ok_def join)
  next
    case 3
    then obtain c d where c: "bs = [c, d]" "uint c = 128 + v div 64 mod 64" "uint d = 128 + v mod 64" "uint b = 224 + v div 4096"
      using eq by auto
    have l: "utf8_lead b = v div 64 div 64" using c(4) bounds 3 by (simp add: utf8_lead_simps div_4096(1) [symmetric])
    show ?thesis using 3 c(1) l add [OF c(2)] add [OF c(3)] by (simp add: length_ok_def join)
  next
    case 4
    then obtain c d e where c: "bs = [c, d, e]" "uint c = 128 + v div 64 div 64 mod 64" "uint d = 128 + v div 64 mod 64"
      "uint e = 128 + v mod 64" "uint b = 240 + v div 262144"
      using eq by (auto simp: div_4096(1) [symmetric])
    have l: "utf8_lead b = v div 64 div 64 div 64" using c(5) bounds 4 by (simp add: utf8_lead_simps div_4096(2) [symmetric])
    show ?thesis using 4 c(1) l add [OF c(2)] add [OF c(3)] add [OF c(4)] by (simp add: length_ok_def join)
  qed
qed

lemma utf8_bytes_fold:
  assumes "0 \<le> v" "v \<le> 0x10FFFF" "utf8_bytes v = b # bs"
  shows "(\<forall>x \<in> set bs. trail_ok x) \<and> foldl utf8_add (utf8_lead b) bs = v \<and> length_ok (Suc (length bs)) v"
  using utf8_bytes_wide [of v b bs] assms by simp

lemma utf8_decode_complete:
  assumes "0 \<le> v" "v \<le> 0x10FFFF" "\<not> surrogate v"
  shows "utf8_decode eof (utf8_bytes v @ rest) = Char v (length (utf8_bytes v))"
proof -
  obtain b bs where bs: "utf8_bytes v = b # bs" using utf8_width_hd(2) [OF assms(1,2)] by (cases "utf8_bytes v") auto
  have w: "utf8_width b = Suc (length bs)" using utf8_width_hd(1) [OF assms(1,2)] bs by simp
  have "trail_loop 1 bs (utf8_lead b) = Inr v" using utf8_bytes_fold [OF assms(1,2) bs] by (simp add: trail_loop_Inr)
  then show ?thesis using utf8_bytes_fold [OF assms(1,2) bs] assms bs w by (simp add: utf8_decode_def Let_def)
qed

lemma utf8_decode_prefix:
  assumes "0 \<le> v" "v \<le> 0x10FFFF" "utf8_bytes v = p @ q" "p \<noteq> []" "q \<noteq> []"
  shows "utf8_decode False p = Incomplete"
proof -
  have "hd (utf8_bytes v) = hd p" using assms(3,4) by simp
  then have "utf8_width (hd p) = length p + length q" using utf8_width_hd(1) [OF assms(1,2)] assms(3) by simp
  then show ?thesis using assms(4,5) by (simp add: utf8_decode_def Let_def)
qed

lemma utf8_decode_Incomplete: "utf8_decode eof raw = Incomplete \<Longrightarrow> \<not> eof \<and> length raw < 4"
  by (auto simp: utf8_decode_def Let_def utf8_width_simps split: if_splits sum.splits prod.splits)

section \<open>One character of UTF-16\<close>

lemma mask_shift: "push_bit n (drop_bit n v) AND push_bit n m = (v :: int) AND push_bit n m"
  by (rule bit_eqI) (auto simp: bit_simps)

lemma mask_FC00: "(v :: int) AND 0xFC00 = v div 1024 mod 64 * 1024"
proof -
  have "push_bit 10 (drop_bit 10 v AND 0x3F) = push_bit 10 (drop_bit 10 v) AND push_bit 10 0x3F" by (simp only: push_bit_and)
  also have "\<dots> = v AND push_bit 10 0x3F" by (rule mask_shift)
  finally show ?thesis by (simp add: mask_simps shift_simps)
qed

lemma surrogate_units:
  assumes "0 \<le> v" "v < (65536 :: int)"
  shows "v AND 0xFC00 = 0xDC00 \<longleftrightarrow> 0xDC00 \<le> v \<and> v \<le> 0xDFFF" "v AND 0xFC00 = 0xD800 \<longleftrightarrow> 0xD800 \<le> v \<and> v \<le> 0xDBFF"
proof -
  have "0 \<le> v div 1024" "v div 1024 < 64" using assms by (simp_all add: pos_imp_zdiv_nonneg_iff)
  then have m: "v AND 0xFC00 = v div 1024 * 1024" by (simp add: mask_FC00)
  have "v = v div 1024 * 1024 + v mod 1024" "0 \<le> v mod 1024" "v mod 1024 < 1024" by simp_all
  then obtain q x where "v div 1024 = q" "v = q * 1024 + x" "0 \<le> x" "x < 1024" by blast
  then show "v AND 0xFC00 = 0xDC00 \<longleftrightarrow> 0xDC00 \<le> v \<and> v \<le> 0xDFFF" "v AND 0xFC00 = 0xD800 \<longleftrightarrow> 0xD800 \<le> v \<and> v \<le> 0xDBFF"
    unfolding m by auto
qed

lemma unit_of_octets:
  assumes "0 \<le> x" "x < 256" "0 \<le> y" "y < (256 :: int)"
  shows "(x + y * 256) mod 256 = x" "(x + y * 256) div 256 = y" "0 \<le> x + y * 256" "x + y * 256 < 65536"
  using assms by auto

lemma unit_at_Cons: "unit_at le (a # b # xs) 0 = (if le then uint a + uint b * 256 else uint b + uint a * 256)"
  by (simp add: unit_at_def shift_simps)

lemma unit_at_skip: "unit_at le (a # b # xs) 2 = unit_at le xs 0"
  by (simp add: unit_at_def numeral_2_eq_2 Let_def)

lemma unit_at_range: "0 \<le> unit_at le (a # b # xs) 0 \<and> unit_at le (a # b # xs) 0 < 65536"
  using octet_range [of a] octet_range [of b] by (simp add: unit_at_Cons)

lemma utf16_unit_at: "utf16_unit le (unit_at le (a # b # xs) 0) = [a, b]"
  using octet_range [of a] octet_range [of b] unit_of_octets [of "uint a" "uint b"] unit_of_octets [of "uint b" "uint a"]
  by (auto simp: unit_at_Cons utf16_unit_def uint_byte_mod intro!: unsigned_word_eqI [where ?'a = int])

lemma unit_at_utf16: "0 \<le> u \<Longrightarrow> u < 65536 \<Longrightarrow> unit_at le (utf16_unit le u @ xs) 0 = u"
proof -
  assume u: "0 \<le> u" "u < 65536"
  then have "u div 256 mod 256 = u div 256" by simp
  moreover have "u mod 256 + u div 256 * 256 = u" by simp
  ultimately show ?thesis by (simp add: utf16_unit_def unit_at_Cons uint_byte_mod)
qed

lemma utf16_unit_Cons: obtains a b where "utf16_unit le u = [a, b]"
  by (cases le) (simp_all add: utf16_unit_def that)

lemma surrogate_pair:
  assumes "0xD800 \<le> h" "h \<le> 0xDBFF" "0xDC00 \<le> l" "l \<le> (0xDFFF :: int)"
  shows "0xD800 + (push_bit 10 (h AND 0x3FF) + (l AND 0x3FF)) div 1024 = h" "0xDC00 + (push_bit 10 (h AND 0x3FF) + (l AND 0x3FF)) mod 1024 = l"
    "0 \<le> push_bit 10 (h AND 0x3FF) + (l AND 0x3FF)" "push_bit 10 (h AND 0x3FF) + (l AND 0x3FF) < 0x100000"
proof -
  obtain x y where xy: "h = 0xD800 + x" "l = 0xDC00 + y" "0 \<le> x" "x < 1024" "0 \<le> y" "y < 1024"
    using assms by (intro that [of "h - 0xD800" "l - 0xDC00"]) auto
  have "h AND 0x3FF = x" "l AND 0x3FF = y" using xy mod_mult_self1 [of x 54 1024] mod_mult_self1 [of y 55 1024]
    by (simp_all add: mask_simps add.commute)
  then show "0xD800 + (push_bit 10 (h AND 0x3FF) + (l AND 0x3FF)) div 1024 = h" "0xDC00 + (push_bit 10 (h AND 0x3FF) + (l AND 0x3FF)) mod 1024 = l"
    "0 \<le> push_bit 10 (h AND 0x3FF) + (l AND 0x3FF)" "push_bit 10 (h AND 0x3FF) + (l AND 0x3FF) < 0x100000"
    using xy by (simp_all add: shift_simps)
qed

lemma utf16_decode_sound:
  assumes "utf16_decode le eof raw = Char v w"
  shows "take w raw = utf16_bytes le v \<and> w \<le> length raw \<and> 0 \<le> v \<and> v \<le> 0x10FFFF \<and> \<not> surrogate v"
proof -
  obtain a b xs where raw: "raw = a # b # xs"
    using assms by (cases raw; cases "tl raw") (auto simp: utf16_decode_def split: if_splits)
  note r = unit_at_range [of le a b xs]
  let ?u = "unit_at le (a # b # xs) 0"
  note s = surrogate_units [of ?u, OF conjunct1 [OF r] conjunct2 [OF r]]
  show ?thesis
  proof (cases "0xD800 \<le> ?u \<and> ?u \<le> 0xDFFF")
    case False
    then have "v = ?u" "w = 2" using assms s by (auto simp: utf16_decode_def raw Let_def split: if_splits)
    then show ?thesis using False r utf16_unit_at [of le a b xs] by (auto simp: raw utf16_bytes_def surrogate_def numeral_2_eq_2)
  next
    case True
    then have h: "0xD800 \<le> ?u" "?u \<le> 0xDBFF" "\<not> length xs < 2"
      using assms s by (auto simp: utf16_decode_def raw Let_def split: if_splits)
    then obtain c d ys where xs: "xs = c # d # ys" by (cases xs; cases "tl xs") auto
    let ?l = "unit_at le (c # d # ys) 0"
    note r' = unit_at_range [of le c d ys]
    note s' = surrogate_units [of ?l, OF conjunct1 [OF r'] conjunct2 [OF r']]
    have l: "0xDC00 \<le> ?l" "?l \<le> 0xDFFF" and v: "v = 0x10000 + (push_bit 10 (?u AND 0x3FF) + (?l AND 0x3FF))" "w = 4"
      using assms s s' h by (auto simp: utf16_decode_def raw xs unit_at_skip Let_def split: if_splits)
    obtain x where "v = 0x10000 + x" "0xD800 + x div 1024 = ?u" "0xDC00 + x mod 1024 = ?l" "0 \<le> x" "x < 0x100000"
      using surrogate_pair [OF h(1,2) l] v(1) by blast
    then show ?thesis using utf16_unit_at [of le a b xs] utf16_unit_at [of le c d ys] v(2)
      by (simp add: raw xs utf16_bytes_def surrogate_def)
  qed
qed

lemma utf16_decode_complete:
  assumes "0 \<le> v" "v \<le> 0x10FFFF" "\<not> surrogate v"
  shows "utf16_decode le eof (utf16_bytes le v @ rest) = Char v (length (utf16_bytes le v))"
proof (cases "v < 0x10000")
  case True
  obtain a b where ab: "utf16_unit le v = [a, b]" by (rule utf16_unit_Cons)
  have u: "unit_at le (a # b # rest) 0 = v" using unit_at_utf16 [of v le rest] ab True assms(1) by simp
  have "\<not> (v AND 0xFC00 = 0xDC00)" "\<not> (v AND 0xFC00 = 0xD800)"
    using surrogate_units [of v] assms(1,3) True by (auto simp: surrogate_def)
  then show ?thesis using u ab True by (simp add: utf16_bytes_def utf16_decode_def Let_def)
next
  case False
  obtain x where x: "v = 0x10000 + x" "0 \<le> x" "x < 0x100000" using False assms by (intro that [of "v - 0x10000"]) auto
  let ?h = "0xD800 + x div 1024" and ?l = "0xDC00 + x mod 1024"
  have d: "0 \<le> x div 1024" "x div 1024 < 1024" "0 \<le> x mod 1024" "x mod 1024 < 1024"
    using x by (simp_all add: pos_imp_zdiv_nonneg_iff)
  obtain a b c e where ab: "utf16_unit le ?h = [a, b]" "utf16_unit le ?l = [c, e]" by (metis utf16_unit_Cons)
  have u: "unit_at le (a # b # c # e # rest) 0 = ?h" "unit_at le (a # b # c # e # rest) 2 = ?l"
    using unit_at_utf16 [of ?h le "c # e # rest"] unit_at_utf16 [of ?l le rest] ab d by (simp_all add: unit_at_skip)
  have s: "?h AND 0xFC00 = 0xD800" "?l AND 0xFC00 = 0xDC00" using surrogate_units [of ?h] surrogate_units [of ?l] d by simp_all
  have "(0xD800 + y) mod 1024 = y" "(0xDC00 + y) mod 1024 = y" if "0 \<le> y" "y < 1024" for y :: int
    using that mod_mult_self1 [of y 54 1024] mod_mult_self1 [of y 55 1024] by (simp_all add: add.commute)
  then have "?h AND 0x3FF = x div 1024" "?l AND 0x3FF = x mod 1024" using d by (simp_all only: mask_simps)
  then have m: "push_bit 10 (?h AND 0x3FF) + (?l AND 0x3FF) = x" by (simp add: shift_simps)
  show ?thesis using x(1) False ab u s m by (simp add: utf16_bytes_def utf16_decode_def Let_def)
qed

lemma utf16_decode_prefix:
  assumes "0 \<le> v" "v \<le> 0x10FFFF" "utf16_bytes le v = p @ q" "p \<noteq> []" "q \<noteq> []"
  shows "utf16_decode le False p = Incomplete"
proof (cases "length p < 2")
  case True
  then show ?thesis by (simp add: utf16_decode_def)
next
  case False
  then obtain a b xs where p: "p = a # b # xs" by (cases p; cases "tl p") auto
  obtain c d where cd: "utf16_unit le v = [c, d]" by (rule utf16_unit_Cons)
  have v: "0x10000 \<le> v" using assms(3,5) cd p by (auto simp: utf16_bytes_def split: if_splits)
  let ?h = "0xD800 + (v - 0x10000) div 1024" and ?l = "0xDC00 + (v - 0x10000) mod 1024"
  have h: "0 \<le> (v - 0x10000) div 1024" "(v - 0x10000) div 1024 < 1024" using assms(2) v by (simp_all add: pos_imp_zdiv_nonneg_iff)
  obtain e f g k where eq: "utf16_unit le ?h = [e, f]" "utf16_unit le ?l = [g, k]" by (metis utf16_unit_Cons)
  then have ab: "utf16_unit le ?h = [a, b]" "length xs < 2" using assms(3,5) p v by (auto simp: utf16_bytes_def Cons_eq_append_conv)
  have "unit_at le (a # b # xs) 0 = ?h" using unit_at_utf16 [of ?h le xs] ab h by simp
  moreover have "?h AND 0xFC00 = 0xD800" using surrogate_units [of ?h] h by simp
  ultimately show ?thesis using p ab(2) by (simp add: utf16_decode_def Let_def)
qed

lemma utf16_decode_Incomplete: "utf16_decode le eof raw = Incomplete \<Longrightarrow> \<not> eof \<and> length raw < 4"
  by (auto simp: utf16_decode_def Let_def split: if_splits)

section \<open>One character of any encoding\<close>

lemma allowed_scalar: "allowed_char v \<Longrightarrow> 0 \<le> v \<and> v \<le> 0x10FFFF \<and> \<not> surrogate v"
  by (auto simp: allowed_char_def surrogate_def)

lemma decode_char_sound:
  assumes "decode_char enc eof raw = Char v w" "raw \<noteq> []" "enc \<noteq> YAML_ANY_ENCODING"
  shows "raw = encode_char enc v @ drop w raw \<and> w = length (encode_char enc v) \<and> 0 < w"
proof -
  have "take w raw = encode_char enc v \<and> w \<le> length raw"
    using assms utf8_decode_sound [of eof raw v w] utf8_decode_Char(2) [of eof raw v w] utf16_decode_sound [of _ eof raw v w]
    by (cases enc) (auto simp: decode_char_def encode_char_def)
  moreover have "0 < w" using assms utf8_width_pos by (cases enc) (auto simp: decode_char_def utf16_decode_def Let_def split: if_splits)
  ultimately show ?thesis by (metis append_take_drop_id length_take min.absorb2)
qed

lemma decode_char_complete:
  "allowed_char v \<Longrightarrow> enc \<noteq> YAML_ANY_ENCODING \<Longrightarrow>
     decode_char enc eof (encode_char enc v @ rest) = Char v (length (encode_char enc v))"
  using allowed_scalar [of v] by (cases enc) (simp_all add: decode_char_def encode_char_def utf8_decode_complete utf16_decode_complete)

lemma decode_char_prefix:
  "allowed_char v \<Longrightarrow> enc \<noteq> YAML_ANY_ENCODING \<Longrightarrow> encode_char enc v = p @ q \<Longrightarrow> p \<noteq> [] \<Longrightarrow> q \<noteq> [] \<Longrightarrow>
     decode_char enc False p = Incomplete"
  using allowed_scalar [of v]
  by (cases enc) (auto simp: decode_char_def encode_char_def dest: utf8_decode_prefix utf16_decode_prefix)

lemma decode_char_Incomplete: "decode_char enc eof raw = Incomplete \<Longrightarrow> \<not> eof \<and> length raw < 4"
  by (cases enc) (auto simp: decode_char_def dest: utf8_decode_Incomplete utf16_decode_Incomplete)

text \<open>A character takes at most half as much room again in the buffer as in the input.\<close>

lemma recode_growth:
  "2 * length (utf8_bytes v) \<le> 3 * length (encode_char enc v)" "encode_char enc v \<noteq> []" "utf8_bytes v \<noteq> []" "length (utf8_bytes v) \<le> 4"
  by (cases enc; simp add: encode_char_def utf8_bytes_def utf16_bytes_def utf16_unit_def)+

end
