(* ===== verification/Ly_Reader_Stream.thy ===== *)
theory Ly_Reader_Stream
  imports Ly_Reader_Laws
begin

text \<open>
  The buffered reading of a whole input. Whatever the pieces in which the read handler delivers it, and
  whatever the scanner takes in between, the octets that go through the buffer are the UTF-8 encoding of
  the characters of the input, with a NUL behind the last; the reading returns, stays within its buffers
  and refuses exactly what does not begin with an encoded character. The contract of the read handler is
  the locale \<open>byte_source\<close>, which the handler for strings satisfies.
\<close>

section \<open>Decoding the raw buffer\<close>

definition encode_text :: "yaml_encoding_t \<Rightarrow> int list \<Rightarrow> ystr" where
  "encode_text enc cs = concat (map (encode_char enc) cs)"

abbreviation utf8_text :: "int list \<Rightarrow> ystr" where
  "utf8_text \<equiv> encode_text YAML_UTF8_ENCODING"

lemma encode_text_simps [simp]:
  "encode_text enc [] = []" "encode_text enc (v # cs) = encode_char enc v @ encode_text enc cs"
  "encode_text enc (cs @ ds) = encode_text enc cs @ encode_text enc ds"
  by (simp_all add: encode_text_def)

lemma encode_char_utf8 [simp]: "encode_char YAML_UTF8_ENCODING v = utf8_bytes v"
  by (simp add: encode_char_def)

text \<open>The reader after it has recoded the characters \<open>cs\<close>.\<close>

definition recoded :: "int list \<Rightarrow> 'd yaml_reader_t \<Rightarrow> 'd yaml_reader_t" where
  "recoded cs r = (let k = length (encode_text (rd_encoding r) cs) in
     r\<lparr>rd_raw := drop k (rd_raw r), rd_raw_pos := rd_raw_pos r + k, rd_offset := rd_offset r + k,
       rd_buf := rd_buf r @ utf8_text cs, rd_unread := rd_unread r + length cs\<rparr>)"

lemma recoded_simps [simp]:
  "rd_data (recoded cs r) = rd_data r" "rd_eof (recoded cs r) = rd_eof r" "rd_encoding (recoded cs r) = rd_encoding r"
  "rd_pos (recoded cs r) = rd_pos r" "rd_mark (recoded cs r) = rd_mark r"
  "rd_buf (recoded cs r) = rd_buf r @ utf8_text cs" "rd_unread (recoded cs r) = rd_unread r + length cs"
  "rd_offset (recoded cs r) = rd_offset r + length (encode_text (rd_encoding r) cs)"
  "rd_raw (recoded cs r) = drop (length (encode_text (rd_encoding r) cs)) (rd_raw r)"
  by (simp_all add: recoded_def Let_def)

lemma recoded_Nil [simp]: "recoded [] r = r"
  by (simp add: recoded_def)

lemma recoded_Cons:
  "recoded (v # cs) r = recoded cs ((skip_raw (length (encode_char (rd_encoding r) v)) r)
     \<lparr>rd_buf := rd_buf r @ utf8_bytes v, rd_unread := Suc (rd_unread r)\<rparr>)"
  by (simp add: recoded_def skip_raw_def Let_def add.commute add.left_commute)

text \<open>Where the decoding stops, and what it refuses.\<close>

definition decoding_stops :: "'d yaml_reader_t \<Rightarrow> bool" where
  "decoding_stops r \<longleftrightarrow> rd_raw r = [] \<or> decode_char (rd_encoding r) (rd_eof r) (rd_raw r) = Incomplete"

definition undecodable :: "yaml_encoding_t \<Rightarrow> bool \<Rightarrow> ystr \<Rightarrow> bool" where
  "undecodable enc eof raw \<longleftrightarrow> raw \<noteq> [] \<and> decode_char enc eof raw \<noteq> Incomplete
     \<and> (\<forall>v w. decode_char enc eof raw = Char v w \<longrightarrow> \<not> allowed_char v)"

lemma decode_loop_spec:
  assumes "rd_encoding r \<noteq> YAML_ANY_ENCODING"
    "2 * (rd_pos r + length (rd_buf r)) + 3 * length (rd_raw r) \<le> 2 * INPUT_BUFFER_SIZE"
  shows "\<exists>cs. list_all allowed_char cs \<and> rd_raw r = encode_text (rd_encoding r) cs @ rd_raw (recoded cs r)
     \<and> (decode_loop r = Done () (recoded cs r) \<and> decoding_stops (recoded cs r)
        \<or> (\<exists>p. decode_loop r = Fail ((recoded cs r)\<lparr>rd_error := Some p\<rparr>))
           \<and> undecodable (rd_encoding r) (rd_eof r) (rd_raw (recoded cs r)))"
  using assms
proof (induction r rule: decode_loop.induct)
  case (1 r)
  let ?d = "decode_char (rd_encoding r) (rd_eof r) (rd_raw r)"
  consider "rd_raw r = [] \<or> ?d = Incomplete" | "rd_raw r \<noteq> []" "\<exists>p k v. ?d = Bad p k v"
    | v w where "rd_raw r \<noteq> []" "?d = Char v w" "\<not> allowed_char v" | v w where "rd_raw r \<noteq> []" "?d = Char v w" "allowed_char v"
    by (cases ?d) auto
  then show ?case
  proof cases
    case 1
    then show ?thesis by (intro exI [of _ "[]"]) (auto simp: decode_loop.simps [of r] decoding_stops_def)
  next
    case 2
    then show ?thesis by (intro exI [of _ "[]"]) (auto simp: decode_loop.simps [of r] undecodable_def yaml_parser_set_reader_error_def)
  next
    case 3
    then show ?thesis by (intro exI [of _ "[]"]) (auto simp: decode_loop.simps [of r] undecodable_def yaml_parser_set_reader_error_def)
  next
    case 4
    note s = decode_char_sound [OF 4(2,1) "1.prems"(1)]
    define r1 where "r1 = (skip_raw w r)\<lparr>rd_buf := rd_buf r @ utf8_bytes v, rd_unread := Suc (rd_unread r)\<rparr>"
    have raw: "rd_raw r = encode_char (rd_encoding r) v @ rd_raw r1" and w: "w = length (encode_char (rd_encoding r) v)"
      and r1: "rd_encoding r1 = rd_encoding r" "rd_eof r1 = rd_eof r" "rd_pos r1 = rd_pos r" "rd_buf r1 = rd_buf r @ utf8_bytes v"
      using s by (auto simp: skip_raw_def r1_def)
    have "length (rd_raw r) = w + length (rd_raw r1)" using raw w by (metis length_append)
    moreover have "2 * length (utf8_bytes v) \<le> 3 * w" using recode_growth(1) w by simp
    ultimately have room: "2 * (rd_pos r1 + length (rd_buf r1)) + 3 * length (rd_raw r1) \<le> 2 * INPUT_BUFFER_SIZE"
      using "1.prems"(2) by (simp add: r1)
    then have put: "put_octets (utf8_bytes v) (skip_raw w r) = Done () r1" by (simp add: r1_def put_octets_def skip_raw_def)
    have d: "decode_loop r = decode_loop r1" using 4 put by (simp add: decode_loop.simps [of r])
    have "\<exists>cs. list_all allowed_char cs \<and> rd_raw r1 = encode_text (rd_encoding r1) cs @ rd_raw (recoded cs r1)
       \<and> (decode_loop r1 = Done () (recoded cs r1) \<and> decoding_stops (recoded cs r1)
        \<or> (\<exists>p. decode_loop r1 = Fail ((recoded cs r1)\<lparr>rd_error := Some p\<rparr>))
           \<and> undecodable (rd_encoding r1) (rd_eof r1) (rd_raw (recoded cs r1)))"
      by (rule "1.IH" [OF 4(1,2) _ put _ room]) (use 4(3) "1.prems"(1) r1(1) in simp_all)
    then obtain cs where cs: "list_all allowed_char cs" "rd_raw r1 = encode_text (rd_encoding r) cs @ rd_raw (recoded cs r1)"
        "decode_loop r = Done () (recoded cs r1) \<and> decoding_stops (recoded cs r1)
        \<or> (\<exists>p. decode_loop r = Fail ((recoded cs r1)\<lparr>rd_error := Some p\<rparr>))
           \<and> undecodable (rd_encoding r) (rd_eof r) (rd_raw (recoded cs r1))"
      unfolding d r1(1,2) by blast
    have rc: "recoded (v # cs) r = recoded cs r1" by (simp only: recoded_Cons w r1_def)
    have all: "list_all allowed_char (v # cs)" using cs(1) 4(3) by simp
    have "rd_raw r = encode_text (rd_encoding r) (v # cs) @ rd_raw (recoded cs r1)"
      using raw cs(2) by (simp only: encode_text_simps append_assoc)
    then show ?thesis using all cs(3) unfolding rc [symmetric] by blast
  qed
qed

lemma encode_text_growth: "2 * length (utf8_text cs) \<le> 3 * length (encode_text enc cs)"
proof (induction cs)
  case (Cons v cs)
  then show ?case using recode_growth(1) [of v enc] by simp
qed simp

lemma utf8_text_length: "length (utf8_text cs) \<le> 4 * length cs"
proof (induction cs)
  case (Cons v cs)
  then show ?case using recode_growth(4) [of v] by simp
qed simp

section \<open>The contract of a read handler\<close>

text \<open>The octets that the handler has still to deliver are \<open>remaining\<close>; it gives the next of them, at most
  as many as asked for, and none only at the end. It may fail.\<close>

locale byte_source =
  fixes rh :: "'d read_handler" and remaining :: "'d \<Rightarrow> ystr"
  assumes read_bounded: "rh d n = Some (bs, d') \<Longrightarrow> length bs \<le> n"
    and read_takes: "rh d n = Some (bs, d') \<Longrightarrow> remaining d = bs @ remaining d'"
    and read_end: "rh d n = Some ([], d') \<Longrightarrow> 0 < n \<Longrightarrow> remaining d = []"

interpretation string_source: byte_source yaml_string_read_handler "\<lambda>input. input"
  by unfold_locales (auto simp: yaml_string_read_handler_def split: if_splits)

definition pending :: "('d \<Rightarrow> ystr) \<Rightarrow> 'd yaml_reader_t \<Rightarrow> ystr" where
  "pending remaining r = rd_raw r @ remaining (rd_data r)"

definition no_char :: "yaml_encoding_t \<Rightarrow> ystr \<Rightarrow> bool" where
  "no_char enc x \<longleftrightarrow> x \<noteq> [] \<and> (\<forall>v rest. allowed_char v \<longrightarrow> x \<noteq> encode_char enc v @ rest)"

definition reader_inv :: "('d \<Rightarrow> ystr) \<Rightarrow> 'd yaml_reader_t \<Rightarrow> bool" where
  "reader_inv remaining r \<longleftrightarrow> length (rd_raw r) \<le> INPUT_RAW_BUFFER_SIZE \<and> length (rd_buf r) \<le> 4 * rd_unread r
     \<and> (rd_eof r \<longrightarrow> remaining (rd_data r) = [])"

text \<open>From \<open>r\<close> to \<open>r'\<close> the characters \<open>cs\<close> have gone from the input into the buffer.\<close>

definition recodes :: "('d \<Rightarrow> ystr) \<Rightarrow> int list \<Rightarrow> 'd yaml_reader_t \<Rightarrow> 'd yaml_reader_t \<Rightarrow> bool" where
  "recodes remaining cs r r' \<longleftrightarrow> list_all allowed_char cs
     \<and> pending remaining r = encode_text (rd_encoding r) cs @ pending remaining r'
     \<and> rd_buf r' = rd_buf r @ utf8_text cs \<and> rd_unread r' = rd_unread r + length cs
     \<and> rd_offset r' = rd_offset r + length (encode_text (rd_encoding r) cs)
     \<and> rd_encoding r' = rd_encoding r \<and> rd_mark r' = rd_mark r \<and> rd_error r' = rd_error r"

lemma recodes_refl: "recodes remaining [] r r"
  by (simp add: recodes_def)

lemma recodes_trans: "recodes remaining cs r r1 \<Longrightarrow> recodes remaining ds r1 r2 \<Longrightarrow> recodes remaining (cs @ ds) r r2"
  by (simp add: recodes_def)

lemma undecodable_no_char:
  assumes "undecodable enc eof raw" "enc \<noteq> YAML_ANY_ENCODING" "eof \<longrightarrow> rest = []"
  shows "no_char enc (raw @ rest)"
proof -
  have False if v: "allowed_char v" and eq: "raw @ rest = encode_char enc v @ rest'" for v rest'
  proof -
    from eq consider us where "raw = encode_char enc v @ us" | us where "encode_char enc v = raw @ us" "us \<noteq> []" "us @ rest' = rest"
      by (auto simp: append_eq_append_conv2) (metis append_Nil2)
    then show False
    proof cases
      case 1
      then show False using assms(1) decode_char_complete [OF v assms(2)] v by (simp add: undecodable_def)
    next
      case 2
      then have "\<not> eof" using assms(3) by auto
      then show False using assms(1) decode_char_prefix [OF v assms(2) 2(1)] 2(2) by (simp add: undecodable_def)
    qed
  qed
  then show ?thesis using assms(1) by (auto simp: no_char_def undecodable_def)
qed

text \<open>What a reading gives: at least \<open>n\<close> characters, or the rest of the input and a NUL, or a reason to fail.\<close>

definition fill_result :: "'d read_handler \<Rightarrow> ('d \<Rightarrow> ystr) \<Rightarrow> nat \<Rightarrow> 'd yaml_reader_t \<Rightarrow> 'd read_outcome \<Rightarrow> bool" where
  "fill_result rh remaining n r out \<longleftrightarrow> (\<exists>cs r''. recodes remaining cs r r'' \<and> (case out of
     Done _ r' \<Rightarrow> reader_inv remaining r' \<and>
       (if rd_eof r' then pending remaining r'' = [] \<and> r' = r''\<lparr>rd_buf := rd_buf r'' @ [0], rd_unread := Suc (rd_unread r'')\<rparr>
        else r' = r'' \<and> n \<le> rd_unread r')
   | Fail r' \<Rightarrow> rd_error r' \<noteq> None
       \<and> (no_char (rd_encoding r) (pending remaining r'') \<or> (\<exists>d k. rh d k = None) \<or> rd_offset r'' \<ge> MAX_FILE_SIZE)
   | Crash \<Rightarrow> False))"

lemma fill_result_trans: "recodes remaining cs r r1 \<Longrightarrow> fill_result rh remaining n r1 out \<Longrightarrow> fill_result rh remaining n r out"
proof -
  assume r1: "recodes remaining cs r r1" and "fill_result rh remaining n r1 out"
  then obtain ds r'' where r'': "recodes remaining ds r1 r''" and out: "case out of
     Done _ r' \<Rightarrow> reader_inv remaining r' \<and>
       (if rd_eof r' then pending remaining r'' = [] \<and> r' = r''\<lparr>rd_buf := rd_buf r'' @ [0], rd_unread := Suc (rd_unread r'')\<rparr>
        else r' = r'' \<and> n \<le> rd_unread r')
   | Fail r' \<Rightarrow> rd_error r' \<noteq> None
       \<and> (no_char (rd_encoding r1) (pending remaining r'') \<or> (\<exists>d k. rh d k = None) \<or> rd_offset r'' \<ge> MAX_FILE_SIZE)
   | Crash \<Rightarrow> False"
    unfolding fill_result_def by blast
  have "rd_encoding r1 = rd_encoding r" using r1 by (simp add: recodes_def)
  note out = out [unfolded this]
  show ?thesis unfolding fill_result_def by (rule exI, rule exI, rule conjI [OF recodes_trans [OF r1 r''] out])
qed

definition fill_measure :: "nat \<Rightarrow> bool \<Rightarrow> 'd yaml_reader_t \<Rightarrow> nat" where
  "fill_measure n first r = 10 * (n - rd_unread r) + (4 - length (rd_raw r)) + (if first then 1 else 0)"

text \<open>The encoding of an input and the length of its byte order mark.\<close>

definition detected :: "ystr \<Rightarrow> yaml_encoding_t \<times> nat" where
  "detected x =
     (if take 2 x = BOM_UTF16LE then (YAML_UTF16LE_ENCODING, 2)
      else if take 2 x = BOM_UTF16BE then (YAML_UTF16BE_ENCODING, 2)
      else if take 3 x = BOM_UTF8 then (YAML_UTF8_ENCODING, 3) else (YAML_UTF8_ENCODING, 0))"

text \<open>The reader at the beginning of the first character.\<close>

definition begins :: "('d \<Rightarrow> ystr) \<Rightarrow> 'd yaml_reader_t \<Rightarrow> 'd yaml_reader_t \<Rightarrow> bool" where
  "begins remaining r r' \<longleftrightarrow>
     (rd_encoding r', pending remaining r') =
       (if rd_encoding r = YAML_ANY_ENCODING
        then (fst (detected (pending remaining r)), drop (snd (detected (pending remaining r))) (pending remaining r))
        else (rd_encoding r, pending remaining r))
     \<and> rd_offset r' + length (pending remaining r') = rd_offset r + length (pending remaining r)
     \<and> reader_inv remaining r' \<and> rd_buf r' = rd_buf r \<and> rd_unread r' = rd_unread r
     \<and> rd_mark r' = rd_mark r \<and> rd_error r' = rd_error r"

lemma has_prefix_append: "length p \<le> length xs \<or> ys = [] \<Longrightarrow> has_prefix p xs \<longleftrightarrow> take (length p) (xs @ ys) = p"
  by (auto simp: has_prefix_def) (metis length_take min.cobounded1)

lemma move_unread_eq: "move_unread r = r\<lparr>rd_pos := 0\<rparr>"
  by (cases r) (auto simp: move_unread_def)

section \<open>Reading from any such handler\<close>

context byte_source
begin

lemma update_raw_cases:
  assumes "reader_inv remaining r" "length (rd_raw r) < INPUT_RAW_BUFFER_SIZE"
  obtains (ok) r' where "yaml_parser_update_raw_buffer rh r = Done () r'" "recodes remaining [] r r'" "reader_inv remaining r'"
      "rd_pos r' = rd_pos r" "rd_eof r' \<or> length (rd_raw r) < length (rd_raw r')"
  | (bad) r' where "yaml_parser_update_raw_buffer rh r = Fail r'" "rd_error r' \<noteq> None" "\<exists>d k. rh d k = None"
proof -
  let ?k = "INPUT_RAW_BUFFER_SIZE - length (rd_raw r)"
  consider "rd_eof r" | "\<not> rd_eof r" "rh (rd_data r) ?k = None" | bs d where "\<not> rd_eof r" "rh (rd_data r) ?k = Some (bs, d)"
    by (cases "rh (rd_data r) ?k") auto
  then show thesis
  proof cases
    case 1
    then show thesis using assms by (intro ok [of r]) (auto simp: yaml_parser_update_raw_buffer_def recodes_refl)
  next
    case 2
    then show thesis using assms
      by (intro bad) (auto simp: yaml_parser_update_raw_buffer_def yaml_parser_set_reader_error_def Let_def)
  next
    case 3
    let ?r = "r\<lparr>rd_raw_pos := 0, rd_data := d, rd_raw := rd_raw r @ bs, rd_eof := bs = []\<rparr>"
    note b = read_bounded [OF 3(2)] read_takes [OF 3(2)]
    have "yaml_parser_update_raw_buffer rh r = Done () ?r" using 3 assms(2) b(1) by (simp add: yaml_parser_update_raw_buffer_def Let_def)
    moreover have "recodes remaining [] r ?r" using b(2) by (simp add: recodes_def pending_def)
    moreover have "reader_inv remaining ?r" using assms b read_end 3(2) by (auto simp: reader_inv_def)
    ultimately show thesis by (rule ok) (auto simp: 3(1))
  qed
qed

lemma decode_loop_cases:
  assumes "reader_inv remaining r" "rd_pos r = 0" "rd_encoding r \<noteq> YAML_ANY_ENCODING" "rd_unread r < n" "n \<le> 6144"
  obtains (ok) cs r' where "decode_loop r = Done () r'" "recodes remaining cs r r'" "reader_inv remaining r'" "rd_pos r' = 0"
      "rd_eof r' = rd_eof r" "length (rd_raw r') < 4" "rd_eof r' \<longrightarrow> pending remaining r' = []" "length (rd_buf r') < INPUT_BUFFER_SIZE"
      "cs = [] \<longrightarrow> r' = r"
  | (bad) r' where "decode_loop r = Fail r'" "fill_result rh remaining n r (Fail r')"
proof -
  have b: "length (rd_buf r) \<le> 4 * 6143" "length (rd_raw r) \<le> 16384" and e: "rd_eof r \<longrightarrow> remaining (rd_data r) = []"
    using assms by (auto simp: reader_inv_def INPUT_RAW_BUFFER_SIZE_def)
  have "2 * (rd_pos r + length (rd_buf r)) + 3 * length (rd_raw r) \<le> 2 * INPUT_BUFFER_SIZE"
    using b assms(2) by (simp add: INPUT_BUFFER_SIZE_def INPUT_RAW_BUFFER_SIZE_def)
  from decode_loop_spec [OF assms(3) this] obtain cs where cs: "list_all allowed_char cs"
    "rd_raw r = encode_text (rd_encoding r) cs @ rd_raw (recoded cs r)"
    and out: "decode_loop r = Done () (recoded cs r) \<and> decoding_stops (recoded cs r)
        \<or> (\<exists>p. decode_loop r = Fail ((recoded cs r)\<lparr>rd_error := Some p\<rparr>))
           \<and> undecodable (rd_encoding r) (rd_eof r) (rd_raw (recoded cs r))"
    by blast
  have err: "rd_error (recoded cs r) = rd_error r" by (simp add: recoded_def Let_def)
  have rec: "recodes remaining cs r (recoded cs r)" using cs err by (simp add: recodes_def pending_def)
  have inv: "reader_inv remaining (recoded cs r)" using assms(1) utf8_text_length [of cs] by (auto simp: reader_inv_def)
  have "length (rd_raw r) = length (encode_text (rd_encoding r) cs) + length (rd_raw (recoded cs r))"
    using cs(2) by (metis length_append)
  then have buf: "length (rd_buf (recoded cs r)) < INPUT_BUFFER_SIZE"
    using b encode_text_growth [of cs "rd_encoding r"] by (simp add: INPUT_BUFFER_SIZE_def INPUT_RAW_BUFFER_SIZE_def)
  from out show thesis
  proof (elim disjE conjE exE)
    assume d: "decode_loop r = Done () (recoded cs r)" and stops: "decoding_stops (recoded cs r)"
    have "length (rd_raw (recoded cs r)) < 4" "rd_eof (recoded cs r) \<longrightarrow> pending remaining (recoded cs r) = []"
      using stops e decode_char_Incomplete by (fastforce simp: decoding_stops_def pending_def)+
    then show thesis using ok [OF d rec inv] assms(2) buf by simp
  next
    fix p
    assume d: "decode_loop r = Fail ((recoded cs r)\<lparr>rd_error := Some p\<rparr>)"
      and u: "undecodable (rd_encoding r) (rd_eof r) (rd_raw (recoded cs r))"
    have "no_char (rd_encoding r) (pending remaining (recoded cs r))"
      using undecodable_no_char [OF u assms(3) e] by (simp add: pending_def)
    then show thesis using bad [OF d] rec by (auto simp: fill_result_def)
  qed
qed

lemma fill_pre_cases:
  assumes "reader_inv remaining r" "first \<or> length (rd_raw r) < 4"
  obtains (ok) r' where "(if \<not> first \<or> rd_raw r = [] then yaml_parser_update_raw_buffer rh r else Done () r) = Done () r'"
      "recodes remaining [] r r'" "reader_inv remaining r'" "rd_pos r' = rd_pos r"
      "rd_eof r' \<or> first \<and> r' = r \<or> length (rd_raw r) < length (rd_raw r')"
  | (bad) r' where "(if \<not> first \<or> rd_raw r = [] then yaml_parser_update_raw_buffer rh r else Done () r) = Fail r'"
      "fill_result rh remaining n r (Fail r')"
proof (cases "\<not> first \<or> rd_raw r = []")
  case True
  then have "length (rd_raw r) < INPUT_RAW_BUFFER_SIZE" using assms(2) by (auto simp: INPUT_RAW_BUFFER_SIZE_def)
  from assms(1) this show thesis
  proof (cases rule: update_raw_cases)
    case (ok r')
    then show thesis using True that(1) [of r'] by auto
  next
    case (bad r')
    then show thesis using True that(2) [of r'] recodes_refl [of remaining r] by (auto simp: fill_result_def)
  qed
next
  case False
  then show thesis using that(1) [of r] assms(1) recodes_refl by auto
qed

lemma fill_loop_result:
  assumes "reader_inv remaining r" "rd_pos r = 0" "rd_encoding r \<noteq> YAML_ANY_ENCODING" "first \<or> length (rd_raw r) < 4"
    "rd_unread r < n \<or> \<not> rd_eof r" "n \<le> 6144"
  shows "\<exists>out. fill_loop rh n first r = Some out \<and> fill_result rh remaining n r out"
  using assms
proof (induction "fill_measure n first r" arbitrary: first r rule: less_induct)
  case less
  show ?case
  proof (cases "n \<le> rd_unread r")
    case True
    then show ?thesis using less.prems recodes_refl [of remaining r]
      by (auto simp: fill_loop.simps [of rh n first r] fill_result_def yaml_parser_set_reader_error_def intro!: exI [of _ "[]"] exI [of _ r])
  next
    case n: False
    let ?pre = "if \<not> first \<or> rd_raw r = [] then yaml_parser_update_raw_buffer rh r else Done () r"
    from less.prems(1,4) show ?thesis
    proof (cases rule: fill_pre_cases [where n = n])
      case (bad r')
      then show ?thesis using n by (simp add: fill_loop.simps [of rh n first r])
    next
      case (ok r1)
      have r1: "rd_pos r1 = 0" "rd_encoding r1 \<noteq> YAML_ANY_ENCODING" "rd_unread r1 < n"
        using ok(2,4) less.prems(2,3) n by (auto simp: recodes_def)
      from ok(3) r1 less.prems(6) show ?thesis
      proof (cases rule: decode_loop_cases)
        case (bad r')
        then show ?thesis using n ok(1) fill_result_trans [OF ok(2)] by (simp add: fill_loop.simps [of rh n first r])
      next
        case d: (ok cs r2)
        have rec: "recodes remaining cs r r2" using recodes_trans [OF ok(2) d(2)] by simp
        have step: "fill_loop rh n first r = (if rd_eof r2 then Some (put_octets [0] r2) else fill_loop rh n False r2)"
          using n ok(1) d(1) by (simp add: fill_loop.simps [of rh n first r])
        show ?thesis
        proof (cases "rd_eof r2")
          case True
          then show ?thesis using step d rec
            by (auto simp: fill_result_def put_octets_def reader_inv_def intro!: exI [of _ cs] exI [of _ r2])
        next
          case False
          have "fill_measure n False r2 < fill_measure n first r"
          proof (cases cs)
            case Nil
            then have "r2 = r1" using d(9) by simp
            then show ?thesis using False ok(2,5) d(6) by (auto simp: fill_measure_def recodes_def)
          next
            case Cons
            then show ?thesis using rec n by (auto simp: fill_measure_def recodes_def)
          qed
          from less.hyps [OF this d(3,4) _ _ _ less.prems(6)] obtain out where
            "fill_loop rh n False r2 = Some out" "fill_result rh remaining n r2 out"
            using rec d(6) less.prems(3) False by (auto simp: recodes_def)
          then show ?thesis using step False fill_result_trans [OF rec] by simp
        qed
      qed
    qed
  qed
qed

lemma ensure_raw_cases:
  assumes "reader_inv remaining r"
  shows "(\<exists>r'. ensure_raw rh r = Done () r' \<and> recodes remaining [] r r' \<and> reader_inv remaining r' \<and> rd_pos r' = rd_pos r
       \<and> (rd_eof r' \<or> 3 \<le> length (rd_raw r')))
    \<or> (\<exists>r'. ensure_raw rh r = Fail r' \<and> rd_error r' \<noteq> None \<and> (\<exists>d k. rh d k = None))"
  using assms
proof (induction "if rd_eof r then 0 else 4 - length (rd_raw r)" arbitrary: r rule: less_induct)
  case less
  show ?case
  proof (cases "\<not> rd_eof r \<and> length (rd_raw r) < 3")
    case False
    then show ?thesis using less.prems recodes_refl [of remaining r] by (auto simp: ensure_raw.simps [of _ r])
  next
    case True
    then have "length (rd_raw r) < INPUT_RAW_BUFFER_SIZE" by (simp add: INPUT_RAW_BUFFER_SIZE_def)
    from less.prems this show ?thesis
    proof (cases rule: update_raw_cases)
      case (bad r')
      then show ?thesis using True by (auto simp: ensure_raw.simps [of _ r])
    next
      case (ok r1)
      have "(if rd_eof r1 then 0 else 4 - length (rd_raw r1)) < (if rd_eof r then 0 else 4 - length (rd_raw r))"
        using True ok(5) by auto
      moreover have "ensure_raw rh r = ensure_raw rh r1" using True ok(1) by (simp add: ensure_raw.simps [of _ r])
      ultimately show ?thesis using less.hyps [OF _ ok(3)] recodes_trans [OF ok(2)] ok(4) by (metis append_Nil)
    qed
  qed
qed

lemma determine_encoding_cases:
  assumes "reader_inv remaining r" "rd_encoding r = YAML_ANY_ENCODING"
  shows "(\<exists>r'. yaml_parser_determine_encoding rh r = Done () r' \<and> begins remaining r r')
    \<or> (\<exists>r'. yaml_parser_determine_encoding rh r = Fail r' \<and> rd_error r' \<noteq> None \<and> (\<exists>d k. rh d k = None))"
proof -
  consider (bad) r' where "ensure_raw rh r = Fail r'" "rd_error r' \<noteq> None" "\<exists>d k. rh d k = None"
    | (ok) r1 where "ensure_raw rh r = Done () r1" "recodes remaining [] r r1" "reader_inv remaining r1" "rd_pos r1 = rd_pos r"
      "rd_eof r1 \<or> 3 \<le> length (rd_raw r1)"
    using ensure_raw_cases [OF assms(1)] by blast
  then show ?thesis
  proof cases
    case (bad r')
    then show ?thesis by (simp add: yaml_parser_determine_encoding_def)
  next
    case (ok r1)
    note e = ok(1) and r1 = ok(2-5)
    have p: "pending remaining r = pending remaining r1" using r1(1) by (simp add: recodes_def)
    have "has_prefix bom (rd_raw r1) \<longleftrightarrow> take (length bom) (pending remaining r) = bom" if "length bom \<le> 3" for bom
      using r1(2,4) that unfolding p unfolding pending_def by (intro has_prefix_append) (auto simp: reader_inv_def)
    then have h: "has_prefix BOM_UTF16LE (rd_raw r1) \<longleftrightarrow> take 2 (pending remaining r) = BOM_UTF16LE"
      "has_prefix BOM_UTF16BE (rd_raw r1) \<longleftrightarrow> take 2 (pending remaining r) = BOM_UTF16BE"
      "has_prefix BOM_UTF8 (rd_raw r1) \<longleftrightarrow> take 3 (pending remaining r) = BOM_UTF8"
      by (simp_all add: BOM_UTF16LE_def BOM_UTF16BE_def BOM_UTF8_def numeral_2_eq_2 numeral_3_eq_3)
    have b: "begins remaining r (set_encoding enc bom r1)" if "has_prefix bom (rd_raw r1)" "detected (pending remaining r) = (enc, length bom)" for enc bom
      using that r1 p assms(2) by (auto simp: begins_def set_encoding_def skip_raw_def recodes_def pending_def reader_inv_def has_prefix_def)
    have "begins remaining r (r1\<lparr>rd_encoding := YAML_UTF8_ENCODING\<rparr>)" if "detected (pending remaining r) = (YAML_UTF8_ENCODING, 0)"
      using that r1 p assms(2) by (auto simp: begins_def recodes_def pending_def reader_inv_def)
    then show ?thesis using e h b
      by (auto simp: yaml_parser_determine_encoding_def detected_def BOM_UTF16LE_def BOM_UTF16BE_def BOM_UTF8_def)
  qed
qed

lemma update_buffer_result:
  assumes "reader_inv remaining r" "n \<le> 6144" "\<not> (rd_eof r \<and> rd_raw r = [])" "rd_unread r < n"
  shows "\<exists>out. yaml_parser_update_buffer rh n r = Some out \<and>
    ((\<exists>r0. begins remaining r r0 \<and> fill_result rh remaining n r0 out)
     \<or> (\<exists>r'. out = Fail r' \<and> rd_error r' \<noteq> None \<and> (\<exists>d k. rh d k = None)))"
proof -
  let ?det = "if rd_encoding r = YAML_ANY_ENCODING then yaml_parser_determine_encoding rh r else Done () r"
  have "begins remaining r r" if "rd_encoding r \<noteq> YAML_ANY_ENCODING" using that assms(1) by (simp add: begins_def)
  then consider (bad) r' where "?det = Fail r'" "rd_error r' \<noteq> None" "\<exists>d k. rh d k = None"
    | (ok) r1 where "?det = Done () r1" "begins remaining r r1"
    using determine_encoding_cases [OF assms(1)] by (cases "rd_encoding r = YAML_ANY_ENCODING") auto
  then show ?thesis
  proof cases
    case (bad r')
    then show ?thesis using assms by (auto simp: yaml_parser_update_buffer_def)
  next
    case (ok r1)
    let ?r = "r1\<lparr>rd_pos := 0\<rparr>"
    have b: "begins remaining r ?r" using ok(2) by (auto simp: begins_def pending_def reader_inv_def)
    then have "rd_encoding ?r \<noteq> YAML_ANY_ENCODING" "reader_inv remaining ?r" "rd_unread ?r < n"
      using assms(4) by (auto simp: begins_def detected_def split: if_splits)
    then obtain out where "fill_loop rh n True ?r = Some out" "fill_result rh remaining n ?r out"
      using fill_loop_result [of ?r True n] assms(2) by auto
    then show ?thesis using assms ok(1) b by (auto simp: yaml_parser_update_buffer_def move_unread_eq)
  qed
qed

end

section \<open>Reading a string\<close>

text \<open>The reader of a string whose encoding the application sets (or leaves to be detected), with the scanner
  caching and skipping characters in any order.\<close>

inductive reader_run :: "yaml_encoding_t \<Rightarrow> ystr \<Rightarrow> ystr yaml_reader_t \<Rightarrow> bool" for enc input where
  start: "yaml_parser_set_encoding enc (yaml_parser_set_input_string input) = Done () r \<Longrightarrow> reader_run enc input r"
| cache: "reader_run enc input r \<Longrightarrow> n \<le> 6144 \<Longrightarrow> CACHE yaml_string_read_handler n r = Some (Done () r') \<Longrightarrow>
    reader_run enc input r'"
| skip: "reader_run enc input r \<Longrightarrow> SKIP r = Done () r' \<Longrightarrow> reader_run enc input r'"

text \<open>The encoding of the text, and the text without its byte order mark.\<close>

definition text_encoding :: "yaml_encoding_t \<Rightarrow> ystr \<Rightarrow> yaml_encoding_t" where
  "text_encoding enc input = (if enc = YAML_ANY_ENCODING then fst (detected input) else enc)"

definition text_octets :: "yaml_encoding_t \<Rightarrow> ystr \<Rightarrow> ystr" where
  "text_octets enc input = (if enc = YAML_ANY_ENCODING then drop (snd (detected input)) input else input)"

text \<open>The characters \<open>cs\<close> have been delivered: the scanner has taken the first of them and the others are in
  the buffer.\<close>

definition in_buffer :: "int list \<Rightarrow> ystr yaml_reader_t \<Rightarrow> bool" where
  "in_buffer cs r \<longleftrightarrow> (\<exists>xs ys. xs @ ys = cs \<and> mk_index (rd_mark r) = length xs \<and> rd_unread r = length ys \<and> rd_buf r = utf8_text ys)"

text \<open>The delivered characters are those of the input, with a NUL at its end.\<close>

definition delivered :: "ystr \<Rightarrow> int list \<Rightarrow> ystr yaml_reader_t \<Rightarrow> bool" where
  "delivered x ts r \<longleftrightarrow> list_all allowed_char ts \<and> x = encode_text (rd_encoding r) ts @ pending (\<lambda>d. d) r
     \<and> (rd_eof r \<longrightarrow> pending (\<lambda>d. d) r = []) \<and> in_buffer (ts @ (if rd_eof r then [0] else [])) r"

definition run_inv :: "yaml_encoding_t \<Rightarrow> ystr \<Rightarrow> ystr yaml_reader_t \<Rightarrow> bool" where
  "run_inv enc input r \<longleftrightarrow> reader_inv (\<lambda>d. d) r \<and> rd_error r = None \<and> rd_offset r + length (pending (\<lambda>d. d) r) = length input \<and>
     (if rd_encoding r = YAML_ANY_ENCODING
      then enc = YAML_ANY_ENCODING \<and> pending (\<lambda>d. d) r = input \<and> \<not> rd_eof r \<and> in_buffer [] r
      else rd_encoding r = text_encoding enc input \<and> (\<exists>ts. delivered (text_octets enc input) ts r))"

lemma in_buffer_recodes: "in_buffer cs r \<Longrightarrow> recodes rem ds r r' \<Longrightarrow> in_buffer (cs @ ds) r'"
  unfolding in_buffer_def recodes_def by (metis append.assoc encode_text_simps(3) length_append)

lemma in_buffer_nul: "in_buffer cs r \<Longrightarrow> in_buffer (cs @ [0]) (r\<lparr>rd_buf := rd_buf r @ [0], rd_unread := Suc (rd_unread r)\<rparr>)"
proof -
  assume "in_buffer cs r"
  then obtain xs ys where "xs @ ys = cs" "mk_index (rd_mark r) = length xs" "rd_unread r = length ys" "rd_buf r = utf8_text ys"
    by (auto simp: in_buffer_def)
  then show ?thesis unfolding in_buffer_def
    by (intro exI [of _ xs] exI [of _ "ys @ [0]"]) (simp add: utf8_bytes_def byte_def)
qed

lemma in_buffer_SKIP:
  assumes "in_buffer cs r" "SKIP r = Done () r'" "\<forall>c \<in> set cs. 0 \<le> c \<and> c \<le> 0x10FFFF"
  shows "in_buffer cs r'"
proof -
  obtain xs ys where b: "xs @ ys = cs" "mk_index (rd_mark r) = length xs" "rd_unread r = length ys" "rd_buf r = utf8_text ys"
    using assms(1) by (auto simp: in_buffer_def)
  then obtain y zs where ys: "ys = y # zs" using assms(2) by (cases ys) (auto simp: SKIP_def)
  have y: "0 \<le> y" "y \<le> 0x10FFFF" using assms(3) b(1) ys by auto
  have w: "utf8_width (hd (rd_buf r)) = length (utf8_bytes y)" using utf8_width_hd [OF y] b(4) ys by (simp add: hd_append)
  have r': "rd_buf r' = utf8_text zs" "rd_unread r' = length zs" "mk_index (rd_mark r') = Suc (length xs)"
    using assms(2) b ys w by (auto simp: SKIP_def Let_def split: if_splits)
  show ?thesis unfolding in_buffer_def by (intro exI [of _ "xs @ [y]"] exI [of _ zs]) (use b(1) ys r' in simp)
qed

lemma SKIP_keeps:
  "SKIP r = Done () r' \<Longrightarrow> rd_raw r' = rd_raw r \<and> rd_data r' = rd_data r \<and> rd_eof r' = rd_eof r \<and> rd_encoding r' = rd_encoding r
     \<and> rd_error r' = rd_error r"
  by (auto simp: SKIP_def Let_def split: if_splits)

text \<open>One call of \<open>yaml_parser_update_buffer\<close> in terms of the delivered characters.\<close>

lemma fill_delivers:
  assumes "fill_result rh (\<lambda>d. d) n r0 (Done u r')" "in_buffer ts r0" "list_all allowed_char ts"
  shows "\<exists>text'. delivered (encode_text (rd_encoding r0) ts @ pending (\<lambda>d. d) r0) text' r'"
    "reader_inv (\<lambda>d. d) r'" "rd_encoding r' = rd_encoding r0" "rd_error r' = rd_error r0"
    "rd_offset r' + length (pending (\<lambda>d. d) r') = rd_offset r0 + length (pending (\<lambda>d. d) r0)" "n \<le> rd_unread r' \<or> rd_eof r'"
proof -
  obtain cs r'' where rec: "recodes (\<lambda>d. d) cs r0 r''" and inv: "reader_inv (\<lambda>d. d) r'"
    and r': "if rd_eof r' then pending (\<lambda>d. d) r'' = [] \<and> r' = r''\<lparr>rd_buf := rd_buf r'' @ [0], rd_unread := Suc (rd_unread r'')\<rparr>
        else r' = r'' \<and> n \<le> rd_unread r'"
    using assms(1) by (auto simp: fill_result_def)
  have b: "in_buffer (ts @ cs) r''" by (rule in_buffer_recodes [OF assms(2) rec])
  have same: "pending (\<lambda>d. d) r' = pending (\<lambda>d. d) r''" "rd_encoding r' = rd_encoding r''" "rd_error r' = rd_error r''" "rd_offset r' = rd_offset r''"
    using r' by (auto simp: pending_def split: if_splits)
  have "in_buffer ((ts @ cs) @ (if rd_eof r' then [0] else [])) r'"
    using r' b in_buffer_nul [OF b] by (auto split: if_splits)
  then have "delivered (encode_text (rd_encoding r0) ts @ pending (\<lambda>d. d) r0) (ts @ cs) r'"
    using rec same r' assms(3) by (auto simp: delivered_def recodes_def split: if_splits)
  then show "\<exists>text'. delivered (encode_text (rd_encoding r0) ts @ pending (\<lambda>d. d) r0) text' r'" by blast
  show "reader_inv (\<lambda>d. d) r'" "rd_encoding r' = rd_encoding r0" "rd_error r' = rd_error r0"
    "rd_offset r' + length (pending (\<lambda>d. d) r') = rd_offset r0 + length (pending (\<lambda>d. d) r0)"
    using inv same rec by (simp_all add: recodes_def)
  show "n \<le> rd_unread r' \<or> rd_eof r'" using r' by (auto split: if_splits)
qed

text \<open>Why a reading fails: the input does not go on with a character, or it is too long.\<close>

definition refused :: "yaml_encoding_t \<Rightarrow> ystr \<Rightarrow> bool" where
  "refused enc x \<longleftrightarrow> (\<exists>ts rest. list_all allowed_char ts \<and> x = encode_text enc ts @ rest \<and> no_char enc rest)"

lemma fill_fails:
  assumes "fill_result yaml_string_read_handler (\<lambda>d. d) n r0 (Fail r')" "list_all allowed_char ts"
    "rd_offset r0 + length (pending (\<lambda>d. d) r0) \<le> k"
  shows "rd_error r' \<noteq> None \<and> (refused (rd_encoding r0) (encode_text (rd_encoding r0) ts @ pending (\<lambda>d. d) r0) \<or> MAX_FILE_SIZE \<le> k)"
proof -
  have h: "yaml_string_read_handler d m \<noteq> None" for d m by (simp add: yaml_string_read_handler_def Let_def)
  obtain cs r'' where rec: "recodes (\<lambda>d. d) cs r0 r''" and e: "rd_error r' \<noteq> None"
    and why: "no_char (rd_encoding r0) (pending (\<lambda>d. d) r'') \<or> rd_offset r'' \<ge> MAX_FILE_SIZE"
    using assms(1) h by (auto simp: fill_result_def)
  have p: "encode_text (rd_encoding r0) ts @ pending (\<lambda>d. d) r0 = encode_text (rd_encoding r0) (ts @ cs) @ pending (\<lambda>d. d) r''"
    "list_all allowed_char (ts @ cs)" "rd_offset r'' \<le> k"
    using rec assms(2,3) by (auto simp: recodes_def)
  show ?thesis using e why p unfolding refused_def by (metis le_trans)
qed

lemma begins_text:
  assumes "run_inv enc input r" "\<not> (rd_eof r \<and> rd_raw r = [])" "begins (\<lambda>d. d) r r0"
  obtains ts where "in_buffer ts r0" "list_all allowed_char ts" "rd_encoding r0 = text_encoding enc input"
    "text_octets enc input = encode_text (rd_encoding r0) ts @ pending (\<lambda>d. d) r0"
proof (cases "rd_encoding r = YAML_ANY_ENCODING")
  case True
  then have "in_buffer [] r0" "rd_encoding r0 = text_encoding enc input" "text_octets enc input = pending (\<lambda>d. d) r0"
    using assms(1,3) by (auto simp: run_inv_def begins_def in_buffer_def text_encoding_def text_octets_def)
  then show thesis by (intro that [of "[]"]) simp_all
next
  case False
  then obtain ts where d: "delivered (text_octets enc input) ts r" and e: "rd_encoding r = text_encoding enc input"
    using assms(1) by (auto simp: run_inv_def)
  then have "\<not> rd_eof r" using assms(2) by (auto simp: delivered_def pending_def)
  then show thesis using d e assms(3) False by (intro that [of ts]) (auto simp: begins_def delivered_def in_buffer_def)
qed

lemma CACHE_result:
  assumes inv: "run_inv enc input r" and n: "n \<le> 6144"
  shows "\<exists>out. CACHE yaml_string_read_handler n r = Some out \<and> (case out of
     Done _ r' \<Rightarrow> run_inv enc input r' \<and> (n \<le> rd_unread r' \<or> rd_eof r')
   | Fail r' \<Rightarrow> rd_error r' \<noteq> None \<and> (refused (text_encoding enc input) (text_octets enc input) \<or> MAX_FILE_SIZE \<le> length input)
   | Crash \<Rightarrow> False)"
proof (cases "n \<le> rd_unread r \<or> rd_eof r \<and> rd_raw r = []")
  case True
  then show ?thesis using inv by (auto simp: CACHE_def yaml_parser_update_buffer_def)
next
  case False
  have h: "yaml_string_read_handler d m \<noteq> None" for d m by (simp add: yaml_string_read_handler_def Let_def)
  have rinv: "reader_inv (\<lambda>d. d) r" using inv by (simp add: run_inv_def)
  from string_source.update_buffer_result [OF rinv n] False h obtain out r0 where
    out: "yaml_parser_update_buffer yaml_string_read_handler n r = Some out" and b: "begins (\<lambda>d. d) r r0"
    and res: "fill_result yaml_string_read_handler (\<lambda>d. d) n r0 out"
    by auto
  from inv _ b obtain ts where t: "in_buffer ts r0" "list_all allowed_char ts" "rd_encoding r0 = text_encoding enc input"
    "text_octets enc input = encode_text (rd_encoding r0) ts @ pending (\<lambda>d. d) r0"
    using False by (auto elim: begins_text)
  have off: "rd_offset r0 + length (pending (\<lambda>d. d) r0) = length input" "rd_error r0 = None"
    using b inv by (auto simp: begins_def run_inv_def)
  have ne: "rd_encoding r0 \<noteq> YAML_ANY_ENCODING" using t(3) by (auto simp: text_encoding_def detected_def)
  show ?thesis
  proof (cases out)
    case (Done u r')
    note f = fill_delivers [OF res [unfolded Done] t(1,2)]
    have "run_inv enc input r'" using f off ne t(3) t(4) by (auto simp: run_inv_def)
    then show ?thesis using f(6) out False by (auto simp: CACHE_def Done)
  next
    case (Fail r')
    have "rd_error r' \<noteq> None \<and> (refused (text_encoding enc input) (text_octets enc input) \<or> MAX_FILE_SIZE \<le> length input)"
      using fill_fails [OF res [unfolded Fail] t(2), of "length input"] off t(3,4) by simp
    then show ?thesis using out False by (auto simp: CACHE_def Fail)
  next
    case Crash
    then show ?thesis using res by (simp add: fill_result_def)
  qed
qed

lemma run_inv_SKIP:
  assumes "run_inv enc input r" "SKIP r = Done () r'"
  shows "run_inv enc input r'"
proof -
  note k = SKIP_keeps [OF assms(2)]
  have o: "rd_offset r' = rd_offset r" using assms(2) by (auto simp: SKIP_def Let_def split: if_splits)
  have ne: "rd_encoding r \<noteq> YAML_ANY_ENCODING" using assms by (auto simp: run_inv_def in_buffer_def SKIP_def)
  then obtain ts where d: "delivered (text_octets enc input) ts r" using assms(1) by (auto simp: run_inv_def)
  have "\<forall>c \<in> set (ts @ (if rd_eof r then [0] else [])). 0 \<le> c \<and> c \<le> 0x10FFFF"
    using d allowed_scalar by (auto simp: delivered_def list_all_iff)
  then have b: "in_buffer (ts @ (if rd_eof r then [0] else [])) r'"
    using in_buffer_SKIP [OF _ assms(2)] d by (simp add: delivered_def)
  have d': "delivered (text_octets enc input) ts r'" using d b k by (auto simp: delivered_def pending_def)
  moreover have "length (rd_buf r') \<le> 4 * rd_unread r'" using b utf8_text_length by (auto simp: in_buffer_def)
  ultimately show ?thesis using assms(1) ne k o by (auto simp: run_inv_def reader_inv_def pending_def)
qed

lemma reader_run_inv: "reader_run enc input r \<Longrightarrow> run_inv enc input r"
proof (induction rule: reader_run.induct)
  case (start r)
  then show ?case
    by (auto simp: yaml_parser_set_encoding_def yaml_parser_set_input_string_def run_inv_def reader_inv_def pending_def in_buffer_def
        delivered_def text_encoding_def text_octets_def mark0_def intro!: exI [of _ "[]"])
next
  case (cache r n r')
  then show ?case using CACHE_result [OF cache.IH cache.hyps(2)] by auto
next
  case (skip r r')
  then show ?case using run_inv_SKIP by blast
qed

section \<open>No two texts have the same encoding\<close>

lemma encode_char_inj:
  assumes "encode_char enc v @ x = encode_char enc w @ y" "allowed_char v" "allowed_char w" "enc \<noteq> YAML_ANY_ENCODING"
  shows "v = w"
  using decode_char_complete [OF assms(2,4), of True x] decode_char_complete [OF assms(3,4), of True y] assms(1) by simp

lemma encode_text_prefix:
  assumes "encode_text enc ts = encode_text enc cs @ rest" "list_all allowed_char ts" "list_all allowed_char cs" "enc \<noteq> YAML_ANY_ENCODING"
  shows "\<exists>ds. ts = cs @ ds \<and> rest = encode_text enc ds"
  using assms
proof (induction cs arbitrary: ts)
  case (Cons c cs)
  then obtain t us where ts: "ts = t # us" using recode_growth(2) [of enc c] by (cases ts) auto
  then have "t = c" using Cons.prems encode_char_inj [of enc t "encode_text enc us" c "encode_text enc cs @ rest"] by simp
  then show ?case using Cons.IH [of us] Cons.prems ts by simp
qed simp

lemma encoded_not_refused:
  assumes "list_all allowed_char ts" "enc \<noteq> YAML_ANY_ENCODING"
  shows "\<not> refused enc (encode_text enc ts)"
proof
  assume "refused enc (encode_text enc ts)"
  then obtain cs rest where r: "list_all allowed_char cs" "encode_text enc ts = encode_text enc cs @ rest" "no_char enc rest"
    unfolding refused_def by blast
  obtain ds where ds: "ts = cs @ ds" "rest = encode_text enc ds" using encode_text_prefix [OF r(2) assms(1) r(1) assms(2)] by blast
  then obtain d es where "ds = d # es" using r(3) by (cases ds) (auto simp: no_char_def)
  then show False using r(3) ds assms(1) by (auto simp: no_char_def)
qed

text \<open>The mark that says the encoding of a text.\<close>

definition byte_order_mark :: "yaml_encoding_t \<Rightarrow> ystr" where
  "byte_order_mark enc = (case enc of
     YAML_UTF16LE_ENCODING \<Rightarrow> BOM_UTF16LE | YAML_UTF16BE_ENCODING \<Rightarrow> BOM_UTF16BE | _ \<Rightarrow> BOM_UTF8)"

lemma detected_mark: "enc \<noteq> YAML_ANY_ENCODING \<Longrightarrow> detected (byte_order_mark enc @ x) = (enc, length (byte_order_mark enc))"
  by (cases enc) (simp_all add: detected_def byte_order_mark_def BOM_UTF16LE_def BOM_UTF16BE_def BOM_UTF8_def)

lemma encoded_text_read:
  assumes "list_all allowed_char ts" "enc \<noteq> YAML_ANY_ENCODING" "input = byte_order_mark enc @ encode_text enc ts"
    "length input < MAX_FILE_SIZE" "run_inv YAML_ANY_ENCODING input r" "0 < n" "n \<le> 6144"
  shows "\<exists>r'. CACHE yaml_string_read_handler n r = Some (Done () r') \<and> (n \<le> rd_unread r' \<or> rd_eof r')
    \<and> (\<exists>cs ds. ts = cs @ ds \<and> in_buffer (if rd_eof r' then ts @ [0] else cs) r')"
proof -
  have t: "text_encoding YAML_ANY_ENCODING input = enc" "text_octets YAML_ANY_ENCODING input = encode_text enc ts"
    using detected_mark [OF assms(2)] assms(3) by (simp_all add: text_encoding_def text_octets_def)
  obtain out where c: "CACHE yaml_string_read_handler n r = Some out" and out: "case out of
     Done _ r' \<Rightarrow> run_inv YAML_ANY_ENCODING input r' \<and> (n \<le> rd_unread r' \<or> rd_eof r')
   | Fail r' \<Rightarrow> rd_error r' \<noteq> None \<and> (refused enc (encode_text enc ts) \<or> MAX_FILE_SIZE \<le> length input)
   | Crash \<Rightarrow> False"
    using CACHE_result [OF assms(5,7)] unfolding t by blast
  then obtain r' where o: "out = Done () r'" and r': "run_inv YAML_ANY_ENCODING input r'" "n \<le> rd_unread r' \<or> rd_eof r'"
    using encoded_not_refused [OF assms(1,2)] assms(4) by (cases out) auto
  have ne: "rd_encoding r' \<noteq> YAML_ANY_ENCODING" using r' assms(6) by (auto simp: run_inv_def in_buffer_def)
  then obtain cs where e: "rd_encoding r' = enc" and d: "delivered (encode_text enc ts) cs r'"
    using r'(1) t by (auto simp: run_inv_def)
  obtain ds where ds: "ts = cs @ ds" "pending (\<lambda>d. d) r' = encode_text enc ds"
    using d e encode_text_prefix [OF _ assms(1) _ assms(2)] by (auto simp: delivered_def)
  have "ds = []" if "rd_eof r'" using that d ds recode_growth(2) by (cases ds) (auto simp: delivered_def)
  then show ?thesis using c o r'(2) ds(1) d by (cases "rd_eof r'") (auto simp: delivered_def)
qed

section \<open>Properties\<close>

text \<open>The decoder of one character takes a prefix of its input for a character that YAML allows if and only
  if the prefix is the encoding of that character, in each of the three encodings.\<close>

lemma decode_char_exact:
  assumes "raw \<noteq> []" "enc \<noteq> YAML_ANY_ENCODING"
  shows "decode_char enc eof raw = Char v w \<and> allowed_char v
    \<longleftrightarrow> allowed_char v \<and> w = length (encode_char enc v) \<and> raw = encode_char enc v @ drop w raw"
proof
  assume "decode_char enc eof raw = Char v w \<and> allowed_char v"
  then show "allowed_char v \<and> w = length (encode_char enc v) \<and> raw = encode_char enc v @ drop w raw"
    using decode_char_sound [OF _ assms] by blast
next
  assume "allowed_char v \<and> w = length (encode_char enc v) \<and> raw = encode_char enc v @ drop w raw"
  then show "decode_char enc eof raw = Char v w \<and> allowed_char v"
    using decode_char_complete [OF _ assms(2)] by metis
qed

text \<open>C17: a reading of up to 6144 characters from a string returns from any state that the reader can be in,
  never writes behind the end of a buffer, and gives the wanted characters or the end of the input. What
  has then gone through the buffer are the first characters of the input (after its byte order mark, in
  its encoding), followed by a NUL at the end: the mark counts those that the scanner has taken, and the
  buffer holds the UTF-8 octets of the others. The reading fails, with a reader error, only where the
  input goes on, after some characters, with octets that are no character, or is too long.\<close>

theorem reader_cache_exact:
  assumes "reader_run enc input r" "0 < n" "n \<le> 6144"
  shows "\<exists>out. CACHE yaml_string_read_handler n r = Some out \<and> (case out of
     Done _ r' \<Rightarrow> (n \<le> rd_unread r' \<or> rd_eof r') \<and>
       (\<exists>cs rest. list_all allowed_char cs \<and> text_octets enc input = encode_text (text_encoding enc input) cs @ rest
          \<and> (rd_eof r' \<longrightarrow> rest = []) \<and> in_buffer (cs @ (if rd_eof r' then [0] else [])) r')
   | Fail r' \<Rightarrow> rd_error r' \<noteq> None \<and> (refused (text_encoding enc input) (text_octets enc input) \<or> MAX_FILE_SIZE \<le> length input)
   | Crash \<Rightarrow> False)"
proof -
  obtain out where c: "CACHE yaml_string_read_handler n r = Some out" and out: "case out of
     Done _ r' \<Rightarrow> run_inv enc input r' \<and> (n \<le> rd_unread r' \<or> rd_eof r')
   | Fail r' \<Rightarrow> rd_error r' \<noteq> None \<and> (refused (text_encoding enc input) (text_octets enc input) \<or> MAX_FILE_SIZE \<le> length input)
   | Crash \<Rightarrow> False"
    using CACHE_result [OF reader_run_inv [OF assms(1)] assms(3)] by blast
  show ?thesis
  proof (cases out)
    case (Done u r')
    then have r': "run_inv enc input r'" "n \<le> rd_unread r' \<or> rd_eof r'" using out by simp_all
    then have "rd_encoding r' \<noteq> YAML_ANY_ENCODING" using assms(2) by (auto simp: run_inv_def in_buffer_def)
    then have "\<exists>cs. delivered (text_octets enc input) cs r'" "rd_encoding r' = text_encoding enc input"
      using r'(1) by (simp_all add: run_inv_def)
    then have "\<exists>cs rest. list_all allowed_char cs \<and> text_octets enc input = encode_text (text_encoding enc input) cs @ rest
          \<and> (rd_eof r' \<longrightarrow> rest = []) \<and> in_buffer (cs @ (if rd_eof r' then [0] else [])) r'"
      unfolding delivered_def by metis
    then show ?thesis using c Done r'(2) by simp
  qed (use c out in simp_all)
qed

theorem reader_cache_exact_witness:
  "\<exists>out. CACHE yaml_string_read_handler 1 (yaml_parser_set_input_string [0xFF]) = Some out \<and> out \<noteq> Crash"
proof -
  have "reader_run YAML_ANY_ENCODING [0xFF] (yaml_parser_set_input_string [0xFF])"
    by (rule reader_run.start) (simp add: yaml_parser_set_encoding_def yaml_parser_set_input_string_def)
  from reader_cache_exact [OF this, of 1] show ?thesis by auto
qed

text \<open>C18: every text of allowed characters, written in any of the encodings behind its byte order mark, is
  read back: no reading of it fails, what has been delivered is a beginning of the text, and at the end
  the whole text and a NUL.\<close>

theorem reader_roundtrip:
  assumes "list_all allowed_char ts" "enc \<noteq> YAML_ANY_ENCODING" "input = byte_order_mark enc @ encode_text enc ts"
    "length input < MAX_FILE_SIZE" "reader_run YAML_ANY_ENCODING input r" "0 < n" "n \<le> 6144"
  shows "\<exists>r'. CACHE yaml_string_read_handler n r = Some (Done () r') \<and> (n \<le> rd_unread r' \<or> rd_eof r')
    \<and> (\<exists>cs ds. ts = cs @ ds \<and> in_buffer (if rd_eof r' then ts @ [0] else cs) r')"
  by (rule encoded_text_read [OF assms(1-4) reader_run_inv [OF assms(5)] assms(6,7)])

theorem reader_roundtrip_witness:
  "\<exists>r'. CACHE yaml_string_read_handler 2 (yaml_parser_set_input_string [0xFF, 0xFE, 0x3D, 0xD8, 0x00, 0xDE]) = Some (Done () r')
     \<and> in_buffer [0x1F600, 0] r'"
proof -
  let ?in = "[0xFF, 0xFE, 0x3D, 0xD8, 0x00, 0xDE] :: ystr"
  have run: "reader_run YAML_ANY_ENCODING ?in (yaml_parser_set_input_string ?in)"
    by (rule reader_run.start) (simp add: yaml_parser_set_encoding_def yaml_parser_set_input_string_def)
  have "?in = byte_order_mark YAML_UTF16LE_ENCODING @ encode_text YAML_UTF16LE_ENCODING [0x1F600]"
    by (simp add: byte_order_mark_def BOM_UTF16LE_def encode_char_def utf16_bytes_def utf16_unit_def byte_def)
  from reader_roundtrip [OF _ _ this _ run, of 2] obtain r' cs ds where
    w: "CACHE yaml_string_read_handler 2 (yaml_parser_set_input_string ?in) = Some (Done () r')" "2 \<le> rd_unread r' \<or> rd_eof r'"
      "[0x1F600] = cs @ ds" "in_buffer (if rd_eof r' then [0x1F600] @ [0] else cs) r'"
    by (auto simp: allowed_char_def MAX_FILE_SIZE_def)
  have "length cs \<le> 1" using w(3) by (metis length_append le_add1 length_Cons list.size(3) One_nat_def)
  then have "rd_eof r'" using w(2,4) by (auto simp: in_buffer_def split: if_splits)
  then show ?thesis using w(1,4) by simp
qed

end
