(* ===== verification/Ly_Writer_Laws.thy ===== *)
theory Ly_Writer_Laws
  imports Ly_Writer Ly_Reader_Stream
begin

unbundle bit_operations_syntax

text \<open>
  The laws of the writer: what a sequence of characters becomes in the output, that its buffers are never
  left, and which characters the recoding to UTF-16 keeps, so that the reader gets them back.
\<close>

section \<open>Recoding one character\<close>

text \<open>The characters whose surrogate pair the writer computes as RFC 2781 says.\<close>

definition pair_exact :: "int \<Rightarrow> bool" where
  "pair_exact v \<longleftrightarrow> v < 0x10000 \<or> (v - 0x10000) div 1024 mod 64 = 0"

lemma put_unit_utf16: "put_unit le (u div 256) (u mod 256) = utf16_unit le u"
  by (auto simp: put_unit_def utf16_unit_def uint_byte_mod intro!: unsigned_word_eqI [where ?'a = int])

lemma put_unit_eq: "put_unit le h l = put_unit le h' l' \<longleftrightarrow> byte h = byte h' \<and> byte l = byte l'"
  by (auto simp: put_unit_def)

lemma pair_octets:
  assumes "0 \<le> x" "x < (0x100000 :: int)"
  shows "(0xD800 + x div 1024) div 256 = 0xD8 + x div 262144" "(0xD800 + x div 1024) mod 256 = x div 1024 mod 256"
    "(0xDC00 + x mod 1024) div 256 = 0xDC + x div 256 mod 4" "(0xDC00 + x mod 1024) mod 256 = x mod 256"
proof -
  have m: "x mod 1024 = 256 * (x div 256 mod 4) + x mod 256" using zmod_zmult2_eq [of 4 x 256] by simp
  show "(0xD800 + x div 1024) div 256 = 0xD8 + x div 262144"
    using div_mult_self2 [of 256 "x div 1024" "0xD8"] by (simp add: zdiv_zmult2_eq [symmetric] add.commute)
  show "(0xD800 + x div 1024) mod 256 = x div 1024 mod 256" using mod_mult_self2 [of "x div 1024" 256 "0xD8"] by (simp add: add.commute)
  have e: "0xDC00 + x mod 1024 = x mod 256 + (0xDC + x div 256 mod 4) * 256" using m by simp
  have "0 \<le> x div 256 mod 4" "x div 256 mod 4 < 4" by simp_all
  then show "(0xDC00 + x mod 1024) div 256 = 0xDC + x div 256 mod 4" "(0xDC00 + x mod 1024) mod 256 = x mod 256"
    unfolding e using unit_of_octets(1,2) [of "x mod 256" "0xDC + x div 256 mod 4"] by simp_all
qed

lemma third_octet:
  assumes "0 \<le> k"
  shows "byte (0xDC + k mod 256) = byte (0xDC + k mod 4) \<longleftrightarrow> k div 4 mod 64 = (0 :: int)"
proof -
  have m: "k mod 256 = 4 * (k div 4 mod 64) + k mod 4" using zmod_zmult2_eq [of 64 k 4] by simp
  obtain q r where q: "k div 4 mod 64 = q" "k mod 4 = r" "0 \<le> q" "q < 64" "0 \<le> r" "r < 4" by simp
  have r: "(0xDC + r) mod 256 = 0xDC + r" using q(5,6) by simp
  have "(0xDC + (4 * q + r)) mod 256 = 0xDC + r \<longleftrightarrow> q = 0"
  proof (cases "0xDC + (4 * q + r) < 256")
    case True
    then have "(0xDC + (4 * q + r)) mod 256 = 0xDC + (4 * q + r)" using q(3,5) by (intro mod_pos_pos_trivial) linarith+
    then show ?thesis by linarith
  next
    case False
    have "(0xDC + (4 * q + r)) mod 256 = (0xDC + (4 * q + r) - 256) mod 256" by (rule minus_mod_self2 [symmetric])
    also have "\<dots> = 0xDC + (4 * q + r) - 256" using False q(4,6) by (intro mod_pos_pos_trivial) linarith+
    finally have "(0xDC + (4 * q + r)) mod 256 \<noteq> 0xDC + r" using q(4) by linarith
    moreover have "q \<noteq> 0" using False q(6) by linarith
    ultimately show ?thesis by blast
  qed
  moreover have "byte a = byte b \<longleftrightarrow> a mod 256 = b mod 256" for a b by (metis uint_byte_mod byte_eq)
  ultimately show ?thesis unfolding m q(1,2) using r by simp
qed

lemma utf16_put_exact:
  assumes "0 \<le> v" "v \<le> 0x10FFFF"
  shows "utf16_put le v = utf16_bytes le v \<longleftrightarrow> pair_exact v"
proof (cases "v < 0x10000")
  case True
  then show ?thesis using put_unit_utf16 [of le v] by (simp add: utf16_put_def utf16_bytes_def pair_exact_def mask_simps shift_simps)
next
  case False
  obtain x where x: "v = 0x10000 + x" "0 \<le> x" "x < 0x100000" using False assms by (intro that [of "v - 0x10000"]) auto
  note o = pair_octets [OF x(2,3)]
  have "utf16_bytes le v = put_unit le (0xD8 + x div 262144) (x div 1024 mod 256) @ put_unit le (0xDC + x div 256 mod 4) (x mod 256)"
    using False unfolding utf16_bytes_def put_unit_utf16 [symmetric] x(1) by (simp add: o)
  moreover have "utf16_put le v = put_unit le (0xD8 + x div 262144) (x div 1024 mod 256) @ put_unit le (0xDC + x div 256 mod 256) (x mod 256)"
    using False x(1) by (simp add: utf16_put_def Let_def mask_simps shift_simps)
  ultimately have "utf16_put le v = utf16_bytes le v \<longleftrightarrow> byte (0xDC + x div 256 mod 256) = byte (0xDC + x div 256 mod 4)"
    by (simp add: put_unit_eq)
  also have "\<dots> \<longleftrightarrow> x div 256 div 4 mod 64 = 0" using x(2) by (intro third_octet) (simp add: pos_imp_zdiv_nonneg_iff)
  finally show ?thesis using False x(1) by (simp add: pair_exact_def zdiv_zmult2_eq [symmetric])
qed

section \<open>Recoding the buffer\<close>

text \<open>What the characters become in the output. The buffer may hold all values that have a UTF-8 sequence of at most
  four octets.\<close>

definition out_char :: "yaml_encoding_t \<Rightarrow> int \<Rightarrow> ystr" where
  "out_char enc = (case enc of
     YAML_UTF16LE_ENCODING \<Rightarrow> utf16_put True | YAML_UTF16BE_ENCODING \<Rightarrow> utf16_put False | _ \<Rightarrow> utf8_bytes)"

definition out_text :: "yaml_encoding_t \<Rightarrow> int list \<Rightarrow> ystr" where
  "out_text enc cs = concat (map (out_char enc) cs)"

abbreviation scalar_values :: "int list \<Rightarrow> bool" where
  "scalar_values cs \<equiv> \<forall>c \<in> set cs. 0 \<le> c \<and> c < 0x200000"

lemma out_text_simps [simp]:
  "out_text enc [] = []" "out_text enc (c # cs) = out_char enc c @ out_text enc cs" "out_text enc (cs @ ds) = out_text enc cs @ out_text enc ds"
  by (simp_all add: out_text_def)

lemma out_text_utf8: "out_text YAML_UTF8_ENCODING cs = utf8_text cs"
  by (induction cs) (simp_all add: out_char_def)

lemma out_text_exact: "\<forall>c \<in> set cs. 0 \<le> c \<and> c \<le> 0x10FFFF \<Longrightarrow> \<forall>c \<in> set cs. pair_exact c \<Longrightarrow> out_text enc cs = encode_text enc cs"
  by (induction cs) (auto simp: out_char_def encode_char_def utf16_put_exact split: yaml_encoding_t.splits)

lemma out_text_length: "length (concat (map (utf16_put le) cs)) \<le> 2 * length (utf8_text cs)"
  by (induction cs) (auto simp: utf16_put_length utf8_bytes_def)

text \<open>The loop turns a buffer of characters into their pairs of octets.\<close>

lemma recode_loop_text:
  assumes "scalar_values cs" "length raw + length (concat (map (utf16_put le) cs)) \<le> OUTPUT_RAW_BUFFER_SIZE"
  shows "recode_loop le (utf8_text cs) raw = Some (raw @ concat (map (utf16_put le) cs))"
  using assms
proof (induction cs arbitrary: raw)
  case Nil
  then show ?case by (simp add: recode_loop.simps)
next
  case (Cons c cs)
  have c: "0 \<le> c" "c < 0x200000" using Cons.prems(1) by simp_all
  obtain b bs where bs: "utf8_bytes c = b # bs" using utf8_width_wide(2) [OF c] by (cases "utf8_bytes c") auto
  have w: "utf8_width b = Suc (length bs)" using utf8_width_wide(1) [OF c] bs by simp
  have "recode_loop le (utf8_text (c # cs)) raw = recode_loop le (utf8_text cs) (raw @ utf16_put le c)"
    using Cons.prems(2) bs w utf8_bytes_wide [OF c bs] by (simp add: recode_loop.simps [of le "b # bs @ utf8_text cs"] Let_def)
  then show ?case using Cons.IH [of "raw @ utf16_put le c"] Cons.prems by simp
qed

section \<open>The contract of a write handler\<close>

text \<open>What the handler says it has written is in the output.\<close>

locale byte_sink =
  fixes wh :: "'d write_handler" and written :: "'d \<Rightarrow> ystr"
  assumes write_appends: "wh d bs = (True, d') \<Longrightarrow> written d' = written d @ bs"

interpretation string_sink: byte_sink yaml_string_write_handler so_written
  by unfold_locales (auto simp: yaml_string_write_handler_def split: if_splits)

text \<open>The characters \<open>cs\<close> have been put: the output has the first of them and the buffer the others.\<close>

definition holds_text :: "('d \<Rightarrow> ystr) \<Rightarrow> yaml_encoding_t \<Rightarrow> int list \<Rightarrow> ('d, 'x) yaml_writer_t_scheme \<Rightarrow> bool" where
  "holds_text written enc cs w \<longleftrightarrow> wr_encoding w = enc \<and> wr_raw w = [] \<and> length (wr_buf w) \<le> OUTPUT_BUFFER_SIZE \<and>
     (\<exists>xs ys. cs = xs @ ys \<and> scalar_values cs \<and> written (wr_data w) = out_text enc xs \<and> wr_buf w = utf8_text ys)"

definition write_failed :: "('d, 'x) yaml_writer_t_scheme \<Rightarrow> bool" where
  "write_failed w \<longleftrightarrow> wr_error w = Some (YAML_WRITER_ERROR, ''write error'')"

text \<open>The output, if the writer works; nothing, if the handler fails.\<close>

definition puts :: "('d \<Rightarrow> ystr) \<Rightarrow> yaml_encoding_t \<Rightarrow> int list \<Rightarrow> ('d, 'x) write_outcome \<Rightarrow> bool" where
  "puts written enc cs out \<longleftrightarrow> (case out of Done _ w \<Rightarrow> holds_text written enc cs w | Fail w \<Rightarrow> write_failed w | Crash \<Rightarrow> False)"

lemma puts_then:
  "puts written enc cs out \<Longrightarrow> (\<And>w. holds_text written enc cs w \<Longrightarrow> puts written enc ds (k w)) \<Longrightarrow> puts written enc ds (then_do out k)"
  by (cases out) (auto simp: puts_def)

lemma holds_flushed:
  assumes "written (wr_data w) = out_text enc xs @ out_text enc ys" "wr_encoding w = enc" "wr_raw w = []" "wr_buf w = []"
    "cs = xs @ ys" "scalar_values cs"
  shows "holds_text written enc cs w \<and> wr_buf w = [] \<and> written (wr_data w) = out_text enc cs"
proof -
  have "cs = cs @ [] \<and> scalar_values cs \<and> written (wr_data w) = out_text enc cs \<and> wr_buf w = utf8_text []" using assms by simp
  then have "\<exists>xs ys. cs = xs @ ys \<and> scalar_values cs \<and> written (wr_data w) = out_text enc xs \<and> wr_buf w = utf8_text ys" by blast
  moreover have "written (wr_data w) = out_text enc cs" using assms(1,5) by simp
  ultimately show ?thesis using assms(2-4) unfolding holds_text_def by (metis le0 list.size(3))
qed

context byte_sink
begin

lemma flush_writes:
  assumes "holds_text written enc cs w" "enc \<noteq> YAML_ANY_ENCODING"
  shows "case yaml_emitter_flush wh w of
    Done _ w' \<Rightarrow> holds_text written enc cs w' \<and> wr_buf w' = [] \<and> written (wr_data w') = out_text enc cs
  | Fail w' \<Rightarrow> write_failed w' | Crash \<Rightarrow> False"
proof -
  obtain xs ys where h: "wr_encoding w = enc" "wr_raw w = []" "length (wr_buf w) \<le> OUTPUT_BUFFER_SIZE" "cs = xs @ ys" "scalar_values cs"
    "written (wr_data w) = out_text enc xs" "wr_buf w = utf8_text ys"
    using assms(1) by (auto simp: holds_text_def)
  let ?le = "enc = YAML_UTF16LE_ENCODING"
  note d = holds_flushed [OF _ _ _ _ h(4,5)]
  have ne: "wr_buf w \<noteq> []" if "ys \<noteq> []" using that h(7) recode_growth(3) by (cases ys) auto
  have "?thesis" if "ys = []"
  proof -
    have "yaml_emitter_flush wh w = Done () w" using that h(1,7) assms(2) by (simp add: yaml_emitter_flush_def)
    then show ?thesis using d [where w = w] that h by simp
  qed
  moreover have ?thesis if "ys \<noteq> []" "enc = YAML_UTF8_ENCODING"
  proof -
    obtain ok d' where wh: "wh (wr_data w) (wr_buf w) = (ok, d')" by force
    have f: "yaml_emitter_flush wh w = (if ok then Done () (w\<lparr>wr_data := d', wr_buf := []\<rparr>)
        else yaml_emitter_set_writer_error (w\<lparr>wr_data := d', wr_buf := []\<rparr>) ''write error'')"
      using wh ne [OF that(1)] that(2) h(1) by (simp add: yaml_emitter_flush_def)
    have "written d' = out_text enc xs @ out_text enc ys" if ok
      using write_appends [of "wr_data w" "wr_buf w" d'] wh that h(6,7) \<open>enc = YAML_UTF8_ENCODING\<close> out_text_utf8 by simp
    then show ?thesis using f d [where w = "w\<lparr>wr_data := d', wr_buf := []\<rparr>"] h(1,2)
      by (cases ok) (simp_all add: yaml_emitter_set_writer_error_def write_failed_def)
  qed
  moreover have ?thesis if "ys \<noteq> []" "enc \<noteq> YAML_UTF8_ENCODING"
  proof -
    have o: "out_text enc ys = concat (map (utf16_put ?le) ys)"
      using that(2) assms(2) by (cases enc) (simp_all add: out_text_def out_char_def)
    have r: "recode_loop ?le (wr_buf w) (wr_raw w) = Some (out_text enc ys)"
      using recode_loop_text [of ys "[]" ?le] h(2-5,7) out_text_length [of ?le ys] by (simp add: o OUTPUT_RAW_BUFFER_SIZE_def)
    obtain ok d' where wh: "wh (wr_data w) (out_text enc ys) = (ok, d')" by force
    have f: "yaml_emitter_flush wh w = (if ok then Done () (w\<lparr>wr_data := d', wr_buf := [], wr_raw := []\<rparr>)
        else yaml_emitter_set_writer_error (w\<lparr>wr_data := d', wr_raw := out_text enc ys\<rparr>) ''write error'')"
      using wh r ne [OF that(1)] that(2) h(1) assms(2) by (simp add: yaml_emitter_flush_def)
    have "written d' = out_text enc xs @ out_text enc ys" if ok
      using write_appends [of "wr_data w" "out_text enc ys" d'] wh that h(6) by simp
    then show ?thesis using f d [where w = "w\<lparr>wr_data := d', wr_buf := [], wr_raw := []\<rparr>"] h(1)
      by (cases ok) (simp_all add: yaml_emitter_set_writer_error_def write_failed_def)
  qed
  ultimately show ?thesis by blast
qed

lemma FLUSH_room:
  assumes "holds_text written enc cs w" "enc \<noteq> YAML_ANY_ENCODING"
    "\<And>w'. holds_text written enc cs w' \<Longrightarrow> wr_break w' = wr_break w \<Longrightarrow> length (wr_buf w') + 5 < OUTPUT_BUFFER_SIZE \<Longrightarrow> puts written enc ds (k w')"
  shows "puts written enc ds (then_do (FLUSH wh w) k)"
proof (cases "length (wr_buf w) + 5 < OUTPUT_BUFFER_SIZE")
  case True
  then show ?thesis using assms(1) assms(3) [of w] by (simp add: FLUSH_def)
next
  case False
  have b: "wr_break w' = wr_break w" if "yaml_emitter_flush wh w = Done () w'" for w'
    using that by (auto simp: yaml_emitter_flush_def yaml_emitter_set_writer_error_def split: if_splits option.splits prod.splits bool.splits)
  show ?thesis
  proof (cases "yaml_emitter_flush wh w")
    case (Done u w')
    then have "holds_text written enc cs w'" "wr_buf w' = []" using flush_writes [OF assms(1,2)] by simp_all
    then show ?thesis using assms(3) [of w'] b [of w'] Done False by (simp add: FLUSH_def OUTPUT_BUFFER_SIZE_def)
  next
    case (Fail w')
    then show ?thesis using flush_writes [OF assms(1,2)] False by (simp add: FLUSH_def puts_def)
  next
    case Crash
    then show ?thesis using flush_writes [OF assms(1,2)] by simp
  qed
qed

end

lemma store_holds:
  assumes "holds_text written enc cs w" "scalar_values ds" "bs = utf8_text ds" "length (wr_buf w) + length bs \<le> OUTPUT_BUFFER_SIZE"
    "wr_data w' = wr_data w" "wr_encoding w' = wr_encoding w" "wr_raw w' = wr_raw w" "wr_buf w' = wr_buf w @ bs"
  shows "holds_text written enc (cs @ ds) w'"
proof -
  obtain xs ys where h: "cs = xs @ ys" "scalar_values cs" "written (wr_data w) = out_text enc xs" "wr_buf w = utf8_text ys"
    using assms(1) by (auto simp: holds_text_def)
  then have "cs @ ds = xs @ (ys @ ds) \<and> scalar_values (cs @ ds) \<and> written (wr_data w') = out_text enc xs \<and> wr_buf w' = utf8_text (ys @ ds)"
    using assms by auto
  then have "\<exists>xs ys. cs @ ds = xs @ ys \<and> scalar_values (cs @ ds) \<and> written (wr_data w') = out_text enc xs \<and> wr_buf w' = utf8_text ys" by blast
  then show ?thesis using assms by (simp add: holds_text_def)
qed

lemma hd_newline:
  assumes "0 \<le> c" "c < 0x200000"
  shows "hd (utf8_bytes c @ s) = 10 \<longleftrightarrow> c = 10"
proof
  assume "hd (utf8_bytes c @ s) = 10"
  then have h: "hd (utf8_bytes c) = 10" using utf8_width_wide(2) [OF assms] by simp
  then have "length (utf8_bytes c) = 1" using utf8_width_wide(1) [OF assms] by (simp add: utf8_width_def)
  then have "c \<le> 0x7F" by (simp add: utf8_bytes_def split: if_splits)
  then have "uint (hd (utf8_bytes c)) = c" using assms(1) by (simp add: utf8_bytes_def uint_byte_mod)
  then show "c = 10" using h by simp
next
  assume "c = 10"
  then show "hd (utf8_bytes c @ s) = 10" by (simp add: utf8_bytes_def byte_def)
qed

lemma break_text: "break_octets b = utf8_text (map uint (break_octets b))" "scalar_values (map uint (break_octets b))"
  "length (break_octets b) \<le> 2"
  by (auto simp: break_octets_def utf8_bytes_def byte_def split: yaml_break_t.splits)

context byte_sink
begin

lemma PUT_puts:
  assumes "holds_text written enc cs w" "enc \<noteq> YAML_ANY_ENCODING" "0 \<le> v" "v < 128"
  shows "puts written enc (cs @ [v]) (PUT wh v w)"
  unfolding PUT_def
proof (rule FLUSH_room [OF assms(1,2)])
  fix w'
  assume h: "holds_text written enc cs w'" "length (wr_buf w') + 5 < OUTPUT_BUFFER_SIZE"
  then show "puts written enc (cs @ [v]) (then_do (store_octets [byte v] w') (\<lambda>w. Done () (w\<lparr>wr_column := wr_column w + 1\<rparr>)))"
    using assms(3,4) by (auto simp: store_octets_def puts_def utf8_bytes_def intro!: store_holds [OF h(1), of "[v]"])
qed

lemma COPY_puts:
  assumes "holds_text written enc cs w" "0 \<le> c" "c < 0x200000" "length (wr_buf w) + 5 < OUTPUT_BUFFER_SIZE"
    "\<And>w'. wr_data (f w') = wr_data w' \<and> wr_encoding (f w') = wr_encoding w' \<and> wr_raw (f w') = wr_raw w' \<and> wr_buf (f w') = wr_buf w'"
  shows "puts written enc (cs @ [c]) (then_do (COPY (utf8_bytes c @ s) w) (\<lambda>w. Done () (f w)))"
proof -
  have "hd (utf8_bytes c @ s) = hd (utf8_bytes c)" "length (utf8_bytes c) \<le> 4" using utf8_width_wide [OF assms(2,3)] by simp_all
  then have "COPY (utf8_bytes c @ s) w = Done () (w\<lparr>wr_buf := wr_buf w @ utf8_bytes c\<rparr>)"
    using utf8_width_wide [OF assms(2,3)] assms(4) by (simp add: COPY_def store_octets_def)
  then show ?thesis using assms utf8_width_wide(3) [OF assms(2,3)]
    by (auto simp: puts_def intro!: store_holds [OF assms(1), of "[c]" "utf8_bytes c"])
qed

lemma WRITE_puts:
  assumes "holds_text written enc cs w" "enc \<noteq> YAML_ANY_ENCODING" "0 \<le> c" "c < 0x200000"
  shows "puts written enc (cs @ [c]) (WRITE wh (utf8_bytes c @ s) w)"
  unfolding WRITE_def by (rule FLUSH_room [OF assms(1,2)], rule COPY_puts [OF _ assms(3,4)]) simp_all

lemma put_break_puts:
  assumes "holds_text written enc cs w" "enc \<noteq> YAML_ANY_ENCODING"
  shows "puts written enc (cs @ map uint (break_octets (wr_break w))) (yaml_emitter_put_break wh w)"
  unfolding yaml_emitter_put_break_def
proof (rule FLUSH_room [OF assms])
  fix w'
  assume h: "holds_text written enc cs w'" "wr_break w' = wr_break w" "length (wr_buf w') + 5 < OUTPUT_BUFFER_SIZE"
  then show "puts written enc (cs @ map uint (break_octets (wr_break w)))
      (then_do (store_octets (break_octets (wr_break w')) w') (\<lambda>w. Done () (w\<lparr>wr_column := 0, wr_line := wr_line w + 1\<rparr>)))"
    using break_text [of "wr_break w"] by (auto simp: store_octets_def puts_def intro!: store_holds [OF h(1), of _ "break_octets (wr_break w)"])
qed

lemma WRITE_BREAK_puts:
  assumes "holds_text written enc cs w" "enc \<noteq> YAML_ANY_ENCODING" "0 \<le> c" "c < 0x200000"
  shows "puts written enc (cs @ (if c = 10 then map uint (break_octets (wr_break w)) else [c])) (WRITE_BREAK wh (utf8_bytes c @ s) w)"
  unfolding WRITE_BREAK_def
proof (rule FLUSH_room [OF assms(1,2)])
  fix w'
  assume h: "holds_text written enc cs w'" "wr_break w' = wr_break w" "length (wr_buf w') + 5 < OUTPUT_BUFFER_SIZE"
  have "utf8_bytes c @ s \<noteq> []" using utf8_width_wide(2) [OF assms(3,4)] by simp
  then have ten: "utf8_bytes c @ s \<noteq> [] \<and> hd (utf8_bytes c @ s) = 10 \<longleftrightarrow> c = 10" using hd_newline [OF assms(3,4)] by blast
  have "yaml_emitter_put_break wh w' \<noteq> Fail w''" for w''
    using h(3) by (simp add: yaml_emitter_put_break_def FLUSH_def store_octets_def)
  then have pb: "(case yaml_emitter_put_break wh w' of Fail w' \<Rightarrow> Done () w' | out \<Rightarrow> out) = yaml_emitter_put_break wh w'"
    by (auto split: outcome.splits)
  show "puts written enc (cs @ (if c = 10 then map uint (break_octets (wr_break w)) else [c]))
     (if utf8_bytes c @ s \<noteq> [] \<and> hd (utf8_bytes c @ s) = 10 then (case yaml_emitter_put_break wh w' of Fail w' \<Rightarrow> Done () w' | out \<Rightarrow> out)
     else then_do (COPY (utf8_bytes c @ s) w') (\<lambda>w. Done () (w\<lparr>wr_column := 0, wr_line := wr_line w + 1\<rparr>)))"
  proof (cases "c = 10")
    case True
    then show ?thesis unfolding ten pb using put_break_puts [OF h(1) assms(2)] h(2) by simp
  next
    case False
    then show ?thesis unfolding ten
      using COPY_puts [OF h(1) assms(3,4) h(3), of "\<lambda>w. w\<lparr>wr_column := 0, wr_line := wr_line w + 1\<rparr>"] by simp
  qed
qed

lemma write_bom_puts:
  assumes "holds_text written enc cs w" "enc \<noteq> YAML_ANY_ENCODING"
  shows "puts written enc (cs @ [0xFEFF]) (yaml_emitter_write_bom wh w)"
  unfolding yaml_emitter_write_bom_def
proof (rule FLUSH_room [OF assms])
  fix w'
  assume h: "holds_text written enc cs w'" "length (wr_buf w') + 5 < OUTPUT_BUFFER_SIZE"
  then show "puts written enc (cs @ [0xFEFF]) (store_octets [0xEF, 0xBB, 0xBF] w')"
    by (auto simp: store_octets_def puts_def utf8_bytes_def byte_def intro!: store_holds [OF h(1), of "[0xFEFF]"])
qed

end

section \<open>Runs of the writer\<close>

text \<open>The characters put into a string output, by any sequence of the emitter's operations.\<close>

inductive writer_run :: "yaml_encoding_t \<Rightarrow> nat \<Rightarrow> int list \<Rightarrow> string_output yaml_writer_t \<Rightarrow> bool" for enc sz where
  begun: "yaml_emitter_set_encoding enc (yaml_emitter_set_break b (yaml_emitter_set_output_string sz)) = Done () w \<Longrightarrow> writer_run enc sz [] w"
| put_ascii: "writer_run enc sz cs w \<Longrightarrow> 0 \<le> v \<Longrightarrow> v < 128 \<Longrightarrow> PUT yaml_string_write_handler v w = Done () w' \<Longrightarrow> writer_run enc sz (cs @ [v]) w'"
| write_char: "writer_run enc sz cs w \<Longrightarrow> 0 \<le> c \<Longrightarrow> c < 0x200000 \<Longrightarrow> WRITE yaml_string_write_handler (utf8_bytes c @ s) w = Done () w' \<Longrightarrow>
    writer_run enc sz (cs @ [c]) w'"
| break_put: "writer_run enc sz cs w \<Longrightarrow> yaml_emitter_put_break yaml_string_write_handler w = Done () w' \<Longrightarrow>
    writer_run enc sz (cs @ map uint (break_octets (wr_break w))) w'"
| break_written: "writer_run enc sz cs w \<Longrightarrow> 0 \<le> c \<Longrightarrow> c < 0x200000 \<Longrightarrow> WRITE_BREAK yaml_string_write_handler (utf8_bytes c @ s) w = Done () w' \<Longrightarrow>
    writer_run enc sz (cs @ (if c = 10 then map uint (break_octets (wr_break w)) else [c])) w'"
| bom_written: "writer_run enc sz cs w \<Longrightarrow> yaml_emitter_write_bom yaml_string_write_handler w = Done () w' \<Longrightarrow> writer_run enc sz (cs @ [0xFEFF]) w'"
| flushed: "writer_run enc sz cs w \<Longrightarrow> yaml_emitter_flush yaml_string_write_handler w = Done () w' \<Longrightarrow> writer_run enc sz cs w'"

lemma puts_Done: "puts written enc cs (Done u w) \<Longrightarrow> holds_text written enc cs w"
  by (simp add: puts_def)

lemma writer_run_holds:
  assumes "writer_run enc sz cs w" "enc \<noteq> YAML_ANY_ENCODING"
  shows "holds_text so_written enc cs w"
  using assms
proof (induction rule: writer_run.induct)
  case (begun b w)
  then show ?case by (auto simp: yaml_emitter_set_encoding_def yaml_emitter_set_output_string_def yaml_emitter_set_break_def holds_text_def)
next
  case (put_ascii cs w v w')
  then show ?case using string_sink.PUT_puts puts_Done by metis
next
  case (write_char cs w c s w')
  then show ?case using string_sink.WRITE_puts puts_Done by metis
next
  case (break_put cs w w')
  then show ?case using string_sink.put_break_puts puts_Done by metis
next
  case (break_written cs w c s w')
  then show ?case using string_sink.WRITE_BREAK_puts [of enc cs w c s] puts_Done by metis
next
  case (bom_written cs w w')
  then show ?case using string_sink.write_bom_puts puts_Done by metis
next
  case (flushed cs w w')
  then show ?case using string_sink.flush_writes [of enc cs w] by simp
qed

section \<open>Properties\<close>

text \<open>The characters whose output is right: in UTF-8 all of at most four octets, in UTF-16 the Unicode ones
  whose surrogate pair the writer computes correctly.\<close>

definition kept_char :: "yaml_encoding_t \<Rightarrow> int \<Rightarrow> bool" where
  "kept_char enc v \<longleftrightarrow> 0 \<le> v \<and> (if enc = YAML_UTF8_ENCODING then v < 0x200000 else v \<le> 0x10FFFF \<and> pair_exact v)"

lemma out_text_kept: "list_all (kept_char enc) cs \<Longrightarrow> out_text enc cs = encode_text enc cs"
  using out_text_exact [of cs enc] out_text_utf8 [of cs]
  by (cases "enc = YAML_UTF8_ENCODING") (simp_all add: kept_char_def list_all_iff)

text \<open>C19: of the characters that the emitter has put, the first are in the output, encoded in UTF-8 or (by the
  rules of RFC 2781) in UTF-16, and the others in the buffer; putting one more character never writes behind
  a buffer, and flushing gives the encoding of the whole text in the output or a writer error. The characters
  are those that the writer encodes correctly: all in UTF-8, and in UTF-16 those below U+10000 and the
  supplementary ones with zeros in the bits 10 to 15 of their surrogate value; the next property
  shows that these are all.\<close>

theorem writer_output:
  assumes "writer_run enc sz cs w" "enc \<noteq> YAML_ANY_ENCODING" "list_all (kept_char enc) (cs @ [c])"
  shows "(case WRITE yaml_string_write_handler (utf8_bytes c @ s) w of
       Done _ w' \<Rightarrow> \<exists>xs ys. cs @ [c] = xs @ ys \<and> so_written (wr_data w') = encode_text enc xs \<and> wr_buf w' = utf8_text ys
     | Fail w' \<Rightarrow> write_failed w' | Crash \<Rightarrow> False)
   \<and> (case yaml_emitter_flush yaml_string_write_handler w of
       Done _ w' \<Rightarrow> so_written (wr_data w') = encode_text enc cs | Fail w' \<Rightarrow> write_failed w' | Crash \<Rightarrow> False)"
proof
  note h = writer_run_holds [OF assms(1,2)]
  have c: "0 \<le> c" "c < 0x200000" using assms(3) by (auto simp: kept_char_def split: if_splits)
  have kept: "out_text enc xs = encode_text enc xs" if "cs @ [c] = xs @ ys" for xs ys
    by (rule out_text_kept) (use assms(3) in \<open>simp add: that\<close>)
  have W: "case WRITE yaml_string_write_handler (utf8_bytes c @ s) w of
       Done _ w' \<Rightarrow> \<exists>xs ys. cs @ [c] = xs @ ys \<and> so_written (wr_data w') = out_text enc xs \<and> wr_buf w' = utf8_text ys
     | Fail w' \<Rightarrow> write_failed w' | Crash \<Rightarrow> False"
    using string_sink.WRITE_puts [OF h assms(2) c, of s] by (auto simp: puts_def holds_text_def split: outcome.splits)
  then show "case WRITE yaml_string_write_handler (utf8_bytes c @ s) w of
       Done _ w' \<Rightarrow> \<exists>xs ys. cs @ [c] = xs @ ys \<and> so_written (wr_data w') = encode_text enc xs \<and> wr_buf w' = utf8_text ys
     | Fail w' \<Rightarrow> write_failed w' | Crash \<Rightarrow> False"
    using kept by (cases "WRITE yaml_string_write_handler (utf8_bytes c @ s) w") fastforce+
  show "case yaml_emitter_flush yaml_string_write_handler w of
       Done _ w' \<Rightarrow> so_written (wr_data w') = encode_text enc cs | Fail w' \<Rightarrow> write_failed w' | Crash \<Rightarrow> False"
    using string_sink.flush_writes [OF h assms(2)] kept [OF refl] by (auto split: outcome.splits)
qed

text \<open>The letter A and U+10000 in UTF-16: the first is flushed from the buffer, the second can be put.\<close>

theorem writer_output_witness:
  "\<exists>w. writer_run YAML_UTF16LE_ENCODING 8 [0x41] w \<and> wr_buf w = [0x41]
     \<and> (\<exists>w'. yaml_emitter_flush yaml_string_write_handler w = Done () w' \<and> so_written (wr_data w') = [0x41, 0x00])"
proof -
  let ?v = "(yaml_emitter_set_output_string 8)\<lparr>wr_encoding := YAML_UTF16LE_ENCODING\<rparr>"
  let ?w = "?v\<lparr>wr_buf := [0x41], wr_column := 1\<rparr>"
  have "writer_run YAML_UTF16LE_ENCODING 8 [] ?v"
    by (rule writer_run.begun [of _ YAML_ANY_BREAK])
       (simp add: yaml_emitter_set_encoding_def yaml_emitter_set_output_string_def yaml_emitter_set_break_def)
  then have "writer_run YAML_UTF16LE_ENCODING 8 ([] @ [0x41]) ?w"
    by (rule writer_run.put_ascii) (simp_all add: PUT_def yaml_emitter_set_output_string_def FLUSH_def
        store_octets_def OUTPUT_BUFFER_SIZE_def byte_def)
  then have run: "writer_run YAML_UTF16LE_ENCODING 8 [0x41] ?w" by simp
  have "recode_loop True [0x41] [] = Some (utf16_put True 0x41)"
    using recode_loop_text [of "[0x41]" "[]" True]
    by (simp add: encode_char_def utf8_bytes_def byte_def utf16_put_length OUTPUT_RAW_BUFFER_SIZE_def OUTPUT_BUFFER_SIZE_def)
  moreover have "length (utf16_put True 0x41) = 2" by (simp add: utf16_put_length)
  ultimately obtain w' where f: "yaml_emitter_flush yaml_string_write_handler ?w = Done () w'"
    by (simp add: yaml_emitter_flush_def yaml_string_write_handler_def yaml_emitter_set_output_string_def)
  have "encode_text YAML_UTF16LE_ENCODING [0x41] = [0x41, 0x00]"
    by (simp add: encode_char_def utf16_bytes_def utf16_unit_def byte_def)
  with writer_output [OF run, of 65536 "[]"] f have "so_written (wr_data w') = [0x41, 0x00]"
    by (simp add: kept_char_def pair_exact_def)
  with run f show ?thesis by (intro exI [of _ ?w]) auto
qed

text \<open>C20: the reader gets back from the writer's UTF-16 exactly the characters below U+10000 and those whose
  surrogate pair has zeros in the bits 10 to 15: of the supplementary characters the writer keeps one in
  64. For the others, such as U+10400, the third octet of the pair is wrong, because it is masked with
  0xFF where the ten bits of a low surrogate need 0x03.\<close>

theorem utf16_pair_exact:
  assumes "0 \<le> v" "v \<le> 0x10FFFF" "\<not> surrogate v"
  shows "(\<exists>w. utf16_decode le eof (utf16_put le v @ rest) = Char v w) \<longleftrightarrow> v < 0x10000 \<or> (v - 0x10000) div 1024 mod 64 = 0"
proof
  assume "\<exists>w. utf16_decode le eof (utf16_put le v @ rest) = Char v w"
  then obtain w where "utf16_decode le eof (utf16_put le v @ rest) = Char v w" by blast
  from utf16_decode_sound [OF this] have t: "take w (utf16_put le v @ rest) = utf16_bytes le v" "w \<le> length (utf16_put le v @ rest)" by simp_all
  have "w = length (utf16_bytes le v)" using t by (metis length_take min.absorb2)
  also have "\<dots> = length (utf16_put le v)" by (simp add: utf16_put_length utf16_bytes_def utf16_unit_def)
  finally have "utf16_put le v = utf16_bytes le v" using t(1) by simp
  then show "v < 0x10000 \<or> (v - 0x10000) div 1024 mod 64 = 0" using utf16_put_exact [OF assms(1,2)] by (simp add: pair_exact_def)
next
  assume "v < 0x10000 \<or> (v - 0x10000) div 1024 mod 64 = 0"
  then have "utf16_put le v = utf16_bytes le v" using utf16_put_exact [OF assms(1,2)] by (simp add: pair_exact_def)
  then show "\<exists>w. utf16_decode le eof (utf16_put le v @ rest) = Char v w" using utf16_decode_complete [OF assms] by auto
qed

theorem utf16_pair_exact_witness:
  "utf16_put False 0x10400 = [0xD8, 0x01, 0xE0, 0x00] \<and> utf16_bytes False 0x10400 = [0xD8, 0x01, 0xDC, 0x00]
     \<and> \<not> (\<exists>w. utf16_decode False True (utf16_put False 0x10400 @ []) = Char 0x10400 w)"
  using utf16_pair_exact [of "0x10400" False True "[]"]
  by (simp add: surrogate_def utf16_put_def utf16_bytes_def put_unit_def utf16_unit_def mask_simps shift_simps byte_def)

text \<open>C21: a text behind a byte order mark that the writer has put out, in UTF-8 or with characters that its
  UTF-16 keeps, is read back by the reader: no reading fails, and at the end the whole text and a NUL
  have been delivered.\<close>

theorem writer_reader_roundtrip:
  assumes "writer_run enc sz (0xFEFF # ts) w" "yaml_emitter_flush yaml_string_write_handler w = Done () w'" "enc \<noteq> YAML_ANY_ENCODING"
    "list_all allowed_char ts" "enc = YAML_UTF8_ENCODING \<or> list_all pair_exact ts" "length (so_written (wr_data w')) < MAX_FILE_SIZE"
    "reader_run YAML_ANY_ENCODING (so_written (wr_data w')) r" "0 < n" "n \<le> 6144"
  shows "\<exists>r'. CACHE yaml_string_read_handler n r = Some (Done () r') \<and> (n \<le> rd_unread r' \<or> rd_eof r')
    \<and> (\<exists>cs ds. ts = cs @ ds \<and> in_buffer (if rd_eof r' then ts @ [0] else cs) r')"
proof -
  have sv: "\<forall>c \<in> set ts. 0 \<le> c \<and> c \<le> 0x10FFFF" using assms(4) allowed_scalar by (auto simp: list_all_iff)
  have "out_text enc ts = encode_text enc ts"
    using assms(5) out_text_exact [OF sv] out_text_utf8 by (auto simp: list_all_iff)
  moreover have "out_char enc 0xFEFF = byte_order_mark enc"
    using assms(3) by (cases enc) (simp_all add: out_char_def byte_order_mark_def utf8_bytes_def utf16_put_def put_unit_def byte_def
        BOM_UTF16LE_def BOM_UTF16BE_def BOM_UTF8_def mask_simps shift_simps)
  ultimately have "so_written (wr_data w') = byte_order_mark enc @ encode_text enc ts"
    using string_sink.flush_writes [OF writer_run_holds [OF assms(1,3)] assms(3)] assms(2) by simp
  then show ?thesis by (rule encoded_text_read [OF assms(4,3) _ assms(6) reader_run_inv [OF assms(7)] assms(8,9)])
qed

theorem writer_reader_roundtrip_witness:
  "\<exists>r'. CACHE yaml_string_read_handler 2 (yaml_parser_set_input_string [0xEF, 0xBB, 0xBF, 0x41]) = Some (Done () r')
     \<and> (2 \<le> rd_unread r' \<or> rd_eof r')"
proof -
  let ?h = yaml_string_write_handler
  let ?w0 = "(yaml_emitter_set_output_string 8)\<lparr>wr_encoding := YAML_UTF8_ENCODING\<rparr>"
  let ?w1 = "?w0\<lparr>wr_buf := [0xEF, 0xBB, 0xBF]\<rparr>"
  let ?w2 = "?w0\<lparr>wr_buf := [0xEF, 0xBB, 0xBF, 0x41], wr_column := 1\<rparr>"
  let ?out = "[0xEF, 0xBB, 0xBF, 0x41] :: ystr"
  let ?w3 = "?w0\<lparr>wr_data := \<lparr>so_size = 8, so_written = ?out\<rparr>, wr_column := 1\<rparr>"
  note defs = yaml_emitter_set_output_string_def FLUSH_def store_octets_def OUTPUT_BUFFER_SIZE_def
  have "writer_run YAML_UTF8_ENCODING 8 [] ?w0"
    by (rule writer_run.begun [of _ YAML_ANY_BREAK])
       (simp add: yaml_emitter_set_encoding_def yaml_emitter_set_output_string_def yaml_emitter_set_break_def)
  then have "writer_run YAML_UTF8_ENCODING 8 ([] @ [0xFEFF]) ?w1"
    by (rule writer_run.bom_written) (simp add: yaml_emitter_write_bom_def defs)
  then have "writer_run YAML_UTF8_ENCODING 8 (([] @ [0xFEFF]) @ [0x41]) ?w2"
    by (rule writer_run.put_ascii) (simp_all add: PUT_def defs byte_def)
  then have run: "writer_run YAML_UTF8_ENCODING 8 (0xFEFF # [0x41]) ?w2" by simp
  have f: "yaml_emitter_flush ?h ?w2 = Done () ?w3"
    by (simp add: yaml_emitter_flush_def yaml_string_write_handler_def yaml_emitter_set_output_string_def)
  have "reader_run YAML_ANY_ENCODING ?out (yaml_parser_set_input_string ?out)"
    by (rule reader_run.start) (simp add: yaml_parser_set_encoding_def yaml_parser_set_input_string_def)
  then have r: "reader_run YAML_ANY_ENCODING (so_written (wr_data ?w3)) (yaml_parser_set_input_string ?out)" by simp
  show ?thesis using writer_reader_roundtrip [OF run f _ _ _ _ r, of 2] by (auto simp: allowed_char_def MAX_FILE_SIZE_def)
qed

end
