(* ===== verification/Ly_Api.thy ===== *)
theory Ly_Api
  imports Ly_Loader_Laws Ly_Reader_Laws
begin

text \<open>
  The part of \<open>api.c\<close> by which an application makes events and documents: the check of UTF-8, the event
  initializers and the document operations. A string argument that ends in NUL is the list of octets before
  it; a string with a length is the memory at its address. A failed \<open>assert\<close> or a read behind the memory
  is \<open>Crash\<close>; memory allocation always succeeds.
\<close>

section \<open>Checking UTF-8\<close>

function yaml_check_utf8 :: "ystr \<Rightarrow> bool" where
  "yaml_check_utf8 bs =
     (if bs = [] then True
      else let octet = hd bs; width = utf8_width octet in
        if width = 0 then False
        else if width > length bs then False
        else case trail_loop 1 (take (width - 1) (tl bs)) (utf8_lead octet) of
          Inl _ \<Rightarrow> False
        | Inr v \<Rightarrow> if \<not> length_ok width v then False else yaml_check_utf8 (drop width bs))"
  by pat_completeness auto

termination yaml_check_utf8
  by (relation "measure length") auto

declare yaml_check_utf8.simps [simp del]

text \<open>\<open>strlen\<close> of a value whose length is negative, and the octets of the others.\<close>

definition value_octets :: "ystr \<Rightarrow> int \<Rightarrow> ystr option" where
  "value_octets mem len =
     (if len < 0 then (if 0 \<in> set mem then Some (takeWhile (\<lambda>b. b \<noteq> 0) mem) else None)
      else if nat len \<le> length mem then Some (take (nat len) mem) else None)"

definition check_opt :: "ystr option \<Rightarrow> bool" where
  "check_opt s = (case s of None \<Rightarrow> True | Some s \<Rightarrow> yaml_check_utf8 s)"

definition check_tags :: "yaml_tag_directive_t list \<Rightarrow> bool" where
  "check_tags tags = list_all (\<lambda>t. yaml_check_utf8 (td_handle t) \<and> yaml_check_utf8 (td_prefix t)) tags"

section \<open>Making events\<close>

text \<open>\<open>None\<close> is the result 0, which leaves the event as it was.\<close>

definition yaml_stream_start_event_initialize :: "yaml_encoding_t \<Rightarrow> yaml_event_t option" where
  "yaml_stream_start_event_initialize enc = Some (EVENT_INIT (YAML_STREAM_START_EVENT enc) mark0 mark0)"

definition yaml_stream_end_event_initialize :: "yaml_event_t option" where
  "yaml_stream_end_event_initialize = Some (EVENT_INIT YAML_STREAM_END_EVENT mark0 mark0)"

definition yaml_document_start_event_initialize ::
  "yaml_version_directive_t option \<Rightarrow> yaml_tag_directive_t list \<Rightarrow> bool \<Rightarrow> yaml_event_t option" where
  "yaml_document_start_event_initialize version tags implicit =
     (if \<not> check_tags tags then None else Some (EVENT_INIT (YAML_DOCUMENT_START_EVENT version tags implicit) mark0 mark0))"

definition yaml_document_end_event_initialize :: "bool \<Rightarrow> yaml_event_t option" where
  "yaml_document_end_event_initialize implicit = Some (EVENT_INIT (YAML_DOCUMENT_END_EVENT implicit) mark0 mark0)"

definition yaml_alias_event_initialize :: "ystr \<Rightarrow> yaml_event_t option" where
  "yaml_alias_event_initialize anchor =
     (if \<not> yaml_check_utf8 anchor then None else Some (EVENT_INIT (YAML_ALIAS_EVENT anchor) mark0 mark0))"

text \<open>The outer \<open>None\<close> is a read behind the value.\<close>

definition yaml_scalar_event_initialize ::
  "ystr option \<Rightarrow> ystr option \<Rightarrow> ystr \<Rightarrow> int \<Rightarrow> bool \<Rightarrow> bool \<Rightarrow> yaml_scalar_style_t \<Rightarrow> yaml_event_t option option" where
  "yaml_scalar_event_initialize anchor tag mem len plain_implicit quoted_implicit style =
     (if \<not> check_opt anchor then Some None
      else if \<not> check_opt tag then Some None
      else case value_octets mem len of
        None \<Rightarrow> None
      | Some v \<Rightarrow> Some (if \<not> yaml_check_utf8 v then None
          else Some (EVENT_INIT (YAML_SCALAR_EVENT anchor tag v plain_implicit quoted_implicit style) mark0 mark0)))"

definition yaml_sequence_start_event_initialize ::
  "ystr option \<Rightarrow> ystr option \<Rightarrow> bool \<Rightarrow> yaml_sequence_style_t \<Rightarrow> yaml_event_t option" where
  "yaml_sequence_start_event_initialize anchor tag implicit style =
     (if \<not> check_opt anchor then None else if \<not> check_opt tag then None
      else Some (EVENT_INIT (YAML_SEQUENCE_START_EVENT anchor tag implicit style) mark0 mark0))"

definition yaml_sequence_end_event_initialize :: "yaml_event_t option" where
  "yaml_sequence_end_event_initialize = Some (EVENT_INIT YAML_SEQUENCE_END_EVENT mark0 mark0)"

definition yaml_mapping_start_event_initialize ::
  "ystr option \<Rightarrow> ystr option \<Rightarrow> bool \<Rightarrow> yaml_mapping_style_t \<Rightarrow> yaml_event_t option" where
  "yaml_mapping_start_event_initialize anchor tag implicit style =
     (if \<not> check_opt anchor then None else if \<not> check_opt tag then None
      else Some (EVENT_INIT (YAML_MAPPING_START_EVENT anchor tag implicit style) mark0 mark0))"

definition yaml_mapping_end_event_initialize :: "yaml_event_t option" where
  "yaml_mapping_end_event_initialize = Some (EVENT_INIT YAML_MAPPING_END_EVENT mark0 mark0)"

section \<open>Making documents\<close>

definition yaml_document_initialize ::
  "yaml_version_directive_t option \<Rightarrow> yaml_tag_directive_t list \<Rightarrow> bool \<Rightarrow> bool \<Rightarrow> yaml_document_t option" where
  "yaml_document_initialize version tags start_implicit end_implicit =
     (if \<not> check_tags tags then None
      else Some \<lparr>dc_nodes = [], dc_version = version, dc_tags = tags, dc_start_implicit = start_implicit,
        dc_end_implicit = end_implicit, dc_start = mark0, dc_end = mark0\<rparr>)"

definition yaml_document_get_node :: "yaml_document_t \<Rightarrow> int \<Rightarrow> yaml_node_t option" where
  "yaml_document_get_node d index =
     (if index > 0 \<and> nat index \<le> length (dc_nodes d) then Some (dc_nodes d ! (nat index - 1)) else None)"

definition yaml_document_get_root_node :: "yaml_document_t \<Rightarrow> yaml_node_t option" where
  "yaml_document_get_root_node d = (if dc_nodes d \<noteq> [] then Some (dc_nodes d ! 0) else None)"

text \<open>\<open>PUSH\<close> of a node, and the number that the function returns.\<close>

definition api_push_node :: "yaml_node_t \<Rightarrow> yaml_document_t \<Rightarrow> (nat, yaml_document_t) outcome" where
  "api_push_node n d = Done (Suc (length (dc_nodes d))) (d\<lparr>dc_nodes := dc_nodes d @ [n]\<rparr>)"

definition yaml_document_add_scalar ::
  "ystr option \<Rightarrow> ystr \<Rightarrow> int \<Rightarrow> yaml_scalar_style_t \<Rightarrow> yaml_document_t \<Rightarrow> (nat, yaml_document_t) outcome" where
  "yaml_document_add_scalar tag mem len style d =
     (let tag = (case tag of None \<Rightarrow> YAML_DEFAULT_SCALAR_TAG | Some t \<Rightarrow> t) in
      if \<not> yaml_check_utf8 tag then Fail d
      else case value_octets mem len of
        None \<Rightarrow> Crash
      | Some v \<Rightarrow> if \<not> yaml_check_utf8 v then Fail d
          else api_push_node (NODE_INIT (YAML_SCALAR_NODE v style) tag mark0 mark0) d)"

definition yaml_document_add_sequence ::
  "ystr option \<Rightarrow> yaml_sequence_style_t \<Rightarrow> yaml_document_t \<Rightarrow> (nat, yaml_document_t) outcome" where
  "yaml_document_add_sequence tag style d =
     (let tag = (case tag of None \<Rightarrow> YAML_DEFAULT_SEQUENCE_TAG | Some t \<Rightarrow> t) in
      if \<not> yaml_check_utf8 tag then Fail d
      else api_push_node (NODE_INIT (YAML_SEQUENCE_NODE [] style) tag mark0 mark0) d)"

definition yaml_document_add_mapping ::
  "ystr option \<Rightarrow> yaml_mapping_style_t \<Rightarrow> yaml_document_t \<Rightarrow> (nat, yaml_document_t) outcome" where
  "yaml_document_add_mapping tag style d =
     (let tag = (case tag of None \<Rightarrow> YAML_DEFAULT_MAPPING_TAG | Some t \<Rightarrow> t) in
      if \<not> yaml_check_utf8 tag then Fail d
      else api_push_node (NODE_INIT (YAML_MAPPING_NODE [] style) tag mark0 mark0) d)"

text \<open>\<open>id > 0 && document->nodes.start + id <= document->nodes.top\<close>.\<close>

definition valid_id :: "yaml_document_t \<Rightarrow> int \<Rightarrow> bool" where
  "valid_id d i \<longleftrightarrow> i > 0 \<and> nat i \<le> length (dc_nodes d)"

definition yaml_document_append_sequence_item :: "int \<Rightarrow> int \<Rightarrow> yaml_document_t \<Rightarrow> (unit, yaml_document_t) outcome" where
  "yaml_document_append_sequence_item sequence item d =
     (if \<not> valid_id d sequence then Crash
      else let n = dc_nodes d ! (nat sequence - 1) in
        case nd_data n of
          YAML_SEQUENCE_NODE items style \<Rightarrow>
            if \<not> valid_id d item then Crash
            else Done () (d\<lparr>dc_nodes := (dc_nodes d)[nat sequence - 1 := n\<lparr>nd_data := YAML_SEQUENCE_NODE (items @ [nat item]) style\<rparr>]\<rparr>)
        | _ \<Rightarrow> Crash)"

definition yaml_document_append_mapping_pair ::
  "int \<Rightarrow> int \<Rightarrow> int \<Rightarrow> yaml_document_t \<Rightarrow> (unit, yaml_document_t) outcome" where
  "yaml_document_append_mapping_pair mapping key v d =
     (if \<not> valid_id d mapping then Crash
      else let n = dc_nodes d ! (nat mapping - 1) in
        case nd_data n of
          YAML_MAPPING_NODE pairs style \<Rightarrow>
            if \<not> valid_id d key then Crash
            else if \<not> valid_id d v then Crash
            else Done () (d\<lparr>dc_nodes := (dc_nodes d)[nat mapping - 1 := n\<lparr>nd_data := YAML_MAPPING_NODE (pairs @ [(nat key, nat v)]) style\<rparr>]\<rparr>)
        | _ \<Rightarrow> Crash)"

section \<open>What the check accepts\<close>

lemma check_utf8_sound: "yaml_check_utf8 bs \<Longrightarrow> \<exists>cs. (\<forall>c \<in> set cs. 0 \<le> c \<and> c < 0x200000) \<and> bs = concat (map utf8_bytes cs)"
proof (induction bs rule: yaml_check_utf8.induct)
  case (1 bs)
  show ?case
  proof (cases bs)
    case Nil
    then show ?thesis by (intro exI [of _ "[]"]) simp
  next
    case (Cons b0 rest)
    let ?w = "utf8_width b0"
    obtain v where ok: "?w \<noteq> 0" "?w \<le> length bs" "trail_loop 1 (take (?w - 1) rest) (utf8_lead b0) = Inr v" "length_ok ?w v"
      "yaml_check_utf8 (drop ?w bs)"
      using "1.prems" Cons by (auto simp: yaml_check_utf8.simps [of "b0 # rest"] Let_def split: if_splits sum.splits)
    have "take ?w (b0 # rest) = utf8_bytes v \<and> 0 \<le> v \<and> v < 0x200000"
      by (rule utf8_sequence) (use ok Cons in \<open>auto simp: trail_loop_Inr\<close>)
    moreover have "\<exists>cs. (\<forall>c \<in> set cs. 0 \<le> c \<and> c < 0x200000) \<and> drop ?w bs = concat (map utf8_bytes cs)"
      by (rule "1.IH" [of b0 ?w v]) (use ok Cons in simp_all)
    then obtain cs where "\<forall>c \<in> set cs. 0 \<le> c \<and> c < 0x200000" "drop ?w bs = concat (map utf8_bytes cs)" by blast
    ultimately have "(\<forall>c \<in> set (v # cs). 0 \<le> c \<and> c < 0x200000) \<and> bs = concat (map utf8_bytes (v # cs))"
      using append_take_drop_id [of ?w bs] Cons by auto
    then show ?thesis by blast
  qed
qed

lemma check_utf8_complete: "\<forall>c \<in> set cs. 0 \<le> c \<and> c < 0x200000 \<Longrightarrow> yaml_check_utf8 (concat (map utf8_bytes cs))"
proof (induction cs)
  case Nil
  then show ?case by (simp add: yaml_check_utf8.simps)
next
  case (Cons c cs)
  have c: "0 \<le> c" "c < 0x200000" using Cons.prems by simp_all
  obtain b bs where bs: "utf8_bytes c = b # bs" using utf8_width_wide(2) [OF c] by (cases "utf8_bytes c") auto
  have w: "utf8_width b = Suc (length bs)" using utf8_width_wide(1) [OF c] bs by simp
  have "trail_loop 1 bs (utf8_lead b) = Inr c" using utf8_bytes_wide [OF c bs] by (simp add: trail_loop_Inr)
  then show ?case using Cons utf8_bytes_wide [OF c bs] w
    by (simp add: bs yaml_check_utf8.simps [of "b # bs @ concat (map utf8_bytes cs)"] Let_def)
qed

section \<open>Documents made by the application\<close>

inductive api_run :: "yaml_document_t \<Rightarrow> bool" where
  made: "yaml_document_initialize version tags si ei = Some d \<Longrightarrow> api_run d"
| scalar: "api_run d \<Longrightarrow> yaml_document_add_scalar tag mem len style d = Done i d' \<Longrightarrow> api_run d'"
| sequence: "api_run d \<Longrightarrow> yaml_document_add_sequence tag seq_style d = Done i d' \<Longrightarrow> api_run d'"
| mapping: "api_run d \<Longrightarrow> yaml_document_add_mapping tag map_style d = Done i d' \<Longrightarrow> api_run d'"
| item: "api_run d \<Longrightarrow> yaml_document_append_sequence_item s i d = Done () d' \<Longrightarrow> api_run d'"
| pair: "api_run d \<Longrightarrow> yaml_document_append_mapping_pair m k v d = Done () d' \<Longrightarrow> api_run d'"

lemma push_node_wf: "document_wf d \<Longrightarrow> node_ok (Suc (length (dc_nodes d))) False (nd_data n) \<Longrightarrow> api_push_node n d = Done i d' \<Longrightarrow> document_wf d'"
  unfolding document_wf_def api_push_node_def by (auto intro!: nodes_ok_append)

lemma update_node_wf:
  assumes "document_wf d" "valid_id d c" "node_ok (length (dc_nodes d)) False (nd_data n)"
  shows "document_wf (d\<lparr>dc_nodes := (dc_nodes d)[nat c - 1 := n]\<rparr>)"
  using assms nodes_ok_update [of "dc_nodes d" "{}" "nat c" n] by (auto simp: document_wf_def valid_id_def)

lemma node_wf: "document_wf d \<Longrightarrow> valid_id d c \<Longrightarrow> node_ok (length (dc_nodes d)) False (nd_data (dc_nodes d ! (nat c - 1)))"
  by (auto simp: document_wf_def nodes_ok_def valid_id_def)

lemma append_item_wf:
  assumes "document_wf d" "yaml_document_append_sequence_item s i d = Done () d'"
  shows "document_wf d'"
proof -
  let ?n = "dc_nodes d ! (nat s - 1)"
  obtain items st where n: "nd_data ?n = YAML_SEQUENCE_NODE items st" and v: "valid_id d s" "valid_id d i"
    and d': "d' = d\<lparr>dc_nodes := (dc_nodes d)[nat s - 1 := ?n\<lparr>nd_data := YAML_SEQUENCE_NODE (items @ [nat i]) st\<rparr>]\<rparr>"
    using assms(2) by (auto simp: yaml_document_append_sequence_item_def Let_def split: if_splits yaml_node_data.splits)
  have "node_ok (length (dc_nodes d)) False (YAML_SEQUENCE_NODE (items @ [nat i]) st)"
    using node_wf [OF assms(1) v(1)] n v(2) by (auto simp: valid_id_def)
  then show ?thesis unfolding d' by (intro update_node_wf [OF assms(1) v(1)]) simp
qed

lemma append_pair_wf:
  assumes "document_wf d" "yaml_document_append_mapping_pair m k v d = Done () d'"
  shows "document_wf d'"
proof -
  let ?n = "dc_nodes d ! (nat m - 1)"
  obtain pairs st where n: "nd_data ?n = YAML_MAPPING_NODE pairs st" and v: "valid_id d m" "valid_id d k" "valid_id d v"
    and d': "d' = d\<lparr>dc_nodes := (dc_nodes d)[nat m - 1 := ?n\<lparr>nd_data := YAML_MAPPING_NODE (pairs @ [(nat k, nat v)]) st\<rparr>]\<rparr>"
    using assms(2) by (auto simp: yaml_document_append_mapping_pair_def Let_def split: if_splits yaml_node_data.splits)
  have "node_ok (length (dc_nodes d)) False (YAML_MAPPING_NODE (pairs @ [(nat k, nat v)]) st)"
    using node_wf [OF assms(1) v(1)] n v(2,3) by (auto simp: valid_id_def)
  then show ?thesis unfolding d' by (intro update_node_wf [OF assms(1) v(1)]) simp
qed

lemma api_run_wf: "api_run d \<Longrightarrow> document_wf d"
proof (induction rule: api_run.induct)
  case (made version tags si ei d)
  then show ?case by (auto simp: yaml_document_initialize_def document_wf_def nodes_ok_def split: if_splits)
next
  case (scalar d tag mem len style i d')
  then show ?case by (auto simp: yaml_document_add_scalar_def Let_def NODE_INIT_def split: if_splits option.splits elim!: push_node_wf [rotated 2])
next
  case (sequence d tag style i d')
  then show ?case by (auto simp: yaml_document_add_sequence_def Let_def NODE_INIT_def split: if_splits option.splits elim!: push_node_wf [rotated 2])
next
  case (mapping d tag style i d')
  then show ?case by (auto simp: yaml_document_add_mapping_def Let_def NODE_INIT_def split: if_splits option.splits elim!: push_node_wf [rotated 2])
next
  case (item d s i d')
  then show ?case using append_item_wf by blast
next
  case (pair d m k v d')
  then show ?case using append_pair_wf by blast
qed

section \<open>Properties\<close>

text \<open>C22: the check of the application's strings accepts exactly the concatenations of shortest UTF-8 sequences
  of the values below 2 to the power 21. It is weaker than the reader, which also refuses the surrogates
  and the values above 0x10FFFF.\<close>

theorem check_utf8_exact:
  "yaml_check_utf8 bs \<longleftrightarrow> (\<exists>cs. list_all (\<lambda>c. 0 \<le> c \<and> c < 0x200000) cs \<and> bs = concat (map utf8_bytes cs))"
  using check_utf8_sound [of bs] check_utf8_complete by (auto simp: list_all_iff)

text \<open>C23: a document that the application builds through the API, in any order of calls, is well formed: all its
  nodes have a type, every item, key and value is the number of a node of the document, and no pair lacks
  its value. With a root node it is a document that the dumper can dump; and every call on numbers of
  nodes of the right type succeeds.\<close>

theorem api_document_ok:
  assumes "api_run d"
  shows "(dc_nodes d \<noteq> [] \<longrightarrow> document_ok d)
    \<and> (valid_id d s \<and> valid_id d i \<and> is_sequence (nd_data (dc_nodes d ! (nat s - 1))) \<longrightarrow>
         (\<exists>d'. yaml_document_append_sequence_item s i d = Done () d' \<and> document_wf d' \<and> length (dc_nodes d') = length (dc_nodes d)))
    \<and> (valid_id d m \<and> valid_id d k \<and> valid_id d v \<and> is_mapping (nd_data (dc_nodes d ! (nat m - 1))) \<longrightarrow>
         (\<exists>d'. yaml_document_append_mapping_pair m k v d = Done () d' \<and> document_wf d' \<and> length (dc_nodes d') = length (dc_nodes d)))"
proof -
  have wf: "document_wf d" by (rule api_run_wf [OF assms])
  have "\<exists>d'. yaml_document_append_sequence_item s i d = Done () d' \<and> length (dc_nodes d') = length (dc_nodes d)"
    if "valid_id d s" "valid_id d i" "is_sequence (nd_data (dc_nodes d ! (nat s - 1)))"
    using that by (cases "nd_data (dc_nodes d ! (nat s - 1))") (auto simp: yaml_document_append_sequence_item_def Let_def)
  moreover have "\<exists>d'. yaml_document_append_mapping_pair m k v d = Done () d' \<and> length (dc_nodes d') = length (dc_nodes d)"
    if "valid_id d m" "valid_id d k" "valid_id d v" "is_mapping (nd_data (dc_nodes d ! (nat m - 1)))"
    using that by (cases "nd_data (dc_nodes d ! (nat m - 1))") (auto simp: yaml_document_append_mapping_pair_def Let_def)
  ultimately show ?thesis using wf append_item_wf [OF wf] append_pair_wf [OF wf] by (auto simp: document_ok_def)
qed

theorem api_document_ok_witness:
  "\<exists>d. api_run d \<and> dc_nodes d \<noteq> [] \<and> document_ok d"
proof -
  let ?d = "\<lparr>dc_nodes = [], dc_version = None, dc_tags = [], dc_start_implicit = True, dc_end_implicit = True, dc_start = mark0, dc_end = mark0\<rparr>"
  have "api_run ?d" by (rule api_run.made [of None "[]" True True]) (simp add: yaml_document_initialize_def check_tags_def)
  then have r: "api_run (?d\<lparr>dc_nodes := [NODE_INIT (YAML_SEQUENCE_NODE [] YAML_FLOW_SEQUENCE_STYLE) [33] mark0 mark0]\<rparr>)"
    by (rule api_run.sequence [of _ "Some [33]" YAML_FLOW_SEQUENCE_STYLE 1])
       (simp add: yaml_document_add_sequence_def api_push_node_def yaml_check_utf8.simps utf8_width_def length_ok_def)
  from api_document_ok [OF r, of 1 1 1 1 1] r show ?thesis by auto
qed

end
