(* ===== verification/Ly_Emitter.thy ===== *)
theory Ly_Emitter
  imports Ly_Writer
begin

unbundle bit_operations_syntax

text \<open>
  The emitter of libyaml (\<open>emitter.c\<close>): the queue of events, the analysis of anchors, tags and scalars, the
  state machine and the functions that write indicators and scalars through the buffer of \<open>Ly_Writer\<close>. A
  string from its pointer to its end is a list of octets; a look behind its end finds the NUL that
  terminates it. A loop that never ends (over octets that are no UTF-8) and a pop from an empty stack are
  \<open>Crash\<close>; the counters of lines and columns do not overflow.
\<close>

section \<open>Sequences of steps\<close>

definition obind :: "('a, 's) outcome \<Rightarrow> ('a \<Rightarrow> 's \<Rightarrow> ('b, 's) outcome) \<Rightarrow> ('b, 's) outcome" where
  "obind r k = (case r of Done a s \<Rightarrow> k a s | Fail s \<Rightarrow> Fail s | Crash \<Rightarrow> Crash)"

lemma obind_simps [simp]: "obind (Done a s) k = k a s" "obind (Fail s) k = Fail s" "obind Crash k = Crash"
  by (simp_all add: obind_def)

text \<open>\<open>if (!f1(..)) return 0; if (!f2(..)) return 0; ..\<close>, conditional steps and assignments.\<close>

definition do_all :: "('s \<Rightarrow> (unit, 's) outcome) list \<Rightarrow> 's \<Rightarrow> (unit, 's) outcome" where
  "do_all fs = for_each (\<lambda>f. f) fs"

definition step_if :: "('s \<Rightarrow> bool) \<Rightarrow> ('s \<Rightarrow> (unit, 's) outcome) \<Rightarrow> 's \<Rightarrow> (unit, 's) outcome" where
  "step_if c f s = (if c s then f s else Done () s)"

definition assign :: "('s \<Rightarrow> 's) \<Rightarrow> 's \<Rightarrow> (unit, 's) outcome" where
  "assign g s = Done () (g s)"

definition do_ret :: "('s \<Rightarrow> (unit, 's) outcome) list \<Rightarrow> 'a \<Rightarrow> 's \<Rightarrow> ('a, 's) outcome" where
  "do_ret fs a s = obind (do_all fs s) (\<lambda>_. Done a)"

section \<open>The emitter object\<close>

datatype yaml_emitter_state_t =
    YAML_EMIT_STREAM_START_STATE
  | YAML_EMIT_FIRST_DOCUMENT_START_STATE
  | YAML_EMIT_DOCUMENT_START_STATE
  | YAML_EMIT_DOCUMENT_CONTENT_STATE
  | YAML_EMIT_DOCUMENT_END_STATE
  | YAML_EMIT_FLOW_SEQUENCE_FIRST_ITEM_STATE
  | YAML_EMIT_FLOW_SEQUENCE_ITEM_STATE
  | YAML_EMIT_FLOW_MAPPING_FIRST_KEY_STATE
  | YAML_EMIT_FLOW_MAPPING_KEY_STATE
  | YAML_EMIT_FLOW_MAPPING_SIMPLE_VALUE_STATE
  | YAML_EMIT_FLOW_MAPPING_VALUE_STATE
  | YAML_EMIT_BLOCK_SEQUENCE_FIRST_ITEM_STATE
  | YAML_EMIT_BLOCK_SEQUENCE_ITEM_STATE
  | YAML_EMIT_BLOCK_MAPPING_FIRST_KEY_STATE
  | YAML_EMIT_BLOCK_MAPPING_KEY_STATE
  | YAML_EMIT_BLOCK_MAPPING_SIMPLE_VALUE_STATE
  | YAML_EMIT_BLOCK_MAPPING_VALUE_STATE
  | YAML_EMIT_END_STATE

record scalar_data =
  sd_value :: ystr
  sd_multiline :: bool
  sd_flow_plain_allowed :: bool
  sd_block_plain_allowed :: bool
  sd_single_quoted_allowed :: bool
  sd_block_allowed :: bool
  sd_style :: yaml_scalar_style_t

text \<open>\<open>et_anchor\<close> has the anchor and whether it is an alias.\<close>

record 'd emitter_t = "'d yaml_writer_t" +
  et_canonical :: bool
  et_best_indent :: int
  et_best_width :: int
  et_unicode :: bool
  et_states :: "yaml_emitter_state_t list"
  et_state :: yaml_emitter_state_t
  et_events :: "yaml_event_t list"
  et_indents :: "int list"
  et_tag_directives :: "yaml_tag_directive_t list"
  et_indent :: int
  et_flow_level :: int
  et_root_context :: bool
  et_sequence_context :: bool
  et_mapping_context :: bool
  et_simple_key_context :: bool
  et_whitespace :: bool
  et_indention :: bool
  et_open_ended :: int
  et_anchor :: "(ystr \<times> bool) option"
  et_tag_handle :: "ystr option"
  et_tag_suffix :: "ystr option"
  et_scalar :: scalar_data

type_synonym 'd emitter_step = "'d emitter_t \<Rightarrow> (unit, 'd emitter_t) outcome"

definition yaml_emitter_set_emitter_error :: "string \<Rightarrow> 'd emitter_step" where
  "yaml_emitter_set_emitter_error problem e = Fail (e\<lparr>wr_error := Some (YAML_EMITTER_ERROR, problem)\<rparr>)"

definition push_state :: "yaml_emitter_state_t \<Rightarrow> 'd emitter_step" where
  "push_state s e = Done () (e\<lparr>et_states := s # et_states e\<rparr>)"

definition pop_state :: "'d emitter_step" where
  "pop_state e = (case et_states e of [] \<Rightarrow> Crash | s # ss \<Rightarrow> Done () (e\<lparr>et_state := s, et_states := ss\<rparr>))"

definition pop_indent :: "'d emitter_step" where
  "pop_indent e = (case et_indents e of [] \<Rightarrow> Crash | i # js \<Rightarrow> Done () (e\<lparr>et_indent := i, et_indents := js\<rparr>))"

definition yaml_emitter_increase_indent :: "bool \<Rightarrow> bool \<Rightarrow> 'd emitter_step" where
  "yaml_emitter_increase_indent flow indentless e =
     (let e = e\<lparr>et_indents := et_indent e # et_indents e\<rparr> in
      Done () (if et_indent e < 0 then e\<lparr>et_indent := if flow then et_best_indent e else 0\<rparr>
               else if \<not> indentless then e\<lparr>et_indent := et_indent e + et_best_indent e\<rparr> else e))"

section \<open>Looking at a string\<close>

definition octet_at :: "ystr \<Rightarrow> nat \<Rightarrow> yaml_char_t" where
  "octet_at s k = (if k < length s then s ! k else 0)"

definition CHECK_AT :: "ystr \<Rightarrow> char \<Rightarrow> nat \<Rightarrow> bool" where
  "CHECK_AT s c k \<longleftrightarrow> octet_at s k = of_char c"

text \<open>\<open>CHECK(string, c1) || CHECK(string, c2) || ..\<close>.\<close>

definition CHECK_ANY :: "ystr \<Rightarrow> string \<Rightarrow> bool" where
  "CHECK_ANY s cs \<longleftrightarrow> list_ex (\<lambda>c. CHECK_AT s c 0) cs"

definition IS_ALPHA :: "ystr \<Rightarrow> bool" where
  "IS_ALPHA s \<longleftrightarrow> (let c = octet_at s 0 in
     0x30 \<le> c \<and> c \<le> 0x39 \<or> 0x41 \<le> c \<and> c \<le> 0x5A \<or> 0x61 \<le> c \<and> c \<le> 0x7A \<or> c = 0x5F \<or> c = 0x2D)"

definition IS_ASCII :: "ystr \<Rightarrow> bool" where
  "IS_ASCII s \<longleftrightarrow> octet_at s 0 \<le> 0x7F"

definition IS_PRINTABLE :: "ystr \<Rightarrow> bool" where
  "IS_PRINTABLE s \<longleftrightarrow> (let c = octet_at s 0; d = octet_at s 1; f = octet_at s 2 in
     c = 0x0A \<or> 0x20 \<le> c \<and> c \<le> 0x7E \<or> c = 0xC2 \<and> 0xA0 \<le> d \<or> 0xC2 < c \<and> c < 0xED \<or> c = 0xED \<and> d < 0xA0
     \<or> c = 0xEE \<or> c = 0xEF \<and> \<not> (d = 0xBB \<and> f = 0xBF) \<and> \<not> (d = 0xBF \<and> (f = 0xBE \<or> f = 0xBF)))"

definition IS_BOM :: "ystr \<Rightarrow> bool" where
  "IS_BOM s \<longleftrightarrow> octet_at s 0 = 0xEF \<and> octet_at s 1 = 0xBB \<and> octet_at s 2 = 0xBF"

definition IS_SPACE_AT :: "ystr \<Rightarrow> nat \<Rightarrow> bool" where
  "IS_SPACE_AT s k \<longleftrightarrow> octet_at s k = 0x20"

definition IS_BLANK_AT :: "ystr \<Rightarrow> nat \<Rightarrow> bool" where
  "IS_BLANK_AT s k \<longleftrightarrow> IS_SPACE_AT s k \<or> octet_at s k = 0x09"

definition IS_BREAK_AT :: "ystr \<Rightarrow> nat \<Rightarrow> bool" where
  "IS_BREAK_AT s k \<longleftrightarrow> octet_at s k = 0x0D \<or> octet_at s k = 0x0A \<or> octet_at s k = 0xC2 \<and> octet_at s (k + 1) = 0x85
     \<or> octet_at s k = 0xE2 \<and> octet_at s (k + 1) = 0x80 \<and> octet_at s (k + 2) = 0xA8
     \<or> octet_at s k = 0xE2 \<and> octet_at s (k + 1) = 0x80 \<and> octet_at s (k + 2) = 0xA9"

definition IS_BLANKZ_AT :: "ystr \<Rightarrow> nat \<Rightarrow> bool" where
  "IS_BLANKZ_AT s k \<longleftrightarrow> IS_BLANK_AT s k \<or> IS_BREAK_AT s k \<or> octet_at s k = 0"

section \<open>A loop over the characters of a string\<close>

text \<open>\<open>while (string.pointer != string.end)\<close> with a body that keeps some local variables; the pointer moves
  over one character in each turn.\<close>

function string_loop :: "(ystr \<Rightarrow> 'a \<Rightarrow> 's \<Rightarrow> ('a, 's) outcome) \<Rightarrow> ystr \<Rightarrow> 'a \<Rightarrow> 's \<Rightarrow> ('a, 's) outcome" where
  "string_loop body s a e =
     (if s = [] then Done a e
      else case body s a e of
        Done a' e' \<Rightarrow> if utf8_width (hd s) = 0 \<or> utf8_width (hd s) > length s then Crash else string_loop body (MOVE s) a' e'
      | Fail e' \<Rightarrow> Fail e'
      | Crash \<Rightarrow> Crash)"
  by pat_completeness auto

termination string_loop
  by (relation "measure (\<lambda>(_, s, _, _). length s)") (auto simp: MOVE_def)

declare string_loop.simps [simp del]

definition write_string :: "'d write_handler \<Rightarrow> ystr \<Rightarrow> 'd emitter_step" where
  "write_string wh s = string_loop (\<lambda>s _. WRITE wh s) s ()"

section \<open>Writing indicators, anchors and tags\<close>

lemma flush_keeps:
  "yaml_emitter_flush wh (w :: ('d, 'x) yaml_writer_t_scheme) = Done u w' \<Longrightarrow> yaml_writer_t.more w' = yaml_writer_t.more w \<and> wr_column w' = wr_column w"
  by (auto simp: yaml_emitter_flush_def yaml_emitter_set_writer_error_def split: if_splits option.splits prod.splits bool.splits)

lemma PUT_column:
  fixes e :: "'d emitter_t"
  assumes "PUT wh v e = Done u e'"
  shows "wr_column e' = wr_column e + 1 \<and> et_indent e' = et_indent e"
proof -
  obtain e1 where e1: "FLUSH wh e = Done () e1" "store_octets [byte v] e1 = Done () (e1\<lparr>wr_buf := wr_buf e1 @ [byte v]\<rparr>)"
    and e': "e' = e1\<lparr>wr_buf := wr_buf e1 @ [byte v], wr_column := wr_column e1 + 1\<rparr>"
    using assms by (auto simp: PUT_def then_do_Done store_octets_def split: if_splits)
  have "yaml_writer_t.more e1 = yaml_writer_t.more e \<and> wr_column e1 = wr_column e"
    using e1(1) flush_keeps [of wh e "()" e1] by (auto simp: FLUSH_def split: if_splits)
  then show ?thesis using e' by (cases e; cases e1) auto
qed

text \<open>\<open>while (emitter->column < indent)\<close>.\<close>

function indent_loop :: "'d write_handler \<Rightarrow> int \<Rightarrow> 'd emitter_step" where
  "indent_loop wh indent e =
     (if wr_column e < indent then
        case PUT wh 0x20 e of Done _ e' \<Rightarrow> indent_loop wh indent e' | Fail e' \<Rightarrow> Fail e' | Crash \<Rightarrow> Crash
      else Done () e)"
  by pat_completeness auto

termination indent_loop
  by (relation "measure (\<lambda>(_, indent, e). nat (indent - wr_column e))") (auto dest!: PUT_column)

declare indent_loop.simps [simp del]

definition yaml_emitter_write_indent :: "'d write_handler \<Rightarrow> 'd emitter_step" where
  "yaml_emitter_write_indent wh e =
     (let indent = (if et_indent e \<ge> 0 then et_indent e else 0) in
      do_all [step_if (\<lambda>e. \<not> et_indention e \<or> wr_column e > indent \<or> wr_column e = indent \<and> \<not> et_whitespace e) (yaml_emitter_put_break wh),
        indent_loop wh indent,
        assign (\<lambda>e. e\<lparr>et_whitespace := True, et_indention := True\<rparr>)] e)"

definition yaml_emitter_write_indicator :: "'d write_handler \<Rightarrow> string \<Rightarrow> bool \<Rightarrow> bool \<Rightarrow> bool \<Rightarrow> 'd emitter_step" where
  "yaml_emitter_write_indicator wh indicator need_whitespace is_whitespace is_indention =
     do_all [step_if (\<lambda>e. need_whitespace \<and> \<not> et_whitespace e) (PUT wh 0x20),
       write_string wh (lit indicator),
       assign (\<lambda>e. e\<lparr>et_whitespace := is_whitespace, et_indention := et_indention e \<and> is_indention\<rparr>)]"

definition no_white :: "'d emitter_t \<Rightarrow> 'd emitter_t" where
  "no_white e = e\<lparr>et_whitespace := False, et_indention := False\<rparr>"

definition yaml_emitter_write_anchor :: "'d write_handler \<Rightarrow> ystr \<Rightarrow> 'd emitter_step" where
  "yaml_emitter_write_anchor wh v = do_all [write_string wh v, assign no_white]"

definition yaml_emitter_write_tag_handle :: "'d write_handler \<Rightarrow> ystr \<Rightarrow> 'd emitter_step" where
  "yaml_emitter_write_tag_handle wh v =
     do_all [step_if (\<lambda>e. \<not> et_whitespace e) (PUT wh 0x20), write_string wh v, assign no_white]"

text \<open>\<open>digit + (digit < 10 ? '0' : 'A' - 10)\<close>.\<close>

definition hex_digit :: "int \<Rightarrow> int" where
  "hex_digit d = d + (if d < 10 then 0x30 else 0x41 - 10)"

definition put_percent :: "'d write_handler \<Rightarrow> yaml_char_t \<Rightarrow> 'd emitter_step" where
  "put_percent wh octet =
     do_all [PUT wh 0x25, PUT wh (hex_digit (drop_bit 4 (uint octet))), PUT wh (hex_digit (uint octet AND 0x0F))]"

definition tag_content_body :: "'d write_handler \<Rightarrow> ystr \<Rightarrow> unit \<Rightarrow> 'd emitter_step" where
  "tag_content_body wh s _ =
     (if IS_ALPHA s \<or> CHECK_ANY s '';/?:@&=+$,_.~*'' \<or> octet_at s 0 = 0x27 \<or> CHECK_ANY s ''()[]'' then WRITE wh s
      else for_each (put_percent wh) (take (utf8_width (hd s)) s))"

definition yaml_emitter_write_tag_content :: "'d write_handler \<Rightarrow> ystr \<Rightarrow> bool \<Rightarrow> 'd emitter_step" where
  "yaml_emitter_write_tag_content wh v need_whitespace =
     do_all [step_if (\<lambda>e. need_whitespace \<and> \<not> et_whitespace e) (PUT wh 0x20),
       string_loop (tag_content_body wh) v (), assign no_white]"

section \<open>Writing scalars\<close>

text \<open>The local variables \<open>spaces\<close> and \<open>breaks\<close>.\<close>

definition plain_body :: "'d write_handler \<Rightarrow> bool \<Rightarrow> ystr \<Rightarrow> bool \<times> bool \<Rightarrow> 'd emitter_t \<Rightarrow> (bool \<times> bool, 'd emitter_t) outcome" where
  "plain_body wh allow_breaks s v e = (case v of (spaces, breaks) \<Rightarrow>
     if IS_SPACE_AT s 0 then
       do_ret [\<lambda>e. if allow_breaks \<and> \<not> spaces \<and> wr_column e > et_best_width e \<and> \<not> IS_SPACE_AT s 1
                   then yaml_emitter_write_indent wh e else WRITE wh s e] (True, breaks) e
     else if IS_BREAK_AT s 0 then
       do_ret [step_if (\<lambda>_. \<not> breaks \<and> octet_at s 0 = 0x0A) (yaml_emitter_put_break wh), WRITE_BREAK wh s,
         assign (\<lambda>e. e\<lparr>et_indention := True\<rparr>)] (spaces, True) e
     else
       do_ret [step_if (\<lambda>_. breaks) (yaml_emitter_write_indent wh), WRITE wh s, assign (\<lambda>e. e\<lparr>et_indention := False\<rparr>)]
         (False, False) e)"

definition yaml_emitter_write_plain_scalar :: "'d write_handler \<Rightarrow> ystr \<Rightarrow> bool \<Rightarrow> 'd emitter_step" where
  "yaml_emitter_write_plain_scalar wh v allow_breaks =
     do_all [step_if (\<lambda>e. \<not> et_whitespace e \<and> (v \<noteq> [] \<or> et_flow_level e \<noteq> 0)) (PUT wh 0x20),
       \<lambda>e. obind (string_loop (plain_body wh allow_breaks) v (False, False) e) (\<lambda>_. Done ()),
       assign no_white]"

text \<open>The first variable says whether the pointer is at the start of the string.\<close>

definition single_quoted_body ::
  "'d write_handler \<Rightarrow> bool \<Rightarrow> ystr \<Rightarrow> bool \<times> bool \<times> bool \<Rightarrow> 'd emitter_t \<Rightarrow> (bool \<times> bool \<times> bool, 'd emitter_t) outcome" where
  "single_quoted_body wh allow_breaks s v e = (case v of (first, spaces, breaks) \<Rightarrow>
     if IS_SPACE_AT s 0 then
       do_ret [\<lambda>e. if allow_breaks \<and> \<not> spaces \<and> wr_column e > et_best_width e \<and> \<not> first \<and> length s \<noteq> 1 \<and> \<not> IS_SPACE_AT s 1
                   then yaml_emitter_write_indent wh e else WRITE wh s e] (False, True, breaks) e
     else if IS_BREAK_AT s 0 then
       do_ret [step_if (\<lambda>_. \<not> breaks \<and> octet_at s 0 = 0x0A) (yaml_emitter_put_break wh), WRITE_BREAK wh s,
         assign (\<lambda>e. e\<lparr>et_indention := True\<rparr>)] (False, spaces, True) e
     else
       do_ret [step_if (\<lambda>_. breaks) (yaml_emitter_write_indent wh), step_if (\<lambda>_. octet_at s 0 = 0x27) (PUT wh 0x27), WRITE wh s,
         assign (\<lambda>e. e\<lparr>et_indention := False\<rparr>)] (False, False, False) e)"

definition yaml_emitter_write_single_quoted_scalar :: "'d write_handler \<Rightarrow> ystr \<Rightarrow> bool \<Rightarrow> 'd emitter_step" where
  "yaml_emitter_write_single_quoted_scalar wh v allow_breaks =
     do_all [yaml_emitter_write_indicator wh [CHR 0x27] True False False,
       \<lambda>e. obind (string_loop (single_quoted_body wh allow_breaks) v (True, False, False) e)
         (\<lambda>(_, _, breaks). step_if (\<lambda>_. breaks) (yaml_emitter_write_indent wh)),
       yaml_emitter_write_indicator wh [CHR 0x27] False False False,
       assign no_white]"

text \<open>The letter behind the backslash, for the characters that have one.\<close>

definition escape_letter :: "int \<Rightarrow> int option" where
  "escape_letter v = map_of [(0x00, 0x30), (0x07, 0x61), (0x08, 0x62), (0x09, 0x74), (0x0A, 0x6E), (0x0B, 0x76), (0x0C, 0x66),
     (0x0D, 0x72), (0x1B, 0x65), (0x22, 0x22), (0x5C, 0x5C), (0x85, 0x4E), (0xA0, 0x5F), (0x2028, 0x4C), (0x2029, 0x50)] v"

text \<open>\<open>for (k = (width-1)*4; k >= 0; k -= 4)\<close>.\<close>

definition put_hex :: "'d write_handler \<Rightarrow> nat \<Rightarrow> int \<Rightarrow> 'd emitter_step" where
  "put_hex wh width v = for_each (\<lambda>j. PUT wh (hex_digit (drop_bit (4 * j) v AND 0x0F))) (rev [0..<width])"

definition put_escape :: "'d write_handler \<Rightarrow> int \<Rightarrow> 'd emitter_step" where
  "put_escape wh v =
     do_all [PUT wh 0x5C,
       case escape_letter v of
         Some c \<Rightarrow> PUT wh c
       | None \<Rightarrow>
           if v \<le> 0xFF then do_all [PUT wh 0x78, put_hex wh 2 v]
           else if v \<le> 0xFFFF then do_all [PUT wh 0x75, put_hex wh 4 v]
           else do_all [PUT wh 0x55, put_hex wh 8 v]]"

text \<open>The value of the character at the pointer. The octets behind the end of the string are not read, because
  the loop crashes on a character that is not complete.\<close>

definition char_value :: "ystr \<Rightarrow> int" where
  "char_value s = foldl utf8_add (utf8_lead (hd s)) (take (utf8_width (hd s) - 1) (tl s))"

definition double_quoted_body ::
  "'d write_handler \<Rightarrow> bool \<Rightarrow> ystr \<Rightarrow> bool \<times> bool \<Rightarrow> 'd emitter_t \<Rightarrow> (bool \<times> bool, 'd emitter_t) outcome" where
  "double_quoted_body wh allow_breaks s v e = (case v of (first, spaces) \<Rightarrow>
     if \<not> IS_PRINTABLE s \<or> \<not> et_unicode e \<and> \<not> IS_ASCII s \<or> IS_BOM s \<or> IS_BREAK_AT s 0 \<or> octet_at s 0 = 0x22 \<or> octet_at s 0 = 0x5C then
       do_ret [put_escape wh (char_value s)] (False, False) e
     else if IS_SPACE_AT s 0 then
       do_ret [\<lambda>e. if allow_breaks \<and> \<not> spaces \<and> wr_column e > et_best_width e \<and> \<not> first \<and> length s \<noteq> 1
                   then do_all [yaml_emitter_write_indent wh, step_if (\<lambda>_. IS_SPACE_AT s 1) (PUT wh 0x5C)] e
                   else WRITE wh s e] (False, True) e
     else do_ret [WRITE wh s] (False, False) e)"

definition yaml_emitter_write_double_quoted_scalar :: "'d write_handler \<Rightarrow> ystr \<Rightarrow> bool \<Rightarrow> 'd emitter_step" where
  "yaml_emitter_write_double_quoted_scalar wh v allow_breaks =
     do_all [yaml_emitter_write_indicator wh [CHR 0x22] True False False,
       \<lambda>e. obind (string_loop (double_quoted_body wh allow_breaks) v (True, False) e) (\<lambda>_. Done ()),
       yaml_emitter_write_indicator wh [CHR 0x22] False False False,
       assign no_white]"

text \<open>\<open>do { string.pointer --; } while ((*string.pointer & 0xC0) == 0x80)\<close>, from the distance of the pointer to the
  start of the string; \<open>None\<close> when it passes the start.\<close>

fun char_back :: "ystr \<Rightarrow> nat \<Rightarrow> nat option" where
  "char_back s 0 = None"
| "char_back s (Suc n) = (if trail_ok (s ! n) then char_back s n else Some n)"

datatype chomp = No_hint | Strip | Keep

definition chomp_of :: "ystr \<Rightarrow> chomp option" where
  "chomp_of s =
     (if s = [] then Some Strip
      else case char_back s (length s) of
        None \<Rightarrow> None
      | Some p \<Rightarrow>
          if \<not> IS_BREAK_AT s p then Some Strip
          else if p = 0 then Some Keep
          else (case char_back s p of
                  None \<Rightarrow> None
                | Some q \<Rightarrow> Some (if IS_BREAK_AT s q then Keep else No_hint)))"

definition yaml_emitter_write_block_scalar_hints :: "'d write_handler \<Rightarrow> ystr \<Rightarrow> 'd emitter_step" where
  "yaml_emitter_write_block_scalar_hints wh s =
     do_all [step_if (\<lambda>_. IS_SPACE_AT s 0 \<or> IS_BREAK_AT s 0)
         (\<lambda>e. yaml_emitter_write_indicator wh [char_of (0x30 + nat (et_best_indent e))] False False False e),
       assign (\<lambda>e. e\<lparr>et_open_ended := 0\<rparr>),
       \<lambda>e. case chomp_of s of
         None \<Rightarrow> Crash
       | Some No_hint \<Rightarrow> Done () e
       | Some Strip \<Rightarrow> yaml_emitter_write_indicator wh ''-'' False False False e
       | Some Keep \<Rightarrow> yaml_emitter_write_indicator wh ''+'' False False False (e\<lparr>et_open_ended := 2\<rparr>)]"

definition literal_body :: "'d write_handler \<Rightarrow> ystr \<Rightarrow> bool \<Rightarrow> 'd emitter_t \<Rightarrow> (bool, 'd emitter_t) outcome" where
  "literal_body wh s breaks e =
     (if IS_BREAK_AT s 0 then do_ret [WRITE_BREAK wh s, assign (\<lambda>e. e\<lparr>et_indention := True\<rparr>)] True e
      else do_ret [step_if (\<lambda>_. breaks) (yaml_emitter_write_indent wh), WRITE wh s, assign (\<lambda>e. e\<lparr>et_indention := False\<rparr>)] False e)"

definition block_scalar :: "'d write_handler \<Rightarrow> string \<Rightarrow> ystr \<Rightarrow> 'd emitter_step" where
  "block_scalar wh indicator s =
     do_all [yaml_emitter_write_indicator wh indicator True False False,
       yaml_emitter_write_block_scalar_hints wh s,
       yaml_emitter_put_break wh,
       assign (\<lambda>e. e\<lparr>et_indention := True, et_whitespace := True\<rparr>)]"

definition yaml_emitter_write_literal_scalar :: "'d write_handler \<Rightarrow> ystr \<Rightarrow> 'd emitter_step" where
  "yaml_emitter_write_literal_scalar wh v =
     do_all [block_scalar wh ''|'' v, \<lambda>e. obind (string_loop (literal_body wh) v True e) (\<lambda>_. Done ())]"

text \<open>\<open>while (IS_BREAK_AT(string, k)) k += WIDTH_AT(string, k)\<close>.\<close>

function skip_breaks :: "ystr \<Rightarrow> nat \<Rightarrow> nat" where
  "skip_breaks s k = (if IS_BREAK_AT s k then skip_breaks s (k + utf8_width (octet_at s k)) else k)"
  by pat_completeness auto

lemma break_width: "IS_BREAK_AT s k \<Longrightarrow> k < length s \<and> 0 < utf8_width (octet_at s k)"
  by (auto simp: IS_BREAK_AT_def octet_at_def utf8_width_def split: if_splits)

termination skip_breaks
  by (relation "measure (\<lambda>(s, k). length s - k)") (auto dest!: break_width)

declare skip_breaks.simps [simp del]

text \<open>The local variables \<open>breaks\<close> and \<open>leading_spaces\<close>.\<close>

definition folded_body :: "'d write_handler \<Rightarrow> ystr \<Rightarrow> bool \<times> bool \<Rightarrow> 'd emitter_t \<Rightarrow> (bool \<times> bool, 'd emitter_t) outcome" where
  "folded_body wh s v e = (case v of (breaks, leading_spaces) \<Rightarrow>
     if IS_BREAK_AT s 0 then
       do_ret [step_if (\<lambda>_. \<not> breaks \<and> \<not> leading_spaces \<and> octet_at s 0 = 0x0A \<and> \<not> IS_BLANKZ_AT s (skip_breaks s 0)) (yaml_emitter_put_break wh),
         WRITE_BREAK wh s, assign (\<lambda>e. e\<lparr>et_indention := True\<rparr>)] (True, leading_spaces) e
     else
       do_ret [step_if (\<lambda>_. breaks) (yaml_emitter_write_indent wh),
         \<lambda>e. if \<not> breaks \<and> IS_SPACE_AT s 0 \<and> \<not> IS_SPACE_AT s 1 \<and> wr_column e > et_best_width e
             then yaml_emitter_write_indent wh e else WRITE wh s e,
         assign (\<lambda>e. e\<lparr>et_indention := False\<rparr>)] (False, if breaks then IS_BLANK_AT s 0 else leading_spaces) e)"

definition yaml_emitter_write_folded_scalar :: "'d write_handler \<Rightarrow> ystr \<Rightarrow> 'd emitter_step" where
  "yaml_emitter_write_folded_scalar wh v =
     do_all [block_scalar wh ''>'' v, \<lambda>e. obind (string_loop (folded_body wh) v (True, True) e) (\<lambda>_. Done ())]"

section \<open>Analysis\<close>

definition yaml_emitter_analyze_version_directive :: "yaml_version_directive_t \<Rightarrow> 'd emitter_step" where
  "yaml_emitter_analyze_version_directive v e =
     (if vd_major v \<noteq> 1 \<or> vd_minor v \<noteq> 1 \<and> vd_minor v \<noteq> 2
      then yaml_emitter_set_emitter_error ''incompatible %YAML directive'' e else Done () e)"

text \<open>The loops over the characters of a handle or an anchor, which all have width 1 when they are alphanumerical.\<close>

definition all_alpha :: "ystr \<Rightarrow> bool" where
  "all_alpha s = list_all (\<lambda>c. IS_ALPHA [c]) s"

definition yaml_emitter_analyze_tag_directive :: "yaml_tag_directive_t \<Rightarrow> 'd emitter_step" where
  "yaml_emitter_analyze_tag_directive t e =
     (let handle = td_handle t in
      if handle = [] then yaml_emitter_set_emitter_error ''tag handle must not be empty'' e
      else if hd handle \<noteq> 0x21 then yaml_emitter_set_emitter_error (''tag handle must start with '' @ [CHR 0x27, CHR 0x21, CHR 0x27]) e
      else if last handle \<noteq> 0x21 then yaml_emitter_set_emitter_error (''tag handle must end with '' @ [CHR 0x27, CHR 0x21, CHR 0x27]) e
      else if \<not> all_alpha (butlast (tl handle)) then
        yaml_emitter_set_emitter_error ''tag handle must contain alphanumerical characters only'' e
      else if td_prefix t = [] then yaml_emitter_set_emitter_error ''tag prefix must not be empty'' e
      else Done () e)"

definition yaml_emitter_analyze_anchor :: "ystr \<Rightarrow> bool \<Rightarrow> 'd emitter_step" where
  "yaml_emitter_analyze_anchor anchor alias e =
     (if anchor = [] then
        yaml_emitter_set_emitter_error (if alias then ''alias value must not be empty'' else ''anchor value must not be empty'') e
      else if \<not> all_alpha anchor then
        yaml_emitter_set_emitter_error (if alias then ''alias value must contain alphanumerical characters only''
          else ''anchor value must contain alphanumerical characters only'') e
      else Done () (e\<lparr>et_anchor := Some (anchor, alias)\<rparr>))"

definition yaml_emitter_analyze_tag :: "ystr \<Rightarrow> 'd emitter_step" where
  "yaml_emitter_analyze_tag tag e =
     (if tag = [] then yaml_emitter_set_emitter_error ''tag value must not be empty'' e
      else case find (\<lambda>t. length (td_prefix t) < length tag \<and> take (length (td_prefix t)) tag = td_prefix t) (et_tag_directives e) of
        Some t \<Rightarrow> Done () (e\<lparr>et_tag_handle := Some (td_handle t), et_tag_suffix := Some (drop (length (td_prefix t)) tag)\<rparr>)
      | None \<Rightarrow> Done () (e\<lparr>et_tag_suffix := Some tag\<rparr>))"

text \<open>The local variables of \<open>yaml_emitter_analyze_scalar\<close>.\<close>

record analysis =
  al_first :: bool
  al_block_indicators :: bool
  al_flow_indicators :: bool
  al_line_breaks :: bool
  al_special_characters :: bool
  al_leading_space :: bool
  al_leading_break :: bool
  al_trailing_space :: bool
  al_trailing_break :: bool
  al_break_space :: bool
  al_space_break :: bool
  al_preceded :: bool
  al_followed :: bool
  al_previous_space :: bool
  al_previous_break :: bool

definition flow_ind :: "bool \<Rightarrow> analysis \<Rightarrow> analysis" where
  "flow_ind c a = (if c then a\<lparr>al_flow_indicators := True\<rparr> else a)"

definition block_ind :: "bool \<Rightarrow> analysis \<Rightarrow> analysis" where
  "block_ind c a = (if c then a\<lparr>al_block_indicators := True\<rparr> else a)"

definition analyze_indicators :: "ystr \<Rightarrow> analysis \<Rightarrow> analysis" where
  "analyze_indicators s a =
     (if al_first a then
        let any = CHECK_ANY s ''#,[]{}&*!|>'' \<or> octet_at s 0 = 0x27 \<or> octet_at s 0 = 0x22 \<or> CHECK_ANY s ''%@`'';
            a = block_ind any (flow_ind any a);
            a = block_ind (CHECK_ANY s ''?:'' \<and> al_followed a) (flow_ind (CHECK_ANY s ''?:'') a);
            dash = CHECK_ANY s ''-'' \<and> al_followed a
        in block_ind dash (flow_ind dash a)
      else
        let a = flow_ind (CHECK_ANY s '',?[]{}'') a;
            a = block_ind (CHECK_ANY s '':'' \<and> al_followed a) (flow_ind (CHECK_ANY s '':'') a);
            hash = CHECK_ANY s ''#'' \<and> al_preceded a
        in block_ind hash (flow_ind hash a))"

definition analyze_spaces :: "ystr \<Rightarrow> analysis \<Rightarrow> analysis" where
  "analyze_spaces s a =
     (let ends = length s = utf8_width (hd s) in
      if IS_SPACE_AT s 0 then
        a\<lparr>al_leading_space := al_leading_space a \<or> al_first a, al_trailing_space := al_trailing_space a \<or> ends,
          al_break_space := al_break_space a \<or> al_previous_break a, al_previous_space := True, al_previous_break := False\<rparr>
      else if IS_BREAK_AT s 0 then
        a\<lparr>al_leading_break := al_leading_break a \<or> al_first a, al_trailing_break := al_trailing_break a \<or> ends,
          al_space_break := al_space_break a \<or> al_previous_space a, al_previous_space := False, al_previous_break := True\<rparr>
      else a\<lparr>al_previous_space := False, al_previous_break := False\<rparr>)"

definition analyze_body :: "ystr \<Rightarrow> analysis \<Rightarrow> 'd emitter_t \<Rightarrow> (analysis, 'd emitter_t) outcome" where
  "analyze_body s a e =
     (let a = analyze_indicators s a;
          a = a\<lparr>al_special_characters := al_special_characters a \<or> \<not> IS_PRINTABLE s \<or> \<not> IS_ASCII s \<and> \<not> et_unicode e,
                al_line_breaks := al_line_breaks a \<or> IS_BREAK_AT s 0\<rparr>;
          a = analyze_spaces s a;
          a = a\<lparr>al_preceded := IS_BLANKZ_AT s 0, al_first := False\<rparr>;
          r = MOVE s
      in Done (if r \<noteq> [] then a\<lparr>al_followed := IS_BLANKZ_AT r (utf8_width (hd r))\<rparr> else a) e)"

definition starts_with :: "char \<Rightarrow> ystr \<Rightarrow> bool" where
  "starts_with c s \<longleftrightarrow> CHECK_AT s c 0 \<and> CHECK_AT s c 1 \<and> CHECK_AT s c 2"

definition analysis0 :: "ystr \<Rightarrow> analysis" where
  "analysis0 s = (let doc = starts_with CHR ''-'' s \<or> starts_with CHR ''.'' s in
     \<lparr>al_first = True, al_block_indicators = doc, al_flow_indicators = doc, al_line_breaks = False, al_special_characters = False,
      al_leading_space = False, al_leading_break = False, al_trailing_space = False, al_trailing_break = False,
      al_break_space = False, al_space_break = False, al_preceded = True, al_followed = IS_BLANKZ_AT s (utf8_width (hd s)),
      al_previous_space = False, al_previous_break = False\<rparr>)"

definition plain_denied :: "analysis \<Rightarrow> bool" where
  "plain_denied a \<longleftrightarrow> al_leading_space a \<or> al_leading_break a \<or> al_trailing_space a \<or> al_trailing_break a \<or> al_break_space a
     \<or> al_space_break a \<or> al_special_characters a \<or> al_line_breaks a"

definition scalar_result :: "analysis \<Rightarrow> scalar_data \<Rightarrow> scalar_data" where
  "scalar_result a d = d\<lparr>sd_multiline := al_line_breaks a,
     sd_flow_plain_allowed := \<not> plain_denied a \<and> \<not> al_flow_indicators a,
     sd_block_plain_allowed := \<not> plain_denied a \<and> \<not> al_block_indicators a,
     sd_single_quoted_allowed := \<not> al_break_space a \<and> \<not> al_space_break a \<and> \<not> al_special_characters a,
     sd_block_allowed := \<not> al_trailing_space a \<and> \<not> al_space_break a \<and> \<not> al_special_characters a\<rparr>"

definition yaml_emitter_analyze_scalar :: "ystr \<Rightarrow> 'd emitter_step" where
  "yaml_emitter_analyze_scalar v e =
     (let e = e\<lparr>et_scalar := (et_scalar e)\<lparr>sd_value := v\<rparr>\<rparr> in
      if v = [] then
        Done () (e\<lparr>et_scalar := (et_scalar e)\<lparr>sd_multiline := False, sd_flow_plain_allowed := False, sd_block_plain_allowed := True,
          sd_single_quoted_allowed := True, sd_block_allowed := False\<rparr>\<rparr>)
      else obind (string_loop analyze_body v (analysis0 v) e)
        (\<lambda>a e. Done () (e\<lparr>et_scalar := scalar_result a (et_scalar e)\<rparr>)))"

definition analyze_tag_if :: "bool \<Rightarrow> ystr option \<Rightarrow> 'd emitter_step" where
  "analyze_tag_if implicit tag e = (case tag of
     Some t \<Rightarrow> if et_canonical e \<or> \<not> implicit then yaml_emitter_analyze_tag t e else Done () e
   | None \<Rightarrow> Done () e)"

definition analyze_anchor_opt :: "ystr option \<Rightarrow> 'd emitter_step" where
  "analyze_anchor_opt anchor = (case anchor of Some a \<Rightarrow> yaml_emitter_analyze_anchor a False | None \<Rightarrow> Done ())"

definition yaml_emitter_analyze_event :: "yaml_event_t \<Rightarrow> 'd emitter_step" where
  "yaml_emitter_analyze_event event e =
     (let e = e\<lparr>et_anchor := None, et_tag_handle := None, et_tag_suffix := None, et_scalar := (et_scalar e)\<lparr>sd_value := []\<rparr>\<rparr> in
      case ev_data event of
        YAML_ALIAS_EVENT a \<Rightarrow> yaml_emitter_analyze_anchor a True e
      | YAML_SCALAR_EVENT a t v plain_implicit quoted_implicit _ \<Rightarrow>
          do_all [analyze_anchor_opt a, analyze_tag_if (plain_implicit \<or> quoted_implicit) t, yaml_emitter_analyze_scalar v] e
      | YAML_SEQUENCE_START_EVENT a t implicit _ \<Rightarrow> do_all [analyze_anchor_opt a, analyze_tag_if implicit t] e
      | YAML_MAPPING_START_EVENT a t implicit _ \<Rightarrow> do_all [analyze_anchor_opt a, analyze_tag_if implicit t] e
      | _ \<Rightarrow> Done () e)"

section \<open>Nodes\<close>

definition yaml_emitter_check_empty_sequence :: "'d emitter_t \<Rightarrow> bool" where
  "yaml_emitter_check_empty_sequence e = (case map ev_data (et_events e) of
     YAML_SEQUENCE_START_EVENT _ _ _ _ # YAML_SEQUENCE_END_EVENT # _ \<Rightarrow> True | _ \<Rightarrow> False)"

definition yaml_emitter_check_empty_mapping :: "'d emitter_t \<Rightarrow> bool" where
  "yaml_emitter_check_empty_mapping e = (case map ev_data (et_events e) of
     YAML_MAPPING_START_EVENT _ _ _ _ # YAML_MAPPING_END_EVENT # _ \<Rightarrow> True | _ \<Rightarrow> False)"

definition opt_length :: "ystr option \<Rightarrow> nat" where
  "opt_length s = (case s of None \<Rightarrow> 0 | Some s \<Rightarrow> length s)"

definition yaml_emitter_check_simple_key :: "'d emitter_t \<Rightarrow> bool" where
  "yaml_emitter_check_simple_key e =
     (let anchor = opt_length (map_option fst (et_anchor e)); tag = opt_length (et_tag_handle e) + opt_length (et_tag_suffix e) in
      case et_events e of
        [] \<Rightarrow> False
      | event # _ \<Rightarrow> (case ev_data event of
          YAML_ALIAS_EVENT _ \<Rightarrow> anchor \<le> 128
        | YAML_SCALAR_EVENT _ _ _ _ _ _ \<Rightarrow> \<not> sd_multiline (et_scalar e) \<and> anchor + tag + length (sd_value (et_scalar e)) \<le> 128
        | YAML_SEQUENCE_START_EVENT _ _ _ _ \<Rightarrow> yaml_emitter_check_empty_sequence e \<and> anchor + tag \<le> 128
        | YAML_MAPPING_START_EVENT _ _ _ _ \<Rightarrow> yaml_emitter_check_empty_mapping e \<and> anchor + tag \<le> 128
        | _ \<Rightarrow> False))"

definition yaml_emitter_select_scalar_style :: "yaml_scalar_style_t \<Rightarrow> bool \<Rightarrow> bool \<Rightarrow> 'd emitter_step" where
  "yaml_emitter_select_scalar_style style plain_implicit quoted_implicit e =
     (let no_tag = (et_tag_handle e = None \<and> et_tag_suffix e = None); d = et_scalar e; flow = et_flow_level e \<noteq> 0 in
      if no_tag \<and> \<not> plain_implicit \<and> \<not> quoted_implicit then
        yaml_emitter_set_emitter_error ''neither tag nor implicit flags are specified'' e
      else let
          style = (if style = YAML_ANY_SCALAR_STYLE then YAML_PLAIN_SCALAR_STYLE else style);
          style = (if et_canonical e then YAML_DOUBLE_QUOTED_SCALAR_STYLE else style);
          style = (if et_simple_key_context e \<and> sd_multiline d then YAML_DOUBLE_QUOTED_SCALAR_STYLE else style);
          style = (if style = YAML_PLAIN_SCALAR_STYLE \<and>
                      (flow \<and> \<not> sd_flow_plain_allowed d \<or> \<not> flow \<and> \<not> sd_block_plain_allowed d
                       \<or> sd_value d = [] \<and> (flow \<or> et_simple_key_context e) \<or> no_tag \<and> \<not> plain_implicit)
                   then YAML_SINGLE_QUOTED_SCALAR_STYLE else style);
          style = (if style = YAML_SINGLE_QUOTED_SCALAR_STYLE \<and> \<not> sd_single_quoted_allowed d
                   then YAML_DOUBLE_QUOTED_SCALAR_STYLE else style);
          style = (if (style = YAML_LITERAL_SCALAR_STYLE \<or> style = YAML_FOLDED_SCALAR_STYLE)
                      \<and> (\<not> sd_block_allowed d \<or> flow \<or> et_simple_key_context e)
                   then YAML_DOUBLE_QUOTED_SCALAR_STYLE else style);
          e = (if no_tag \<and> \<not> quoted_implicit \<and> style \<noteq> YAML_PLAIN_SCALAR_STYLE then e\<lparr>et_tag_handle := Some [0x21]\<rparr> else e)
        in Done () (e\<lparr>et_scalar := d\<lparr>sd_style := style\<rparr>\<rparr>))"

definition yaml_emitter_process_anchor :: "'d write_handler \<Rightarrow> 'd emitter_step" where
  "yaml_emitter_process_anchor wh e = (case et_anchor e of
     None \<Rightarrow> Done () e
   | Some (anchor, alias) \<Rightarrow>
       do_all [yaml_emitter_write_indicator wh (if alias then ''*'' else ''&'') True False False, yaml_emitter_write_anchor wh anchor] e)"

definition yaml_emitter_process_tag :: "'d write_handler \<Rightarrow> 'd emitter_step" where
  "yaml_emitter_process_tag wh e = (case (et_tag_handle e, et_tag_suffix e) of
     (None, None) \<Rightarrow> Done () e
   | (Some handle, suffix) \<Rightarrow>
       do_all [yaml_emitter_write_tag_handle wh handle,
         case suffix of None \<Rightarrow> Done () | Some t \<Rightarrow> yaml_emitter_write_tag_content wh t False] e
   | (None, Some t) \<Rightarrow>
       do_all [yaml_emitter_write_indicator wh ''!<'' True False False, yaml_emitter_write_tag_content wh t False,
         yaml_emitter_write_indicator wh ''>'' False False False] e)"

text \<open>An unknown style is 0, an error without a message.\<close>

definition yaml_emitter_process_scalar :: "'d write_handler \<Rightarrow> 'd emitter_step" where
  "yaml_emitter_process_scalar wh e =
     (let v = sd_value (et_scalar e); allow_breaks = \<not> et_simple_key_context e in
      case sd_style (et_scalar e) of
        YAML_PLAIN_SCALAR_STYLE \<Rightarrow> yaml_emitter_write_plain_scalar wh v allow_breaks e
      | YAML_SINGLE_QUOTED_SCALAR_STYLE \<Rightarrow> yaml_emitter_write_single_quoted_scalar wh v allow_breaks e
      | YAML_DOUBLE_QUOTED_SCALAR_STYLE \<Rightarrow> yaml_emitter_write_double_quoted_scalar wh v allow_breaks e
      | YAML_LITERAL_SCALAR_STYLE \<Rightarrow> yaml_emitter_write_literal_scalar wh v e
      | YAML_FOLDED_SCALAR_STYLE \<Rightarrow> yaml_emitter_write_folded_scalar wh v e
      | YAML_ANY_SCALAR_STYLE \<Rightarrow> Fail e)"

definition yaml_emitter_emit_alias :: "'d write_handler \<Rightarrow> 'd emitter_step" where
  "yaml_emitter_emit_alias wh = do_all [yaml_emitter_process_anchor wh, step_if et_simple_key_context (PUT wh 0x20), pop_state]"

definition yaml_emitter_emit_scalar :: "'d write_handler \<Rightarrow> bool \<Rightarrow> bool \<Rightarrow> yaml_scalar_style_t \<Rightarrow> 'd emitter_step" where
  "yaml_emitter_emit_scalar wh plain_implicit quoted_implicit style =
     do_all [yaml_emitter_select_scalar_style style plain_implicit quoted_implicit, yaml_emitter_process_anchor wh,
       yaml_emitter_process_tag wh, yaml_emitter_increase_indent True False, yaml_emitter_process_scalar wh, pop_indent, pop_state]"

definition yaml_emitter_emit_sequence_start :: "'d write_handler \<Rightarrow> yaml_sequence_style_t \<Rightarrow> 'd emitter_step" where
  "yaml_emitter_emit_sequence_start wh style =
     do_all [yaml_emitter_process_anchor wh, yaml_emitter_process_tag wh,
       assign (\<lambda>e. e\<lparr>et_state :=
         if et_flow_level e \<noteq> 0 \<or> et_canonical e \<or> style = YAML_FLOW_SEQUENCE_STYLE \<or> yaml_emitter_check_empty_sequence e
         then YAML_EMIT_FLOW_SEQUENCE_FIRST_ITEM_STATE else YAML_EMIT_BLOCK_SEQUENCE_FIRST_ITEM_STATE\<rparr>)]"

definition yaml_emitter_emit_mapping_start :: "'d write_handler \<Rightarrow> yaml_mapping_style_t \<Rightarrow> 'd emitter_step" where
  "yaml_emitter_emit_mapping_start wh style =
     do_all [yaml_emitter_process_anchor wh, yaml_emitter_process_tag wh,
       assign (\<lambda>e. e\<lparr>et_state :=
         if et_flow_level e \<noteq> 0 \<or> et_canonical e \<or> style = YAML_FLOW_MAPPING_STYLE \<or> yaml_emitter_check_empty_mapping e
         then YAML_EMIT_FLOW_MAPPING_FIRST_KEY_STATE else YAML_EMIT_BLOCK_MAPPING_FIRST_KEY_STATE\<rparr>)]"

definition yaml_emitter_emit_node :: "'d write_handler \<Rightarrow> yaml_event_t \<Rightarrow> bool \<Rightarrow> bool \<Rightarrow> bool \<Rightarrow> bool \<Rightarrow> 'd emitter_step" where
  "yaml_emitter_emit_node wh event root sequence mapping simple_key e =
     (let e = e\<lparr>et_root_context := root, et_sequence_context := sequence, et_mapping_context := mapping, et_simple_key_context := simple_key\<rparr> in
      case ev_data event of
        YAML_ALIAS_EVENT _ \<Rightarrow> yaml_emitter_emit_alias wh e
      | YAML_SCALAR_EVENT _ _ _ plain_implicit quoted_implicit style \<Rightarrow> yaml_emitter_emit_scalar wh plain_implicit quoted_implicit style e
      | YAML_SEQUENCE_START_EVENT _ _ _ style \<Rightarrow> yaml_emitter_emit_sequence_start wh style e
      | YAML_MAPPING_START_EVENT _ _ _ style \<Rightarrow> yaml_emitter_emit_mapping_start wh style e
      | _ \<Rightarrow> yaml_emitter_set_emitter_error ''expected SCALAR, SEQUENCE-START, MAPPING-START, or ALIAS'' e)"

section \<open>Collections\<close>

text \<open>A new line when the style is canonical or the line is full.\<close>

definition wrap_line :: "'d write_handler \<Rightarrow> 'd emitter_step" where
  "wrap_line wh = step_if (\<lambda>e. et_canonical e \<or> wr_column e > et_best_width e) (yaml_emitter_write_indent wh)"

definition open_flow :: "'d write_handler \<Rightarrow> string \<Rightarrow> 'd emitter_step" where
  "open_flow wh bracket = do_all [yaml_emitter_write_indicator wh bracket True True False, yaml_emitter_increase_indent True False,
     assign (\<lambda>e. e\<lparr>et_flow_level := et_flow_level e + 1\<rparr>)]"

definition close_flow_level :: "'d write_handler \<Rightarrow> string \<Rightarrow> bool \<Rightarrow> 'd emitter_step" where
  "close_flow_level wh bracket first = do_all [assign (\<lambda>e. e\<lparr>et_flow_level := et_flow_level e - 1\<rparr>), pop_indent,
     step_if (\<lambda>e. et_canonical e \<and> \<not> first)
       (do_all [yaml_emitter_write_indicator wh '','' False False False, yaml_emitter_write_indent wh]),
     yaml_emitter_write_indicator wh bracket False False False, pop_state]"

definition yaml_emitter_emit_flow_sequence_item :: "'d write_handler \<Rightarrow> yaml_event_t \<Rightarrow> bool \<Rightarrow> 'd emitter_step" where
  "yaml_emitter_emit_flow_sequence_item wh event first =
     do_all [step_if (\<lambda>_. first) (open_flow wh ''[''),
       if ev_data event = YAML_SEQUENCE_END_EVENT then close_flow_level wh '']'' first
       else do_all [step_if (\<lambda>_. \<not> first) (yaml_emitter_write_indicator wh '','' False False False), wrap_line wh,
         push_state YAML_EMIT_FLOW_SEQUENCE_ITEM_STATE, yaml_emitter_emit_node wh event False True False False]]"

definition yaml_emitter_emit_flow_mapping_key :: "'d write_handler \<Rightarrow> yaml_event_t \<Rightarrow> bool \<Rightarrow> 'd emitter_step" where
  "yaml_emitter_emit_flow_mapping_key wh event first =
     do_all [step_if (\<lambda>_. first) (open_flow wh ''{''),
       if ev_data event = YAML_MAPPING_END_EVENT then close_flow_level wh ''}'' first
       else do_all [step_if (\<lambda>_. \<not> first) (yaml_emitter_write_indicator wh '','' False False False), wrap_line wh,
         \<lambda>e. if \<not> et_canonical e \<and> yaml_emitter_check_simple_key e
             then do_all [push_state YAML_EMIT_FLOW_MAPPING_SIMPLE_VALUE_STATE, yaml_emitter_emit_node wh event False False True True] e
             else do_all [yaml_emitter_write_indicator wh ''?'' True False False, push_state YAML_EMIT_FLOW_MAPPING_VALUE_STATE,
               yaml_emitter_emit_node wh event False False True False] e]]"

definition yaml_emitter_emit_flow_mapping_value :: "'d write_handler \<Rightarrow> yaml_event_t \<Rightarrow> bool \<Rightarrow> 'd emitter_step" where
  "yaml_emitter_emit_flow_mapping_value wh event simple =
     do_all [if simple then yaml_emitter_write_indicator wh '':'' False False False
             else do_all [wrap_line wh, yaml_emitter_write_indicator wh '':'' True False False],
       push_state YAML_EMIT_FLOW_MAPPING_KEY_STATE, yaml_emitter_emit_node wh event False False True False]"

definition yaml_emitter_emit_block_sequence_item :: "'d write_handler \<Rightarrow> yaml_event_t \<Rightarrow> bool \<Rightarrow> 'd emitter_step" where
  "yaml_emitter_emit_block_sequence_item wh event first =
     do_all [step_if (\<lambda>_. first) (\<lambda>e. yaml_emitter_increase_indent False (et_mapping_context e \<and> \<not> et_indention e) e),
       if ev_data event = YAML_SEQUENCE_END_EVENT then do_all [pop_indent, pop_state]
       else do_all [yaml_emitter_write_indent wh, yaml_emitter_write_indicator wh ''-'' True False True,
         push_state YAML_EMIT_BLOCK_SEQUENCE_ITEM_STATE, yaml_emitter_emit_node wh event False True False False]]"

definition yaml_emitter_emit_block_mapping_key :: "'d write_handler \<Rightarrow> yaml_event_t \<Rightarrow> bool \<Rightarrow> 'd emitter_step" where
  "yaml_emitter_emit_block_mapping_key wh event first =
     do_all [step_if (\<lambda>_. first) (yaml_emitter_increase_indent False False),
       if ev_data event = YAML_MAPPING_END_EVENT then do_all [pop_indent, pop_state]
       else do_all [yaml_emitter_write_indent wh,
         \<lambda>e. if yaml_emitter_check_simple_key e
             then do_all [push_state YAML_EMIT_BLOCK_MAPPING_SIMPLE_VALUE_STATE, yaml_emitter_emit_node wh event False False True True] e
             else do_all [yaml_emitter_write_indicator wh ''?'' True False True, push_state YAML_EMIT_BLOCK_MAPPING_VALUE_STATE,
               yaml_emitter_emit_node wh event False False True False] e]]"

definition yaml_emitter_emit_block_mapping_value :: "'d write_handler \<Rightarrow> yaml_event_t \<Rightarrow> bool \<Rightarrow> 'd emitter_step" where
  "yaml_emitter_emit_block_mapping_value wh event simple =
     do_all [if simple then yaml_emitter_write_indicator wh '':'' False False False
             else do_all [yaml_emitter_write_indent wh, yaml_emitter_write_indicator wh '':'' True False True],
       push_state YAML_EMIT_BLOCK_MAPPING_KEY_STATE, yaml_emitter_emit_node wh event False False True False]"

section \<open>Streams and documents\<close>

definition yaml_emitter_emit_stream_start :: "'d write_handler \<Rightarrow> yaml_event_t \<Rightarrow> 'd emitter_step" where
  "yaml_emitter_emit_stream_start wh event e =
     (let e = e\<lparr>et_open_ended := 0\<rparr> in
      case ev_data event of
        YAML_STREAM_START_EVENT enc \<Rightarrow>
          (let e = (if wr_encoding e = YAML_ANY_ENCODING then e\<lparr>wr_encoding := enc\<rparr> else e);
               e = (if wr_encoding e = YAML_ANY_ENCODING then e\<lparr>wr_encoding := YAML_UTF8_ENCODING\<rparr> else e);
               e = (if et_best_indent e < 2 \<or> et_best_indent e > 9 then e\<lparr>et_best_indent := 2\<rparr> else e);
               e = (if et_best_width e \<ge> 0 \<and> et_best_width e \<le> et_best_indent e * 2 then e\<lparr>et_best_width := 80\<rparr> else e);
               e = (if et_best_width e < 0 then e\<lparr>et_best_width := int INT_MAX32\<rparr> else e);
               e = (if wr_break e = YAML_ANY_BREAK then e\<lparr>wr_break := YAML_LN_BREAK\<rparr> else e);
               e = e\<lparr>et_indent := -1, wr_line := 0, wr_column := 0, et_whitespace := True, et_indention := True\<rparr>
           in do_all [step_if (\<lambda>e. wr_encoding e \<noteq> YAML_UTF8_ENCODING) (yaml_emitter_write_bom wh),
                assign (\<lambda>e. e\<lparr>et_state := YAML_EMIT_FIRST_DOCUMENT_START_STATE\<rparr>)] e)
      | _ \<Rightarrow> yaml_emitter_set_emitter_error ''expected STREAM-START'' e)"

definition yaml_emitter_append_tag_directive :: "bool \<Rightarrow> yaml_tag_directive_t \<Rightarrow> 'd emitter_step" where
  "yaml_emitter_append_tag_directive allow_duplicates v e =
     (if list_ex (\<lambda>t. td_handle t = td_handle v) (et_tag_directives e)
      then (if allow_duplicates then Done () e else yaml_emitter_set_emitter_error ''duplicate %TAG directive'' e)
      else Done () (e\<lparr>et_tag_directives := et_tag_directives e @ [v]\<rparr>))"

definition emitter_default_tags :: "yaml_tag_directive_t list" where
  "emitter_default_tags = [\<lparr>td_handle = lit ''!'', td_prefix = lit ''!''\<rparr>, \<lparr>td_handle = lit ''!!'', td_prefix = lit ''tag:yaml.org,2002:''\<rparr>]"

definition write_version :: "'d write_handler \<Rightarrow> yaml_version_directive_t \<Rightarrow> 'd emitter_step" where
  "write_version wh v = do_all [yaml_emitter_write_indicator wh ''%YAML'' True False False,
     yaml_emitter_write_indicator wh (if vd_minor v = 1 then ''1.1'' else ''1.2'') True False False, yaml_emitter_write_indent wh]"

definition write_tag_directive :: "'d write_handler \<Rightarrow> yaml_tag_directive_t \<Rightarrow> 'd emitter_step" where
  "write_tag_directive wh t = do_all [yaml_emitter_write_indicator wh ''%TAG'' True False False,
     yaml_emitter_write_tag_handle wh (td_handle t), yaml_emitter_write_tag_content wh (td_prefix t) True, yaml_emitter_write_indent wh]"

definition write_document_end :: "'d write_handler \<Rightarrow> 'd emitter_step" where
  "write_document_end wh = do_all [yaml_emitter_write_indicator wh ''...'' True False False,
     assign (\<lambda>e. e\<lparr>et_open_ended := 0\<rparr>), yaml_emitter_write_indent wh]"

text \<open>\<open>yaml_emitter_check_empty_document\<close> always says no.\<close>

definition yaml_emitter_emit_document_start :: "'d write_handler \<Rightarrow> yaml_event_t \<Rightarrow> bool \<Rightarrow> 'd emitter_step" where
  "yaml_emitter_emit_document_start wh event first e = (case ev_data event of
     YAML_DOCUMENT_START_EVENT version tags implicit \<Rightarrow>
       do_all [case version of None \<Rightarrow> Done () | Some v \<Rightarrow> yaml_emitter_analyze_version_directive v,
         for_each (\<lambda>t. do_all [yaml_emitter_analyze_tag_directive t, yaml_emitter_append_tag_directive False t]) tags,
         for_each (yaml_emitter_append_tag_directive True) emitter_default_tags,
         step_if (\<lambda>e. (version \<noteq> None \<or> tags \<noteq> []) \<and> et_open_ended e \<noteq> 0)
           (do_all [yaml_emitter_write_indicator wh ''...'' True False False, yaml_emitter_write_indent wh]),
         assign (\<lambda>e. e\<lparr>et_open_ended := 0\<rparr>),
         case version of None \<Rightarrow> Done () | Some v \<Rightarrow> write_version wh v,
         for_each (write_tag_directive wh) tags,
         step_if (\<lambda>e. \<not> implicit \<or> \<not> first \<or> et_canonical e \<or> version \<noteq> None \<or> tags \<noteq> [])
           (do_all [yaml_emitter_write_indent wh, yaml_emitter_write_indicator wh ''---'' True False False,
             step_if et_canonical (yaml_emitter_write_indent wh)]),
         assign (\<lambda>e. e\<lparr>et_state := YAML_EMIT_DOCUMENT_CONTENT_STATE, et_open_ended := 0\<rparr>)] e
   | YAML_STREAM_END_EVENT \<Rightarrow>
       do_all [step_if (\<lambda>e. et_open_ended e = 2) (write_document_end wh), yaml_emitter_flush wh,
         assign (\<lambda>e. e\<lparr>et_state := YAML_EMIT_END_STATE\<rparr>)] e
   | _ \<Rightarrow> yaml_emitter_set_emitter_error ''expected DOCUMENT-START or STREAM-END'' e)"

definition yaml_emitter_emit_document_content :: "'d write_handler \<Rightarrow> yaml_event_t \<Rightarrow> 'd emitter_step" where
  "yaml_emitter_emit_document_content wh event =
     do_all [push_state YAML_EMIT_DOCUMENT_END_STATE, yaml_emitter_emit_node wh event True False False False]"

definition yaml_emitter_emit_document_end :: "'d write_handler \<Rightarrow> yaml_event_t \<Rightarrow> 'd emitter_step" where
  "yaml_emitter_emit_document_end wh event e = (case ev_data event of
     YAML_DOCUMENT_END_EVENT implicit \<Rightarrow>
       do_all [yaml_emitter_write_indent wh,
         if \<not> implicit then write_document_end wh
         else assign (\<lambda>e. if et_open_ended e = 0 then e\<lparr>et_open_ended := 1\<rparr> else e),
         yaml_emitter_flush wh,
         assign (\<lambda>e. e\<lparr>et_state := YAML_EMIT_DOCUMENT_START_STATE, et_tag_directives := []\<rparr>)] e
   | _ \<Rightarrow> yaml_emitter_set_emitter_error ''expected DOCUMENT-END'' e)"

section \<open>The state machine and the queue\<close>

definition yaml_emitter_state_machine :: "'d write_handler \<Rightarrow> yaml_event_t \<Rightarrow> 'd emitter_step" where
  "yaml_emitter_state_machine wh event e = (case et_state e of
     YAML_EMIT_STREAM_START_STATE \<Rightarrow> yaml_emitter_emit_stream_start wh event e
   | YAML_EMIT_FIRST_DOCUMENT_START_STATE \<Rightarrow> yaml_emitter_emit_document_start wh event True e
   | YAML_EMIT_DOCUMENT_START_STATE \<Rightarrow> yaml_emitter_emit_document_start wh event False e
   | YAML_EMIT_DOCUMENT_CONTENT_STATE \<Rightarrow> yaml_emitter_emit_document_content wh event e
   | YAML_EMIT_DOCUMENT_END_STATE \<Rightarrow> yaml_emitter_emit_document_end wh event e
   | YAML_EMIT_FLOW_SEQUENCE_FIRST_ITEM_STATE \<Rightarrow> yaml_emitter_emit_flow_sequence_item wh event True e
   | YAML_EMIT_FLOW_SEQUENCE_ITEM_STATE \<Rightarrow> yaml_emitter_emit_flow_sequence_item wh event False e
   | YAML_EMIT_FLOW_MAPPING_FIRST_KEY_STATE \<Rightarrow> yaml_emitter_emit_flow_mapping_key wh event True e
   | YAML_EMIT_FLOW_MAPPING_KEY_STATE \<Rightarrow> yaml_emitter_emit_flow_mapping_key wh event False e
   | YAML_EMIT_FLOW_MAPPING_SIMPLE_VALUE_STATE \<Rightarrow> yaml_emitter_emit_flow_mapping_value wh event True e
   | YAML_EMIT_FLOW_MAPPING_VALUE_STATE \<Rightarrow> yaml_emitter_emit_flow_mapping_value wh event False e
   | YAML_EMIT_BLOCK_SEQUENCE_FIRST_ITEM_STATE \<Rightarrow> yaml_emitter_emit_block_sequence_item wh event True e
   | YAML_EMIT_BLOCK_SEQUENCE_ITEM_STATE \<Rightarrow> yaml_emitter_emit_block_sequence_item wh event False e
   | YAML_EMIT_BLOCK_MAPPING_FIRST_KEY_STATE \<Rightarrow> yaml_emitter_emit_block_mapping_key wh event True e
   | YAML_EMIT_BLOCK_MAPPING_KEY_STATE \<Rightarrow> yaml_emitter_emit_block_mapping_key wh event False e
   | YAML_EMIT_BLOCK_MAPPING_SIMPLE_VALUE_STATE \<Rightarrow> yaml_emitter_emit_block_mapping_value wh event True e
   | YAML_EMIT_BLOCK_MAPPING_VALUE_STATE \<Rightarrow> yaml_emitter_emit_block_mapping_value wh event False e
   | YAML_EMIT_END_STATE \<Rightarrow> yaml_emitter_set_emitter_error ''expected nothing after STREAM-END'' e)"

fun event_level :: "yaml_event_data \<Rightarrow> int" where
  "event_level (YAML_STREAM_START_EVENT _) = 1"
| "event_level (YAML_DOCUMENT_START_EVENT _ _ _) = 1"
| "event_level (YAML_SEQUENCE_START_EVENT _ _ _ _) = 1"
| "event_level (YAML_MAPPING_START_EVENT _ _ _ _) = 1"
| "event_level YAML_STREAM_END_EVENT = -1"
| "event_level (YAML_DOCUMENT_END_EVENT _) = -1"
| "event_level YAML_SEQUENCE_END_EVENT = -1"
| "event_level YAML_MAPPING_END_EVENT = -1"
| "event_level _ = 0"

fun level_loop :: "int \<Rightarrow> yaml_event_data list \<Rightarrow> bool" where
  "level_loop level [] = True"
| "level_loop level (d # ds) = (if level + event_level d = 0 then False else level_loop (level + event_level d) ds)"

definition yaml_emitter_need_more_events :: "yaml_event_t list \<Rightarrow> bool" where
  "yaml_emitter_need_more_events q =
     (case map ev_data q of
        [] \<Rightarrow> True
      | d # ds \<Rightarrow>
          (case (case d of YAML_DOCUMENT_START_EVENT _ _ _ \<Rightarrow> Some 1 | YAML_SEQUENCE_START_EVENT _ _ _ _ \<Rightarrow> Some 2
                 | YAML_MAPPING_START_EVENT _ _ _ _ \<Rightarrow> Some 3 | _ \<Rightarrow> None) of
             None \<Rightarrow> False
           | Some accumulate \<Rightarrow> if Suc (length ds) > accumulate then False else level_loop 0 (d # ds)))"

text \<open>\<open>while (!yaml_emitter_need_more_events(emitter))\<close>, with the queue as an argument: analysis and state machine
  do not change it, and the loop takes its head away.\<close>

fun emit_loop :: "'d write_handler \<Rightarrow> yaml_event_t list \<Rightarrow> 'd emitter_step" where
  "emit_loop wh [] e = Done () (e\<lparr>et_events := []\<rparr>)"
| "emit_loop wh (event # q) e =
     (if yaml_emitter_need_more_events (event # q) then Done () (e\<lparr>et_events := event # q\<rparr>)
      else do_all [yaml_emitter_analyze_event event, yaml_emitter_state_machine wh event, emit_loop wh q] (e\<lparr>et_events := event # q\<rparr>))"

definition yaml_emitter_emit_event :: "'d write_handler \<Rightarrow> 'd emitter_t \<Rightarrow> yaml_event_t \<Rightarrow> (unit, 'd emitter_t) outcome" where
  "yaml_emitter_emit_event wh e event = emit_loop wh (et_events e @ [event]) e"

text \<open>The emitter after \<open>yaml_emitter_initialize\<close>, with the data of its write handler.\<close>

definition yaml_emitter_initialize :: "'d \<Rightarrow> 'd emitter_t" where
  "yaml_emitter_initialize d =
     \<lparr>wr_data = d, wr_encoding = YAML_ANY_ENCODING, wr_buf = [], wr_raw = [], wr_break = YAML_ANY_BREAK, wr_column = 0, wr_line = 0,
      wr_error = None, et_canonical = False, et_best_indent = 0, et_best_width = 0, et_unicode = False, et_states = [],
      et_state = YAML_EMIT_STREAM_START_STATE, et_events = [], et_indents = [], et_tag_directives = [], et_indent = 0, et_flow_level = 0,
      et_root_context = False, et_sequence_context = False, et_mapping_context = False, et_simple_key_context = False,
      et_whitespace = False, et_indention = False, et_open_ended = 0, et_anchor = None, et_tag_handle = None, et_tag_suffix = None,
      et_scalar = \<lparr>sd_value = [], sd_multiline = False, sd_flow_plain_allowed = False, sd_block_plain_allowed = False,
        sd_single_quoted_allowed = False, sd_block_allowed = False, sd_style = YAML_ANY_SCALAR_STYLE\<rparr>\<rparr>"

definition yaml_emitter_set_canonical :: "bool \<Rightarrow> 'd emitter_t \<Rightarrow> 'd emitter_t" where
  "yaml_emitter_set_canonical canonical e = e\<lparr>et_canonical := canonical\<rparr>"

definition yaml_emitter_set_indent :: "int \<Rightarrow> 'd emitter_t \<Rightarrow> 'd emitter_t" where
  "yaml_emitter_set_indent indent e = e\<lparr>et_best_indent := if 1 < indent \<and> indent < 10 then indent else 2\<rparr>"

definition yaml_emitter_set_width :: "int \<Rightarrow> 'd emitter_t \<Rightarrow> 'd emitter_t" where
  "yaml_emitter_set_width width e = e\<lparr>et_best_width := if width \<ge> 0 then width else -1\<rparr>"

definition yaml_emitter_set_unicode :: "bool \<Rightarrow> 'd emitter_t \<Rightarrow> 'd emitter_t" where
  "yaml_emitter_set_unicode unicode e = e\<lparr>et_unicode := unicode\<rparr>"

end
