(* ===== verification/Spec2Isabelle.thy ===== *)
theory Spec2Isabelle
  imports Cfg_Api Verify_Cmd Resolv_Laws Uci_Roundtrip Run_Laws Watch_Laws Netlink_Codec Ly_Dumper_Laws Ly_Writer_Laws Ly_Api Ly_Emitter
begin

text \<open>
  netrec compares the network of a host with a description of it and repairs the differences. A run
  loads the desired states, from a configuration file or derived from UCI, takes a snapshot of the
  kernel over netlink, checks every state against the snapshot, prints what holds and what is
  missing, and with \<open>--apply\<close> executes the commands it prints and verifies the result on a second
  snapshot. In watch mode link events trigger such runs. This development models all of these parts
  and proves them correct. The repository also carries libyaml (\<open>deps/libyaml\<close>); its layers between
  octets, tokens, events and documents are the second part of the development.

  \<^bold>\<open>Theories and sources.\<close>
  \<^item> \<open>Prelude\<close>: error values (\<open>errno\<close>, \<open>'a result\<close>, \<open>ebind\<close>), updates and searches of lists.
  \<^item> \<open>Clib\<close>: the parts of the C library that the program uses, on strings of bytes: character
    classes, \<open>strtol\<close>, \<open>strtoul\<close>, \<open>inet_pton\<close>, \<open>fgets\<close>, \<open>sscanf\<close>, \<open>snprintf\<close> truncation (\<open>fit\<close>),
    output streams with a limit (\<open>ofile\<close>, locale \<open>sink\<close>).
  \<^item> \<open>Netstate\<close> (\<open>state.h\<close>, \<open>state.c\<close>): the records of desired and real state, their limits, the searches
    and the reader of \<open>resolv.conf\<close>; \<open>Resolv_Laws\<close> has the format of that file.
  \<^item> \<open>Cfg_Path\<close>, \<open>Cfg_Tree\<close>, \<open>Cfg_File\<close> (\<open>cfg.c\<close>): path syntax, the tree with lookup, assignment, append and
    deletion, the line format with loading and dumping. \<open>Cfg_Laws\<close> proves the laws of the tree and
    packs the ones the loader needs into the locale \<open>assign_store\<close>, interpreted by the tree;
    \<open>Cfg_Roundtrip\<close> relates dumps and loads through the leaves of a tree; \<open>Cfg_Api\<close> states what a
    client of \<open>cfg.h\<close> gets.
  \<^item> \<open>Yaml\<close> (\<open>yaml.c\<close>): the loaders of desired states, the rules that loaded states obey and the fields that
    their sections must have.
  \<^item> \<open>Tokens\<close>: words separated by blanks, the reference for the splitters of \<open>verify.c\<close> and \<open>uci.c\<close>.
  \<^item> \<open>Verify\<close> (\<open>verify.c\<close>): the checks in the state monad over \<open>vctx\<close> (mode, failure flag, printed lines,
    commands run). \<open>Verify_Laws\<close> has the contract of a check as the locale \<open>checker\<close>: a plan of lines
    that depends on the snapshot only, performed line by line; \<open>Verify_Spec\<close> has the declarative
    meaning of a desired state (\<open>state_met\<close>, and \<open>documented_met\<close> as the README words it) and an
    interpretation of \<open>checker\<close> for each scenario;
    \<open>Verify_Cmd\<close> treats the command texts.
  \<^item> \<open>Uci_Db\<close>, \<open>Uci_Build\<close>, \<open>Uci_Emit\<close> (\<open>uci.c\<close>): the item database and its readers, the builders of the
    desired set, the writer of the intermediate file. \<open>Uci_Laws\<close> and \<open>Uci_Valid\<close> treat the
    readers and the builders, \<open>Uci_Roundtrip\<close> the way through the intermediate file.
  \<^item> \<open>Netlink\<close> (\<open>netlink.c\<close>): requests, receptions, messages and attributes on byte lists.
    \<open>Netlink_Laws\<close> covers arbitrary input; \<open>Netlink_Codec\<close> has an encoder of kernel replies and, with the
    locale \<open>dump_format\<close> interpreted for links, addresses and routes, the proof that the reader
    recovers what was encoded.
  \<^item> \<open>Run\<close> (\<open>run.c\<close>, \<open>main.c\<close>): the run and the command line, with everything outside the process in the
    record \<open>world\<close>. \<open>Run_Laws\<close> relates exit status, commands and desired states.
  \<^item> \<open>Watch_Loop\<close> (\<open>watch.c\<close>): the loop as the step relation \<open>wstep\<close>, one rule per branch of the code and
    one per outside event; the dispositions of the two signals are part of the state. \<open>Watch_Laws\<close> has
    its invariant, safety and progress.
  \<^item> \<open>Ly_Types\<close> (\<open>yaml.h\<close>, \<open>yaml_private.h\<close> of libyaml): tokens, events, nodes, documents and the result type
    \<open>outcome\<close> (return 1, return 0, or a failed \<open>assert\<close> or access outside a buffer). \<open>Ly_Grammar\<close> has the
    grammar of event streams.
  \<^item> \<open>Ly_Reader\<close> (\<open>reader.c\<close>) over \<open>Ly_Utf\<close>: the detection and decoding of encodings and the two input
    buffers. \<open>Ly_Reader_Laws\<close> treats one character, \<open>Ly_Reader_Stream\<close> the buffered reading of a whole
    input from any handler that meets the contract \<open>byte_source\<close>.
  \<^item> \<open>Ly_Parser\<close> (\<open>parser.c\<close>): the state machine from tokens to events, \<open>Ly_Parser_Laws\<close> its invariant and
    the grammar of what it delivers. \<open>Ly_Loader\<close> (\<open>loader.c\<close>): documents from events, \<open>Ly_Loader_Laws\<close> their
    well-formedness.
  \<^item> \<open>Ly_Api\<close> (\<open>api.c\<close>): events and documents made by an application, and what its UTF-8 check accepts.
  \<^item> \<open>Ly_Dumper\<close> (\<open>dumper.c\<close>): events from documents, \<open>Ly_Dumper_Laws\<close> their grammar, cyclic documents included.
  \<^item> \<open>Ly_Writer\<close> (\<open>writer.c\<close>, with the buffer macros of \<open>emitter.c\<close>): output buffers and recoding;
    \<open>Ly_Writer_Laws\<close> has the contract \<open>byte_sink\<close> of a write handler, what a run of the writer puts out, and
    that the reader reads it back.
  \<^item> \<open>Ly_Emitter\<close> (\<open>emitter.c\<close>, the setters of \<open>api.c\<close>): the printer of events, from the queue and the analysis of
    scalars over the state machine to the writing of each style.

  \<^bold>\<open>Correspondence.\<close> A C function has the definition of the same name; a loop inside it is a recursive
  function whose name ends in \<open>_loop\<close> (or is given in the text before it). A buffer with its length is
  a list, a string in an array of size \<open>n\<close> is cut by \<open>fit n\<close>, a negative return value is \<open>Inl\<close> of an
  \<open>errno\<close>, a structure changed in place is returned. Machine integers are words where the code
  computes with bits or wraps, and integers with explicit conversion elsewhere.

  \<^bold>\<open>The outside\<close> is always a parameter: file contents and the results of system calls, the exit status
  of commands, the bytes that arrive on sockets and pipes, the interleaving of events. The kernel of a
  run is a function of the commands executed so far. Hypotheses on it are named: \<open>world_ok\<close>, \<open>kernel_ok\<close>,
  \<open>send_ok\<close> and \<open>recv_ok\<close> say that failed calls report a nonzero \<open>errno\<close>, \<open>hdr_ok\<close> that the headers define the
  attributes the program names, \<open>ds_cstr\<close> that strings hold no NUL, \<open>0 < cap\<close> that a pipe holds a byte.

  \<^bold>\<open>Termination.\<close> All functions are total. Waiting for a kernel that never answers is the value \<open>None\<close> of
  \<open>recv_dump\<close> and of everything above it; the watch loop is a relation, and progress is proved as
  reaching a control point in a bounded number of steps. In libyaml the loops whose end depends on an
  invariant (the event loops of parser and loader, the filling of the reader's buffer) are partial
  functions that are proved to return. The recursion of the dumper over a document has fuel, one more
  than the number of nodes; it is proved to be enough, because a node is entered only once.

  \<^bold>\<open>What is shown.\<close> For a run: exit status 0 means that the last snapshot meets every desired state; a
  dry run changes nothing and decides that question; a run on a network that is in order does
  nothing; every command run was printed. To meet a state is meant as the checks of the code have it; it
  is the documented meaning but for one condition, the membership of the uplink in the bridge of a
  \<open>vlan_bridge\<close> or \<open>wg_vxlan_bridge\<close>, which the code does not check. For the verifier: the difference
  count decides the declarative meaning, and \<open>--apply\<close> refines the dry run. For the snapshot: it is exactly what the
  kernel encodes, within its limits, and stays in bounds on arbitrary bytes. For the configuration
  tree: the invariant of all reachable trees, get after set, frames, failed operations, and the file
  round trip. For both sources of desired states: what is accepted is valid, and the set derived from UCI
  survives its way through the intermediate file. For the watch: no
  event is lost; an event is followed by a run once the events pause; a stop request ends the loop; runs
  are debounced; every return, also from a failed start, undoes what was set up and gives the signals
  their old dispositions.
  For libyaml: on arbitrary input reader, parser and loader return and stay within their buffers and
  stacks; the reader delivers exactly the characters of its input; successful parses and all dumps
  are streams of the event grammar; loaded and built documents are well formed; the writer puts out the
  text it was given, in UTF-16 only with the exceptions that the theorem names, and the reader reads it back.

  \<^bold>\<open>Not modelled.\<close> Log messages (\<open>log.h\<close>, the text kept by \<open>nl_limit\<close>), failing memory allocation and the
  freeing of memory, the elapsed time passed to \<open>run_done\<close>, and the bytes behind a datagram: a name that
  the kernel would send without its NUL ends with the datagram (\<open>str_at\<close>), where the code reads on in its
  buffer. Of libyaml: the lexer (\<open>scanner.c\<close> beyond the
  macros that fill the buffer and skip a character); the parser takes the list of tokens and the dumper
  the function that takes events as parameters, so their theorems hold for every lexer and printer. The
  growth of stacks and queues and the file handlers of \<open>api.c\<close> are left out.
\<close>

section \<open>A run as a whole\<close>

text \<open>C1: a run that exits with status 0 has verified its result: the snapshot of the kernel taken
  after the last command of the run meets every desired state of the loaded set. This holds with and
  without \<open>--apply\<close>, for every behaviour of the kernel, the commands and the files; the hypothesis
  \<open>world_ok\<close> only says that failed system calls report a nonzero \<open>errno\<close>.\<close>

theorem run_success:
  assumes "world_ok w" and "load_desired_set w cfg = Inr sts"
    and "netrec_run_once w runs cfg = Some r" and "rr_rc r = 0"
  shows "\<exists>rs. load_real (w_kernel w (rr_runs r)) = Some (Inr rs) \<and> (\<forall>ds \<in> set sts. state_met ds rs)"
  using run_locked_success [OF netrec_run_once_locked [OF assms(3,2,1,4)] assms(1,4)]
  by (auto simp: set_met_def)

text \<open>C8: a run without \<open>--apply\<close> runs no command, and it exits with status 0 exactly when the
  snapshot it took meets every desired state. The condition is the one that the checks of the code have;
  a network that meets every state as documented also gives status 0, but status 0 gives the documented
  meaning only when no uplink of a \<open>vlan_bridge\<close> or \<open>wg_vxlan_bridge\<close> state is outside its bridge.\<close>

theorem run_dry:
  assumes "world_ok w" and "load_desired_set w cfg = Inr sts" and "\<not> rc_apply cfg"
    and "netrec_run_once w runs cfg = Some r"
  shows "rr_runs r = runs
    \<and> (rr_rc r = 0 \<longleftrightarrow>
        (\<exists>rs. load_real (w_kernel w runs) = Some (Inr rs) \<and> (\<forall>ds \<in> set sts. state_met ds rs)))
    \<and> ((\<exists>rs. load_real (w_kernel w runs) = Some (Inr rs) \<and> (\<forall>ds \<in> set sts. documented_met ds rs)) \<longleftrightarrow>
        rr_rc r = 0 \<and> (\<exists>rs. load_real (w_kernel w runs) = Some (Inr rs) \<and> (\<forall>ds \<in> set sts. \<not> uplink_outside ds rs)))"
proof -
  have l: "run_locked w runs sts False = Some r" using assms(2,3,4) by (simp add: netrec_run_once_def)
  then obtain r1 where r1: "run_verify_set w runs sts False False = Some r1"
    by (auto simp: run_locked_def split: option.splits)
  obtain new where 1: "sr_runs r1 = runs @ new" "sr_rc r1 = 0 \<longleftrightarrow> set_met w runs sts" "\<not> False \<longrightarrow> new = []"
    by (rule run_verify_set_spec [OF r1 assms(1)])
  have k: "kernel_ok (w_kernel w runs)" using assms(1) by (simp add: world_ok_def)
  have "set_met w runs sts \<longleftrightarrow>
      (\<exists>rs. load_real (w_kernel w runs) = Some (Inr rs) \<and> (\<forall>ds \<in> set sts. state_met ds rs))"
    using load_real_ok [OF _ k] by (auto simp: set_met_def)
  with l r1 1 have "rr_runs r = runs" and rc: "rr_rc r = 0 \<longleftrightarrow>
      (\<exists>rs. load_real (w_kernel w runs) = Some (Inr rs) \<and> (\<forall>ds \<in> set sts. state_met ds rs))"
    by (auto simp: run_locked_def Let_def split: if_splits)
  moreover have "(\<exists>rs. load_real (w_kernel w runs) = Some (Inr rs) \<and> (\<forall>ds \<in> set sts. documented_met ds rs)) \<longleftrightarrow>
      rr_rc r = 0 \<and> (\<exists>rs. load_real (w_kernel w runs) = Some (Inr rs) \<and> (\<forall>ds \<in> set sts. \<not> uplink_outside ds rs))"
    unfolding rc documented_met_iff by auto
  ultimately show ?thesis by blast
qed

text \<open>C7: a network that already meets the desired states, in the sense of the checks of the code, is
  left alone: when the lock on the apply file can be taken, a run, with or without \<open>--apply\<close>, terminates
  with status 0 and runs no command. In the sense of the README this holds too, since the code asks for
  less; an uplink of a \<open>vlan_bridge\<close> or \<open>wg_vxlan_bridge\<close> state outside its bridge is left where it is.\<close>

theorem run_idempotent:
  assumes "world_ok w" and "load_desired_set w cfg = Inr sts" and "w_lock w = Lock_taken"
    and "load_real (w_kernel w runs) = Some (Inr rs)" and "\<forall>ds \<in> set sts. state_met ds rs"
  shows "\<exists>r. netrec_run_once w runs cfg = Some r \<and> rr_rc r = 0 \<and> rr_runs r = runs"
proof -
  let ?r0 = "\<lparr>sr_rc = 0, sr_act_fail = False, sr_out = [], sr_runs = runs\<rparr>"
  have v: "run_verify_set w runs sts ap fl = Some (verify_loop (w_sys w) rs ap sts ?r0)" for ap fl
    using assms(4) by (simp add: run_verify_set_def)
  have "\<exists>out. verify_loop (w_sys w) rs ap sts ?r0 = ?r0\<lparr>sr_out := out\<rparr>" for ap
    using verify_loop_met [OF assms(5), of ?r0] by auto
  then obtain out where loop: "verify_loop (w_sys w) rs (rc_apply cfg) sts ?r0 = ?r0\<lparr>sr_out := out\<rparr>" by blast
  have "netrec_run_once w runs cfg = run_locked w runs sts (rc_apply cfg)"
    using assms(2,3) by (simp add: netrec_run_once_def apply_lock_def)
  also have "\<dots> = Some \<lparr>rr_rc = 0, rr_out = map Line out, rr_runs = runs\<rparr>"
    by (simp add: run_locked_def v loop Let_def)
  finally show ?thesis by simp
qed

text \<open>C28: the commands a run executes are the ones its output shows as \<open>ACT\<close> lines, each split into
  words, in the same order; each is run at most once per line.\<close>

theorem run_commands_printed:
  assumes "world_ok w" and "netrec_run_once w runs cfg = Some r"
  shows "\<exists>new. rr_runs r = runs @ new \<and> subseq new (List.map_filter line_argv (rr_out r))"
proof (cases "\<exists>sts ap. run_locked w runs sts ap = Some r")
  case True
  with run_locked_runs assms(1) show ?thesis by blast
next
  case False
  then have "rr_runs r = runs" using assms(2)
    by (auto simp: netrec_run_once_def split: sum.splits if_splits)
  then show ?thesis by (intro exI [of _ "[]"]) simp
qed

text \<open>C40: the failure flag after a set of states is the flag of its last state alone: \<open>verify_state\<close>
  overwrites \<open>*act_fail\<close>, so a failed command of an earlier state is forgotten.\<close>

theorem act_fail_last_state:
  assumes "known_scenario (scenario ds)"
  shows "\<exists>d fail out runs. verify_state sys (sr_runs (verify_loop sys rs ap sts r)) ds rs ap = (d, Some fail, out, runs)
    \<and> sr_act_fail (verify_loop sys rs ap (sts @ [ds]) r) = fail"
proof -
  have app: "verify_loop sys rs ap (sts @ [ds]) r = verify_loop sys rs ap [ds] (verify_loop sys rs ap sts r)"
    by (induction sts arbitrary: r) (simp_all add: Let_def split: prod.split)
  obtain m where m: "verify_scenario sys ds rs = Some m"
    using assms verify_scenario_None_iff [of sys ds rs] by (cases "verify_scenario sys ds rs") auto
  then show ?thesis by (simp add: app verify_state_def Let_def split: prod.split)
qed

section \<open>A concrete world\<close>

text \<open>A kernel with one interface, \<open>eth0\<close>, that is up once any command has run; commands exit with
  status 0, and the configuration asks for the uplink \<open>eth0\<close>.\<close>

definition demo_kt :: "32 word \<Rightarrow> ktables" where
  "demo_kt fl = \<lparr>kt_links = [[Entry (eth0 fl)]], kt_addrs = [], kt_routes = []\<rparr>"

definition demo_kernel :: "argv list \<Rightarrow> kernel" where
  "demo_kernel runs = \<lparr>k_hdr = demo_hdr, k_open = None, k_send = (\<lambda>m. Inr (length m)),
     k_recv = kernel_replies (demo_kt (if runs = [] then 0 else 1)),
     k_resolv = None\<rparr>"

definition demo_world :: "lock_event \<Rightarrow> world" where
  "demo_world l = \<lparr>w_fs = (\<lambda>_. Inr (concat (map line_text demo_file))), w_uci = (\<lambda>_. Pipe_failed EIO),
     w_tmp = Inl EIO, w_flush = None, w_close = None, w_reopen = (\<lambda>_. Inl EIO), w_lock = l,
     w_sys = (\<lambda>_ _. Child (Exited 0)), w_kernel = demo_kernel\<rparr>"

definition demo_cfg :: "bool \<Rightarrow> netrec_run_cfg" where
  "demo_cfg ap = \<lparr>rc_cfg_path = Some ''f'', rc_source = ''yaml'', rc_uci_bin = None, rc_uci_network = None,
     rc_uci_wireless = None, rc_apply = ap\<rparr>"

definition demo_rs :: "32 word \<Rightarrow> real_state" where
  "demo_rs fl = rs_zero\<lparr>ifaces := [link_iface (eth0 fl)]\<rparr>"

lemma demo_load: "load_desired_set (demo_world l) (demo_cfg ap) = Inr [demo_ds]"
  by (simp add: load_desired_set_def demo_world_def demo_cfg_def demo_yaml)

lemma demo_kt_state:
  "nl_load_state demo_hdr None (\<lambda>m. Inr (length m)) (kernel_replies (demo_kt fl)) = Some (Inr (demo_rs fl))"
proof -
  have "ktables_ok (demo_kt fl)" "ktables_fit (demo_kt fl)"
    by (simp_all add: demo_kt_def eth0_def ktables_ok_def demo_codec ktables_fit_def main_routes_def nr_limits
        link_vxlan_def link_vlan_def)
  then show ?thesis
    using nl_load_state_replies [OF demo_ok(1), of "demo_kt fl" "\<lambda>m. Inr (length m)" "[]"]
      kernel_state_fit [of "demo_kt fl"]
    by (simp add: demo_rs_def demo_kt_def eth0_def link_vxlan_def link_vlan_def main_routes_def)
qed

lemma demo_real: "load_real (demo_kernel runs) = Some (Inr (demo_rs (if runs = [] then 0 else 1)))"
  by (simp add: load_real_def demo_kernel_def demo_kt_state rs_load_resolv_conf_def demo_rs_def Let_def)

lemma demo_ok_world: "world_ok (demo_world l) \<longleftrightarrow> (\<forall>e. l = Lock_open_error e \<longrightarrow> rc_of e \<noteq> 0)"
  by (auto simp: world_ok_def kernel_ok_def demo_world_def demo_kernel_def send_ok_def recv_ok_def
      kernel_replies_def replies_def)

abbreviation demo_sys :: system where "demo_sys \<equiv> (\<lambda>_ _. Child (Exited 0))"
abbreviation set_up :: argv where "set_up \<equiv> [''ip'', ''link'', ''set'', ''eth0'', ''up'']"

text \<open>The first snapshot has one difference, and the command for it is run; the second one has none.\<close>

lemma demo_verify:
  "verify_state demo_sys [] demo_ds (demo_rs 0) True =
     (1, Some False, [OK ''uplink eth0 exists'', MISS ''iface eth0 up'', ACT ''ip link set eth0 up'',
        APPLY_OK ''ip link set eth0 up''], [set_up])"
  "verify_state demo_sys runs demo_ds (demo_rs 1) ap =
     (0, Some False, [OK ''uplink eth0 exists'', OK ''iface eth0 up''], runs)"
  by code_simp+

lemma demo_run:
  "netrec_run_once (demo_world Lock_taken) [] (demo_cfg True) = Some \<lparr>rr_rc = 0, rr_out =
     map Line [OK ''uplink eth0 exists'', MISS ''iface eth0 up'', ACT ''ip link set eth0 up'',
        APPLY_OK ''ip link set eth0 up''] @ [POST_VERIFY]
     @ map Line [OK ''uplink eth0 exists'', OK ''iface eth0 up''], rr_runs = [set_up]\<rparr>"
proof -
  have "netrec_run_once (demo_world Lock_taken) [] (demo_cfg True) = run_locked (demo_world Lock_taken) [] [demo_ds] True"
    by (simp add: netrec_run_once_def demo_load apply_lock_def) (simp add: demo_world_def demo_cfg_def)
  then show ?thesis
    by (simp add: run_locked_def run_verify_set_def demo_world_def demo_real demo_verify Let_def)
qed

lemma demo_met: "\<forall>ds \<in> set [demo_ds]. state_met ds (demo_rs 1)"
proof -
  have "rs_find_iface (demo_rs 1) ''eth0'' = Some (link_iface (eth0 1))" "is_up (link_iface (eth0 1))"
    by code_simp+
  moreover have "scenario demo_ds = ''only_uplink''" "up_ifname demo_ds = ''eth0''" "routes demo_ds = []"
    by code_simp+
  ultimately show ?thesis by (simp add: state_met_def scenario_met_def link_up_def)
qed

theorem run_success_witness:
  "\<exists>rs. load_real (demo_kernel [set_up]) = Some (Inr rs) \<and> state_met demo_ds rs"
proof -
  have "world_ok (demo_world Lock_taken)" by (simp add: demo_ok_world)
  from run_success [OF this demo_load demo_run] show ?thesis by (simp add: demo_world_def)
qed

theorem run_dry_witness:
  "\<exists>r. netrec_run_once (demo_world Lock_taken) [] (demo_cfg False) = Some r \<and> rr_runs r = [] \<and> rr_rc r = 1"
proof -
  have w: "world_ok (demo_world Lock_taken)" "\<not> rc_apply (demo_cfg False)"
    by (simp_all add: demo_ok_world demo_cfg_def)
  have v: "verify_state demo_sys [] demo_ds (demo_rs 0) False =
     (1, Some False, [OK ''uplink eth0 exists'', MISS ''iface eth0 up'', ACT ''ip link set eth0 up''], [])"
    by code_simp
  have "netrec_run_once (demo_world Lock_taken) [] (demo_cfg False) = run_locked (demo_world Lock_taken) [] [demo_ds] False"
    using w(2) by (simp add: netrec_run_once_def demo_load)
  also have "\<dots> = Some \<lparr>rr_rc = 1, rr_out = map Line [OK ''uplink eth0 exists'', MISS ''iface eth0 up'',
     ACT ''ip link set eth0 up''], rr_runs = []\<rparr>"
    by (simp add: run_locked_def run_verify_set_def demo_world_def demo_real v Let_def)
  finally have r: "netrec_run_once (demo_world Lock_taken) [] (demo_cfg False) = \<dots>" .
  from run_dry [OF w(1) demo_load w(2) r] r show ?thesis by simp
qed

theorem run_idempotent_witness:
  "\<exists>r. netrec_run_once (demo_world Lock_taken) [set_up] (demo_cfg True) = Some r \<and> rr_rc r = 0 \<and> rr_runs r = [set_up]"
proof (rule run_idempotent [OF _ demo_load _ _ demo_met])
  show "world_ok (demo_world Lock_taken)" by (simp add: demo_ok_world)
  show "w_lock (demo_world Lock_taken) = Lock_taken" by (simp add: demo_world_def)
  show "load_real (w_kernel (demo_world Lock_taken) [set_up]) = Some (Inr (demo_rs 1))"
    by (simp add: demo_world_def demo_real)
qed

theorem run_commands_printed_witness:
  "\<exists>r new. netrec_run_once (demo_world Lock_taken) [] (demo_cfg True) = Some r \<and> rr_runs r = new
     \<and> subseq new (List.map_filter line_argv (rr_out r))"
proof -
  have "world_ok (demo_world Lock_taken)" by (simp add: demo_ok_world)
  from run_commands_printed [OF this demo_run] demo_run show ?thesis by auto
qed

theorem act_fail_last_state_witness:
  "sr_act_fail (verify_loop demo_sys (demo_rs 1) True ([demo_ds] @ [demo_ds])
     \<lparr>sr_rc = 0, sr_act_fail = True, sr_out = [], sr_runs = []\<rparr>) = False"
proof -
  have "known_scenario (scenario demo_ds)" by code_simp
  from act_fail_last_state [OF this, where sys = demo_sys and rs = "demo_rs 1" and ap = True and sts = "[demo_ds]"
      and r = "\<lparr>sr_rc = 0, sr_act_fail = True, sr_out = [], sr_runs = []\<rparr>"]
  show ?thesis using demo_verify(2) by simp
qed

end
